(* ===== verification/Pyfloat.thy ===== *)
theory Pyfloat
  imports Complex_Main
begin

text \<open>
  Python floats.  A float is a binary64 value: finite (an exact rational), one of the two
  infinities, or NaN.  Every arithmetic operation computes the exact rational result and
  rounds it once, to nearest with ties to even, at 53 bits of precision and with gradual
  underflow; a rounded magnitude of \<open>2 ^ 1024\<close> or more is an infinity.  Comparisons with
  NaN are false.  The two zeros are one value: no operation of the modelled code tells them
  apart (division by either raises).

  The lemmas give what the components use: rounding is monotone (\<open>dround_mono\<close>),
  idempotent (\<open>dround_idem\<close>) and exact on integers below \<open>2 ^ 53\<close>, so that comparing
  two floats decides the sign of their rounded difference.
\<close>

section \<open>Rounding an exact rational to 53 bits\<close>

text \<open>The floor of the binary logarithm, on integers and then on positive rationals.\<close>

function ilog2 :: "int \<Rightarrow> int" where
  "ilog2 n = (if n < 2 then 0 else 1 + ilog2 (n div 2))"
  by pat_completeness auto
termination
  by (relation "measure nat") auto

declare ilog2.simps [simp del]

definition qlog2 :: "rat \<Rightarrow> int" where
  "qlog2 x = (if 1 \<le> x then ilog2 \<lfloor>x\<rfloor> else - ilog2 (\<lceil>1 / x\<rceil> - 1) - 1)"

text \<open>Round to the nearest integer, ties to even.\<close>

definition rne :: "rat \<Rightarrow> int" where
  "rne x = (let f = \<lfloor>x\<rfloor>; d = x - of_int f
            in if d < 1 / 2 then f else if 1 / 2 < d then f + 1
               else if even f then f else f + 1)"

text \<open>The exponent of the last bit kept, and the rounded value.\<close>

definition dexp :: "rat \<Rightarrow> int" where
  "dexp x = max (qlog2 \<bar>x\<bar> - 52) (- 1074)"

definition dround :: "rat \<Rightarrow> rat" where
  "dround x = (if x = 0 then 0 else of_int (rne (x / 2 powi dexp x)) * 2 powi dexp x)"

lemma powi_2_pos [simp]: "0 < (2::rat) powi e"
  by (simp add: zero_less_power_int)

lemma ilog2_nonneg: "0 \<le> ilog2 n"
  by (induction n rule: ilog2.induct) (simp add: ilog2.simps)

lemma ilog2_bounds: "0 < n \<Longrightarrow> 2 ^ nat (ilog2 n) \<le> n \<and> n < 2 * 2 ^ nat (ilog2 n)"
proof (induction n rule: ilog2.induct)
  case (1 n)
  show ?case
  proof (cases "n < 2")
    case True
    with 1 show ?thesis by (simp add: ilog2.simps)
  next
    case False
    then have "2 ^ nat (ilog2 (n div 2)) \<le> n div 2 \<and> n div 2 < 2 * 2 ^ nat (ilog2 (n div 2))"
      using "1.IH" by simp
    moreover have "nat (1 + ilog2 (n div 2)) = Suc (nat (ilog2 (n div 2)))"
      using ilog2_nonneg [of "n div 2"] by simp
    ultimately show ?thesis using False by (simp add: ilog2.simps [of n]) linarith
  qed
qed

lemma ilog2_bounds_rat:
  assumes "0 < n"
  shows "2 powi ilog2 n \<le> (of_int n :: rat) \<and> of_int n + 1 \<le> (2::rat) powi (ilog2 n + 1)"
proof -
  have "of_int (2 ^ nat (ilog2 n)) \<le> (of_int n :: rat)"
    and "(of_int (n + 1) :: rat) \<le> of_int (2 * 2 ^ nat (ilog2 n))"
    using ilog2_bounds [OF assms] of_int_le_iff by (blast, smt (verit) of_int_le_iff)
  then show ?thesis
    using ilog2_nonneg [of n] by (simp add: power_int_def nat_add_distrib)
qed

lemma qlog2_ge1:
  assumes "1 \<le> x"
  shows "2 powi qlog2 x \<le> x \<and> x < 2 powi (qlog2 x + 1)"
proof -
  have "of_int \<lfloor>x\<rfloor> \<le> x" "x < of_int \<lfloor>x\<rfloor> + 1" by linarith+
  moreover have "0 < \<lfloor>x\<rfloor>" using assms by simp
  ultimately have "2 powi ilog2 \<lfloor>x\<rfloor> \<le> x \<and> x < 2 powi (ilog2 \<lfloor>x\<rfloor> + 1)"
    using ilog2_bounds_rat [of "\<lfloor>x\<rfloor>"] by linarith
  then show ?thesis using assms by (simp add: qlog2_def)
qed

lemma qlog2_lt1:
  assumes "0 < x" "x < 1"
  shows "2 powi qlog2 x \<le> x \<and> x < 2 powi (qlog2 x + 1)"
proof -
  define n where "n = \<lceil>1 / x\<rceil> - 1"
  have "1 < 1 / x" using assms by (simp add: field_simps)
  then have n: "0 < n" and up: "1 / x \<le> of_int n + 1" and lo: "of_int n < 1 / x"
    unfolding n_def by linarith+
  have "1 / x \<le> 2 powi (ilog2 n + 1)" "2 powi ilog2 n < 1 / x"
    using ilog2_bounds_rat [OF n] up lo by linarith+
  then have "1 / 2 powi (ilog2 n + 1) \<le> x" "x < 1 / 2 powi ilog2 n"
    using assms by (simp_all add: divide_simps mult.commute)
  moreover have "qlog2 x = - (ilog2 n + 1)"
    using assms by (simp add: qlog2_def n_def)
  moreover have "(2::rat) powi - (ilog2 n + 1) = 1 / 2 powi (ilog2 n + 1)"
    and "(2::rat) powi (- (ilog2 n + 1) + 1) = 1 / 2 powi ilog2 n"
    by (simp_all only: power_int_minus divide_inverse mult_1) (simp add: power_int_minus)
  ultimately show ?thesis by simp
qed

lemma qlog2_bounds: "0 < x \<Longrightarrow> 2 powi qlog2 x \<le> x \<and> x < 2 powi (qlog2 x + 1)"
  using qlog2_ge1 [of x] qlog2_lt1 [of x] by (cases "1 \<le> x") auto

section \<open>Rounding is monotone, symmetric and idempotent\<close>

lemma rne_of_int [simp]: "rne (of_int n) = n"
  by (simp add: rne_def)

lemma rne_cases: "rne x = \<lfloor>x\<rfloor> \<or> rne x = \<lfloor>x\<rfloor> + 1"
  by (simp add: rne_def Let_def)

lemma rne_mono:
  assumes "x \<le> y"
  shows "rne x \<le> rne y"
proof (cases "\<lfloor>x\<rfloor> = \<lfloor>y\<rfloor>")
  case True
  with assms show ?thesis by (auto simp: rne_def Let_def)
next
  case False
  with floor_mono [OF assms] have "\<lfloor>x\<rfloor> + 1 \<le> \<lfloor>y\<rfloor>" by simp
  then show ?thesis using rne_cases [of x] rne_cases [of y] by linarith
qed

lemma rne_minus: "rne (- x) = - rne x"
proof (cases "x = of_int \<lfloor>x\<rfloor>")
  case True
  then have "rne (- x) = rne (of_int (- \<lfloor>x\<rfloor>))" by simp
  then have "rne (- x) = - \<lfloor>x\<rfloor>" by (simp only: rne_of_int)
  moreover have "rne x = \<lfloor>x\<rfloor>" using True rne_of_int by metis
  ultimately show ?thesis by simp
next
  case False
  then have "of_int \<lfloor>x\<rfloor> < x" by (metis of_int_floor_le order_le_less)
  then have "\<lfloor>- x\<rfloor> = - \<lfloor>x\<rfloor> - 1"
    by (intro floor_unique) (simp_all, linarith+)
  then show ?thesis by (auto simp: rne_def Let_def)
qed

lemma rne_le_of_int: "x \<le> of_int n \<Longrightarrow> rne x \<le> n"
  using rne_mono [of x "of_int n"] by simp

lemma of_int_le_rne: "of_int n \<le> x \<Longrightarrow> n \<le> rne x"
  using rne_mono [of "of_int n" x] by simp

lemma qlog2_mono:
  assumes "0 < x" "x \<le> y"
  shows "qlog2 x \<le> qlog2 y"
proof -
  have "(2::rat) powi qlog2 x < 2 powi (qlog2 y + 1)"
    using qlog2_bounds [of x] qlog2_bounds [of y] assms by linarith
  then have "qlog2 x < qlog2 y + 1"
    using power_int_increasing [of "qlog2 y + 1" "qlog2 x" "2::rat"] by force
  then show ?thesis by simp
qed

lemma dexp_minus [simp]: "dexp (- x) = dexp x"
  by (simp add: dexp_def)

lemma dround_0 [simp]: "dround 0 = 0"
  by (simp add: dround_def)

lemma dround_minus: "dround (- x) = - dround x"
proof -
  have "- x / 2 powi dexp x = - (x / 2 powi dexp x)" by simp
  then show ?thesis by (auto simp: dround_def rne_minus)
qed

lemma scaled_upper:
  assumes "0 < x"
  shows "x / 2 powi dexp x < 2 ^ 53"
proof -
  have "x < 2 powi (qlog2 x + 1)" using qlog2_bounds [OF assms] by simp
  also have "\<dots> \<le> 2 powi (53 + dexp x)"
    using assms by (intro power_int_increasing) (auto simp: dexp_def)
  also have "\<dots> = 2 ^ 53 * (2::rat) powi dexp x" by (simp add: power_int_add)
  finally show ?thesis by (simp add: field_simps)
qed

lemma scaled_lower:
  assumes "0 < x" "- 1074 < dexp x"
  shows "2 ^ 52 \<le> x / 2 powi dexp x"
proof -
  have "2 ^ 52 * (2::rat) powi dexp x = 2 powi (52 + dexp x)" by (simp add: power_int_add)
  also have "52 + dexp x = qlog2 x" using assms by (auto simp: dexp_def)
  also have "2 powi qlog2 x \<le> x" using qlog2_bounds [OF assms(1)] by simp
  finally show ?thesis by (simp add: field_simps)
qed

lemma dround_upper: "0 < x \<Longrightarrow> dround x \<le> 2 powi (53 + dexp x)"
proof -
  assume x: "0 < x"
  have "rne (x / 2 powi dexp x) \<le> 2 ^ 53"
    using scaled_upper [OF x] by (intro rne_le_of_int) simp
  then have "(of_int (rne (x / 2 powi dexp x)) :: rat) \<le> 2 ^ 53"
    by (metis of_int_le_iff of_int_numeral of_int_power)
  then show ?thesis using x by (simp add: dround_def power_int_add mult_right_mono)
qed

lemma dround_lower: "0 < x \<Longrightarrow> - 1074 < dexp x \<Longrightarrow> 2 powi (52 + dexp x) \<le> dround x"
proof -
  assume x: "0 < x" and d: "- 1074 < dexp x"
  have "2 ^ 52 \<le> rne (x / 2 powi dexp x)"
    using scaled_lower [OF x d] by (intro of_int_le_rne) simp
  then have "2 ^ 52 \<le> (of_int (rne (x / 2 powi dexp x)) :: rat)"
    by (metis of_int_le_iff of_int_numeral of_int_power)
  then show ?thesis using x by (simp add: dround_def power_int_add mult_right_mono)
qed

lemma dround_nonneg: "0 \<le> x \<Longrightarrow> 0 \<le> dround x"
  using of_int_le_rne [of 0 "x / 2 powi dexp x"] by (simp add: dround_def)

lemma dround_mono_pos:
  assumes "0 < x" "x \<le> y"
  shows "dround x \<le> dround y"
proof (cases "dexp x = dexp y")
  case True
  have "x / 2 powi dexp y \<le> y / 2 powi dexp y"
    using assms by (simp add: divide_right_mono)
  then have "(of_int (rne (x / 2 powi dexp y)) :: rat) \<le> of_int (rne (y / 2 powi dexp y))"
    using rne_mono of_int_le_iff by blast
  then show ?thesis
    using True assms by (simp add: dround_def mult_right_mono)
next
  case False
  have "dexp x \<le> dexp y" using qlog2_mono [OF assms] assms by (auto simp: dexp_def)
  with False have lt: "53 + dexp x \<le> 52 + dexp y" by simp
  have "dround x \<le> 2 powi (53 + dexp x)" using assms by (intro dround_upper)
  also have "\<dots> \<le> 2 powi (52 + dexp y)" using lt by (intro power_int_increasing) auto
  also have "\<dots> \<le> dround y"
    using assms False \<open>dexp x \<le> dexp y\<close> by (intro dround_lower) (auto simp: dexp_def)
  finally show ?thesis .
qed

lemma dround_mono: "x \<le> y \<Longrightarrow> dround x \<le> dround y"
proof -
  assume le: "x \<le> y"
  consider "0 < x" | "x \<le> 0" "0 \<le> y" | "y < 0" using le by linarith
  then show ?thesis
  proof cases
    case 1
    then show ?thesis using le by (rule dround_mono_pos)
  next
    case 2
    then show ?thesis
      using dround_nonneg [of y] dround_nonneg [of "- x"] by (simp add: dround_minus)
  next
    case 3
    then show ?thesis using le dround_mono_pos [of "- y" "- x"] by (simp add: dround_minus)
  qed
qed

lemma dround_exact_pos:
  assumes "0 < m" "m \<le> 2 ^ 53" "- 1074 \<le> e"
  shows "dround (of_int m * 2 powi e) = of_int m * 2 powi e"
proof -
  let ?x = "of_int m * 2 powi e :: rat"
  have x: "0 < ?x" using assms by simp
  have "(of_int m :: rat) \<le> 2 ^ 53"
    using assms(2) by (metis of_int_le_iff of_int_numeral of_int_power)
  then have "?x \<le> 2 ^ 53 * 2 powi e" by simp
  then have le: "?x \<le> 2 powi (53 + e)" by (simp add: power_int_add)
  show ?thesis
  proof (cases "dexp ?x \<le> e")
    case True
    then have "?x / 2 powi dexp ?x = of_int m * 2 powi (e - dexp ?x)"
      by (simp add: power_int_diff)
    also have "\<dots> = of_int (m * 2 ^ nat (e - dexp ?x))"
      using True by (simp add: power_int_def)
    finally have "?x / 2 powi dexp ?x = of_int (m * 2 ^ nat (e - dexp ?x))" .
    moreover from this have "rne (?x / 2 powi dexp ?x) = m * 2 ^ nat (e - dexp ?x)"
      by (simp only: rne_of_int)
    ultimately have "of_int (rne (?x / 2 powi dexp ?x)) * 2 powi dexp ?x = ?x"
      by (metis nonzero_eq_divide_eq powi_2_pos less_irrefl)
    then show ?thesis using x by (simp add: dround_def)
  next
    case False
    then have "e < qlog2 ?x - 52" using assms by (auto simp: dexp_def)
    then have "53 + e \<le> qlog2 ?x" by simp
    then have "(2::rat) powi (53 + e) \<le> 2 powi qlog2 ?x" by (intro power_int_increasing) auto
    with le qlog2_bounds [OF x] have eq: "?x = 2 powi qlog2 ?x" by linarith
    have d: "dexp ?x = qlog2 ?x - 52" using False assms by (auto simp: dexp_def)
    have "?x / 2 powi dexp ?x = 2 powi (qlog2 ?x - dexp ?x)"
      using eq by (metis power_int_diff zero_neq_numeral)
    also have "\<dots> = of_int (2 ^ 52)" unfolding d by simp
    finally have r: "?x / 2 powi dexp ?x = of_int (2 ^ 52)" .
    then have "rne (?x / 2 powi dexp ?x) = 2 ^ 52" by (simp only: rne_of_int)
    with r have "of_int (rne (?x / 2 powi dexp ?x)) * 2 powi dexp ?x = ?x"
      by (metis nonzero_eq_divide_eq powi_2_pos less_irrefl)
    then show ?thesis using x by (simp add: dround_def)
  qed
qed

lemma dround_exact:
  assumes "\<bar>m\<bar> \<le> 2 ^ 53" "- 1074 \<le> e"
  shows "dround (of_int m * 2 powi e) = of_int m * 2 powi e"
proof -
  consider "0 < m" | "m = 0" | "m < 0" by linarith
  then show ?thesis
  proof cases
    case 1
    with assms show ?thesis by (intro dround_exact_pos) auto
  next
    case 3
    with assms have "dround (of_int (- m) * 2 powi e) = of_int (- m) * 2 powi e"
      by (intro dround_exact_pos) auto
    then show ?thesis by (simp add: dround_minus)
  qed simp
qed

lemma dround_idem [simp]: "dround (dround x) = dround x"
proof (cases "x = 0")
  case False
  have "\<bar>rne (x / 2 powi dexp x)\<bar> \<le> 2 ^ 53"
  proof (cases "0 < x")
    case True
    have "0 \<le> rne (x / 2 powi dexp x)" using True by (intro of_int_le_rne) simp
    moreover have "rne (x / 2 powi dexp x) \<le> 2 ^ 53"
      using scaled_upper [OF True] by (intro rne_le_of_int) simp
    ultimately show ?thesis by simp
  next
    case neg: False
    with False have x: "0 < - x" by simp
    have "of_int 0 \<le> - x / 2 powi dexp x"
      using divide_pos_pos [OF x powi_2_pos, of "dexp x"] by simp
    then have "0 \<le> rne (- x / 2 powi dexp x)" by (rule of_int_le_rne)
    moreover have "rne (- x / 2 powi dexp x) \<le> 2 ^ 53"
      using scaled_upper [OF x] by (intro rne_le_of_int) simp
    ultimately show ?thesis by (simp add: rne_minus)
  qed
  with False show ?thesis
    using dround_exact [of "rne (x / 2 powi dexp x)" "dexp x"] by (simp add: dround_def dexp_def)
qed simp

lemma dround_of_int: "\<bar>n\<bar> \<le> 2 ^ 53 \<Longrightarrow> dround (of_int n) = of_int n"
  using dround_exact [of n 0] by simp

section \<open>The float type and its operations\<close>

datatype pyfloat = Fin rat | PInf | NInf | NaN

text \<open>The smallest magnitude that rounds to an infinity, evaluated once.\<close>

definition dmax :: rat where
  "dmax = 2 ^ 1024"

definition fl :: "rat \<Rightarrow> pyfloat" where
  "fl x = (let y = dround x in if dmax \<le> y then PInf else if y \<le> - dmax then NInf else Fin y)"

fun fneg :: "pyfloat \<Rightarrow> pyfloat" where
  "fneg (Fin a) = Fin (- a)"
| "fneg PInf = NInf"
| "fneg NInf = PInf"
| "fneg NaN = NaN"

fun fabs :: "pyfloat \<Rightarrow> pyfloat" where
  "fabs (Fin a) = Fin \<bar>a\<bar>"
| "fabs NaN = NaN"
| "fabs _ = PInf"

fun fadd :: "pyfloat \<Rightarrow> pyfloat \<Rightarrow> pyfloat" where
  "fadd (Fin a) (Fin b) = fl (a + b)"
| "fadd NaN _ = NaN"
| "fadd _ NaN = NaN"
| "fadd PInf NInf = NaN"
| "fadd NInf PInf = NaN"
| "fadd (Fin _) y = y"
| "fadd x _ = x"

definition fsub :: "pyfloat \<Rightarrow> pyfloat \<Rightarrow> pyfloat" where
  "fsub x y = fadd x (fneg y)"

text \<open>An infinity of the given sign; an infinite factor times zero is NaN.\<close>

definition finf :: "rat \<Rightarrow> pyfloat" where
  "finf s = (if 0 < s then PInf else if s < 0 then NInf else NaN)"

fun fsgn :: "pyfloat \<Rightarrow> rat" where
  "fsgn (Fin a) = sgn a"
| "fsgn PInf = 1"
| "fsgn NInf = - 1"
| "fsgn NaN = 0"

fun fmul :: "pyfloat \<Rightarrow> pyfloat \<Rightarrow> pyfloat" where
  "fmul (Fin a) (Fin b) = fl (a * b)"
| "fmul x y = finf (fsgn x * fsgn y)"

text \<open>Division by zero raises \<open>ZeroDivisionError\<close>: the result is None.\<close>

fun fdiv :: "pyfloat \<Rightarrow> pyfloat \<Rightarrow> pyfloat option" where
  "fdiv (Fin a) (Fin b) = (if b = 0 then None else Some (fl (a / b)))"
| "fdiv x (Fin b) = (if b = 0 then None else Some (finf (fsgn x * sgn b)))"
| "fdiv _ NaN = Some NaN"
| "fdiv (Fin _) _ = Some (Fin 0)"
| "fdiv _ _ = Some NaN"

fun flt :: "pyfloat \<Rightarrow> pyfloat \<Rightarrow> bool" where
  "flt (Fin a) (Fin b) = (a < b)"
| "flt (Fin _) PInf = True"
| "flt NInf (Fin _) = True"
| "flt NInf PInf = True"
| "flt _ _ = False"

definition feq :: "pyfloat \<Rightarrow> pyfloat \<Rightarrow> bool" where
  "feq x y = (x = y \<and> x \<noteq> NaN)"

definition fle :: "pyfloat \<Rightarrow> pyfloat \<Rightarrow> bool" where
  "fle x y = (flt x y \<or> feq x y)"

text \<open>\<open>max(a, b)\<close> and \<open>min(a, b)\<close> keep the first argument unless the second beats it.\<close>

definition pymax :: "pyfloat \<Rightarrow> pyfloat \<Rightarrow> pyfloat" where
  "pymax a b = (if flt a b then b else a)"

definition pymin :: "pyfloat \<Rightarrow> pyfloat \<Rightarrow> pyfloat" where
  "pymin a b = (if flt b a then b else a)"

definition is_fin :: "pyfloat \<Rightarrow> bool" where
  "is_fin x = (case x of Fin _ \<Rightarrow> True | _ \<Rightarrow> False)"

definition float_truthy :: "pyfloat \<Rightarrow> bool" where
  "float_truthy x = (x \<noteq> Fin 0)"

text \<open>\<open>float(n)\<close> of an integer, and \<open>round(x, n)\<close> to \<open>n\<close> decimals.\<close>

definition fint :: "int \<Rightarrow> pyfloat" where
  "fint n = fl (of_int n)"

fun fround :: "nat \<Rightarrow> pyfloat \<Rightarrow> pyfloat" where
  "fround n (Fin a) = fl (of_int (rne (a * 10 ^ n)) / 10 ^ n)"
| "fround n x = x"

text \<open>
  The built-in \<open>sum\<close> of floats, which since Python 3.12 carries a compensation term
  (Neumaier's variant of Kahan summation) and adds it at the end when it is finite.
\<close>

fun sum_loop :: "pyfloat \<Rightarrow> pyfloat \<Rightarrow> pyfloat list \<Rightarrow> pyfloat" where
  "sum_loop s c [] = (if is_fin c \<and> float_truthy c then fadd s c else s)"
| "sum_loop s c (x # xs) =
     (let t = fadd s x;
          d = (if fle (fabs x) (fabs s) then fadd (fsub s t) x else fadd (fsub x t) s)
      in sum_loop t (fadd c d) xs)"

fun pysum :: "pyfloat list \<Rightarrow> pyfloat" where
  "pysum [] = Fin 0"
| "pysum (x # xs) = sum_loop (fadd (Fin 0) x) (Fin 0) xs"

text \<open>The values a Python float can take: finite ones are representable.\<close>

definition is_dbl :: "pyfloat \<Rightarrow> bool" where
  "is_dbl x = (case x of Fin a \<Rightarrow> dround a = a \<and> \<bar>a\<bar> < dmax | _ \<Rightarrow> True)"

lemma dmax_code [code]:
  "dmax = 179769313486231590772930519078902473361797697894230657273430081157732675805500963132708477322407536021120113879871393357658789768814416622492847430639474124377767893424865485276302219601246094119453082952085005768838150682342462881473913110540827237163350510684586298239947245938479716304835356329624224137216"
  by (simp add: dmax_def)

subsection \<open>Evaluation\<close>

text \<open>
  For evaluation the rounding is done on the numerator and the denominator, and magnitudes are compared
  with the largest ones only where they can reach them.
\<close>

definition rne_pick :: "int \<Rightarrow> int \<Rightarrow> int \<Rightarrow> int" where
  "rne_pick f r b = (if 2 * r < b then f else if b < 2 * r then f + 1 else if even f then f else f + 1)"

definition rne_div :: "int \<Rightarrow> int \<Rightarrow> int" where
  "rne_div a b = rne_pick (a div b) (a mod b) b"

definition dround_int :: "int \<Rightarrow> int \<Rightarrow> int \<Rightarrow> rat" where
  "dround_int p q e =
     (if 0 \<le> e then of_int (rne_div p (q * 2 ^ nat e) * 2 ^ nat e)
      else Fract (rne_div (p * 2 ^ nat (- e)) q) (2 ^ nat (- e)))"

definition dround_pair :: "rat \<Rightarrow> int \<times> int \<Rightarrow> rat" where
  "dround_pair x pq = (if fst pq = 0 then 0 else dround_int (fst pq) (snd pq) (dexp x))"

definition fl_of :: "rat \<Rightarrow> pyfloat" where
  "fl_of y = (if \<bar>y\<bar> < 18446744073709551616 then Fin y else if dmax \<le> y then PInf else if y \<le> - dmax then NInf else Fin y)"

lemma rne_div:
  assumes "0 < q"
  shows "rne (of_int p / of_int q) = rne_div p q"
proof -
  define f r where "f = p div q" and "r = p mod q"
  have f: "\<lfloor>of_int p / of_int q :: rat\<rfloor> = f" unfolding f_def by (rule floor_divide_of_int_eq)
  have "p = f * q + r" by (simp add: f_def r_def)
  then have d: "(of_int p / of_int q :: rat) - of_int f = of_int r / of_int q"
    using assms by (simp add: field_simps)
  have "(of_int r / of_int q < (1::rat) / 2) = (of_int (2 * r) < (of_int q :: rat))"
    "((1::rat) / 2 < of_int r / of_int q) = (of_int q < (of_int (2 * r) :: rat))"
    using assms by (simp_all add: field_simps)
  then have "(of_int r / of_int q < (1::rat) / 2) = (2 * r < q)" "((1::rat) / 2 < of_int r / of_int q) = (q < 2 * r)"
    by (simp_all only: of_int_less_iff)
  then show ?thesis
    unfolding rne_def Let_def f d rne_div_def rne_pick_def f_def [symmetric] r_def [symmetric] by simp
qed

lemma dround_int:
  assumes "0 < q"
  shows "of_int (rne (of_int p / of_int q / 2 powi e)) * 2 powi e = dround_int p q e"
proof (cases "0 \<le> e")
  case True
  then have e: "(2::rat) powi e = of_int (2 ^ nat e)" by (simp add: power_int_def)
  have "rne (of_int p / of_int q / of_int (2 ^ nat e)) = rne_div p (q * 2 ^ nat e)"
    using rne_div [of "q * 2 ^ nat e" p] assms by (simp add: divide_divide_eq_left)
  with True show ?thesis unfolding dround_int_def e by simp
next
  case False
  then have e: "(2::rat) powi e = 1 / of_int (2 ^ nat (- e))" by (simp add: power_int_def power_one_over)
  have "(of_int p / of_int q / (1 / of_int (2 ^ nat (- e))) :: rat) = of_int (p * 2 ^ nat (- e)) / of_int q"
    by simp
  then have "rne (of_int p / of_int q / (1 / of_int (2 ^ nat (- e)))) = rne_div (p * 2 ^ nat (- e)) q"
    using rne_div [OF assms] by metis
  then have "of_int (rne (of_int p / of_int q / 2 powi e)) * 2 powi e
    = (of_int (rne_div (p * 2 ^ nat (- e)) q) / of_int (2 ^ nat (- e)) :: rat)"
    by (simp only: e times_divide_eq_right mult_1_right)
  also have "\<dots> = dround_int p q e"
    using False by (simp only: dround_int_def if_False Fract_of_int_quotient)
  finally show ?thesis .
qed

lemma dround_code [code]: "dround x = dround_pair x (quotient_of x)"
proof -
  obtain p q where pq: "quotient_of x = (p, q)" by fastforce
  then have x: "x = of_int p / of_int q" and q: "0 < q"
    by (auto dest: quotient_of_div quotient_of_denom_pos)
  have "of_int (rne (x / 2 powi dexp x)) * 2 powi dexp x = dround_int p q (dexp x)"
    using dround_int [OF q, of p "dexp x"] x by simp
  moreover have "(x = 0) = (p = 0)" using x q by simp
  ultimately show ?thesis unfolding dround_def dround_pair_def pq fst_conv snd_conv by simp
qed

lemma fl_code [code]: "fl x = fl_of (dround x)"
proof -
  have "(2::rat) ^ 64 \<le> dmax" unfolding dmax_def by (intro power_increasing) auto
  then have "18446744073709551616 \<le> dmax" by simp
  then show ?thesis by (auto simp: fl_def fl_of_def Let_def)
qed

section \<open>Comparisons\<close>

named_theorems float_order

lemma flt_NaN [simp]: "\<not> flt NaN y" "\<not> flt x NaN"
  by (cases y; simp) (cases x; simp)

lemma fle_NaN [simp]: "\<not> fle NaN y" "\<not> fle x NaN"
  by (auto simp: fle_def feq_def)

lemma fle_Fin [simp]: "fle (Fin a) (Fin b) = (a \<le> b)"
  by (auto simp: fle_def feq_def)

lemma feq_Fin [simp]: "feq (Fin a) (Fin b) = (a = b)"
  by (simp add: feq_def)

lemma fle_inf [simp]: "fle x PInf = (x \<noteq> NaN)" "fle NInf x = (x \<noteq> NaN)"
  "fle (Fin a) NInf = False" "fle PInf (Fin a) = False" "fle PInf NInf = False"
  by (cases x; simp add: fle_def feq_def)+

lemma fle_inf_Fin [simp]: "\<not> fle PInf (Fin a)" "\<not> fle (Fin a) NInf" "\<not> fle PInf NInf"
  by (simp_all add: fle_def feq_def)

lemma fle_betweenE:
  assumes "fle (Fin a) y" "fle y (Fin b)"
  obtains x where "y = Fin x" "a \<le> x" "x \<le> b"
  using assms by (cases y) auto

lemma fle_refl [simp]: "fle x x = (x \<noteq> NaN)"
  by (cases x) simp_all

lemma flt_irrefl [simp]: "\<not> flt x x"
  by (cases x) simp_all

lemma flt_trans: "flt x y \<Longrightarrow> flt y z \<Longrightarrow> flt x z"
  by (cases x; cases y; cases z) auto

lemma fle_trans [float_order]: "fle x y \<Longrightarrow> fle y z \<Longrightarrow> fle x z"
  by (cases x; cases y; cases z) auto

lemma flt_fle_trans [float_order]: "flt x y \<Longrightarrow> fle y z \<Longrightarrow> flt x z"
  by (cases x; cases y; cases z) (auto simp: fle_def feq_def)

lemma fle_flt_trans [float_order]: "fle x y \<Longrightarrow> flt y z \<Longrightarrow> flt x z"
  by (cases x; cases y; cases z) (auto simp: fle_def feq_def)

lemma flt_imp_fle: "flt x y \<Longrightarrow> fle x y"
  by (simp add: fle_def)

lemma fle_antisym: "fle x y \<Longrightarrow> fle y x \<Longrightarrow> x = y"
  by (cases x; cases y) auto

lemma not_flt: "x \<noteq> NaN \<Longrightarrow> y \<noteq> NaN \<Longrightarrow> (\<not> flt x y) = fle y x"
  by (cases x; cases y) (auto simp: fle_def feq_def)

lemma not_fle: "x \<noteq> NaN \<Longrightarrow> y \<noteq> NaN \<Longrightarrow> (\<not> fle x y) = flt y x"
  by (cases x; cases y) (auto simp: fle_def feq_def)

lemma flt_not_fle: "flt x y \<Longrightarrow> \<not> fle y x"
  by (cases x; cases y) auto

lemma fle_not_NaN: "fle x y \<Longrightarrow> x \<noteq> NaN \<and> y \<noteq> NaN"
  by auto

lemma is_fin_E: "is_fin x \<Longrightarrow> (\<And>a. x = Fin a \<Longrightarrow> P) \<Longrightarrow> P"
  by (cases x) (auto simp: is_fin_def)

lemma is_fin_Fin [simp]: "is_fin (Fin a)"
  by (simp add: is_fin_def)

section \<open>Rounded results are floats, and operations are monotone\<close>

lemma fl_cases: "fl x = PInf \<or> fl x = NInf \<or> fl x = Fin (dround x)"
  by (simp add: fl_def Let_def)

lemma fl_not_NaN [simp]: "fl x \<noteq> NaN"
  using fl_cases [of x] by auto

lemma dmax_pos [simp]: "0 < dmax"
  by (simp add: dmax_def)

lemma is_dbl_fl [simp]: "is_dbl (fl x)"
  by (auto simp: fl_def is_dbl_def Let_def)

lemma is_dbl_inf [simp]: "is_dbl PInf" "is_dbl NInf" "is_dbl NaN"
  by (simp_all add: is_dbl_def)

lemma is_dbl_0 [simp]: "is_dbl (Fin 0)"
  by (simp add: is_dbl_def)

lemma fl_id: "is_dbl (Fin a) \<Longrightarrow> fl a = Fin a"
  by (auto simp: is_dbl_def fl_def)

lemma fl_mono: "x \<le> y \<Longrightarrow> fle (fl x) (fl y)"
  using dround_mono [of x y] dmax_pos by (auto simp: fl_def Let_def simp del: dmax_pos)

lemma fl_le: "is_dbl (Fin b) \<Longrightarrow> a \<le> b \<Longrightarrow> fle (fl a) (Fin b)"
  by (metis fl_id fl_mono)

lemma fl_ge: "is_dbl (Fin b) \<Longrightarrow> b \<le> a \<Longrightarrow> fle (Fin b) (fl a)"
  by (metis fl_id fl_mono)

lemma is_dbl_fneg [simp]: "is_dbl x \<Longrightarrow> is_dbl (fneg x)"
  by (cases x) (auto simp: is_dbl_def dround_minus)

lemma is_dbl_fabs [simp]: "is_dbl x \<Longrightarrow> is_dbl (fabs x)"
  by (cases x) (auto simp: is_dbl_def dround_minus abs_if)

lemma is_dbl_finf [simp]: "is_dbl (finf s)"
  by (simp add: finf_def)

lemma is_dbl_fadd [simp]: "is_dbl (fadd x y)"
  by (cases x; cases y) auto

lemma is_dbl_fsub [simp]: "is_dbl (fsub x y)"
  by (simp add: fsub_def)

lemma is_dbl_fmul [simp]: "is_dbl (fmul x y)"
  by (cases x; cases y) auto

lemma is_dbl_fint [simp]: "is_dbl (fint n)"
  by (simp add: fint_def)

lemma fint_small: "\<bar>n\<bar> \<le> 2 ^ 53 \<Longrightarrow> fint n = Fin (of_int n)"
proof -
  assume n: "\<bar>n\<bar> \<le> 2 ^ 53"
  then have "\<bar>of_int n :: rat\<bar> \<le> 2 ^ 53"
    by (metis of_int_abs of_int_le_iff of_int_numeral of_int_power)
  also have "\<dots> < dmax" unfolding dmax_def by (intro power_strict_increasing) auto
  finally show ?thesis
    using n by (simp add: fint_def fl_def dround_of_int Let_def) linarith
qed

text \<open>Every float is a multiple of \<open>2 ^ -1074\<close>, so a difference never rounds to zero.\<close>

lemma dround_grid: "\<exists>m. dround x = of_int m * 2 powi (- 1074)"
proof (cases "x = 0")
  case True
  then show ?thesis by (intro exI [of _ 0]) simp
next
  case False
  let ?k = "nat (dexp x + 1074)"
  have "0 \<le> dexp x + 1074" by (simp add: dexp_def)
  then have "(2::rat) powi (dexp x + 1074) = 2 ^ ?k" by (simp add: power_int_def)
  then have "(2::rat) powi dexp x = of_int (2 ^ ?k) * 2 powi (- 1074)"
    by (simp add: power_int_add power_int_minus field_simps)
  then have "dround x = of_int (rne (x / 2 powi dexp x) * 2 ^ ?k) * 2 powi (- 1074)"
    using False by (simp add: dround_def)
  then show ?thesis by blast
qed

lemma dround_diff_pos:
  assumes "dround a = a" "dround b = b" "b < a"
  shows "0 < dround (a - b)"
proof -
  obtain m n where mn: "a = of_int m * 2 powi (- 1074)" "b = of_int n * 2 powi (- 1074)"
    using dround_grid [of a] dround_grid [of b] assms by auto
  have "of_int n < (of_int m :: rat)"
    using assms(3) unfolding mn by (simp only: mult_less_cancel_right_pos powi_2_pos)
  then have "n + 1 \<le> m" by simp
  then have "of_int (n + 1) \<le> (of_int m :: rat)" using of_int_le_iff by blast
  then have "of_int n + 1 \<le> (of_int m :: rat)" by simp
  then have "(of_int n + 1) * 2 powi (- 1074) \<le> (of_int m :: rat) * 2 powi (- 1074)"
    by (intro mult_right_mono) (auto simp only: powi_2_pos less_imp_le)
  then have "(2::rat) powi (- 1074) \<le> a - b" unfolding mn by (simp only: distrib_right mult_1)
  then have "dround (2 powi (- 1074)) \<le> dround (a - b)" by (rule dround_mono)
  moreover have "dround (2 powi (- 1074)) = 2 powi (- 1074)"
    using dround_exact [of 1 "- 1074"] by (simp only: of_int_1 mult_1) simp
  moreover have "(0::rat) < 2 powi (- 1074)" by (rule powi_2_pos)
  ultimately show ?thesis by linarith
qed

lemma fsub_Fin: "fsub (Fin a) (Fin b) = fl (a - b)"
  by (simp add: fsub_def)

lemma fsub_pos_iff:
  assumes "is_dbl x" "is_dbl y" "x \<noteq> PInf \<or> y \<noteq> PInf" "x \<noteq> NInf \<or> y \<noteq> NInf"
  shows "flt (Fin 0) (fsub x y) = flt y x"
proof -
  have fin: "flt (Fin 0) (fl (a - b)) = (b < a)"
    if "dround a = a" "dround b = b" for a b :: rat
  proof (cases "b < a")
    case True
    then show ?thesis using dround_diff_pos [OF that True] by (auto simp: fl_def Let_def dest: dmax_pos [THEN less_trans])
  next
    case False
    then have "fle (fl (a - b)) (Fin 0)" by (intro fl_le) auto
    with False show ?thesis by (simp add: flt_not_fle) (metis flt_not_fle)
  qed
  show ?thesis using assms
    by (cases x; cases y) (auto simp: fsub_Fin fsub_def is_dbl_def fin [unfolded fsub_def])
qed

lemma pymax_ge1: "a \<noteq> NaN \<Longrightarrow> fle a (pymax a b)"
  by (simp add: pymax_def flt_imp_fle)

lemma pymax_ge2: "a \<noteq> NaN \<Longrightarrow> b \<noteq> NaN \<Longrightarrow> fle b (pymax a b)"
  by (simp add: pymax_def not_flt [symmetric])

lemma pymin_le1: "a \<noteq> NaN \<Longrightarrow> fle (pymin a b) a"
  by (simp add: pymin_def flt_imp_fle)

lemma pymin_le2: "a \<noteq> NaN \<Longrightarrow> b \<noteq> NaN \<Longrightarrow> fle (pymin a b) b"
  by (simp add: pymin_def not_flt [symmetric])

lemma pymax_not_NaN [simp]: "a \<noteq> NaN \<Longrightarrow> pymax a b \<noteq> NaN"
  by (auto simp: pymax_def)

lemma fadd_Fin_mono: "a \<le> b \<Longrightarrow> fle (fadd (Fin a) (Fin c)) (fadd (Fin b) (Fin c))"
  by (simp add: fl_mono)

lemma fsub_Fin_mono: "a \<le> b \<Longrightarrow> fle (fsub (Fin a) (Fin c)) (fsub (Fin b) (Fin c))"
  by (simp add: fsub_Fin fl_mono)

lemma fadd_nonneg: "fle (Fin 0) x \<Longrightarrow> fle (Fin 0) y \<Longrightarrow> fle (Fin 0) (fadd x y)"
  by (cases x; cases y) (auto intro: fl_ge)

lemma fabs_idem [simp]: "fabs (fabs x) = fabs x" "fabs (fneg x) = fabs x"
  by (cases x; simp)+

lemma fabs_nonneg: "x \<noteq> NaN \<Longrightarrow> fle (Fin 0) (fabs x)"
  by (cases x) auto

text \<open>Small whole numbers are exact, which lets \<open>simp\<close> compute with whole amounts.\<close>

lemma fl_whole: "\<bar>n\<bar> \<le> 2 ^ 53 \<Longrightarrow> fl (of_int n) = Fin (of_int n)"
  using fint_small by (simp add: fint_def)

lemma fl_0 [simp]: "fl 0 = Fin 0"
  using fl_whole [of 0] by simp

lemma fl_1 [simp]: "fl 1 = Fin 1"
  using fl_whole [of 1] by simp

lemma fl_numeral [simp]:
  "(numeral w :: int) \<le> 9007199254740992 \<Longrightarrow> fl (numeral w) = Fin (numeral w)"
  using fl_whole [of "numeral w"] by simp

lemma fl_neg_numeral [simp]:
  "(numeral w :: int) \<le> 9007199254740992 \<Longrightarrow> fl (- numeral w) = Fin (- numeral w)"
  using fl_whole [of "- numeral w"] by simp

lemma is_dbl_numeral [simp]:
  "(numeral w :: int) \<le> 9007199254740992 \<Longrightarrow> is_dbl (Fin (numeral w))"
  "(numeral w :: int) \<le> 9007199254740992 \<Longrightarrow> is_dbl (Fin (- numeral w))"
  by (metis fl_numeral is_dbl_fl) (metis fl_neg_numeral is_dbl_fl)

lemma is_dbl_1 [simp]: "is_dbl (Fin 1)"
  by (metis fl_1 is_dbl_fl)

lemma fsub_Fin_simp [simp]: "fsub (Fin a) (Fin b) = fl (a - b)"
  by (rule fsub_Fin)

lemma is_dbl_whole: "\<bar>n\<bar> \<le> 2 ^ 53 \<Longrightarrow> is_dbl (Fin (of_int n))"
  by (metis fl_whole is_dbl_fl)

lemma is_dbl_half: "\<bar>n\<bar> \<le> 2 ^ 53 \<Longrightarrow> is_dbl (Fin (of_int n / 2))"
proof -
  assume n: "\<bar>n\<bar> \<le> 2 ^ 53"
  then have "\<bar>of_int n :: rat\<bar> \<le> 2 ^ 53"
    by (metis of_int_abs of_int_le_iff of_int_numeral of_int_power)
  also have "\<dots> < dmax" unfolding dmax_def by (intro power_strict_increasing) auto
  finally have "\<bar>of_int n / 2\<bar> < dmax" by simp
  moreover have "dround (of_int n * 2 powi (- 1)) = of_int n * 2 powi (- 1)"
    using n by (intro dround_exact) auto
  moreover have "(2::rat) powi (- 1) = 1 / 2" by (simp add: power_int_def)
  ultimately show ?thesis by (simp add: is_dbl_def)
qed

lemma is_dbl_1_half [simp]: "is_dbl (Fin (1 / 2))"
  using is_dbl_half [of 1] by simp

end
