(* ===== verification/Prelude.thy ===== *)
theory Prelude
  imports Pyfloat "HOL-Library.AList"
begin

text \<open>
  What the components share: the exceptions of the language, results that are either a
  raised exception or a value, Python dictionaries as association lists in insertion order,
  the string functions the code calls, and two interfaces.  \<open>machine\<close> is a state with a
  step function that keeps an invariant; \<open>ordered_machine\<close> adds an order that no step
  goes back in.  Each component interprets them on its own operations.
\<close>

section \<open>Exceptions and results\<close>

datatype pyexc =
    ValueError | TypeError | KeyError | ZeroDivisionError | OverflowError
  | AttributeError | OSError | RuntimeError | PermissionError

type_synonym ('e, 'a) result = "'e + 'a"

fun rbind :: "'e + 'a \<Rightarrow> ('a \<Rightarrow> 'e + 'b) \<Rightarrow> 'e + 'b" where
  "rbind (Inl e) f = Inl e"
| "rbind (Inr a) f = f a"

lemma rbind_Inr_iff [simp]: "rbind r f = Inr b \<longleftrightarrow> (\<exists>a. r = Inr a \<and> f a = Inr b)"
  by (cases r) auto

lemma rbind_Inl_iff: "rbind r f = Inl e \<longleftrightarrow> r = Inl e \<or> (\<exists>a. r = Inr a \<and> f a = Inl e)"
  by (cases r) auto

text \<open>Raise on a missing value: \<open>None\<close> is division by zero for \<open>fdiv\<close>.\<close>

definition fdivx :: "pyfloat \<Rightarrow> pyfloat \<Rightarrow> pyexc + pyfloat" where
  "fdivx x y = (case fdiv x y of None \<Rightarrow> Inl ZeroDivisionError | Some z \<Rightarrow> Inr z)"

section \<open>Dictionaries\<close>

text \<open>
  An association list in insertion order: assignment to a present key keeps its place, a new
  key goes to the end, as in Python.
\<close>

type_synonym ('k, 'v) dict = "('k \<times> 'v) list"

abbreviation dget :: "('k, 'v) dict \<Rightarrow> 'k \<Rightarrow> 'v option" where
  "dget \<equiv> map_of"

abbreviation dset :: "'k \<Rightarrow> 'v \<Rightarrow> ('k, 'v) dict \<Rightarrow> ('k, 'v) dict" where
  "dset \<equiv> AList.update"

abbreviation ddel :: "'k \<Rightarrow> ('k, 'v) dict \<Rightarrow> ('k, 'v) dict" where
  "ddel \<equiv> AList.delete"

definition dget_or :: "('k, 'v) dict \<Rightarrow> 'k \<Rightarrow> 'v \<Rightarrow> 'v" where
  "dget_or d k v = (case dget d k of None \<Rightarrow> v | Some w \<Rightarrow> w)"

lemma dget_dset [simp]: "dget (dset k v d) k' = (if k' = k then Some v else dget d k')"
  by (simp add: update_conv)

lemma dget_ddel [simp]: "dget (ddel k d) k' = (if k' = k then None else dget d k')"
  by (simp add: delete_conv)

lemma dget_or_dset [simp]: "dget_or (dset k v d) k' w = (if k' = k then v else dget_or d k' w)"
  by (simp add: dget_or_def)

lemma in_set_dset: "x \<in> set (dset k v d) \<Longrightarrow> x = (k, v) \<or> x \<in> set d"
  by (induction d) (auto split: if_splits)

lemma in_set_map_filter [simp]:
  "v \<in> set (List.map_filter f xs) \<longleftrightarrow> (\<exists>x\<in>set xs. f x = Some v)"
  by (induction xs) (auto simp: List.map_filter_def)

text \<open>Files hold dictionaries with sorted keys.\<close>

lemma map_of_sorted: "distinct (map fst d) \<Longrightarrow> dget (sort_key fst d) = dget d"
  by (rule map_of_inject_set [THEN iffD2]) (simp_all add: distinct_map inj_on_def)

section \<open>Strings\<close>

definition code_of :: "char \<Rightarrow> nat" where
  "code_of c = of_char c"

definition is_space :: "char \<Rightarrow> bool" where
  "is_space c = (9 \<le> code_of c \<and> code_of c \<le> 13 \<or> 28 \<le> code_of c \<and> code_of c \<le> 32)"

definition is_digit :: "char \<Rightarrow> bool" where
  "is_digit c = (48 \<le> code_of c \<and> code_of c \<le> 57)"

definition to_upper :: "char \<Rightarrow> char" where
  "to_upper c = (if 97 \<le> code_of c \<and> code_of c \<le> 122 then char_of (code_of c - 32) else c)"

definition to_lower :: "char \<Rightarrow> char" where
  "to_lower c = (if 65 \<le> code_of c \<and> code_of c \<le> 90 then char_of (code_of c + 32) else c)"

definition upper :: "string \<Rightarrow> string" where
  "upper s = map to_upper s"

definition lower :: "string \<Rightarrow> string" where
  "lower s = map to_lower s"

text \<open>\<open>s.lstrip(cs)\<close>, \<open>s.rstrip(cs)\<close> and \<open>s.strip(cs)\<close> by a predicate on the characters.\<close>

definition lstrip_by :: "(char \<Rightarrow> bool) \<Rightarrow> string \<Rightarrow> string" where
  "lstrip_by p s = dropWhile p s"

definition rstrip_by :: "(char \<Rightarrow> bool) \<Rightarrow> string \<Rightarrow> string" where
  "rstrip_by p s = rev (dropWhile p (rev s))"

definition strip_by :: "(char \<Rightarrow> bool) \<Rightarrow> string \<Rightarrow> string" where
  "strip_by p s = rstrip_by p (lstrip_by p s)"

abbreviation strip :: "string \<Rightarrow> string" where
  "strip \<equiv> strip_by is_space"

definition ends_with :: "string \<Rightarrow> string \<Rightarrow> bool" where
  "ends_with s t = (length t \<le> length s \<and> drop (length s - length t) s = t)"

text \<open>\<open>s.startswith(t)\<close> and \<open>t in s\<close>.\<close>

definition starts_with :: "string \<Rightarrow> string \<Rightarrow> bool" where
  "starts_with s t = (take (length t) s = t)"

fun contains :: "string \<Rightarrow> string \<Rightarrow> bool" where
  "contains t [] = (t = [])"
| "contains t (c # cs) = (starts_with (c # cs) t \<or> contains t cs)"

subsection \<open>Numbers written as strings\<close>

fun drop_underscores :: "bool \<Rightarrow> string \<Rightarrow> string option" where
  "drop_underscores p [] = Some []"
| "drop_underscores p (c # cs) =
     (if c = CHR ''_''
      then (if p \<and> cs \<noteq> [] \<and> is_digit (hd cs) then drop_underscores False cs else None)
      else map_option ((#) c) (drop_underscores (is_digit c) cs))"

fun split_sign :: "string \<Rightarrow> bool \<times> string" where
  "split_sign [] = (False, [])"
| "split_sign (c # cs) =
     (if c = CHR ''-'' then (True, cs) else if c = CHR ''+'' then (False, cs)
      else (False, c # cs))"

definition digits_value :: "string \<Rightarrow> int" where
  "digits_value s = foldl (\<lambda>n c. 10 * n + int (code_of c - 48)) 0 s"

definition parse_exponent :: "string \<Rightarrow> int option" where
  "parse_exponent s =
     (case s of [] \<Rightarrow> Some 0
      | c # r \<Rightarrow>
        (if c \<noteq> CHR ''e'' \<and> c \<noteq> CHR ''E'' then None
         else case split_sign r of (neg, ds) \<Rightarrow>
           (if ds \<noteq> [] \<and> list_all is_digit ds
            then Some (if neg then - digits_value ds else digits_value ds) else None)))"

text \<open>The text of a number without sign: integer part, fraction, exponent.\<close>

definition parse_decimal :: "string \<Rightarrow> rat option" where
  "parse_decimal s =
     (let ip = takeWhile is_digit s; r = dropWhile is_digit s;
          (fp, r') = (case r of [] \<Rightarrow> ([], [])
                      | c # r1 \<Rightarrow> if c = CHR ''.''
                                  then (takeWhile is_digit r1, dropWhile is_digit r1)
                                  else ([], r))
      in if ip = [] \<and> fp = [] then None
         else map_option
                (\<lambda>e. of_int (digits_value (ip @ fp)) * 10 powi (e - int (length fp)))
                (parse_exponent r'))"

text \<open>\<open>float(s)\<close>: None where Python raises \<open>ValueError\<close>.\<close>

definition parse_float :: "string \<Rightarrow> pyfloat option" where
  "parse_float s =
     (case drop_underscores False (strip s) of None \<Rightarrow> None
      | Some t \<Rightarrow>
        (case split_sign t of (neg, u) \<Rightarrow>
          (if lower u \<in> {''inf'', ''infinity''} then Some (if neg then NInf else PInf)
           else if lower u = ''nan'' then Some NaN
           else map_option (\<lambda>x. fl (if neg then - x else x)) (parse_decimal u))))"

text \<open>\<open>int(s)\<close> in base ten: None where Python raises \<open>ValueError\<close>.\<close>

definition parse_int :: "string \<Rightarrow> int option" where
  "parse_int s =
     (case drop_underscores False (strip s) of None \<Rightarrow> None
      | Some t \<Rightarrow>
        (case split_sign t of (neg, u) \<Rightarrow>
          (if u \<noteq> [] \<and> list_all is_digit u
           then Some (if neg then - digits_value u else digits_value u) else None)))"

lemma is_dbl_parse_float: "parse_float s = Some x \<Longrightarrow> is_dbl x"
  by (auto simp: parse_float_def split: option.splits prod.splits if_splits)

text \<open>The process environment, and the truthy spellings the gates accept.\<close>

type_synonym env = "string \<Rightarrow> string option"

definition env_get :: "env \<Rightarrow> string \<Rightarrow> string" where
  "env_get e k = (case e k of None \<Rightarrow> [] | Some v \<Rightarrow> v)"

definition is_truthy_env :: "env \<Rightarrow> string \<Rightarrow> bool" where
  "is_truthy_env e k = (lower (strip (env_get e k)) \<in> {''1'', ''true'', ''yes'', ''on''})"

section \<open>Machines\<close>

locale machine =
  fixes step :: "'s \<Rightarrow> 'e \<Rightarrow> 's" and inv :: "'s \<Rightarrow> bool" and ok :: "'e \<Rightarrow> bool"
  assumes inv_step: "inv s \<Longrightarrow> ok e \<Longrightarrow> inv (step s e)"
begin

lemma run_inv: "inv s \<Longrightarrow> list_all ok es \<Longrightarrow> inv (foldl step s es)"
  by (induction es arbitrary: s) (auto intro: inv_step)

end

locale ordered_machine = machine +
  fixes le :: "'a \<Rightarrow> 'a \<Rightarrow> bool"
  assumes le_refl: "inv s \<Longrightarrow> le s s"
    and le_trans: "le s t \<Longrightarrow> le t u \<Longrightarrow> le s u"
    and le_step: "inv s \<Longrightarrow> ok e \<Longrightarrow> le s (step s e)"
begin

lemma run_le: "inv s \<Longrightarrow> list_all ok es \<Longrightarrow> le s (foldl step s es)"
proof (induction es arbitrary: s)
  case Nil
  then show ?case by (simp add: le_refl)
next
  case (Cons e es)
  then have "le s (step s e)" and "inv (step s e)" and "list_all ok es"
    by (auto intro: le_step inv_step)
  with Cons.IH show ?case by (auto intro: le_trans)
qed

end

end
