(* ===== verification/Durable.thy ===== *)
theory Durable
  imports Prelude
begin

text \<open>
  State files.  A file is missing, unreadable as JSON, or holds a JSON value (what
  \<open>json.loads\<close> returns for its text).  The coercions \<open>float\<close>, \<open>int\<close> and
  \<open>bool\<close> that the loaders apply to raw values are written out with the exceptions they
  raise.  An atomic write is the sequence of system calls the stores perform (write a
  temporary file, sync it, rename it over the final path), so that a crash between any two
  of them is a prefix of the sequence.

  \<open>durable\<close> is the interface between a component and its file: what is written can be
  read back.  \<open>durable_machine\<close> adds the component's steps: after any run, the file
  restores the state the run ended in.
\<close>

section \<open>JSON values\<close>

datatype json =
    JNull | JBool bool | JInt int | JFloat pyfloat | JStr string
  | JList "json list" | JObj "(string \<times> json) list"

datatype jfile = Missing | Garbled | Parsed json

fun as_float :: "json \<Rightarrow> pyexc + pyfloat" where
  "as_float (JFloat x) = Inr x"
| "as_float (JInt n) = (if is_fin (fint n) then Inr (fint n) else Inl OverflowError)"
| "as_float (JBool b) = Inr (if b then Fin 1 else Fin 0)"
| "as_float (JStr s) = (case parse_float s of None \<Rightarrow> Inl ValueError | Some x \<Rightarrow> Inr x)"
| "as_float _ = Inl TypeError"

fun as_int :: "json \<Rightarrow> pyexc + int" where
  "as_int (JInt n) = Inr n"
| "as_int (JFloat (Fin q)) = Inr (if 0 \<le> q then \<lfloor>q\<rfloor> else \<lceil>q\<rceil>)"
| "as_int (JFloat NaN) = Inl ValueError"
| "as_int (JFloat _) = Inl OverflowError"
| "as_int (JBool b) = Inr (if b then 1 else 0)"
| "as_int (JStr s) = (case parse_int s of None \<Rightarrow> Inl ValueError | Some n \<Rightarrow> Inr n)"
| "as_int _ = Inl TypeError"

fun as_bool :: "json \<Rightarrow> bool" where
  "as_bool JNull = False"
| "as_bool (JBool b) = b"
| "as_bool (JInt n) = (n \<noteq> 0)"
| "as_bool (JFloat x) = float_truthy x"
| "as_bool (JStr s) = (s \<noteq> [])"
| "as_bool (JList xs) = (xs \<noteq> [])"
| "as_bool (JObj o') = (o' \<noteq> [])"

text \<open>\<open>raw.get(k, default)\<close> and \<open>raw.get(k)\<close>, whose default is \<open>None\<close>.\<close>

definition jget :: "(string \<times> json) list \<Rightarrow> string \<Rightarrow> json \<Rightarrow> json" where
  "jget d k v = dget_or d k v"

text \<open>Writers of optional fields, and their readers.\<close>

definition jopt :: "('a \<Rightarrow> json) \<Rightarrow> 'a option \<Rightarrow> json" where
  "jopt f v = (case v of None \<Rightarrow> JNull | Some x \<Rightarrow> f x)"

text \<open>
  \<open>str(v or d)\<close> and \<open>float(v or d)\<close>; \<open>show_json\<close> is the text of a value that is not a string.
\<close>

definition or_text :: "(json \<Rightarrow> string) \<Rightarrow> json \<Rightarrow> string \<Rightarrow> string" where
  "or_text show_json v d =
     (if as_bool v then (case v of JStr s \<Rightarrow> s | _ \<Rightarrow> show_json v) else d)"

definition or_float :: "json \<Rightarrow> pyfloat \<Rightarrow> pyexc + pyfloat" where
  "or_float v d = (if as_bool v then as_float v else Inr d)"

lemma or_text_str [simp]: "or_text show_json (JStr v) [] = v"
  by (simp add: or_text_def)

section \<open>Atomic replacement of a file\<close>

record disk =
  final :: jfile
  tmp :: jfile

datatype io = OpenTmp | WriteTmp json | SyncTmp | ReplaceFinal

fun io_step :: "disk \<Rightarrow> io \<Rightarrow> disk" where
  "io_step d OpenTmp = d\<lparr>tmp := Garbled\<rparr>"
| "io_step d (WriteTmp j) = d\<lparr>tmp := Parsed j\<rparr>"
| "io_step d SyncTmp = d"
| "io_step d ReplaceFinal = d\<lparr>final := tmp d, tmp := Missing\<rparr>"

text \<open>
  The calls of \<open>_write_atomic\<close>: the temporary file is truncated, holds the whole payload,
  is synced, and takes the final name in one step.
\<close>

definition write_atomic :: "json \<Rightarrow> io list" where
  "write_atomic j = [OpenTmp, WriteTmp j, SyncTmp, ReplaceFinal]"

lemma write_atomic_done: "final (foldl io_step d (write_atomic j)) = Parsed j"
  by (simp add: write_atomic_def)

lemma write_atomic_prefix:
  "final (foldl io_step d (take n (write_atomic j))) \<in> {final d, Parsed j}"
proof -
  consider "n = 0" | "n = 1" | "n = 2" | "n = 3" | "4 \<le> n" by linarith
  then show ?thesis
    by cases (simp_all add: write_atomic_def numeral_eq_Suc)
qed

section \<open>Interfaces of a durable component\<close>

locale durable =
  fixes enc :: "'s \<Rightarrow> json" and dec :: "json \<Rightarrow> 's option" and valid :: "'s \<Rightarrow> bool"
  assumes dec_enc: "valid s \<Longrightarrow> dec (enc s) = Some s"
begin

lemma enc_inj: "valid s \<Longrightarrow> valid t \<Longrightarrow> enc s = enc t \<Longrightarrow> s = t"
  by (metis dec_enc option.inject)

text \<open>A crash at any point of a write leaves the state before it or the state after it.\<close>

lemma crash_recovers:
  assumes "valid s" "valid t" "final d = Parsed (enc s)"
  shows "\<exists>j. final (foldl io_step d (take n (write_atomic (enc t)))) = Parsed j
             \<and> dec j \<in> {Some s, Some t}"
  using write_atomic_prefix [of d n "enc t"] assms dec_enc by auto

end

locale durable_machine = durable enc dec valid + machine step valid ok
  for enc :: "'s \<Rightarrow> json" and dec :: "json \<Rightarrow> 's option" and valid :: "'s \<Rightarrow> bool"
    and step :: "'s \<Rightarrow> 'e \<Rightarrow> 's" and ok :: "'e \<Rightarrow> bool"
begin

lemma restart_after_run:
  "valid s \<Longrightarrow> list_all ok es \<Longrightarrow> dec (enc (foldl step s es)) = Some (foldl step s es)"
  by (simp add: dec_enc run_inv)

end

end
