(* ===== verification/Trailing_DD.thy ===== *)
theory Trailing_DD
  imports Durable
begin

text \<open>
  \<open>core/trailing_dd_tracker.py\<close>: the trailing-drawdown tracker of a funded account.  It
  keeps a high-water mark of equity, a floor that trails it and locks at the starting
  balance once the peak reaches the freeze threshold, a count of breaches, a state file and
  an append-only audit log.  The definitions follow the methods; the lemmas show that no
  equity stream lowers the floor, that the file restores the state and that the audit log is
  numbered without gaps.
\<close>

section \<open>State\<close>

record tdd_state =
  starting_balance_usd :: pyfloat
  trailing_dd_cap_usd :: pyfloat
  peak_equity_usd :: pyfloat
  frozen :: bool
  last_equity_usd :: "pyfloat option"
  last_update_utc :: json
  breach_count :: int

datatype tdd_event = EvInit | EvLoad | EvFreeze | EvBreach | EvReset

datatype tdd_extra =
    Reason string
  | FreezeInfo pyfloat pyfloat   \<comment> \<open>threshold, locked floor\<close>
  | BreachInfo pyfloat pyfloat   \<comment> \<open>equity, floor\<close>
  | ResetInfo tdd_state string string   \<comment> \<open>prior state, operator, reason\<close>

record audit_record =
  rec_seq :: nat
  rec_ts :: string
  rec_event :: tdd_event
  rec_state :: tdd_state
  rec_extra :: tdd_extra

text \<open>The lines of the audit file, and the counters of failed syncs.\<close>

record audit_log =
  records :: "audit_record list"
  fsync_failure_count :: nat
  last_fsync_error :: string

record tracker =
  st :: tdd_state
  audit :: audit_log
  state_file :: jfile

datatype tdd_error = TrailingDDCorrupt | ResetNotAcknowledged | TddPy pyexc

record eta_eval_snapshot =
  trailing_dd_limit_usd :: pyfloat
  distance_to_limit_usd :: pyfloat

section \<open>Audit log\<close>

definition next_seq :: "audit_log \<Rightarrow> nat" where
  "next_seq a = length (records a) + 1"

text \<open>\<open>sync\<close> is None when \<open>fsync\<close> succeeds and the error text when it raises.\<close>

definition audit_append ::
  "string \<Rightarrow> string option \<Rightarrow> tdd_event \<Rightarrow> tdd_state \<Rightarrow> tdd_extra \<Rightarrow> audit_log \<Rightarrow> audit_log" where
  "audit_append now sync ev s x a =
     (let r = \<lparr>rec_seq = next_seq a, rec_ts = now, rec_event = ev, rec_state = s, rec_extra = x\<rparr>;
          a' = a\<lparr>records := records a @ [r]\<rparr>
      in case sync of None \<Rightarrow> a'
         | Some err \<Rightarrow> a'\<lparr>fsync_failure_count := Suc (fsync_failure_count a),
                          last_fsync_error := err\<rparr>)"

section \<open>Persistence\<close>

definition state_json :: "tdd_state \<Rightarrow> json" where
  "state_json s = JObj
     [(''breach_count'', JInt (breach_count s)),
      (''frozen'', JBool (frozen s)),
      (''last_equity_usd'', jopt JFloat (last_equity_usd s)),
      (''last_update_utc'', last_update_utc s),
      (''peak_equity_usd'', JFloat (peak_equity_usd s)),
      (''starting_balance_usd'', JFloat (starting_balance_usd s)),
      (''trailing_dd_cap_usd'', JFloat (trailing_dd_cap_usd s))]"

definition write_state :: "tracker \<Rightarrow> tracker" where
  "write_state t = t\<lparr>state_file := Parsed (state_json (st t))\<rparr>"

text \<open>The checks of the constructor.\<close>

definition check_baselines :: "tdd_state \<Rightarrow> tdd_error + unit" where
  "check_baselines s =
     (if fle (starting_balance_usd s) (Fin 0) then Inl (TddPy ValueError)
      else if fle (trailing_dd_cap_usd s) (Fin 0) then Inl (TddPy ValueError)
      else Inr ())"

definition fresh_state :: "pyfloat \<Rightarrow> pyfloat \<Rightarrow> tdd_state" where
  "fresh_state start cap =
     \<lparr>starting_balance_usd = start, trailing_dd_cap_usd = cap, peak_equity_usd = start,
      frozen = False, last_equity_usd = None, last_update_utc = JNull, breach_count = 0\<rparr>"

abbreviation lift_py :: "pyexc + 'a \<Rightarrow> tdd_error + 'a" where
  "lift_py \<equiv> map_sum TddPy id"

text \<open>Reading the object back: the state \<open>load_or_init\<close> builds from the raw values.\<close>

definition state_of_dict ::
  "(string \<times> json) list \<Rightarrow> pyfloat \<Rightarrow> pyfloat \<Rightarrow> tdd_error + tdd_state" where
  "state_of_dict d lstart lcap =
     rbind (lift_py (as_float (jget d ''peak_equity_usd'' (JFloat lstart)))) (\<lambda>peak.
     rbind (if jget d ''last_equity_usd'' JNull \<noteq> JNull
            then map_sum TddPy Some (as_float (jget d ''last_equity_usd'' JNull))
            else Inr None) (\<lambda>leq.
     rbind (lift_py (as_int (jget d ''breach_count'' (JInt 0)))) (\<lambda>bc.
     Inr \<lparr>starting_balance_usd = lstart, trailing_dd_cap_usd = lcap, peak_equity_usd = peak,
          frozen = as_bool (jget d ''frozen'' (JBool False)), last_equity_usd = leq,
          last_update_utc = jget d ''last_update_utc'' JNull, breach_count = bc\<rparr>)))"

definition baseline_eps :: pyfloat where
  "baseline_eps = fl (1 / 1000000)"

definition load_or_init ::
  "jfile \<Rightarrow> audit_log \<Rightarrow> pyfloat \<Rightarrow> pyfloat \<Rightarrow> string \<Rightarrow> string option \<Rightarrow> tdd_error + tracker" where
  "load_or_init f a start cap now sync =
     (case f of
        Missing \<Rightarrow>
          (let s = fresh_state start cap
           in rbind (check_baselines s) (\<lambda>_.
              Inr \<lparr>st = s,
                   audit = audit_append now sync EvInit s (Reason ''fresh_state_file_created'') a,
                   state_file = Parsed (state_json s)\<rparr>))
      | Garbled \<Rightarrow> Inl TrailingDDCorrupt
      | Parsed (JObj d) \<Rightarrow>
          rbind (lift_py (as_float (jget d ''starting_balance_usd'' (JFloat (Fin 0))))) (\<lambda>lstart.
          rbind (lift_py (as_float (jget d ''trailing_dd_cap_usd'' (JFloat (Fin 0))))) (\<lambda>lcap.
          if flt baseline_eps (fabs (fsub lstart start)) then Inl (TddPy ValueError)
          else if flt baseline_eps (fabs (fsub lcap cap)) then Inl (TddPy ValueError)
          else
            rbind (state_of_dict d lstart lcap) (\<lambda>s.
            rbind (check_baselines s) (\<lambda>_.
            Inr \<lparr>st = s,
                 audit = audit_append now sync EvLoad s (Reason ''existing_state_file_loaded'') a,
                 state_file = f\<rparr>))))
      | Parsed _ \<Rightarrow> Inl (TddPy AttributeError))"

section \<open>Read accessors\<close>

definition floor_usd :: "tdd_state \<Rightarrow> pyfloat" where
  "floor_usd s = (if frozen s then starting_balance_usd s
                  else fsub (peak_equity_usd s) (trailing_dd_cap_usd s))"

definition freeze_threshold_usd :: "tdd_state \<Rightarrow> pyfloat" where
  "freeze_threshold_usd s = fadd (starting_balance_usd s) (trailing_dd_cap_usd s)"

definition snapshot :: "tdd_state \<Rightarrow> eta_eval_snapshot" where
  "snapshot s =
     (let mark = (case last_equity_usd s of Some e \<Rightarrow> e | None \<Rightarrow> peak_equity_usd s)
      in \<lparr>trailing_dd_limit_usd = trailing_dd_cap_usd s,
          distance_to_limit_usd = pymax (Fin 0) (fsub mark (floor_usd s))\<rparr>)"

section \<open>The tick path\<close>

text \<open>Peak and freeze first, then the mark and the breach count at the resulting floor.\<close>

definition advance_peak :: "pyfloat \<Rightarrow> tdd_state \<Rightarrow> tdd_state" where
  "advance_peak e s =
     (let s1 = (if \<not> frozen s \<and> flt (peak_equity_usd s) e then s\<lparr>peak_equity_usd := e\<rparr> else s)
      in if \<not> frozen s1 \<and> fle (freeze_threshold_usd s1) (peak_equity_usd s1)
         then s1\<lparr>frozen := True\<rparr> else s1)"

definition breached :: "pyfloat \<Rightarrow> tdd_state \<Rightarrow> bool" where
  "breached e s = fle e (floor_usd (advance_peak e s))"

definition tick :: "tdd_state \<Rightarrow> pyfloat \<times> string \<Rightarrow> tdd_state" where
  "tick s et =
     (case et of (e, now) \<Rightarrow>
        (let s1 = (advance_peak e s)\<lparr>last_equity_usd := Some e, last_update_utc := JStr now\<rparr>
         in if fle e (floor_usd s1) then s1\<lparr>breach_count := breach_count s1 + 1\<rparr> else s1))"

definition update_tdd ::
  "pyfloat \<Rightarrow> string \<Rightarrow> string option \<Rightarrow> tracker \<Rightarrow> tracker \<times> eta_eval_snapshot" where
  "update_tdd e now sync t =
     (let s0 = st t; s1 = tick s0 (e, now);
          t1 = write_state (t\<lparr>st := s1\<rparr>);
          a1 = (if \<not> frozen s0 \<and> frozen s1
                then audit_append now sync EvFreeze s1
                       (FreezeInfo (freeze_threshold_usd s1) (starting_balance_usd s1)) (audit t1)
                else audit t1);
          a2 = (if breached e s0
                then audit_append now sync EvBreach s1 (BreachInfo e (floor_usd s1)) a1
                else a1)
      in (t1\<lparr>audit := a2\<rparr>, snapshot s1))"

section \<open>Operator reset\<close>

definition reset_tdd ::
  "pyfloat \<Rightarrow> string \<Rightarrow> bool \<Rightarrow> string \<Rightarrow> string \<Rightarrow> string option \<Rightarrow> tracker \<Rightarrow> tdd_error + tracker" where
  "reset_tdd start operator ack reason now sync t =
     (if \<not> ack then Inl ResetNotAcknowledged
      else if strip operator = [] then Inl (TddPy ValueError)
      else if fle start (Fin 0) then Inl (TddPy ValueError)
      else let prior = st t; s = fresh_state start (trailing_dd_cap_usd prior);
               t1 = write_state (t\<lparr>st := s\<rparr>)
           in Inr (t1\<lparr>audit := audit_append now sync EvReset s
                                (ResetInfo prior operator reason) (audit t1)\<rparr>))"

section \<open>Well-formed states\<close>

text \<open>
  Positive finite baselines, a peak that is a float at or above the start, frozen only at
  the threshold, and below it otherwise (except that the fresh peak is the start itself).
\<close>

definition tdd_wf :: "tdd_state \<Rightarrow> bool" where
  "tdd_wf s \<longleftrightarrow>
     is_dbl (starting_balance_usd s) \<and> is_fin (starting_balance_usd s) \<and>
     is_dbl (trailing_dd_cap_usd s) \<and> is_fin (trailing_dd_cap_usd s) \<and>
     flt (Fin 0) (starting_balance_usd s) \<and> flt (Fin 0) (trailing_dd_cap_usd s) \<and>
     is_dbl (peak_equity_usd s) \<and> fle (starting_balance_usd s) (peak_equity_usd s) \<and>
     (frozen s \<longrightarrow> fle (freeze_threshold_usd s) (peak_equity_usd s)) \<and>
     (\<not> frozen s \<longrightarrow> flt (peak_equity_usd s) (freeze_threshold_usd s)
        \<or> peak_equity_usd s = starting_balance_usd s)"

section \<open>Lemmas: the floor\<close>

definition tick_ok :: "pyfloat \<times> string \<Rightarrow> bool" where
  "tick_ok et = is_dbl (fst et)"

lemma advance_peak_simps [simp]:
  "starting_balance_usd (advance_peak e s) = starting_balance_usd s"
  "trailing_dd_cap_usd (advance_peak e s) = trailing_dd_cap_usd s"
  "breach_count (advance_peak e s) = breach_count s"
  "last_equity_usd (advance_peak e s) = last_equity_usd s"
  by (simp_all add: advance_peak_def Let_def)

lemma tick_simps [simp]:
  "starting_balance_usd (tick s (e, now)) = starting_balance_usd s"
  "trailing_dd_cap_usd (tick s (e, now)) = trailing_dd_cap_usd s"
  "peak_equity_usd (tick s (e, now)) = peak_equity_usd (advance_peak e s)"
  "frozen (tick s (e, now)) = frozen (advance_peak e s)"
  "last_equity_usd (tick s (e, now)) = Some e"
  "last_update_utc (tick s (e, now)) = JStr now"
  by (simp_all add: tick_def Let_def)

lemma floor_cong:
  "frozen s = frozen t \<Longrightarrow> starting_balance_usd s = starting_balance_usd t \<Longrightarrow>
   peak_equity_usd s = peak_equity_usd t \<Longrightarrow> trailing_dd_cap_usd s = trailing_dd_cap_usd t \<Longrightarrow>
   floor_usd s = floor_usd t"
  by (simp add: floor_usd_def)

lemma floor_tick [simp]: "floor_usd (tick s (e, now)) = floor_usd (advance_peak e s)"
  by (rule floor_cong) simp_all

lemma breach_count_tick:
  "breach_count (tick s (e, now)) = breach_count s + (if breached e s then 1 else 0)"
proof -
  have "floor_usd ((advance_peak e s)\<lparr>last_equity_usd := Some e, last_update_utc := JStr now\<rparr>)
        = floor_usd (advance_peak e s)"
    by (rule floor_cong) simp_all
  then show ?thesis by (simp add: tick_def breached_def Let_def)
qed

lemma threshold_tick [simp]:
  "freeze_threshold_usd (tick s (e, now)) = freeze_threshold_usd s"
  "freeze_threshold_usd (advance_peak e s) = freeze_threshold_usd s"
  by (simp_all add: freeze_threshold_usd_def)

text \<open>The three outcomes of a tick: already frozen, freezing now, still trailing.\<close>

definition next_peak :: "pyfloat \<Rightarrow> tdd_state \<Rightarrow> pyfloat" where
  "next_peak e s = (if flt (peak_equity_usd s) e then e else peak_equity_usd s)"

lemma advance_peak_frozen: "frozen s \<Longrightarrow> advance_peak e s = s"
  by (simp add: advance_peak_def)

lemma advance_peak_trailing:
  "\<not> frozen s \<Longrightarrow>
   peak_equity_usd (advance_peak e s) = next_peak e s \<and>
   frozen (advance_peak e s) = fle (freeze_threshold_usd s) (next_peak e s)"
  by (simp add: advance_peak_def next_peak_def Let_def freeze_threshold_usd_def)

lemma peak_mono: "peak_equity_usd s \<noteq> NaN \<Longrightarrow> fle (peak_equity_usd s) (next_peak e s)"
  by (auto simp: next_peak_def flt_imp_fle)

lemma tdd_wf_tick:
  assumes "tdd_wf s" "is_dbl e"
  shows "tdd_wf (tick s (e, now))"
proof (cases "frozen s")
  case True
  with assms show ?thesis by (simp add: tdd_wf_def advance_peak_frozen)
next
  case False
  have le: "fle (starting_balance_usd s) (next_peak e s)"
    using assms(1) peak_mono [of s e] by (auto simp: tdd_wf_def intro: fle_trans dest: fle_not_NaN)
  have "freeze_threshold_usd s \<noteq> NaN"
    using assms(1) by (auto simp: tdd_wf_def freeze_threshold_usd_def elim!: is_fin_E)
  then have "flt (next_peak e s) (freeze_threshold_usd s)"
    if "\<not> fle (freeze_threshold_usd s) (next_peak e s)"
    using that le fle_not_NaN not_fle by blast
  with assms False le show ?thesis
    by (auto simp: tdd_wf_def advance_peak_trailing next_peak_def)
qed

lemma peak_not_inf:
  assumes "tdd_wf s" "\<not> frozen s"
  shows "is_fin (peak_equity_usd s)"
  using assms
  by (cases "peak_equity_usd s") (auto simp: tdd_wf_def elim!: is_fin_E)

lemma floor_le_start:
  assumes wf: "tdd_wf s"
  shows "fle (floor_usd s) (starting_balance_usd s)"
proof (cases "frozen s")
  case True
  with wf show ?thesis by (auto simp: floor_usd_def tdd_wf_def elim!: is_fin_E)
next
  case False
  obtain a b p where ab: "starting_balance_usd s = Fin a" "trailing_dd_cap_usd s = Fin b"
    and p: "peak_equity_usd s = Fin p"
    using wf peak_not_inf [OF wf False] by (auto simp: tdd_wf_def elim!: is_fin_E)
  have d: "is_dbl (Fin a)" "is_dbl (Fin p)" "0 < b"
    using wf ab p by (auto simp: tdd_wf_def)
  have "flt (Fin p) (fl (a + b)) \<or> p = a"
    using wf False ab p by (auto simp: tdd_wf_def freeze_threshold_usd_def)
  moreover have "fle (fl (a + b)) (Fin p)" if "a + b \<le> p"
    using that d(2) by (intro fl_le)
  ultimately have "p - b \<le> a"
    using d(3) flt_not_fle by (metis add.commute diff_le_eq less_imp_le linorder_le_cases add_increasing2 order_refl)
  then show ?thesis
    using False ab p d by (simp add: floor_usd_def fl_le)
qed

lemma floor_mono_tick:
  assumes wf: "tdd_wf s" and e: "is_dbl e"
  shows "fle (floor_usd s) (floor_usd (tick s (e, now)))"
proof (cases "frozen s")
  case True
  with wf show ?thesis
    by (auto simp: advance_peak_frozen floor_usd_def tdd_wf_def elim!: is_fin_E)
next
  case False
  show ?thesis
  proof (cases "frozen (tick s (e, now))")
    case True
    then have "floor_usd (tick s (e, now)) = starting_balance_usd s"
      by (simp only: floor_usd_def) simp
    then show ?thesis using floor_le_start [OF wf] by simp
  next
    case trailing: False
    have "is_fin (peak_equity_usd (tick s (e, now)))"
      using trailing tdd_wf_tick [OF wf e] peak_not_inf by blast
    moreover have "fle (peak_equity_usd s) (peak_equity_usd (tick s (e, now)))"
      using False peak_mono wf by (auto simp: advance_peak_trailing tdd_wf_def dest: fle_not_NaN)
    ultimately have "fle (fsub (peak_equity_usd s) (trailing_dd_cap_usd s))
        (fsub (peak_equity_usd (tick s (e, now))) (trailing_dd_cap_usd s))"
      using wf peak_not_inf [OF wf False]
      by (auto simp: tdd_wf_def fl_mono elim!: is_fin_E)
    with False trailing show ?thesis by (simp add: floor_usd_def)
  qed
qed

section \<open>Lemmas: persistence\<close>

text \<open>The state a reader builds from a written object, for any requested baselines.\<close>

definition restore_state :: "json \<Rightarrow> tdd_state option" where
  "restore_state j =
     (case j of
        JObj d \<Rightarrow>
          (case rbind (lift_py (as_float (jget d ''starting_balance_usd'' (JFloat (Fin 0))))) (\<lambda>a.
                rbind (lift_py (as_float (jget d ''trailing_dd_cap_usd'' (JFloat (Fin 0))))) (\<lambda>b.
                state_of_dict d a b)) of
             Inr s \<Rightarrow> Some s | Inl _ \<Rightarrow> None)
      | _ \<Rightarrow> None)"

definition dict_of_state :: "tdd_state \<Rightarrow> (string \<times> json) list" where
  "dict_of_state s = (case state_json s of JObj d \<Rightarrow> d | _ \<Rightarrow> [])"

lemma state_json_dict: "state_json s = JObj (dict_of_state s)"
  by (simp add: dict_of_state_def state_json_def)

lemma dict_of_state_get [simp]:
  "jget (dict_of_state s) ''starting_balance_usd'' v = JFloat (starting_balance_usd s)"
  "jget (dict_of_state s) ''trailing_dd_cap_usd'' v = JFloat (trailing_dd_cap_usd s)"
  "jget (dict_of_state s) ''peak_equity_usd'' v = JFloat (peak_equity_usd s)"
  "jget (dict_of_state s) ''last_equity_usd'' v = jopt JFloat (last_equity_usd s)"
  "jget (dict_of_state s) ''last_update_utc'' v = last_update_utc s"
  "jget (dict_of_state s) ''breach_count'' v = JInt (breach_count s)"
  "jget (dict_of_state s) ''frozen'' v = JBool (frozen s)"
  by (simp_all add: dict_of_state_def state_json_def jget_def dget_or_def)

lemma state_of_dict_of_state:
  "state_of_dict (dict_of_state s) (starting_balance_usd s) (trailing_dd_cap_usd s) = Inr s"
  by (cases "last_equity_usd s") (simp_all add: state_of_dict_def jopt_def)

lemma restore_state_json: "restore_state (state_json s) = Some s"
  by (simp add: restore_state_def state_json_dict state_of_dict_of_state)

interpretation tdd: durable_machine state_json restore_state tdd_wf tick tick_ok
  by unfold_locales (auto simp: restore_state_json tick_ok_def intro: tdd_wf_tick)

text \<open>What no tick goes back on: the floor, the freeze, the peak, the breach count.\<close>

definition tdd_le :: "tdd_state \<Rightarrow> tdd_state \<Rightarrow> bool" where
  "tdd_le s t \<longleftrightarrow>
     fle (floor_usd s) (floor_usd t) \<and> (frozen s \<longrightarrow> frozen t \<and> floor_usd t = floor_usd s) \<and>
     fle (peak_equity_usd s) (peak_equity_usd t) \<and> breach_count s \<le> breach_count t \<and>
     starting_balance_usd t = starting_balance_usd s \<and>
     trailing_dd_cap_usd t = trailing_dd_cap_usd s"

lemma tdd_le_tick:
  assumes "tdd_wf s" "is_dbl e"
  shows "tdd_le s (tick s (e, now))"
proof (cases "frozen s")
  case True
  with assms floor_mono_tick [OF assms] show ?thesis
    by (auto simp: tdd_le_def advance_peak_frozen breach_count_tick floor_usd_def tdd_wf_def
        dest: fle_not_NaN)
next
  case False
  with assms floor_mono_tick [OF assms] peak_mono [of s e] show ?thesis
    by (auto simp: tdd_le_def advance_peak_trailing breach_count_tick tdd_wf_def
        dest: fle_not_NaN)
qed

interpretation tdd_up: ordered_machine tick tdd_wf tick_ok tdd_le
proof unfold_locales
  show "tdd_le s s" if "tdd_wf s" for s
    using that floor_le_start [OF that] by (auto simp: tdd_le_def tdd_wf_def dest: fle_not_NaN)
  show "tdd_le s u" if "tdd_le s t" "tdd_le t u" for s t u
    using that by (auto simp: tdd_le_def intro: fle_trans)
  show "tdd_le s (tick s e)" if "tdd_wf s" "tick_ok e" for s e
    using that by (cases e) (simp add: tdd_le_tick tick_ok_def)
qed

section \<open>Lemmas: the audit log\<close>

definition audit_numbered :: "audit_log \<Rightarrow> bool" where
  "audit_numbered a \<longleftrightarrow> map rec_seq (records a) = [1..<Suc (length (records a))]"

lemma records_append [simp]:
  "records (audit_append now sync ev s x a) =
   records a @ [\<lparr>rec_seq = next_seq a, rec_ts = now, rec_event = ev, rec_state = s, rec_extra = x\<rparr>]"
  by (simp add: audit_append_def Let_def split: option.splits)

lemma audit_numbered_append: "audit_numbered a \<Longrightarrow> audit_numbered (audit_append now sync ev s x a)"
  by (simp add: audit_numbered_def next_seq_def)

definition update_step :: "tracker \<Rightarrow> pyfloat \<times> string \<times> string option \<Rightarrow> tracker" where
  "update_step t u = (case u of (e, now, sync) \<Rightarrow> fst (update_tdd e now sync t))"

definition update_ok :: "pyfloat \<times> string \<times> string option \<Rightarrow> bool" where
  "update_ok u = is_dbl (fst u)"

lemma update_step_simps [simp]:
  "st (update_step t (e, now, sync)) = tick (st t) (e, now)"
  "state_file (update_step t (e, now, sync)) = Parsed (state_json (tick (st t) (e, now)))"
  by (simp_all add: update_step_def update_tdd_def write_state_def Let_def)

text \<open>The events one update logs, in order.\<close>

definition logged :: "pyfloat \<Rightarrow> tdd_state \<Rightarrow> tdd_event list" where
  "logged e s = (if \<not> frozen s \<and> frozen (advance_peak e s) then [EvFreeze] else [])
                @ (if breached e s then [EvBreach] else [])"

lemma update_step_log:
  "\<exists>rs. records (audit (update_step t (e, now, sync))) = records (audit t) @ rs
        \<and> map rec_event rs = logged e (st t)"
  by (simp add: update_step_def update_tdd_def write_state_def logged_def Let_def)

lemma update_step_numbered:
  "audit_numbered (audit t) \<Longrightarrow> audit_numbered (audit (update_step t u))"
  by (cases u)
    (simp add: update_step_def update_tdd_def write_state_def Let_def audit_numbered_append)

definition tracker_inv :: "tracker \<Rightarrow> bool" where
  "tracker_inv t \<longleftrightarrow> tdd_wf (st t) \<and> state_file t = Parsed (state_json (st t))
                    \<and> audit_numbered (audit t)"

interpretation trk: machine update_step tracker_inv update_ok
proof unfold_locales
  show "tracker_inv (update_step t u)" if "tracker_inv t" "update_ok u" for t u
    using that update_step_numbered [of t u]
    by (cases u) (auto simp: tracker_inv_def update_ok_def intro: tdd_wf_tick)
qed

text \<open>A run of updates moves the state as a run of ticks does.\<close>

lemma st_run:
  "st (foldl update_step t us) = foldl tick (st t) (map (\<lambda>(e, now, sync). (e, now)) us)"
  by (induction us arbitrary: t) auto

text \<open>How many ticks of a run were at or below the floor in force.\<close>

fun breaches_in :: "tdd_state \<Rightarrow> (pyfloat \<times> string) list \<Rightarrow> nat" where
  "breaches_in s [] = 0"
| "breaches_in s ((e, now) # us) =
     (if breached e s then 1 else 0) + breaches_in (tick s (e, now)) us"

lemma breach_count_run:
  "breach_count (foldl tick s us) = breach_count s + int (breaches_in s us)"
  by (induction s us rule: breaches_in.induct) (simp_all add: breach_count_tick)

lemma log_run:
  "\<exists>rs. records (audit (foldl update_step t us)) = records (audit t) @ rs \<and>
        count_list (map rec_event rs) EvBreach
          = breaches_in (st t) (map (\<lambda>(e, now, sync). (e, now)) us) \<and>
        count_list (map rec_event rs) EvFreeze
          = (if \<not> frozen (st t) \<and> frozen (st (foldl update_step t us)) then 1 else 0)"
proof (induction us arbitrary: t)
  case Nil
  then show ?case by simp
next
  case (Cons u us)
  obtain e now sync where u: "u = (e, now, sync)" by (cases u)
  obtain r1 where r1: "records (audit (update_step t u)) = records (audit t) @ r1"
    "map rec_event r1 = logged e (st t)"
    using update_step_log u by blast
  obtain rs where rs:
    "records (audit (foldl update_step (update_step t u) us)) = records (audit (update_step t u)) @ rs"
    "count_list (map rec_event rs) EvBreach
       = breaches_in (st (update_step t u)) (map (\<lambda>(e, now, sync). (e, now)) us)"
    "count_list (map rec_event rs) EvFreeze = (if \<not> frozen (st (update_step t u))
       \<and> frozen (st (foldl update_step (update_step t u) us)) then 1 else 0)"
    using Cons.IH by blast
  have keep: "frozen s \<Longrightarrow> frozen (foldl tick s vs)" for s vs
    by (induction vs arbitrary: s) (auto simp: advance_peak_frozen)
  have fz: "frozen (st (update_step t u)) \<Longrightarrow> frozen (st (foldl update_step (update_step t u) us))"
    by (simp add: st_run keep)
  have fz0: "frozen (st t) \<Longrightarrow> frozen (st (update_step t u))"
    by (simp add: u advance_peak_frozen)
  show ?case
    using r1 rs fz fz0 by (intro exI [of _ "r1 @ rs"]) (auto simp: u logged_def)
qed

section \<open>Lemmas: the snapshot\<close>

lemma distance_zero_iff:
  assumes "tdd_wf s" "last_equity_usd s = Some e" "is_dbl e" "is_fin e"
  shows "distance_to_limit_usd (snapshot s) = Fin 0 \<longleftrightarrow> fle e (floor_usd s)"
proof -
  have nn: "floor_usd s \<noteq> NaN" "floor_usd s \<noteq> PInf" "is_dbl (floor_usd s)"
    using floor_le_start [OF assms(1)] assms(1)
    by (auto simp: tdd_wf_def floor_usd_def elim!: is_fin_E)
  have pos: "flt (Fin 0) (fsub e (floor_usd s)) = flt (floor_usd s) e"
    using assms nn by (intro fsub_pos_iff) (auto elim!: is_fin_E)
  have "fle e (floor_usd s) = (\<not> flt (floor_usd s) e)"
    using nn assms(4) not_flt [of "floor_usd s" e] by (auto elim!: is_fin_E)
  moreover have "\<not> flt (Fin 0) (Fin 0)" by simp
  ultimately show ?thesis
    using pos assms(2) by (auto simp: snapshot_def pymax_def)
qed

section \<open>Properties\<close>

text \<open>
  A 50K account with a 2,500 cap, and a stream that runs up, freezes, and falls through the
  locked floor: the concrete input of the witnesses.
\<close>

definition eval_50k :: tdd_state where
  "eval_50k = fresh_state (Fin 50000) (Fin 2500)"

definition eval_ticks :: "(pyfloat \<times> string) list" where
  "eval_ticks = [(Fin 51000, ''t1''), (Fin 52600, ''t2''), (Fin 49900, ''t3'')]"

definition eval_tracker :: tracker where
  "eval_tracker =
     \<lparr>st = eval_50k, audit = \<lparr>records = [], fsync_failure_count = 0, last_fsync_error = []\<rparr>,
      state_file = Parsed (state_json eval_50k)\<rparr>"

definition eval_updates :: "(pyfloat \<times> string \<times> string option) list" where
  "eval_updates = [(Fin 51000, ''t1'', None), (Fin 52600, ''t2'', None), (Fin 49900, ''t3'', None)]"

lemma eval_50k_wf: "tdd_wf eval_50k"
  by (simp add: eval_50k_def fresh_state_def tdd_wf_def freeze_threshold_usd_def)

lemma eval_ticks_ok: "list_all tick_ok eval_ticks"
  by (simp add: eval_ticks_def tick_ok_def)

lemma eval_tracker_inv: "tracker_inv eval_tracker"
  by (simp add: tracker_inv_def eval_tracker_def eval_50k_wf audit_numbered_def)

lemma eval_updates_ok: "list_all update_ok eval_updates"
  by (simp add: eval_updates_def update_ok_def)

lemma eval_run:
  "floor_usd eval_50k = Fin 47500"
  "frozen (foldl tick eval_50k eval_ticks)"
  "floor_usd (foldl tick eval_50k eval_ticks) = Fin 50000"
  "breach_count (foldl tick eval_50k eval_ticks) = 1"
  by (simp_all add: eval_50k_def fresh_state_def eval_ticks_def tick_def advance_peak_def
      freeze_threshold_usd_def floor_usd_def Let_def)

text \<open>
  C7. The trailing floor is a ratchet: over any sequence of ticks with any floats as marks
  (infinities and NaN included), the floor never moves down, and it never rises above the
  starting balance.
\<close>

theorem floor_ratchets:
  assumes "tdd_wf s" "list_all tick_ok ts"
  shows "fle (floor_usd s) (floor_usd (foldl tick s ts))
         \<and> fle (floor_usd (foldl tick s ts)) (starting_balance_usd s)"
proof -
  have le: "tdd_le s (foldl tick s ts)" using assms by (rule tdd_up.run_le)
  moreover have "tdd_wf (foldl tick s ts)" using assms by (rule tdd.run_inv)
  ultimately show ?thesis using floor_le_start by (fastforce simp: tdd_le_def)
qed

theorem floor_ratchets_witness:
  "fle (Fin 47500) (floor_usd (foldl tick eval_50k eval_ticks))
   \<and> floor_usd (foldl tick eval_50k eval_ticks) = Fin 50000"
  using floor_ratchets [OF eval_50k_wf eval_ticks_ok] by (simp add: eval_run)

text \<open>
  The freeze is permanent: once the tracker is frozen no tick unfreezes it, and from then
  on the floor is the starting balance.
\<close>

theorem freeze_is_permanent:
  assumes "tdd_wf s" "frozen s" "list_all tick_ok ts"
  shows "frozen (foldl tick s ts) \<and> floor_usd (foldl tick s ts) = starting_balance_usd s"
proof -
  have "tdd_le s (foldl tick s ts)" using assms(1,3) by (rule tdd_up.run_le)
  then show ?thesis using assms(2) by (simp add: tdd_le_def floor_usd_def)
qed

theorem freeze_is_permanent_witness:
  "floor_usd (foldl tick (foldl tick eval_50k eval_ticks) [(Fin 48000, ''t4'')]) = Fin 50000"
proof -
  have "starting_balance_usd (foldl tick eval_50k eval_ticks) = Fin 50000"
    by (simp add: eval_ticks_def eval_50k_def fresh_state_def)
  moreover have "list_all tick_ok [(Fin 48000, ''t4'')]" by (simp add: tick_ok_def)
  ultimately show ?thesis
    using freeze_is_permanent [OF tdd.run_inv [OF eval_50k_wf eval_ticks_ok] eval_run(2)] by metis
qed

text \<open>
  While the tracker has not frozen, its peak is the running maximum, in Python's sense of
  \<open>max\<close>, of the marks seen so far: no mark is missed and nothing else moves it.
\<close>

theorem peak_is_running_max:
  assumes "\<not> frozen (foldl tick s ts)"
  shows "peak_equity_usd (foldl tick s ts) = foldl pymax (peak_equity_usd s) (map fst ts)"
  using assms
proof (induction ts arbitrary: s)
  case Nil
  then show ?case by simp
next
  case (Cons et ts)
  obtain e now where et: "et = (e, now)" by (cases et)
  have keep: "frozen (foldl tick s' us)" if "frozen s'" for s' us
    using that by (induction us arbitrary: s') (auto simp: advance_peak_frozen)
  have "\<not> frozen (tick s et)" using Cons.prems keep by force
  then have "\<not> frozen s" by (auto simp: et advance_peak_frozen)
  then show ?case
    using Cons.IH [of "tick s et"] Cons.prems
    by (simp add: et advance_peak_trailing next_peak_def pymax_def)
qed

theorem peak_is_running_max_witness:
  "peak_equity_usd (foldl tick eval_50k [(Fin 51000, ''t1''), (Fin 50500, ''t2'')]) = Fin 51000"
proof -
  have "\<not> frozen (foldl tick eval_50k [(Fin 51000, ''t1''), (Fin 50500, ''t2'')])"
    by (simp add: eval_50k_def fresh_state_def tick_def advance_peak_def
        freeze_threshold_usd_def Let_def)
  from peak_is_running_max [OF this] show ?thesis
    by (simp add: eval_50k_def fresh_state_def pymax_def)
qed

text \<open>
  C26. A restart does not lose the high-water mark: whatever updates a tracker has processed,
  loading its state file with the same baselines succeeds and gives back exactly the state it
  had, with a \<open>load\<close> record added to the audit log.
\<close>

theorem restart_restores_state:
  assumes "tracker_inv t" "list_all update_ok us"
  shows "\<exists>t'. load_or_init (state_file (foldl update_step t us)) (audit (foldl update_step t us))
                (starting_balance_usd (st t)) (trailing_dd_cap_usd (st t)) now sync = Inr t'
             \<and> st t' = st (foldl update_step t us)
             \<and> length (records (audit t')) = Suc (length (records (audit (foldl update_step t us))))"
proof -
  let ?t = "foldl update_step t us"
  have inv: "tracker_inv ?t" using assms by (rule trk.run_inv)
  then have wf: "tdd_wf (st ?t)" and f: "state_file ?t = Parsed (state_json (st ?t))"
    by (simp_all add: tracker_inv_def)
  have base: "starting_balance_usd (foldl tick s ts) = starting_balance_usd s"
    "trailing_dd_cap_usd (foldl tick s ts) = trailing_dd_cap_usd s" for s ts
    by (induction ts arbitrary: s) auto
  have same: "starting_balance_usd (st ?t) = starting_balance_usd (st t)"
    "trailing_dd_cap_usd (st ?t) = trailing_dd_cap_usd (st t)"
    by (simp_all add: st_run base)
  have eps: "\<not> flt baseline_eps (Fin 0)"
    using fl_ge [of 0 "1 / 1000000"] flt_not_fle by (auto simp: baseline_eps_def)
  have near: "\<not> flt baseline_eps (fabs (fsub x x))" if "is_fin x" for x
    using that eps by (auto elim!: is_fin_E)
  have "check_baselines (st ?t) = Inr ()"
    using wf flt_not_fle by (auto simp: check_baselines_def tdd_wf_def)
  then show ?thesis
    using wf same near state_of_dict_of_state [of "st ?t"]
    by (auto simp: load_or_init_def f state_json_dict tdd_wf_def)
qed

theorem restart_restores_state_witness:
  "\<exists>t'. load_or_init (state_file (foldl update_step eval_tracker eval_updates))
          (audit (foldl update_step eval_tracker eval_updates)) (Fin 50000) (Fin 2500) ''boot'' None
        = Inr t' \<and> frozen (st t')"
proof -
  have "map (\<lambda>(e, now, sync). (e, now)) eval_updates = eval_ticks"
    by (simp add: eval_updates_def eval_ticks_def)
  then have "frozen (st (foldl update_step eval_tracker eval_updates))"
    using eval_run(2) by (simp add: st_run eval_tracker_def)
  moreover have "starting_balance_usd (st eval_tracker) = Fin 50000"
    "trailing_dd_cap_usd (st eval_tracker) = Fin 2500"
    by (simp_all add: eval_tracker_def eval_50k_def fresh_state_def)
  ultimately show ?thesis
    using restart_restores_state [OF eval_tracker_inv eval_updates_ok, of "''boot''" None] by auto
qed

text \<open>
  The audit log is complete and append-only: a run keeps every earlier record, numbers
  the records without gaps, adds one \<open>breach\<close> record for every tick at or below the floor in
  force (the same number the breach count grows by), and one \<open>freeze\<close> record exactly when the
  run froze the tracker.
\<close>

theorem audit_log_complete:
  assumes "tracker_inv t" "list_all update_ok us"
  shows "\<exists>rs. records (audit (foldl update_step t us)) = records (audit t) @ rs \<and>
           map rec_seq (records (audit (foldl update_step t us)))
             = [1..<Suc (length (records (audit t) @ rs))] \<and>
           breach_count (st (foldl update_step t us))
             = breach_count (st t) + int (count_list (map rec_event rs) EvBreach) \<and>
           count_list (map rec_event rs) EvFreeze
             = (if \<not> frozen (st t) \<and> frozen (st (foldl update_step t us)) then 1 else 0)"
proof -
  have "audit_numbered (audit (foldl update_step t us))"
    using trk.run_inv [OF assms] by (simp add: tracker_inv_def)
  then have n: "map rec_seq (records (audit (foldl update_step t us)))
      = [1..<Suc (length (records (audit (foldl update_step t us))))]"
    by (simp only: audit_numbered_def)
  have b: "breach_count (st (foldl update_step t us)) = breach_count (st t)
      + int (breaches_in (st t) (map (\<lambda>(e, now, sync). (e, now)) us))"
    by (simp add: st_run breach_count_run)
  obtain rs where "records (audit (foldl update_step t us)) = records (audit t) @ rs"
    "count_list (map rec_event rs) EvBreach
       = breaches_in (st t) (map (\<lambda>(e, now, sync). (e, now)) us)"
    "count_list (map rec_event rs) EvFreeze
       = (if \<not> frozen (st t) \<and> frozen (st (foldl update_step t us)) then 1 else 0)"
    using log_run by blast
  then show ?thesis using n b by (intro exI [of _ rs]) (simp only: simp_thms)
qed

theorem audit_log_complete_witness:
  "\<exists>rs. records (audit (foldl update_step eval_tracker eval_updates)) = rs
        \<and> map rec_seq rs = [1, 2] \<and> count_list (map rec_event rs) EvBreach = 1"
proof -
  let ?t = "foldl update_step eval_tracker eval_updates"
  obtain rs where rs: "records (audit ?t) = rs"
    "map rec_seq rs = [1..<Suc (length rs)]"
    "breach_count (st ?t) = breach_count (st eval_tracker) + int (count_list (map rec_event rs) EvBreach)"
    "count_list (map rec_event rs) EvFreeze
       = (if \<not> frozen (st eval_tracker) \<and> frozen (st ?t) then 1 else 0)"
    using audit_log_complete [OF eval_tracker_inv eval_updates_ok]
    by (auto simp: eval_tracker_def)
  have "st ?t = foldl tick eval_50k eval_ticks"
    by (simp add: st_run eval_tracker_def eval_updates_def eval_ticks_def)
  then have "count_list (map rec_event rs) EvBreach = 1"
    using rs(3) eval_run(4) by (simp add: eval_tracker_def eval_50k_def fresh_state_def)
  moreover have "length rs = 2"
    using rs(1) [symmetric]
    by (simp add: eval_tracker_def eval_50k_def fresh_state_def eval_updates_def update_step_def
        update_tdd_def write_state_def tick_def breached_def advance_peak_def
        freeze_threshold_usd_def floor_usd_def Let_def)
  ultimately show ?thesis using rs by (simp add: upt_rec)
qed

text \<open>
  The distance the snapshot reports is zero exactly when the mark is at or below the
  floor, despite rounding: a finite mark one cent (or one unit in the last place) above the
  floor still reports a positive distance.
\<close>

theorem snapshot_zero_iff_breached:
  assumes "tdd_wf s" "is_dbl e" "is_fin e"
  shows "distance_to_limit_usd (snapshot (tick s (e, now))) = Fin 0 \<longleftrightarrow> breached e s"
  using distance_zero_iff [OF tdd_wf_tick [OF assms(1,2)], of _ e] assms(2,3)
  by (simp add: breached_def)

theorem snapshot_zero_iff_breached_witness:
  "distance_to_limit_usd (snapshot (tick eval_50k (Fin 47500, ''t''))) = Fin 0"
  using snapshot_zero_iff_breached [OF eval_50k_wf, of "Fin 47500" "''t''"]
  by (simp add: breached_def advance_peak_def eval_50k_def fresh_state_def
      freeze_threshold_usd_def floor_usd_def)

text \<open>
  A NaN mark is not counted as a breach, logs nothing and moves neither peak nor floor,
  but the snapshot it returns has distance zero, so the kill switch still sees an exhausted
  cushion.
\<close>

theorem nan_mark:
  "breach_count (tick s (NaN, now)) = breach_count s
   \<and> records (audit (fst (update_tdd NaN now sync (t\<lparr>st := s\<rparr>)))) = records (audit t)
       @ (if \<not> frozen s \<and> fle (freeze_threshold_usd s) (peak_equity_usd s)
          then [\<lparr>rec_seq = next_seq (audit t), rec_ts = now, rec_event = EvFreeze,
                 rec_state = tick s (NaN, now),
                 rec_extra = FreezeInfo (freeze_threshold_usd s) (starting_balance_usd s)\<rparr>]
          else [])
   \<and> distance_to_limit_usd (snapshot (tick s (NaN, now))) = Fin 0"
proof -
  have b: "\<not> breached NaN s" by (simp add: breached_def)
  have p: "peak_equity_usd (advance_peak NaN s) = peak_equity_usd s"
    by (simp add: advance_peak_def)
  have f: "(\<not> frozen s \<and> frozen (advance_peak NaN s))
           = (\<not> frozen s \<and> fle (freeze_threshold_usd s) (peak_equity_usd s))"
    by (auto simp: advance_peak_trailing next_peak_def)
  have d: "fsub NaN y = NaN" for y by (cases y) (simp_all add: fsub_def)
  show ?thesis
    using b f by (simp add: breach_count_tick update_tdd_def write_state_def Let_def snapshot_def
        d pymax_def next_seq_def)
qed

text \<open>
  Reset is refused without the acknowledgement, without an operator name, or with a
  starting balance that is not positive; otherwise it installs a fresh state at the new
  balance under the old cap, and appends one record that carries the state it destroyed.
\<close>

theorem reset_guarded:
  "(\<not> ack \<longrightarrow> reset_tdd start op ack why now sync t = Inl ResetNotAcknowledged)
   \<and> (ack \<and> (strip op = [] \<or> fle start (Fin 0)) \<longrightarrow>
        reset_tdd start op ack why now sync t = Inl (TddPy ValueError))
   \<and> (ack \<and> strip op \<noteq> [] \<and> \<not> fle start (Fin 0) \<longrightarrow>
        (\<exists>t'. reset_tdd start op ack why now sync t = Inr t'
           \<and> st t' = fresh_state start (trailing_dd_cap_usd (st t))
           \<and> state_file t' = Parsed (state_json (st t'))
           \<and> (\<exists>r. records (audit t') = records (audit t) @ [r] \<and> rec_event r = EvReset
                \<and> rec_extra r = ResetInfo (st t) op why)))"
  by (simp add: reset_tdd_def write_state_def Let_def)

theorem reset_guarded_witness:
  "\<exists>t'. reset_tdd (Fin 150000) ''ed'' True ''new'' ''t'' None eval_tracker = Inr t'"
proof -
  have "strip ''ed'' \<noteq> []" by code_simp
  then show ?thesis
    using reset_guarded [of True "Fin 150000" "''ed''" "''new''" "''t''" None eval_tracker] by auto
qed

end
