(* ===== verification/Kill_Switch.thy ===== *)
theory Kill_Switch
  imports Durable
begin

text \<open>
  \<open>core/kill_switch_runtime.py\<close>: the kill-switch policy.  The configuration is the value the
  YAML loader returns (a parameter); each check reads its section of it with the code's
  defaults and coercions, and may raise what they raise.  \<open>evaluate\<close> composes the checks in
  the code's order: the global trip alone, or every other trip, or the single
  \<open>CONTINUE\<close> verdict.  A reason is kept as the values its message interpolates.
\<close>

section \<open>Verdicts and snapshots\<close>

datatype kill_action =
    CONTINUE | HALVE_SIZE | PAUSE_NEW_ENTRIES | FLATTEN_BOT | FLATTEN_TIER_B
  | FLATTEN_ALL | FLATTEN_TIER_A_PREEMPTIVE

datatype kill_severity = INFO | WARN | CRITICAL

datatype kill_reason =
    PortfolioDD pyfloat pyfloat
  | DailyLoss pyfloat pyfloat
  | CushionSpent pyfloat pyfloat
  | PairsCorrelated nat int pyfloat "string list"
  | FundingHard string pyfloat pyfloat
  | FundingSoft string pyfloat pyfloat
  | SessionLoss string pyfloat pyfloat
  | BucketDrawdown string pyfloat pyfloat
  | ConsecutiveLosses string int int
  | NoTrip

record kill_verdict =
  kv_action :: kill_action
  kv_severity :: kill_severity
  kv_reason :: kill_reason
  kv_scope :: string
  kv_evidence :: "(string \<times> json) list"

record bot_snapshot =
  bot_name :: string
  tier :: string
  equity_usd :: pyfloat
  bot_peak_usd :: pyfloat
  session_realized_pnl_usd :: pyfloat
  consecutive_losses :: int

record portfolio_snapshot =
  total_equity_usd :: pyfloat
  portfolio_peak_usd :: pyfloat
  daily_realized_pnl_usd :: pyfloat

type_synonym corr_snapshot = "(string \<times> pyfloat) list"
type_synonym funding_snapshot = "(string \<times> pyfloat) list"

text \<open>\<open>ApexEvalSnapshot\<close>: the cap and the distance to the trailing limit.\<close>

type_synonym eval_snapshot = "pyfloat \<times> pyfloat"

section \<open>Tick cadence\<close>

datatype cadence_error = CadenceTooSlow | CadenceValue

definition validate_tick_cadence ::
  "pyfloat \<Rightarrow> pyfloat \<Rightarrow> pyfloat \<Rightarrow> pyfloat \<Rightarrow> bool \<Rightarrow> cadence_error + unit" where
  "validate_tick_cadence interval cushion max_move safety live =
     (if fle interval (Fin 0) then Inl CadenceValue
      else if fle cushion (Fin 0) then Inl CadenceValue
      else if fle max_move (Fin 0) then Inl CadenceValue
      else if fle safety (Fin 0) then Inl CadenceValue
      else if \<not> live then Inr ()
      else if flt cushion (fmul (fmul interval max_move) safety) then Inl CadenceTooSlow
      else Inr ())"

section \<open>Configuration access\<close>

record kill_switch =
  ks_global :: json
  ks_tier_a :: json
  ks_tier_b :: json

text \<open>\<open>x or {}\<close>, \<open>d.get(k, default)\<close> on a value that may not be a dictionary.\<close>

definition or_empty :: "json \<Rightarrow> json" where
  "or_empty v = (if as_bool v then v else JObj [])"

definition cfg_get :: "json \<Rightarrow> string \<Rightarrow> json \<Rightarrow> pyexc + json" where
  "cfg_get v k dflt = (case v of JObj d \<Rightarrow> Inr (jget d k dflt) | _ \<Rightarrow> Inl AttributeError)"

definition cfg_sub :: "json \<Rightarrow> string \<Rightarrow> pyexc + json" where
  "cfg_sub v k = rbind (cfg_get v k (JObj [])) (\<lambda>w. Inr (or_empty w))"

definition cfg_float :: "json \<Rightarrow> string \<Rightarrow> json \<Rightarrow> pyexc + pyfloat" where
  "cfg_float v k dflt = rbind (cfg_get v k dflt) as_float"

definition cfg_int :: "json \<Rightarrow> string \<Rightarrow> json \<Rightarrow> pyexc + int" where
  "cfg_int v k dflt = rbind (cfg_get v k dflt) as_int"

definition init_kill_switch :: "json \<Rightarrow> pyexc + kill_switch" where
  "init_kill_switch cfg =
     rbind (cfg_sub cfg ''global'') (\<lambda>a.
     rbind (cfg_sub cfg ''tier_a'') (\<lambda>b.
     rbind (cfg_sub cfg ''tier_b'') (\<lambda>c.
     Inr \<lparr>ks_global = a, ks_tier_a = b, ks_tier_b = c\<rparr>)))"

section \<open>The checks\<close>

definition pct_of :: "pyfloat \<Rightarrow> pyfloat \<Rightarrow> pyexc + pyfloat" where
  "pct_of x y = rbind (fdivx x y) (\<lambda>r. Inr (fmul r (Fin 100)))"

definition check_global :: "kill_switch \<Rightarrow> portfolio_snapshot \<Rightarrow> pyexc + kill_verdict option" where
  "check_global ks p =
     (if fle (total_equity_usd p) (Fin 0) \<or> fle (portfolio_peak_usd p) (Fin 0) then Inr None
      else
        rbind (pct_of (fsub (portfolio_peak_usd p) (total_equity_usd p)) (portfolio_peak_usd p)) (\<lambda>dd.
        rbind (pct_of (fabs (pymin (Fin 0) (daily_realized_pnl_usd p))) (portfolio_peak_usd p)) (\<lambda>dl.
        rbind (cfg_float (ks_global ks) ''max_drawdown_kill_pct_of_portfolio'' (JFloat (Fin 100))) (\<lambda>dd_cap.
        rbind (cfg_float (ks_global ks) ''daily_loss_cap_pct_of_portfolio'' (JFloat (Fin 100))) (\<lambda>dl_cap.
        if fle dd_cap dd then
          Inr (Some \<lparr>kv_action = FLATTEN_ALL, kv_severity = CRITICAL, kv_reason = PortfolioDD dd dd_cap,
                     kv_scope = ''global'',
                     kv_evidence = [(''dd_pct'', JFloat dd), (''cap_pct'', JFloat dd_cap)]\<rparr>)
        else if fle dl_cap dl then
          Inr (Some \<lparr>kv_action = FLATTEN_ALL, kv_severity = CRITICAL, kv_reason = DailyLoss dl dl_cap,
                     kv_scope = ''global'',
                     kv_evidence = [(''daily_loss_pct'', JFloat dl), (''cap_pct'', JFloat dl_cap)]\<rparr>)
        else Inr None)))))"

definition check_preemptive :: "kill_switch \<Rightarrow> eval_snapshot \<Rightarrow> pyexc + kill_verdict option" where
  "check_preemptive ks ae =
     (case ae of (limit, distance) \<Rightarrow>
        rbind (cfg_sub (ks_tier_a ks) ''eta_eval_preemptive'') (\<lambda>spec.
        rbind (cfg_float spec ''cushion_usd'' (JInt 500)) (\<lambda>cushion.
        if fle distance cushion then
          Inr (Some \<lparr>kv_action = FLATTEN_TIER_A_PREEMPTIVE, kv_severity = CRITICAL,
                     kv_reason = CushionSpent distance cushion, kv_scope = ''tier_a'',
                     kv_evidence = [(''distance_to_limit_usd'', JFloat distance),
                                 (''cushion_usd'', JFloat cushion),
                                 (''trailing_dd_limit_usd'', JFloat limit)]\<rparr>)
        else Inr None)))"

definition high_pairs :: "pyfloat \<Rightarrow> corr_snapshot \<Rightarrow> string list" where
  "high_pairs thr c = map fst (filter (\<lambda>(k, v). fle thr (fabs v)) c)"

definition check_correlation :: "kill_switch \<Rightarrow> corr_snapshot \<Rightarrow> pyexc + kill_verdict option" where
  "check_correlation ks c =
     rbind (cfg_sub (ks_tier_b ks) ''correlation_kill'') (\<lambda>spec.
     rbind (cfg_get spec ''enabled'' (JBool False)) (\<lambda>en.
     if \<not> as_bool en then Inr None
     else
       rbind (cfg_float spec ''threshold_abs_corr'' (JFloat (fl (85 / 100)))) (\<lambda>thr.
       rbind (cfg_int spec ''pairs_required'' (JInt 4)) (\<lambda>need.
       let high = high_pairs thr c
       in if need \<le> int (length high) then
            Inr (Some \<lparr>kv_action = FLATTEN_TIER_B, kv_severity = WARN,
                       kv_reason = PairsCorrelated (length high) need thr high, kv_scope = ''tier_b'',
                       kv_evidence = [(''high_corr_pairs'', JList (map JStr high)),
                                   (''threshold'', JFloat thr)]\<rparr>)
          else Inr None))))"

definition funding_verdict :: "pyfloat \<Rightarrow> pyfloat \<Rightarrow> string \<times> pyfloat \<Rightarrow> kill_verdict option" where
  "funding_verdict soft hard e =
     (case e of (symb, bps) \<Rightarrow>
        (if fle hard (fabs bps) then
           Some \<lparr>kv_action = FLATTEN_BOT, kv_severity = WARN, kv_reason = FundingHard symb bps hard,
                 kv_scope = ''bot:'' @ symb,
                 kv_evidence = [(''symbol'', JStr symb), (''bps'', JFloat bps), (''hard_bps'', JFloat hard)]\<rparr>
         else if fle soft (fabs bps) then
           Some \<lparr>kv_action = HALVE_SIZE, kv_severity = INFO, kv_reason = FundingSoft symb bps soft,
                 kv_scope = ''bot:'' @ symb,
                 kv_evidence = [(''symbol'', JStr symb), (''bps'', JFloat bps), (''soft_bps'', JFloat soft)]\<rparr>
         else None))"

definition check_funding :: "kill_switch \<Rightarrow> funding_snapshot \<Rightarrow> pyexc + kill_verdict list" where
  "check_funding ks f =
     rbind (cfg_sub (ks_tier_b ks) ''funding_veto'') (\<lambda>spec.
     rbind (cfg_float spec ''soft_threshold_bps'' (JInt 20)) (\<lambda>soft.
     rbind (cfg_float spec ''hard_threshold_bps'' (JInt 50)) (\<lambda>hard.
     Inr (List.map_filter (funding_verdict soft hard) f))))"

definition consecutive_check :: "json \<Rightarrow> bot_snapshot \<Rightarrow> pyexc + kill_verdict option" where
  "consecutive_check bucket b =
     rbind (cfg_get bucket ''consecutive_losses'' (JInt 0)) (\<lambda>v.
     rbind (as_int (if as_bool v then v else JInt 0)) (\<lambda>cap.
     if 0 < cap \<and> cap \<le> consecutive_losses b then
       Inr (Some \<lparr>kv_action = FLATTEN_BOT, kv_severity = WARN,
                  kv_reason = ConsecutiveLosses (bot_name b) (consecutive_losses b) cap,
                  kv_scope = ''bot:'' @ bot_name b,
                  kv_evidence = [(''consecutive_losses'', JInt (consecutive_losses b)),
                              (''cap'', JInt cap)]\<rparr>)
     else Inr None))"

definition check_bot :: "kill_switch \<Rightarrow> bot_snapshot \<Rightarrow> pyexc + kill_verdict option" where
  "check_bot ks b =
     rbind (cfg_sub (if tier b = ''A'' then ks_tier_a ks else ks_tier_b ks) ''per_bucket'') (\<lambda>buckets.
     rbind (cfg_sub buckets (bot_name b)) (\<lambda>bucket.
     if tier b = ''A'' then
       rbind (cfg_float bucket ''max_loss_usd'' (JFloat (Fin 1000000000000))) (\<lambda>max_loss.
       if fle (session_realized_pnl_usd b) (fneg max_loss) then
         Inr (Some \<lparr>kv_action = FLATTEN_BOT, kv_severity = WARN,
                    kv_reason = SessionLoss (bot_name b) (session_realized_pnl_usd b) max_loss,
                    kv_scope = ''bot:'' @ bot_name b,
                    kv_evidence = [(''session_realized_pnl_usd'', JFloat (session_realized_pnl_usd b)),
                                (''max_loss_usd'', JFloat max_loss)]\<rparr>)
       else consecutive_check bucket b)
     else
       rbind (cfg_float bucket ''max_loss_pct'' (JFloat (Fin 100))) (\<lambda>max_pct.
       if flt (Fin 0) (bot_peak_usd b) then
         rbind (pct_of (fsub (bot_peak_usd b) (equity_usd b)) (bot_peak_usd b)) (\<lambda>loss.
         if fle max_pct loss then
           Inr (Some \<lparr>kv_action = FLATTEN_BOT, kv_severity = WARN,
                      kv_reason = BucketDrawdown (bot_name b) loss max_pct,
                      kv_scope = ''bot:'' @ bot_name b,
                      kv_evidence = [(''loss_pct'', JFloat loss), (''cap_pct'', JFloat max_pct)]\<rparr>)
         else consecutive_check bucket b)
       else consecutive_check bucket b)))"

section \<open>Evaluation\<close>

text \<open>An optional snapshot is checked when it is there.\<close>

fun opt_check :: "('a \<Rightarrow> pyexc + kill_verdict option) \<Rightarrow> 'a option \<Rightarrow> pyexc + kill_verdict list" where
  "opt_check f None = Inr []"
| "opt_check f (Some x) =
     rbind (f x) (\<lambda>r. Inr (case r of None \<Rightarrow> [] | Some v \<Rightarrow> [v]))"

fun check_bots :: "kill_switch \<Rightarrow> bot_snapshot list \<Rightarrow> pyexc + kill_verdict list" where
  "check_bots ks [] = Inr []"
| "check_bots ks (b # bs) =
     rbind (check_bot ks b) (\<lambda>r.
     rbind (check_bots ks bs) (\<lambda>vs.
     Inr (case r of None \<Rightarrow> vs | Some v \<Rightarrow> v # vs)))"

definition no_trip :: kill_verdict where
  "no_trip = \<lparr>kv_action = CONTINUE, kv_severity = INFO, kv_reason = NoTrip, kv_scope = ''global'',
              kv_evidence = []\<rparr>"

definition evaluate ::
  "kill_switch \<Rightarrow> bot_snapshot list \<Rightarrow> portfolio_snapshot \<Rightarrow> corr_snapshot option \<Rightarrow>
   funding_snapshot option \<Rightarrow> eval_snapshot option \<Rightarrow> pyexc + kill_verdict list" where
  "evaluate ks bots p corr fund ev =
     rbind (check_global ks p) (\<lambda>glob.
     case glob of
       Some v \<Rightarrow> Inr [v]
     | None \<Rightarrow>
         rbind (opt_check (check_preemptive ks) ev) (\<lambda>v1.
         rbind (opt_check (check_correlation ks) corr) (\<lambda>v2.
         rbind (case fund of None \<Rightarrow> Inr [] | Some f \<Rightarrow> check_funding ks f) (\<lambda>v3.
         rbind (check_bots ks bots) (\<lambda>v4.
         let vs = v1 @ v2 @ v3 @ v4
         in Inr (if vs = [] then [no_trip] else vs))))))"

section \<open>Lemmas: which check returns which action\<close>

named_theorems check_actions

lemma check_global_action [check_actions]:
  "check_global ks p = Inr (Some v) \<Longrightarrow> kv_action v = FLATTEN_ALL \<and> kv_severity v = CRITICAL"
  by (auto simp: check_global_def split: if_splits)

lemma check_preemptive_action [check_actions]:
  "check_preemptive ks ae = Inr (Some v) \<Longrightarrow> kv_action v = FLATTEN_TIER_A_PREEMPTIVE"
  by (auto simp: check_preemptive_def split: if_splits prod.splits)

lemma check_correlation_action [check_actions]:
  "check_correlation ks c = Inr (Some v) \<Longrightarrow> kv_action v = FLATTEN_TIER_B"
  by (auto simp: check_correlation_def Let_def split: if_splits)

lemma funding_verdict_action [check_actions]:
  "funding_verdict soft hard e = Some v \<Longrightarrow> kv_action v \<in> {FLATTEN_BOT, HALVE_SIZE}"
  by (auto simp: funding_verdict_def split: if_splits prod.splits)

lemma consecutive_check_action [check_actions]:
  "consecutive_check bu b = Inr (Some v) \<Longrightarrow> kv_action v = FLATTEN_BOT"
  by (auto simp: consecutive_check_def split: if_splits)

lemma check_bot_action [check_actions]:
  "check_bot ks b = Inr (Some v) \<Longrightarrow> kv_action v = FLATTEN_BOT"
  by (auto simp: check_bot_def split: if_splits dest: consecutive_check_action)

lemma check_funding_actions:
  "check_funding ks f = Inr vs \<Longrightarrow> v \<in> set vs \<Longrightarrow> kv_action v \<in> {FLATTEN_BOT, HALVE_SIZE}"
  by (auto simp: check_funding_def dest!: funding_verdict_action)

lemma check_bots_set:
  "check_bots ks bs = Inr vs \<Longrightarrow> v \<in> set vs \<longleftrightarrow> (\<exists>b\<in>set bs. check_bot ks b = Inr (Some v))"
  by (induction bs arbitrary: vs) (auto split: option.splits)

lemma check_bots_ok: "check_bots ks bs = Inr vs \<Longrightarrow> b \<in> set bs \<Longrightarrow> \<exists>r. check_bot ks b = Inr r"
  by (induction bs arbitrary: vs) auto

lemma opt_check_set:
  "opt_check f x = Inr vs \<Longrightarrow> v \<in> set vs \<longleftrightarrow> (\<exists>y. x = Some y \<and> f y = Inr (Some v))"
  by (cases x) (auto split: option.splits)

text \<open>What \<open>evaluate\<close> returns when the global check does not trip.\<close>

definition trips ::
  "kill_switch \<Rightarrow> bot_snapshot list \<Rightarrow> corr_snapshot option \<Rightarrow> funding_snapshot option \<Rightarrow>
   eval_snapshot option \<Rightarrow> kill_verdict \<Rightarrow> bool" where
  "trips ks bots corr fund ev v \<longleftrightarrow>
     (\<exists>y. ev = Some y \<and> check_preemptive ks y = Inr (Some v)) \<or>
     (\<exists>y. corr = Some y \<and> check_correlation ks y = Inr (Some v)) \<or>
     (\<exists>f vs. fund = Some f \<and> check_funding ks f = Inr vs \<and> v \<in> set vs) \<or>
     (\<exists>b\<in>set bots. check_bot ks b = Inr (Some v))"

lemma trips_action: "trips ks bots corr fund ev v \<Longrightarrow> kv_action v \<notin> {CONTINUE, FLATTEN_ALL}"
  unfolding trips_def
  by (auto dest: check_preemptive_action check_correlation_action check_bot_action
      check_funding_actions)

lemma no_trip_action [simp]: "kv_action no_trip = CONTINUE"
  by (simp add: no_trip_def)

lemma evaluate_cases:
  assumes "evaluate ks bots p corr fund ev = Inr vs"
  obtains (glob) v where "check_global ks p = Inr (Some v)" "vs = [v]"
  | (quiet) "check_global ks p = Inr None" "vs = [no_trip]" "\<And>v. \<not> trips ks bots corr fund ev v"
  | (trip) "check_global ks p = Inr None" "vs \<noteq> []"
      "\<And>v. v \<in> set vs \<longleftrightarrow> trips ks bots corr fund ev v"
proof -
  obtain gr where gr: "check_global ks p = Inr gr"
    using assms by (auto simp: evaluate_def)
  show thesis
  proof (cases gr)
    case (Some v)
    with gr assms glob show ?thesis by (auto simp: evaluate_def)
  next
    case None
    obtain v1 v2 v3 v4 where
      1: "opt_check (check_preemptive ks) ev = Inr v1" and
      2: "opt_check (check_correlation ks) corr = Inr v2" and
      3: "(case fund of None \<Rightarrow> Inr [] | Some f \<Rightarrow> check_funding ks f) = Inr v3" and
      4: "check_bots ks bots = Inr v4" and
      vs: "vs = (if v1 @ v2 @ v3 @ v4 = [] then [no_trip] else v1 @ v2 @ v3 @ v4)"
      using assms gr None by (auto simp: evaluate_def Let_def)
    have "v \<in> set (v1 @ v2 @ v3 @ v4) \<longleftrightarrow> trips ks bots corr fund ev v" for v
      using opt_check_set [OF 1, of v] opt_check_set [OF 2, of v] check_bots_set [OF 4, of v] 3
      by (auto simp: trips_def split: option.splits)
    then show ?thesis
      using vs gr None quiet trip by (cases "v1 @ v2 @ v3 @ v4 = []") auto
  qed
qed

section \<open>Lemmas: monotone loss percentages\<close>

lemma fdivx_pos: "0 < p \<Longrightarrow> \<exists>z. fdivx x (Fin p) = Inr z"
  by (cases x) (auto simp: fdivx_def)

lemma fdivx_mono:
  assumes "fle x y" "0 < p" "fdivx x (Fin p) = Inr u" "fdivx y (Fin p) = Inr v"
  shows "fle u v"
  using assms
  by (cases x; cases y)
    (auto simp: fdivx_def finf_def intro!: fl_mono divide_right_mono split: if_splits)

lemma fmul_100_mono: "fle x y \<Longrightarrow> fle (fmul x (Fin 100)) (fmul y (Fin 100))"
  by (cases x; cases y) (auto simp: finf_def intro: fl_mono)

lemma pct_of_mono:
  assumes "fle x y" "0 < p" "pct_of x (Fin p) = Inr u" "pct_of y (Fin p) = Inr v"
  shows "fle u v"
  using assms fdivx_mono fmul_100_mono by (auto simp: pct_of_def)

lemma pct_of_pos: "0 < p \<Longrightarrow> \<exists>u. pct_of x (Fin p) = Inr u"
  using fdivx_pos by (auto simp: pct_of_def)

lemma fsub_antimono: "fle y x \<Longrightarrow> fle (fsub (Fin p) x) (fsub (Fin p) y)"
  by (cases x; cases y) (auto simp: fsub_def intro!: fl_mono)

lemma loss_antimono:
  "fle d' d \<Longrightarrow> fle (fabs (pymin (Fin 0) d)) (fabs (pymin (Fin 0) d'))"
  by (cases d; cases d') (auto simp: pymin_def)

section \<open>Properties\<close>

text \<open>
  A configuration with the code's keys: drawdown 12%, daily loss 4%, cushion 500, two
  correlated pairs, funding 20 and 50 bps, one bot of each tier.
\<close>

definition sample_cfg :: json where
  "sample_cfg = JObj
     [(''global'', JObj [(''max_drawdown_kill_pct_of_portfolio'', JInt 12),
                         (''daily_loss_cap_pct_of_portfolio'', JInt 4)]),
      (''tier_a'', JObj [(''per_bucket'', JObj [(''mnq'', JObj [(''max_loss_usd'', JInt 300),
                                                           (''consecutive_losses'', JInt 3)])]),
                         (''eta_eval_preemptive'', JObj [(''cushion_usd'', JInt 500)])]),
      (''tier_b'', JObj [(''correlation_kill'', JObj [(''enabled'', JBool True),
                                                    (''threshold_abs_corr'', JFloat (Fin (1 / 2))),
                                                    (''pairs_required'', JInt 2)])])]"

definition sample_ks :: kill_switch where
  "sample_ks = (case init_kill_switch sample_cfg of Inr k \<Rightarrow> k
                | Inl _ \<Rightarrow> \<lparr>ks_global = JNull, ks_tier_a = JNull, ks_tier_b = JNull\<rparr>)"

definition sample_bot :: bot_snapshot where
  "sample_bot = \<lparr>bot_name = ''mnq'', tier = ''A'', equity_usd = Fin 50000, bot_peak_usd = Fin 50000,
                 session_realized_pnl_usd = Fin (- 320), consecutive_losses = 1\<rparr>"

definition sample_portfolio :: "pyfloat \<Rightarrow> portfolio_snapshot" where
  "sample_portfolio e = \<lparr>total_equity_usd = e, portfolio_peak_usd = Fin 100,
                         daily_realized_pnl_usd = Fin 0\<rparr>"

lemmas ks_eval = sample_ks_def sample_cfg_def init_kill_switch_def cfg_sub_def cfg_get_def
  cfg_float_def cfg_int_def or_empty_def jget_def dget_or_def fint_small sample_bot_def
  sample_portfolio_def pct_of_def fdivx_def

text \<open>
  C21. A global trip supersedes everything and is the only source of \<open>FLATTEN_ALL\<close>: a
  \<open>FLATTEN_ALL\<close> verdict is returned exactly when the global check trips, and then it is the
  whole answer.
\<close>

theorem global_trip_supersedes:
  assumes "evaluate ks bots p corr fund ev = Inr vs"
  shows "(\<exists>v\<in>set vs. kv_action v = FLATTEN_ALL)
         \<longleftrightarrow> (\<exists>v. check_global ks p = Inr (Some v) \<and> vs = [v])"
  using assms
proof (cases rule: evaluate_cases)
  case (glob v)
  then show ?thesis by (auto dest: check_global_action)
next
  case quiet
  then show ?thesis by simp
next
  case trip
  then show ?thesis using trips_action by fastforce
qed

theorem global_trip_supersedes_witness:
  "\<exists>v. evaluate sample_ks [sample_bot] (sample_portfolio (Fin 80)) None None None = Inr [v]
       \<and> kv_action v = FLATTEN_ALL \<and> check_global sample_ks (sample_portfolio (Fin 80)) = Inr (Some v)"
proof -
  have "map_sum id (map kv_action)
          (evaluate sample_ks [sample_bot] (sample_portfolio (Fin 80)) None None None)
        = Inr [FLATTEN_ALL]"
    by code_simp
  then obtain vs where vs: "evaluate sample_ks [sample_bot] (sample_portfolio (Fin 80)) None None None = Inr vs"
    and a: "map kv_action vs = [FLATTEN_ALL]"
    by (cases "evaluate sample_ks [sample_bot] (sample_portfolio (Fin 80)) None None None") auto
  from a have "\<exists>v\<in>set vs. kv_action v = FLATTEN_ALL" by auto
  then show ?thesis
    using global_trip_supersedes [OF vs] vs a by auto
qed

text \<open>
  Without a global trip nothing is lost and nothing is invented: the verdicts are exactly
  those of the cushion, correlation, funding and per-bot checks, and when none of them trips
  the answer is the single \<open>CONTINUE\<close> verdict.  The answer is never empty.
\<close>

theorem evaluate_reports_every_trip:
  assumes "evaluate ks bots p corr fund ev = Inr vs" "check_global ks p = Inr None"
  shows "vs \<noteq> [] \<and> (\<forall>v. v \<noteq> no_trip \<longrightarrow> (v \<in> set vs \<longleftrightarrow> trips ks bots corr fund ev v))
         \<and> (no_trip \<in> set vs \<longleftrightarrow> vs = [no_trip] \<and> (\<forall>v. \<not> trips ks bots corr fund ev v))"
  using assms(1)
proof (cases rule: evaluate_cases)
  case (glob v)
  with assms(2) show ?thesis by simp
next
  case quiet
  then show ?thesis by auto
next
  case trip
  moreover have "\<not> trips ks bots corr fund ev no_trip" using trips_action by fastforce
  ultimately have n: "no_trip \<notin> set vs" by blast
  then have "vs \<noteq> [no_trip]" by auto
  with n trip show ?thesis by (simp only: simp_thms)
qed

theorem evaluate_reports_every_trip_witness:
  "\<exists>vs v. evaluate sample_ks [sample_bot] (sample_portfolio (Fin 99)) None None (Some (Fin 2500, Fin 400))
            = Inr vs \<and> v \<in> set vs \<and> trips sample_ks [sample_bot] None None (Some (Fin 2500, Fin 400)) v"
proof -
  let ?e = "evaluate sample_ks [sample_bot] (sample_portfolio (Fin 99)) None None (Some (Fin 2500, Fin 400))"
  have "map_sum id (map kv_action) ?e = Inr [FLATTEN_TIER_A_PREEMPTIVE, FLATTEN_BOT]
        \<and> map_sum id (map_option kv_action) (check_global sample_ks (sample_portfolio (Fin 99))) = Inr None"
    by code_simp
  then obtain vs where vs: "?e = Inr vs"
    and a: "map kv_action vs = [FLATTEN_TIER_A_PREEMPTIVE, FLATTEN_BOT]"
    and gn: "check_global sample_ks (sample_portfolio (Fin 99)) = Inr None"
    by (cases ?e; cases "check_global sample_ks (sample_portfolio (Fin 99))") auto
  then have "FLATTEN_BOT \<in> kv_action ` set vs" by (simp flip: set_map)
  then obtain v where v: "v \<in> set vs" "kv_action v = FLATTEN_BOT" by (metis imageE)
  then have "v \<noteq> no_trip" by auto
  then show ?thesis
    using evaluate_reports_every_trip [OF vs gn] vs v by blast
qed

text \<open>
  A tripped global kill stays tripped as losses deepen: with the same peak, a lower
  (still positive) total equity and a worse daily result never turn a trip into no trip,
  rounding of the percentages included.
\<close>

theorem global_trip_monotone:
  assumes "check_global ks p = Inr (Some v)"
    and "fle (total_equity_usd q) (total_equity_usd p)" "flt (Fin 0) (total_equity_usd q)"
    and "portfolio_peak_usd q = portfolio_peak_usd p" "is_fin (portfolio_peak_usd p)"
    and "fle (daily_realized_pnl_usd q) (daily_realized_pnl_usd p)"
  shows "\<exists>w. check_global ks q = Inr (Some w) \<and> kv_action w = FLATTEN_ALL"
proof -
  obtain pk where pk: "portfolio_peak_usd p = Fin pk" using assms(5) by (cases "portfolio_peak_usd p") (auto simp: is_fin_def)
  have pos: "0 < pk"
    using assms(1) pk by (auto simp: check_global_def split: if_splits)
  obtain dd dl where
    dd: "pct_of (fsub (Fin pk) (total_equity_usd p)) (Fin pk) = Inr dd" and
    dl: "pct_of (fabs (pymin (Fin 0) (daily_realized_pnl_usd p))) (Fin pk) = Inr dl"
    using pct_of_pos [OF pos] by meson
  obtain dd' dl' where
    dd': "pct_of (fsub (Fin pk) (total_equity_usd q)) (Fin pk) = Inr dd'" and
    dl': "pct_of (fabs (pymin (Fin 0) (daily_realized_pnl_usd q))) (Fin pk) = Inr dl'"
    using pct_of_pos [OF pos] by meson
  have "fle dd dd'" by (rule pct_of_mono [OF fsub_antimono [OF assms(2)] pos dd dd'])
  moreover have "fle dl dl'" by (rule pct_of_mono [OF loss_antimono [OF assms(6)] pos dl dl'])
  moreover have "\<not> fle (total_equity_usd q) (Fin 0)" using assms(3) by (rule flt_not_fle)
  moreover obtain c1 c2 where
    "cfg_float (ks_global ks) ''max_drawdown_kill_pct_of_portfolio'' (JFloat (Fin 100)) = Inr c1"
    "cfg_float (ks_global ks) ''daily_loss_cap_pct_of_portfolio'' (JFloat (Fin 100)) = Inr c2"
    "fle c1 dd \<or> fle c2 dl"
    using assms(1) pk dd dl by (auto simp: check_global_def split: if_splits)
  ultimately show ?thesis
    using pk pos dd' dl' assms(4) by (auto simp: check_global_def dest: fle_trans)
qed

theorem global_trip_monotone_witness:
  "\<exists>w. check_global sample_ks (sample_portfolio (Fin 70)) = Inr (Some w) \<and> kv_action w = FLATTEN_ALL"
proof -
  have "map_sum id (map_option kv_action) (check_global sample_ks (sample_portfolio (Fin 80)))
        = Inr (Some FLATTEN_ALL)"
    by code_simp
  then obtain v where "check_global sample_ks (sample_portfolio (Fin 80)) = Inr (Some v)"
    by (cases "check_global sample_ks (sample_portfolio (Fin 80))") auto
  then show ?thesis
    using global_trip_monotone [of sample_ks "sample_portfolio (Fin 80)" v "sample_portfolio (Fin 70)"]
    by (simp add: sample_portfolio_def)
qed

text \<open>
  The global check is blind to a wiped-out portfolio: with total equity at or below zero
  it returns no verdict, whatever the peak, the daily loss and the caps, so the deepest
  possible drawdown does not produce \<open>FLATTEN_ALL\<close>.
\<close>

theorem global_check_blind_at_zero_equity:
  assumes "fle (total_equity_usd p) (Fin 0)" "evaluate ks bots p corr fund ev = Inr vs"
  shows "check_global ks p = Inr None \<and> (\<forall>v\<in>set vs. kv_action v \<noteq> FLATTEN_ALL)"
proof -
  have n: "check_global ks p = Inr None" using assms(1) by (simp add: check_global_def)
  from assms(2) show ?thesis
    by (cases rule: evaluate_cases) (use n trips_action in fastforce)+
qed

theorem global_check_blind_at_zero_equity_witness:
  "check_global sample_ks (sample_portfolio (Fin 0)) = Inr None \<and> kv_action no_trip \<noteq> FLATTEN_ALL"
proof -
  have e: "evaluate sample_ks [] (sample_portfolio (Fin 0)) None None None = Inr [no_trip]"
    by (simp add: evaluate_def check_global_def sample_portfolio_def)
  have z: "fle (total_equity_usd (sample_portfolio (Fin 0))) (Fin 0)"
    by (simp add: sample_portfolio_def)
  show ?thesis using global_check_blind_at_zero_equity [OF z e] e by simp
qed

text \<open>
  Funding vetoes: with soft and hard thresholds in order, each symbol of the snapshot
  yields \<open>FLATTEN_BOT\<close> exactly when its absolute rate reaches the hard threshold,
  \<open>HALVE_SIZE\<close> exactly when it reaches only the soft one, and nothing otherwise.
\<close>

theorem funding_veto_levels:
  assumes "fle soft hard"
  shows "case funding_verdict soft hard (symb, bps) of
           None \<Rightarrow> \<not> fle soft (fabs bps)
         | Some v \<Rightarrow> kv_scope v = ''bot:'' @ symb \<and> fle soft (fabs bps) \<and>
             kv_action v = (if fle hard (fabs bps) then FLATTEN_BOT else HALVE_SIZE)"
  using assms fle_trans by (auto simp: funding_verdict_def)

theorem funding_veto_levels_witness:
  "\<exists>v. funding_verdict (Fin 20) (Fin 50) (''BTC'', Fin (- 60)) = Some v \<and> kv_action v = FLATTEN_BOT"
proof -
  have "fle (Fin 20) (Fin 50)" by simp
  from funding_veto_levels [OF this, where symb = "''BTC''" and bps = "Fin (- 60)"] show ?thesis
    by (cases "funding_verdict (Fin 20) (Fin 50) (''BTC'', Fin (- 60))") auto
qed

text \<open>
  The cadence check: it accepts a live configuration only if the worst move within one
  tick, times the safety factor, does not exceed the cushion (as computed in floats), it never
  rejects a configuration that is not live for being slow, and it rejects any input that is
  not positive.
\<close>

theorem cadence_validator:
  "(validate_tick_cadence i c m s True = Inr () \<longrightarrow> \<not> flt c (fmul (fmul i m) s))
   \<and> validate_tick_cadence i c m s False \<noteq> Inl CadenceTooSlow
   \<and> (validate_tick_cadence i c m s live = Inl CadenceValue
        \<longleftrightarrow> fle i (Fin 0) \<or> fle c (Fin 0) \<or> fle m (Fin 0) \<or> fle s (Fin 0))"
  by (simp add: validate_tick_cadence_def)

theorem cadence_validator_witness:
  "validate_tick_cadence (Fin 5) (Fin 500) (Fin 300) (Fin 2) True = Inl CadenceTooSlow
   \<and> \<not> flt (Fin 1000) (fmul (fmul (Fin 1) (Fin 300)) (Fin 2))"
proof -
  have "validate_tick_cadence (Fin 1) (Fin 1000) (Fin 300) (Fin 2) True = Inr ()"
    by (simp add: validate_tick_cadence_def)
  then have "\<not> flt (Fin 1000) (fmul (fmul (Fin 1) (Fin 300)) (Fin 2))"
    using cadence_validator [of "Fin 1" "Fin 1000" "Fin 300" "Fin 2" True] by blast
  then show ?thesis by (simp add: validate_tick_cadence_def)
qed

end
