(* ===== verification/Kill_Latch.thy ===== *)
theory Kill_Latch
  imports Kill_Switch
begin

text \<open>
  \<open>core/kill_switch_latch.py\<close>: the disk-backed latch of catastrophic verdicts.  The record
  keeps the raw JSON of its optional fields, as \<open>from_dict\<close> does; reading maps a missing
  file to ARMED and a corrupt one to a synthetic TRIPPED record.  The text of a reason is
  the rendering function's (an argument of \<open>record_verdict\<close>); timestamps are arguments.
\<close>

section \<open>Records\<close>

datatype latch_state = ARMED | TRIPPED

record latch_record =
  lr_state :: latch_state
  tripped_at_utc :: json
  lr_reason :: json
  lr_scope :: json
  lr_action :: json
  lr_severity :: json
  lr_evidence :: "(string \<times> json) list"
  cleared_at_utc :: json
  cleared_by :: json

definition is_tripped :: "latch_record \<Rightarrow> bool" where
  "is_tripped r = (lr_state r = TRIPPED)"

definition state_value :: "latch_state \<Rightarrow> string" where
  "state_value s = (case s of ARMED \<Rightarrow> ''ARMED'' | TRIPPED \<Rightarrow> ''TRIPPED'')"

definition to_dict :: "latch_record \<Rightarrow> (string \<times> json) list" where
  "to_dict r =
     [(''state'', JStr (state_value (lr_state r))),
      (''tripped_at_utc'', tripped_at_utc r), (''reason'', lr_reason r),
      (''scope'', lr_scope r), (''action'', lr_action r), (''severity'', lr_severity r),
      (''evidence'', JObj (lr_evidence r)),
      (''cleared_at_utc'', cleared_at_utc r), (''cleared_by'', cleared_by r)]"

definition armed :: latch_record where
  "armed = \<lparr>lr_state = ARMED, tripped_at_utc = JNull, lr_reason = JNull, lr_scope = JNull,
            lr_action = JNull, lr_severity = JNull, lr_evidence = [],
            cleared_at_utc = JNull, cleared_by = JNull\<rparr>"

definition fail_closed_tripped :: "string \<Rightarrow> string \<Rightarrow> latch_record" where
  "fail_closed_tripped now why =
     \<lparr>lr_state = TRIPPED, tripped_at_utc = JStr now, lr_reason = JStr why,
      lr_scope = JStr ''global'', lr_action = JStr ''CORRUPT_LATCH'',
      lr_severity = JStr ''CRITICAL'', lr_evidence = [],
      cleared_at_utc = JNull, cleared_by = JNull\<rparr>"

text \<open>
  \<open>LatchState(str(v))\<close>, ARMED when the string names no state.  Only the JSON string
  \<open>TRIPPED\<close> has the text \<open>TRIPPED\<close>.
\<close>

definition parse_latch_state :: "json \<Rightarrow> latch_state" where
  "parse_latch_state v = (if v = JStr ''TRIPPED'' then TRIPPED else ARMED)"

text \<open>
  \<open>dict(v or {})\<close>: an empty value gives no evidence, a dictionary is copied, a list is read
  as key and value pairs (two-element lists or two-character strings), anything else raises.
\<close>

fun pairs_of :: "json list \<Rightarrow> (string \<times> json) list \<Rightarrow> pyexc + (string \<times> json) list" where
  "pairs_of [] acc = Inr acc"
| "pairs_of (JList [JStr k, v] # xs) acc = pairs_of xs (dset k v acc)"
| "pairs_of (JStr [a, b] # xs) acc = pairs_of xs (dset [a] (JStr [b]) acc)"
| "pairs_of (JList _ # xs) acc = Inl ValueError"
| "pairs_of (JStr _ # xs) acc = Inl ValueError"
| "pairs_of (_ # xs) acc = Inl TypeError"

definition as_evidence :: "json \<Rightarrow> pyexc + (string \<times> json) list" where
  "as_evidence v =
     (if \<not> as_bool v then Inr []
      else case v of JObj d \<Rightarrow> Inr d | JList xs \<Rightarrow> pairs_of xs [] | JStr _ \<Rightarrow> Inl ValueError
             | _ \<Rightarrow> Inl TypeError)"

definition from_dict :: "(string \<times> json) list \<Rightarrow> pyexc + latch_record" where
  "from_dict d =
     rbind (as_evidence (jget d ''evidence'' JNull)) (\<lambda>ev.
     Inr \<lparr>lr_state = parse_latch_state (jget d ''state'' (JStr ''ARMED'')),
          tripped_at_utc = jget d ''tripped_at_utc'' JNull,
          lr_reason = jget d ''reason'' JNull, lr_scope = jget d ''scope'' JNull,
          lr_action = jget d ''action'' JNull, lr_severity = jget d ''severity'' JNull,
          lr_evidence = ev,
          cleared_at_utc = jget d ''cleared_at_utc'' JNull,
          cleared_by = jget d ''cleared_by'' JNull\<rparr>)"

section \<open>The latch\<close>

text \<open>Reading the file; \<open>now\<close> and \<open>err\<close> stamp a fail-closed record.\<close>

definition read_latch :: "string \<Rightarrow> string \<Rightarrow> jfile \<Rightarrow> pyexc + latch_record" where
  "read_latch now err f =
     (case f of
        Missing \<Rightarrow> Inr armed
      | Garbled \<Rightarrow> Inr (fail_closed_tripped now err)
      | Parsed (JObj d) \<Rightarrow> from_dict d
      | Parsed _ \<Rightarrow> Inr (fail_closed_tripped now err))"

definition boot_allowed :: "string \<Rightarrow> string \<Rightarrow> jfile \<Rightarrow> pyexc + bool" where
  "boot_allowed now err f = rbind (read_latch now err f) (\<lambda>r. Inr (\<not> is_tripped r))"

definition action_value :: "kill_action \<Rightarrow> string" where
  "action_value a =
     (case a of CONTINUE \<Rightarrow> ''CONTINUE'' | HALVE_SIZE \<Rightarrow> ''HALVE_SIZE''
      | PAUSE_NEW_ENTRIES \<Rightarrow> ''PAUSE_NEW_ENTRIES'' | FLATTEN_BOT \<Rightarrow> ''FLATTEN_BOT''
      | FLATTEN_TIER_B \<Rightarrow> ''FLATTEN_TIER_B'' | FLATTEN_ALL \<Rightarrow> ''FLATTEN_ALL''
      | FLATTEN_TIER_A_PREEMPTIVE \<Rightarrow> ''FLATTEN_TIER_A_PREEMPTIVE'')"

definition severity_value :: "kill_severity \<Rightarrow> string" where
  "severity_value s = (case s of INFO \<Rightarrow> ''INFO'' | WARN \<Rightarrow> ''WARN'' | CRITICAL \<Rightarrow> ''CRITICAL'')"

definition latching_actions :: "string list" where
  "latching_actions = [''FLATTEN_ALL'', ''FLATTEN_TIER_A_PREEMPTIVE'', ''FLATTEN_TIER_B'']"

definition trip_record :: "(kill_reason \<Rightarrow> string) \<Rightarrow> string \<Rightarrow> kill_verdict \<Rightarrow> latch_record" where
  "trip_record show_reason now v =
     \<lparr>lr_state = TRIPPED, tripped_at_utc = JStr now, lr_reason = JStr (show_reason (kv_reason v)),
      lr_scope = JStr (kv_scope v), lr_action = JStr (action_value (kv_action v)),
      lr_severity = JStr (severity_value (kv_severity v)), lr_evidence = kv_evidence v,
      cleared_at_utc = JNull, cleared_by = JNull\<rparr>"

text \<open>The new file and whether this call moved the latch to TRIPPED.\<close>

definition record_verdict ::
  "(kill_reason \<Rightarrow> string) \<Rightarrow> string \<Rightarrow> string \<Rightarrow> kill_verdict \<Rightarrow> jfile \<Rightarrow> pyexc + (jfile \<times> bool)" where
  "record_verdict show_reason now err v f =
     (if action_value (kv_action v) \<notin> set latching_actions then Inr (f, False)
      else rbind (read_latch now err f) (\<lambda>existing.
           if is_tripped existing then Inr (f, False)
           else Inr (Parsed (JObj (to_dict (trip_record show_reason now v))), True)))"

definition clear_latch ::
  "string \<Rightarrow> string \<Rightarrow> string \<Rightarrow> jfile \<Rightarrow> pyexc + (jfile \<times> latch_record)" where
  "clear_latch now err who f =
     (if strip who = [] then Inl ValueError
      else rbind (read_latch now err f) (\<lambda>prior.
        let real = (lr_action prior \<noteq> JStr ''CORRUPT_LATCH'');
            keep = (\<lambda>v. if real then v else JNull);
            r = \<lparr>lr_state = ARMED, tripped_at_utc = keep (tripped_at_utc prior),
                 lr_reason = keep (lr_reason prior), lr_scope = keep (lr_scope prior),
                 lr_action = keep (lr_action prior), lr_severity = keep (lr_severity prior),
                 lr_evidence = (if real then lr_evidence prior else []),
                 cleared_at_utc = JStr now, cleared_by = JStr (strip who)\<rparr>
        in Inr (Parsed (JObj (to_dict r)), r)))"

section \<open>Lemmas\<close>

lemma dict_get [simp]:
  "jget (to_dict r) ''state'' v = JStr (state_value (lr_state r))"
  "jget (to_dict r) ''tripped_at_utc'' v = tripped_at_utc r"
  "jget (to_dict r) ''reason'' v = lr_reason r"
  "jget (to_dict r) ''scope'' v = lr_scope r"
  "jget (to_dict r) ''action'' v = lr_action r"
  "jget (to_dict r) ''severity'' v = lr_severity r"
  "jget (to_dict r) ''evidence'' v = JObj (lr_evidence r)"
  "jget (to_dict r) ''cleared_at_utc'' v = cleared_at_utc r"
  "jget (to_dict r) ''cleared_by'' v = cleared_by r"
  by (simp_all add: to_dict_def jget_def dget_or_def)

lemma from_to_dict: "from_dict (to_dict r) = Inr r"
  by (cases "lr_state r") (auto simp: from_dict_def as_evidence_def parse_latch_state_def state_value_def)

lemma read_written [simp]: "read_latch now err (Parsed (JObj (to_dict r))) = Inr r"
  by (simp add: read_latch_def from_to_dict)

definition decode_latch :: "json \<Rightarrow> latch_record option" where
  "decode_latch j =
     (case j of JObj d \<Rightarrow> (case from_dict d of Inr r \<Rightarrow> Some r | Inl _ \<Rightarrow> None) | _ \<Rightarrow> None)"

interpretation latch: durable "\<lambda>r. JObj (to_dict r)" decode_latch "\<lambda>_. True"
  by unfold_locales (simp add: decode_latch_def from_to_dict)

lemma latching_iff:
  "action_value a \<in> set latching_actions
   \<longleftrightarrow> a \<in> {FLATTEN_ALL, FLATTEN_TIER_A_PREEMPTIVE, FLATTEN_TIER_B}"
  by (cases a) (simp_all add: action_value_def latching_actions_def)

text \<open>Recording the verdicts of an evaluation in turn, as the runtime does.\<close>

fun record_all ::
  "(kill_reason \<Rightarrow> string) \<Rightarrow> string \<Rightarrow> string \<Rightarrow> kill_verdict list \<Rightarrow> jfile \<Rightarrow> pyexc + jfile" where
  "record_all show_reason now err [] f = Inr f"
| "record_all show_reason now err (v # vs) f =
     rbind (record_verdict show_reason now err v f) (\<lambda>(f', _).
       record_all show_reason now err vs f')"

text \<open>A file is tripped when whatever is read from it is.\<close>

definition file_tripped :: "jfile \<Rightarrow> bool" where
  "file_tripped f \<longleftrightarrow> (\<forall>now err. \<exists>r. read_latch now err f = Inr r \<and> is_tripped r)"

lemma boot_tripped: "file_tripped f \<Longrightarrow> boot_allowed now err f = Inr False"
  by (auto simp: file_tripped_def boot_allowed_def rbind_Inr_iff)

lemma record_keeps_tripped:
  "file_tripped f \<Longrightarrow> record_verdict show_reason now err v f = Inr (f, False)"
proof -
  assume "file_tripped f"
  then obtain r where "read_latch now err f = Inr r" "is_tripped r"
    unfolding file_tripped_def by blast
  then show ?thesis by (simp add: record_verdict_def)
qed

lemma record_all_tripped: "file_tripped f \<Longrightarrow> record_all show_reason now err vs f = Inr f"
  by (induction vs) (simp_all add: record_keeps_tripped)

lemma trip_file_tripped: "file_tripped (Parsed (JObj (to_dict (trip_record show_reason now v))))"
  by (simp add: file_tripped_def is_tripped_def trip_record_def)

text \<open>A file some read of which shows a tripped record always does.\<close>

lemma read_tripped_file:
  "read_latch now err f = Inr r \<Longrightarrow> is_tripped r \<Longrightarrow> file_tripped f"
  by (auto simp: file_tripped_def read_latch_def is_tripped_def armed_def fail_closed_tripped_def
      split: jfile.splits json.splits)

lemma record_latching:
  assumes "kv_action v \<in> {FLATTEN_ALL, FLATTEN_TIER_A_PREEMPTIVE, FLATTEN_TIER_B}"
    and "record_verdict show_reason now err v f = Inr (f', b)"
  shows "file_tripped f'"
  using assms trip_file_tripped read_tripped_file
  by (auto simp: record_verdict_def latching_iff split: if_splits)

lemma record_all_latching:
  assumes "v \<in> set vs" "kv_action v \<in> {FLATTEN_ALL, FLATTEN_TIER_A_PREEMPTIVE, FLATTEN_TIER_B}"
    and "record_all show_reason now err vs f = Inr f'"
  shows "file_tripped f'"
  using assms
proof (induction vs arbitrary: f)
  case (Cons u vs)
  then obtain f1 b where f1: "record_verdict show_reason now err u f = Inr (f1, b)"
    and rest: "record_all show_reason now err vs f1 = Inr f'"
    by auto
  show ?case
  proof (cases "v = u")
    case True
    then have "file_tripped f1" using record_latching [OF _ f1] Cons.prems(2) by blast
    then show ?thesis using rest record_all_tripped by (metis sum.inject(2))
  next
    case False
    then show ?thesis using Cons rest by auto
  qed
qed simp

section \<open>Properties\<close>

definition sample_verdict :: kill_verdict where
  "sample_verdict = \<lparr>kv_action = FLATTEN_ALL, kv_severity = CRITICAL,
     kv_reason = PortfolioDD (Fin 20) (Fin 12), kv_scope = ''global'',
     kv_evidence = [(''dd_pct'', JFloat (Fin 20)), (''cap_pct'', JFloat (Fin 12))]\<rparr>"

definition sample_trip :: jfile where
  "sample_trip = Parsed (JObj (to_dict (trip_record (\<lambda>_. ''dd'') ''t0'' sample_verdict)))"

lemma sample_trip_tripped: "file_tripped sample_trip"
  by (simp add: sample_trip_def trip_file_tripped)

text \<open>
  C11. A catastrophic verdict stops the next boot: whatever the kill switch evaluates, if the
  verdicts it returns are recorded in turn and one of them is \<open>FLATTEN_ALL\<close>, the tier A
  preemptive flatten or the tier B flatten, then the resulting file refuses to boot, for every
  later read of it.
\<close>

theorem catastrophic_verdict_blocks_boot:
  assumes "evaluate ks bots p corr fund ev = Inr vs" "v \<in> set vs"
    and "kv_action v \<in> {FLATTEN_ALL, FLATTEN_TIER_A_PREEMPTIVE, FLATTEN_TIER_B}"
    and "record_all show_reason now err vs f = Inr f'"
  shows "boot_allowed now' err' f' = Inr False"
  using record_all_latching [OF assms(2-4)] by (rule boot_tripped)

theorem catastrophic_verdict_blocks_boot_witness:
  "\<exists>vs f'. evaluate sample_ks [sample_bot] (sample_portfolio (Fin 99)) None None (Some (Fin 2500, Fin 0))
             = Inr vs \<and> record_all (\<lambda>_. ''r'') ''t'' ''e'' vs Missing = Inr f'
           \<and> boot_allowed ''t2'' ''e2'' f' = Inr False"
proof -
  let ?e = "evaluate sample_ks [sample_bot] (sample_portfolio (Fin 99)) None None (Some (Fin 2500, Fin 0))"
  have "map_sum id (map kv_action) ?e = Inr [FLATTEN_TIER_A_PREEMPTIVE, FLATTEN_BOT]"
    by code_simp
  then obtain vs where vs: "?e = Inr vs"
    and a: "map kv_action vs = [FLATTEN_TIER_A_PREEMPTIVE, FLATTEN_BOT]"
    by (cases ?e) auto
  obtain v w where vw: "vs = [v, w]" "kv_action v = FLATTEN_TIER_A_PREEMPTIVE" "kv_action w = FLATTEN_BOT"
    using a by (auto simp: map_eq_Cons_conv)
  have "action_value FLATTEN_BOT \<notin> set latching_actions"
    "action_value FLATTEN_TIER_A_PREEMPTIVE \<in> set latching_actions"
    by (simp_all add: latching_iff)
  then have "\<exists>f'. record_all (\<lambda>_. ''r'') ''t'' ''e'' vs Missing = Inr f'"
    using vw by (simp add: record_verdict_def read_latch_def is_tripped_def armed_def)
  then obtain f' where f': "record_all (\<lambda>_. ''r'') ''t'' ''e'' vs Missing = Inr f'" by blast
  then have "boot_allowed ''t2'' ''e2'' f' = Inr False"
    using vw by (intro catastrophic_verdict_blocks_boot [OF vs, of v]) auto
  with vs f' show ?thesis by blast
qed

text \<open>
  First trip wins and stays: on a tripped file no verdict changes anything, so every
  sequence of verdicts leaves the file, and with it the recorded reason and evidence of the
  first trip, as they are.
\<close>

theorem first_trip_wins:
  assumes "file_tripped f"
  shows "record_all show_reason now err vs f = Inr f
         \<and> record_verdict show_reason now err v f = Inr (f, False)"
  using assms by (simp add: record_all_tripped record_keeps_tripped)

theorem first_trip_wins_witness:
  "record_verdict (\<lambda>_. ''later'') ''t1'' ''e'' (sample_verdict\<lparr>kv_action := FLATTEN_TIER_B\<rparr>) sample_trip
     = Inr (sample_trip, False)"
  using first_trip_wins [OF sample_trip_tripped] by blast

text \<open>
  Recoverable verdicts never latch: a verdict that is not one of the three catastrophic
  actions leaves any file, readable or not, exactly as it was.
\<close>

theorem recoverable_verdicts_do_not_latch:
  assumes "kv_action v \<notin> {FLATTEN_ALL, FLATTEN_TIER_A_PREEMPTIVE, FLATTEN_TIER_B}"
  shows "record_verdict show_reason now err v f = Inr (f, False)"
  using assms by (simp add: record_verdict_def latching_iff)

theorem recoverable_verdicts_do_not_latch_witness:
  "record_verdict (\<lambda>_. []) ''t'' ''e'' no_trip Missing = Inr (Missing, False)"
  by (rule recoverable_verdicts_do_not_latch) (simp add: no_trip_def)

text \<open>
  Clearing needs an operator name; it then always leaves a file that boots, keeps the
  trip's action, reason, time and evidence when they are real, and drops them when the prior
  record only said that the file was corrupt.
\<close>

theorem clear_rearms_and_keeps_trail:
  assumes "read_latch now err f = Inr prior"
  shows "(strip who = [] \<longrightarrow> clear_latch now err who f = Inl ValueError) \<and>
    (strip who \<noteq> [] \<longrightarrow> (\<exists>f' r. clear_latch now err who f = Inr (f', r)
       \<and> (\<forall>now' err'. read_latch now' err' f' = Inr r \<and> boot_allowed now' err' f' = Inr True)
       \<and> cleared_by r = JStr (strip who)
       \<and> (lr_action prior \<noteq> JStr ''CORRUPT_LATCH'' \<longrightarrow>
            lr_action r = lr_action prior \<and> lr_reason r = lr_reason prior
            \<and> tripped_at_utc r = tripped_at_utc prior \<and> lr_evidence r = lr_evidence prior)
       \<and> (lr_action prior = JStr ''CORRUPT_LATCH'' \<longrightarrow>
            lr_action r = JNull \<and> lr_reason r = JNull \<and> lr_evidence r = [])))"
  using assms by (auto simp: clear_latch_def Let_def boot_allowed_def is_tripped_def)

theorem clear_rearms_and_keeps_trail_witness:
  "\<exists>f' r. clear_latch ''t1'' ''e'' ''ed'' sample_trip = Inr (f', r)
          \<and> lr_action r = JStr ''FLATTEN_ALL'' \<and> boot_allowed ''t2'' ''e'' f' = Inr True"
proof -
  have n: "strip ''ed'' \<noteq> []" by code_simp
  have r: "read_latch ''t1'' ''e'' sample_trip
      = Inr (trip_record (\<lambda>_. ''dd'') ''t0'' sample_verdict)"
    by (simp add: sample_trip_def)
  show ?thesis
    using clear_rearms_and_keeps_trail [OF r, of "''ed''"] n
    by (auto simp: trip_record_def sample_verdict_def action_value_def)
qed

text \<open>
  What the latch does with a damaged file: unreadable JSON and a root that is not an
  object refuse to boot, a missing file boots, but an object whose \<open>state\<close> is not exactly the
  string \<open>TRIPPED\<close> boots, whatever trip its other fields record (provided its evidence is an
  object).
\<close>

theorem damaged_latch_files:
  "boot_allowed now err Garbled = Inr False
   \<and> (\<forall>j. (\<nexists>d. j = JObj d) \<longrightarrow> boot_allowed now err (Parsed j) = Inr False)
   \<and> boot_allowed now err Missing = Inr True
   \<and> (\<forall>d e. jget d ''state'' (JStr ''ARMED'') \<noteq> JStr ''TRIPPED'' \<and> jget d ''evidence'' JNull = JObj e \<longrightarrow>
        boot_allowed now err (Parsed (JObj d)) = Inr True)"
  by (auto simp: boot_allowed_def read_latch_def is_tripped_def fail_closed_tripped_def armed_def
      from_dict_def as_evidence_def parse_latch_state_def split: json.splits)

theorem damaged_latch_files_witness:
  "boot_allowed ''t'' ''e'' (Parsed (JObj [(''state'', JStr ''tripped''),
      (''action'', JStr ''FLATTEN_ALL''), (''evidence'', JObj [])])) = Inr True
   \<and> boot_allowed ''t'' ''e'' (Parsed (JList [])) = Inr False"
  using damaged_latch_files [of "''t''" "''e''"] by (simp add: jget_def dget_or_def)

text \<open>
  A crash while the latch is being written never leaves a half-written latch: after any
  prefix of the write's system calls the file still decodes, to the record before the write or
  to the record being written.
\<close>

theorem latch_write_is_atomic:
  assumes "final d = Parsed (JObj (to_dict r))"
  shows "read_latch now err
           (final (foldl io_step d (take n (write_atomic (JObj (to_dict r')))))) \<in> {Inr r, Inr r'}"
proof -
  obtain j where "final (foldl io_step d (take n (write_atomic (JObj (to_dict r'))))) = Parsed j"
    and "decode_latch j \<in> {Some r, Some r'}"
    using latch.crash_recovers [OF _ _ assms, where t = r' and n = n] by auto
  then show ?thesis
    by (auto simp: decode_latch_def read_latch_def split: json.splits sum.splits)
qed

theorem latch_write_is_atomic_witness:
  "read_latch ''t'' ''e'' (final (foldl io_step \<lparr>final = sample_trip, tmp = Missing\<rparr>
       (take 2 (write_atomic (JObj (to_dict armed)))))) \<in>
     {Inr (trip_record (\<lambda>_. ''dd'') ''t0'' sample_verdict), Inr armed}"
  by (rule latch_write_is_atomic) (simp add: sample_trip_def)

end
