(* ===== verification/Idempotency.thy ===== *)
theory Idempotency
  imports Durable
begin

text \<open>
  \<open>safety/idempotency.py\<close>: the order-submission dedup store.  The state is the in-memory
  dictionary, whether persistence is on, and the lines of the JSONL file (None when there is no
  file); each operation
  takes the time it reads, the environment, and whether its disk write succeeds, and runs
  under the module's lock.  A line of the file is blank or not JSON, or a row whose typed
  fields are those the module writes; a legacy row may lack the status or hold any value as
  its time stamp.
\<close>

section \<open>State\<close>

type_synonym payload = "(string \<times> json) list"

record idem_record =
  client_order_id :: string
  ir_venue :: string
  ir_symbol :: string
  is_new :: bool
  ir_status :: string
  broker_order_id :: "string option"
  ir_note :: string
  response_payload :: "payload option"
  intent_payload :: payload
  recorded_at :: pyfloat

record idem_row =
  row_id :: string
  row_venue :: string
  row_symbol :: string
  row_status :: "string option"
  row_broker :: "string option"
  row_note :: string
  row_response :: "payload option"
  row_intent :: payload
  row_time :: json

datatype line = BadLine | Row idem_row

record idem_state =
  mem :: "(string, idem_record) dict"
  persist_on :: bool
  log_file :: "line list option"

datatype idem_error = InvalidId | MissingRecord

section \<open>Expiry\<close>

definition env_float :: "env \<Rightarrow> string \<Rightarrow> pyfloat \<Rightarrow> pyfloat" where
  "env_float e k dflt =
     (let raw = strip (env_get e k)
      in if raw = [] then dflt
         else case parse_float raw of Some x \<Rightarrow> x | None \<Rightarrow> dflt)"

definition ttl_for_status :: "env \<Rightarrow> string \<Rightarrow> pyfloat" where
  "ttl_for_status e status =
     (if lower status = ''rejected'' then env_float e ''ETA_IDEMPOTENCY_REJECTED_TTL_S'' (Fin 300)
      else env_float e ''ETA_IDEMPOTENCY_TTL_S'' (Fin 3600))"

definition is_expired :: "env \<Rightarrow> pyfloat \<Rightarrow> idem_record \<Rightarrow> bool" where
  "is_expired e now r =
     (fle (recorded_at r) (Fin 0)
      \<or> flt (ttl_for_status e (ir_status r)) (fsub now (recorded_at r)))"

section \<open>Disk persistence\<close>

definition record_to_row :: "idem_record \<Rightarrow> idem_row" where
  "record_to_row r =
     \<lparr>row_id = client_order_id r, row_venue = ir_venue r, row_symbol = ir_symbol r,
      row_status = Some (ir_status r), row_broker = broker_order_id r, row_note = ir_note r,
      row_response = response_payload r, row_intent = intent_payload r,
      row_time = JFloat (recorded_at r)\<rparr>"

text \<open>\<open>float(ts)\<close>, 0.0 for null and for what does not convert.\<close>

definition row_stamp :: "json \<Rightarrow> pyfloat" where
  "row_stamp v = (if v = JNull then Fin 0 else case as_float v of Inr x \<Rightarrow> x | Inl _ \<Rightarrow> Fin 0)"

definition row_to_record :: "idem_row \<Rightarrow> idem_record" where
  "row_to_record w =
     \<lparr>client_order_id = row_id w, ir_venue = row_venue w, ir_symbol = row_symbol w,
      is_new = False, ir_status = (case row_status w of Some s \<Rightarrow> s | None \<Rightarrow> ''unknown''),
      broker_order_id = row_broker w, ir_note = row_note w,
      response_payload = row_response w, intent_payload = row_intent w,
      recorded_at = row_stamp (row_time w)\<rparr>"

definition persist_record :: "bool \<Rightarrow> idem_record \<Rightarrow> idem_state \<Rightarrow> idem_state" where
  "persist_record ok r s =
     (if persist_on s \<and> ok
      then s\<lparr>log_file := Some ((case log_file s of None \<Rightarrow> [] | Some ls \<Rightarrow> ls)
                               @ [Row (record_to_row r)])\<rparr>
      else s)"

text \<open>Replay: the last row of an id wins; bad lines and empty ids are skipped.\<close>

definition load_line :: "(string, idem_record) dict \<Rightarrow> line \<Rightarrow> (string, idem_record) dict" where
  "load_line m l =
     (case l of BadLine \<Rightarrow> m
      | Row w \<Rightarrow> if row_id w = [] then m else dset (row_id w) (row_to_record w) m)"

definition load_store_from_disk :: "idem_state \<Rightarrow> idem_state" where
  "load_store_from_disk s =
     (case log_file s of
        Some ls \<Rightarrow> if persist_on s then s\<lparr>mem := foldl load_line (mem s) ls\<rparr> else s
      | None \<Rightarrow> s)"

definition keep_line :: "string \<Rightarrow> line \<Rightarrow> bool" where
  "keep_line cid l = (case l of BadLine \<Rightarrow> False | Row w \<Rightarrow> row_id w \<noteq> cid)"

definition evict_and_rewrite :: "bool \<Rightarrow> string \<Rightarrow> idem_state \<Rightarrow> idem_state" where
  "evict_and_rewrite ok cid s =
     (let s1 = s\<lparr>mem := ddel cid (mem s)\<rparr>
      in case log_file s of
           Some ls \<Rightarrow> if persist_on s \<and> ok
                      then s1\<lparr>log_file := Some (filter (keep_line cid) ls)\<rparr> else s1
         | None \<Rightarrow> s1)"

section \<open>Operations\<close>

definition pending_record :: "string \<Rightarrow> string \<Rightarrow> string \<Rightarrow> string \<Rightarrow> payload \<Rightarrow> pyfloat \<Rightarrow> idem_record" where
  "pending_record cid venue symbol why intent t =
     \<lparr>client_order_id = cid, ir_venue = venue, ir_symbol = symbol, is_new = True,
      ir_status = ''pending'', broker_order_id = None, ir_note = why,
      response_payload = None, intent_payload = intent, recorded_at = t\<rparr>"

definition store_record :: "bool \<Rightarrow> idem_record \<Rightarrow> idem_state \<Rightarrow> idem_state" where
  "store_record ok r s = persist_record ok r (s\<lparr>mem := dset (client_order_id r) r (mem s)\<rparr>)"

text \<open>\<open>now\<close> is the time the expiry check reads, \<open>t\<close> the time the new record is stamped with.\<close>

definition check_or_register ::
  "env \<Rightarrow> pyfloat \<Rightarrow> pyfloat \<Rightarrow> bool \<Rightarrow> string \<Rightarrow> string \<Rightarrow> string \<Rightarrow> payload \<Rightarrow> idem_state \<Rightarrow>
   idem_error + (idem_record \<times> idem_state)" where
  "check_or_register e now t ok cid venue symbol intent s =
     (if cid = [] then Inl InvalidId
      else
        let existing = dget (mem s) cid;
            s1 = (case existing of
                    Some r \<Rightarrow> if is_expired e now r then evict_and_rewrite ok cid s else s
                  | None \<Rightarrow> s);
            live = (case existing of
                      Some r \<Rightarrow> if is_expired e now r then None else Some r
                    | None \<Rightarrow> None)
        in case live of
             Some r \<Rightarrow>
               if ir_status r = ''retryable_failed'' then
                 let retry = pending_record cid venue symbol ''retry_after_retryable_failure'' intent t
                 in Inr (retry, store_record ok retry s1)
               else Inr (r\<lparr>is_new := False, ir_note := if ir_note r = [] then ''duplicate'' else ir_note r\<rparr>, s1)
           | None \<Rightarrow>
               let fresh = pending_record cid venue symbol [] intent t
               in Inr (fresh, store_record ok fresh s1))"

text \<open>\<open>a or b\<close> on optional strings and payloads: an empty value is falsy.\<close>

definition or_str :: "string option \<Rightarrow> string option \<Rightarrow> string option" where
  "or_str a b = (case a of Some x \<Rightarrow> if x = [] then b else a | None \<Rightarrow> b)"

definition or_payload :: "payload option \<Rightarrow> payload option \<Rightarrow> payload option" where
  "or_payload a b = (case a of Some x \<Rightarrow> if x = [] then b else a | None \<Rightarrow> b)"

definition record_result ::
  "pyfloat \<Rightarrow> bool \<Rightarrow> string \<Rightarrow> string \<Rightarrow> string option \<Rightarrow> payload option \<Rightarrow> idem_state \<Rightarrow>
   idem_error + (idem_record \<times> idem_state)" where
  "record_result t ok cid status broker resp s =
     (if cid = [] then Inl InvalidId
      else case dget (mem s) cid of
             None \<Rightarrow> Inl MissingRecord
           | Some r \<Rightarrow>
               let u = r\<lparr>is_new := False, ir_status := status,
                         broker_order_id := or_str broker (broker_order_id r),
                         response_payload := or_payload resp (response_payload r),
                         recorded_at := t\<rparr>
               in Inr (u, store_record ok u s))"

definition evict :: "bool \<Rightarrow> string \<Rightarrow> idem_state \<Rightarrow> bool \<times> idem_state" where
  "evict ok cid s =
     (if cid = [] then (False, s)
      else if dget (mem s) cid = None then (False, s)
      else (True, evict_and_rewrite ok cid s))"

definition reset_store :: "idem_state \<Rightarrow> idem_state" where
  "reset_store s = s\<lparr>mem := []\<rparr>"

section \<open>The clearing tool\<close>

record clear_summary =
  kept :: nat
  dropped :: nat
  dropped_expired :: nat
  dropped_rejected :: nat

definition is_rejected :: "idem_row \<Rightarrow> bool" where
  "is_rejected w = (lower (case row_status w of Some s \<Rightarrow> s | None \<Rightarrow> []) = ''rejected'')"

definition last_by_id :: "line list \<Rightarrow> (string, idem_row) dict" where
  "last_by_id ls =
     foldl (\<lambda>m l. case l of BadLine \<Rightarrow> m
                  | Row w \<Rightarrow> if row_id w = [] then m else dset (row_id w) w m) [] ls"

text \<open>The rows that survive, in order, and why the others do not.\<close>

definition survives :: "env \<Rightarrow> pyfloat \<Rightarrow> bool \<Rightarrow> idem_row \<Rightarrow> bool" where
  "survives e now rejected_only w =
     (\<not> is_rejected w \<and> (rejected_only \<or> \<not> is_expired e now (row_to_record w)))"

definition clear_store :: "env \<Rightarrow> pyfloat \<Rightarrow> bool \<Rightarrow> bool \<Rightarrow> idem_state \<Rightarrow> clear_summary \<times> idem_state" where
  "clear_store e now ok rejected_only s =
     (case (if persist_on s then log_file s else None) of
        None \<Rightarrow> (\<lparr>kept = 0, dropped = 0, dropped_expired = 0, dropped_rejected = 0\<rparr>, s)
      | Some ls \<Rightarrow>
          let ws = map snd (last_by_id ls);
              ks = map row_to_record (filter (survives e now rejected_only) ws);
              rej = length (filter is_rejected ws);
              ex = (if rejected_only then 0
                    else length (filter (\<lambda>w. \<not> is_rejected w \<and> is_expired e now (row_to_record w)) ws))
          in (\<lparr>kept = length ks, dropped = ex + rej, dropped_expired = ex, dropped_rejected = rej\<rparr>,
              s\<lparr>mem := foldl (\<lambda>m r. dset (client_order_id r) r m) [] ks,
                log_file := Some (if ok then map (\<lambda>r. Row (record_to_row r)) ks else ls)\<rparr>))"

section \<open>Runs of operations\<close>

text \<open>
  One call of the module, or a process restart, which loses the memory and replays the file.
  Each event says whether its disk write succeeds.  A call that raises leaves the state alone.
\<close>

datatype idem_call =
    CheckCall pyfloat pyfloat string string string payload
  | ResultCall pyfloat string string "string option" "payload option"
  | EvictCall string
  | ClearCall pyfloat bool
  | Restart

definition idem_step :: "env \<Rightarrow> idem_state \<Rightarrow> bool \<times> idem_call \<Rightarrow> idem_state" where
  "idem_step e s ev =
     (case ev of
        (ok, CheckCall now t cid v y p) \<Rightarrow>
          (case check_or_register e now t ok cid v y p s of Inr (_, s') \<Rightarrow> s' | Inl _ \<Rightarrow> s)
      | (ok, ResultCall t cid status b p) \<Rightarrow>
          (case record_result t ok cid status b p s of Inr (_, s') \<Rightarrow> s' | Inl _ \<Rightarrow> s)
      | (ok, EvictCall cid) \<Rightarrow> snd (evict ok cid s)
      | (ok, ClearCall now rej) \<Rightarrow> snd (clear_store e now ok rej s)
      | (ok, Restart) \<Rightarrow> load_store_from_disk (reset_store s))"

text \<open>Does this call tell the caller to route an order with the given id?\<close>

definition told_to_route :: "env \<Rightarrow> idem_state \<Rightarrow> bool \<times> idem_call \<Rightarrow> string \<Rightarrow> bool" where
  "told_to_route e s ev cid =
     (case ev of
        (ok, CheckCall now t c v y p) \<Rightarrow>
          c = cid \<and> (case check_or_register e now t ok c v y p s of
                       Inr (r, _) \<Rightarrow> is_new r | Inl _ \<Rightarrow> False)
      | _ \<Rightarrow> False)"

definition held :: "string \<Rightarrow> idem_state \<Rightarrow> bool" where
  "held cid s = (dget (mem s) cid \<noteq> None)"

text \<open>
  The reasons the module itself gives for routing an id again: at a check its record had
  expired or was marked retryable, or some call dropped the record.
\<close>

definition released :: "env \<Rightarrow> idem_state \<Rightarrow> bool \<times> idem_call \<Rightarrow> string \<Rightarrow> bool" where
  "released e s ev cid =
     (case ev of
        (ok, CheckCall now t c v y p) \<Rightarrow>
          c = cid \<and> (case dget (mem s) cid of
                       Some r \<Rightarrow> is_expired e now r \<or> ir_status r = ''retryable_failed''
                     | None \<Rightarrow> False)
      | _ \<Rightarrow> held cid s \<and> \<not> held cid (idem_step e s ev))"

fun routings :: "env \<Rightarrow> string \<Rightarrow> idem_state \<Rightarrow> (bool \<times> idem_call) list \<Rightarrow> nat" where
  "routings e cid s [] = 0"
| "routings e cid s (ev # evs) =
     (if told_to_route e s ev cid then 1 else 0) + routings e cid (idem_step e s ev) evs"

fun releases :: "env \<Rightarrow> string \<Rightarrow> idem_state \<Rightarrow> (bool \<times> idem_call) list \<Rightarrow> nat" where
  "releases e cid s [] = 0"
| "releases e cid s (ev # evs) =
     (if released e s ev cid then 1 else 0) + releases e cid (idem_step e s ev) evs"

section \<open>Lemmas: routing\<close>

lemma mem_persist [simp]: "mem (persist_record ok r s) = mem s"
  by (simp add: persist_record_def)

lemma mem_store [simp]: "mem (store_record ok r s) = dset (client_order_id r) r (mem s)"
  by (simp add: store_record_def)

lemma mem_evict [simp]: "mem (evict_and_rewrite ok cid s) = ddel cid (mem s)"
  by (simp add: evict_and_rewrite_def Let_def split: option.splits)

lemma pending_simps [simp]:
  "client_order_id (pending_record cid v y w p t) = cid" "is_new (pending_record cid v y w p t)"
  "ir_status (pending_record cid v y w p t) = ''pending''"
  "recorded_at (pending_record cid v y w p t) = t"
  by (simp_all add: pending_record_def)

text \<open>The three outcomes of a check with a valid id.\<close>

lemma check_fresh:
  assumes "cid \<noteq> []" "dget (mem s) cid = None"
  shows "check_or_register e now t ok cid v y p s
         = Inr (pending_record cid v y [] p t, store_record ok (pending_record cid v y [] p t) s)"
  using assms by (simp add: check_or_register_def Let_def)

lemma check_expired:
  assumes "cid \<noteq> []" "dget (mem s) cid = Some r" "is_expired e now r"
  shows "check_or_register e now t ok cid v y p s
         = Inr (pending_record cid v y [] p t,
                store_record ok (pending_record cid v y [] p t) (evict_and_rewrite ok cid s))"
  using assms by (simp add: check_or_register_def Let_def)

lemma check_retry:
  assumes "cid \<noteq> []" "dget (mem s) cid = Some r" "\<not> is_expired e now r"
    "ir_status r = ''retryable_failed''"
  shows "check_or_register e now t ok cid v y p s
         = Inr (pending_record cid v y ''retry_after_retryable_failure'' p t,
                store_record ok (pending_record cid v y ''retry_after_retryable_failure'' p t) s)"
  using assms by (simp add: check_or_register_def Let_def)

lemma check_duplicate:
  assumes "cid \<noteq> []" "dget (mem s) cid = Some r" "\<not> is_expired e now r"
    "ir_status r \<noteq> ''retryable_failed''"
  shows "check_or_register e now t ok cid v y p s
         = Inr (r\<lparr>is_new := False, ir_note := if ir_note r = [] then ''duplicate'' else ir_note r\<rparr>, s)"
  using assms by (simp add: check_or_register_def Let_def)

lemma check_empty [simp]: "check_or_register e now t ok [] v y p s = Inl InvalidId"
  by (simp add: check_or_register_def)

lemma check_cases:
  obtains (bad) "cid = []"
  | (fresh) "cid \<noteq> []" "dget (mem s) cid = None"
  | (expired) r where "cid \<noteq> []" "dget (mem s) cid = Some r" "is_expired e now r"
  | (retry) r where "cid \<noteq> []" "dget (mem s) cid = Some r" "\<not> is_expired e now r"
      "ir_status r = ''retryable_failed''"
  | (dup) r where "cid \<noteq> []" "dget (mem s) cid = Some r" "\<not> is_expired e now r"
      "ir_status r \<noteq> ''retryable_failed''"
  by (cases "dget (mem s) cid") auto

lemmas check_outcomes = check_fresh check_expired check_retry check_duplicate

text \<open>One step: a new routing needs a release, or an id that was not held before.\<close>

lemma step_potential:
  "(if told_to_route e s ev cid then 1 else 0) + (if held cid s then 1 else 0)
   \<le> (if released e s ev cid then 1 else 0) + (if held cid (idem_step e s ev) then 1 else (0::nat))"
proof -
  obtain ok c where ev: "ev = (ok, c)" by (cases ev)
  show ?thesis
  proof (cases c)
    case (CheckCall now t k v y p)
    show ?thesis
      by (cases rule: check_cases [where cid = k and s = s and e = e and now = now])
        (auto simp: ev CheckCall told_to_route_def released_def idem_step_def held_def check_outcomes)
  qed (auto simp: ev told_to_route_def released_def held_def)
qed

lemma routings_bound:
  "routings e cid s evs + (if held cid s then 1 else 0) \<le> releases e cid s evs + 1"
proof (induction evs arbitrary: s)
  case Nil
  then show ?case by simp
next
  case (Cons ev evs)
  show ?case
    using Cons [of "idem_step e s ev"] step_potential [of e s ev cid]
    by (simp split: if_splits)
qed

text \<open>A check hands an id out exactly when no live record stands against it.\<close>

lemma told_check:
  "told_to_route e s (ok, CheckCall now t c v y p) cid \<longleftrightarrow>
     c = cid \<and> cid \<noteq> [] \<and>
     (case dget (mem s) cid of None \<Rightarrow> True
      | Some r \<Rightarrow> is_expired e now r \<or> ir_status r = ''retryable_failed'')"
  by (cases rule: check_cases [where cid = c and s = s and e = e and now = now])
    (auto simp: told_to_route_def check_outcomes)

lemma told_other:
  "\<not> told_to_route e s (ok, ResultCall t c st b r) cid"
  "\<not> told_to_route e s (ok, EvictCall c) cid"
  "\<not> told_to_route e s (ok, ClearCall now rej) cid"
  "\<not> told_to_route e s (ok, Restart) cid"
  by (simp_all add: told_to_route_def)

section \<open>Lemmas: the file mirrors the memory\<close>

definition replay :: "line list \<Rightarrow> (string, idem_record) dict" where
  "replay ls = foldl load_line [] ls"

definition log_lines :: "idem_state \<Rightarrow> line list" where
  "log_lines s = (case log_file s of None \<Rightarrow> [] | Some ls \<Rightarrow> ls)"

abbreviation settled :: "idem_record \<Rightarrow> idem_record" where
  "settled r \<equiv> r\<lparr>is_new := False\<rparr>"

text \<open>
  The store is mirrored when persistence is on, every record sits under its own non-empty id,
  and replaying the file gives the records of the memory (read back, none is new).
\<close>

definition mirrored :: "idem_state \<Rightarrow> bool" where
  "mirrored s \<longleftrightarrow> persist_on s \<and>
     (\<forall>cid r. dget (mem s) cid = Some r \<longrightarrow> client_order_id r = cid \<and> cid \<noteq> []) \<and>
     (\<forall>cid. dget (replay (log_lines s)) cid = map_option settled (dget (mem s) cid))"

lemma row_record [simp]: "row_to_record (record_to_row r) = settled r"
  by (simp add: row_to_record_def record_to_row_def row_stamp_def)

lemma row_id_record [simp]: "row_id (record_to_row r) = client_order_id r"
  by (simp add: record_to_row_def)

lemma replay_snoc: "replay (ls @ [Row (record_to_row r)])
   = (if client_order_id r = [] then replay ls else dset (client_order_id r) (settled r) (replay ls))"
  by (simp add: replay_def load_line_def)

lemma replay_filter_gen:
  assumes "\<And>k. k \<noteq> cid \<Longrightarrow> dget m k = dget m' k"
  shows "dget (foldl load_line m (filter (keep_line cid) ls)) k
         = (if k = cid then dget m k else dget (foldl load_line m' ls) k)"
  using assms
proof (induction ls arbitrary: m m')
  case Nil
  then show ?case by simp
next
  case (Cons l ls)
  show ?case
  proof (cases "keep_line cid l")
    case True
    then have "\<And>k. k \<noteq> cid \<Longrightarrow> dget (load_line m l) k = dget (load_line m' l) k"
      and "dget (load_line m l) cid = dget m cid"
      using Cons.prems by (auto simp: load_line_def keep_line_def split: line.splits)
    with True Cons.IH [of "load_line m l" "load_line m' l"] show ?thesis by simp
  next
    case False
    then have "\<And>k. k \<noteq> cid \<Longrightarrow> dget m k = dget (load_line m' l) k"
      using Cons.prems by (auto simp: load_line_def keep_line_def split: line.splits)
    with False Cons.IH [of m "load_line m' l"] show ?thesis by simp
  qed
qed

lemma replay_filter:
  "dget (replay (filter (keep_line cid) ls)) k = (if k = cid then None else dget (replay ls) k)"
  by (simp add: replay_def replay_filter_gen [of cid "[]" "[]"])

lemma log_store:
  "persist_on s \<Longrightarrow> log_lines (store_record True r s) = log_lines s @ [Row (record_to_row r)]"
  by (simp add: store_record_def persist_record_def log_lines_def)

lemma log_evict:
  "persist_on s \<Longrightarrow> log_lines (evict_and_rewrite True cid s) = filter (keep_line cid) (log_lines s)"
  by (simp add: evict_and_rewrite_def log_lines_def Let_def split: option.splits)

lemma persist_on_store [simp]: "persist_on (store_record ok r s) = persist_on s"
  by (simp add: store_record_def persist_record_def)

lemma persist_on_evict [simp]: "persist_on (evict_and_rewrite ok cid s) = persist_on s"
  by (simp add: evict_and_rewrite_def Let_def split: option.splits)

lemma mirrored_store: "mirrored s \<Longrightarrow> client_order_id r \<noteq> [] \<Longrightarrow> mirrored (store_record True r s)"
  by (auto simp: mirrored_def log_store replay_snoc split: if_splits)

lemma mirrored_evict: "mirrored s \<Longrightarrow> mirrored (evict_and_rewrite True cid s)"
  by (auto simp: mirrored_def log_evict replay_filter split: if_splits)

lemma mirrored_check:
  assumes "mirrored s" "check_or_register e now t True cid v y p s = Inr (r, s')"
  shows "mirrored s'"
  using assms
  by (cases rule: check_cases [where cid = cid and s = s and e = e and now = now])
    (auto simp: check_outcomes intro!: mirrored_store mirrored_evict)

lemma mirrored_id: "mirrored s \<Longrightarrow> dget (mem s) cid = Some r \<Longrightarrow> client_order_id r = cid \<and> cid \<noteq> []"
  by (simp add: mirrored_def)

lemma mirrored_result:
  assumes "mirrored s" "record_result t True cid status b p s = Inr (r, s')"
  shows "mirrored s'"
  using assms mirrored_id [OF assms(1), of cid]
  by (auto simp: record_result_def Let_def split: if_splits option.splits intro!: mirrored_store)

lemma mirrored_evict_call: "mirrored s \<Longrightarrow> mirrored (snd (evict True cid s))"
  by (simp add: evict_def mirrored_evict)

lemma replay_records:
  assumes "\<And>k. dget m k = map_option settled (dget m' k)" "\<And>r. r \<in> set ks \<Longrightarrow> client_order_id r \<noteq> []"
  shows "dget (foldl load_line m (map (\<lambda>r. Row (record_to_row r)) ks)) k
         = map_option settled (dget (foldl (\<lambda>m r. dset (client_order_id r) r m) m' ks) k)"
  using assms
proof (induction ks arbitrary: m m')
  case Nil
  then show ?case by simp
next
  case (Cons r ks)
  then show ?case
    using Cons.IH [of "load_line m (Row (record_to_row r))" "dset (client_order_id r) r m'"]
    by (simp add: load_line_def)
qed

lemma foldl_dset_id:
  assumes "\<And>k r. dget m k = Some r \<Longrightarrow> f r = k \<and> P r" "\<And>r. r \<in> set ks \<Longrightarrow> P r"
    "dget (foldl (\<lambda>m r. dset (f r) r m) m ks) k = Some r"
  shows "f r = k \<and> P r"
  using assms
proof (induction ks arbitrary: m)
  case Nil
  then show ?case by simp
next
  case (Cons x ks)
  show ?case
    by (rule Cons.IH [of "dset (f x) x m"]) (use Cons.prems in \<open>auto split: if_splits\<close>)
qed

text \<open>Every row of the coalesced log sits under its own non-empty id, and each id once.\<close>

lemma last_by_id_keys:
  assumes "\<And>k w. (k, w) \<in> set m \<Longrightarrow> row_id w = k \<and> k \<noteq> []" "distinct (map fst m)"
    and "m' = foldl (\<lambda>m l. case l of BadLine \<Rightarrow> m
                  | Row w \<Rightarrow> if row_id w = [] then m else dset (row_id w) w m) m ls"
  shows "(\<forall>(k, w)\<in>set m'. row_id w = k \<and> k \<noteq> []) \<and> distinct (map fst m')"
  using assms
proof (induction ls arbitrary: m)
  case Nil
  then show ?case by auto
next
  case (Cons l ls)
  let ?m = "case l of BadLine \<Rightarrow> m | Row w \<Rightarrow> if row_id w = [] then m else dset (row_id w) w m"
  have d: "distinct (map fst ?m)"
    using Cons.prems(2) by (auto split: line.splits simp: distinct_update)
  have "row_id w = k \<and> k \<noteq> []" if "(k, w) \<in> set ?m" for k w
    using that Cons.prems(1) by (auto split: line.splits if_splits dest!: in_set_dset)
  then show ?case using Cons.IH [of ?m] d Cons.prems(3) by simp
qed

lemma last_by_id_wf: "(k, w) \<in> set (last_by_id ls) \<Longrightarrow> row_id w = k \<and> k \<noteq> []"
  and distinct_last_by_id: "distinct (map fst (last_by_id ls))"
  using last_by_id_keys [of "[]" "last_by_id ls" ls] by (auto simp: last_by_id_def)

text \<open>The coalesced log is the replay, before the rows are read as records.\<close>

lemma replay_last_by_id_gen:
  assumes "\<And>k. dget m k = map_option row_to_record (dget m' k)"
  shows "dget (foldl load_line m ls) k = map_option row_to_record
           (dget (foldl (\<lambda>m l. case l of BadLine \<Rightarrow> m
                  | Row w \<Rightarrow> if row_id w = [] then m else dset (row_id w) w m) m' ls) k)"
  using assms
proof (induction ls arbitrary: m m')
  case Nil
  then show ?case by simp
next
  case (Cons l ls)
  let ?m' = "case l of BadLine \<Rightarrow> m' | Row w \<Rightarrow> if row_id w = [] then m' else dset (row_id w) w m'"
  have "dget (load_line m l) k = map_option row_to_record (dget ?m' k)" for k
    using Cons.prems by (auto simp: load_line_def split: line.splits)
  from Cons.IH [OF this] show ?case by simp
qed

lemma replay_last_by_id: "dget (replay ls) k = map_option row_to_record (dget (last_by_id ls) k)"
  unfolding replay_def last_by_id_def by (rule replay_last_by_id_gen) simp

definition survivors :: "env \<Rightarrow> pyfloat \<Rightarrow> bool \<Rightarrow> line list \<Rightarrow> idem_record list" where
  "survivors e now rej ls
   = map row_to_record (filter (survives e now rej) (map snd (last_by_id ls)))"

lemma survivor_id: "r \<in> set (survivors e now rej ls) \<Longrightarrow> client_order_id r \<noteq> []"
  using last_by_id_wf by (fastforce simp: survivors_def row_to_record_def)

lemma clear_state:
  assumes "persist_on s" "log_file s = Some ls"
  shows "snd (clear_store e now ok rej s)
         = s\<lparr>mem := foldl (\<lambda>m r. dset (client_order_id r) r m) [] (survivors e now rej ls),
             log_file := Some (if ok then map (\<lambda>r. Row (record_to_row r)) (survivors e now rej ls)
                               else ls)\<rparr>"
  using assms by (simp add: clear_store_def survivors_def Let_def)

lemma mirrored_clear:
  assumes "mirrored s"
  shows "mirrored (snd (clear_store e now True rej s))"
proof (cases "log_file s")
  case None
  then show ?thesis using assms by (simp add: clear_store_def)
next
  case (Some ls)
  have on: "persist_on s" using assms by (simp add: mirrored_def)
  let ?m = "foldl (\<lambda>m r. dset (client_order_id r) r m) [] (survivors e now rej ls)"
  have "client_order_id r = k \<and> client_order_id r \<noteq> []" if "dget ?m k = Some r" for k r
    using that foldl_dset_id [where f = client_order_id and P = "\<lambda>r. client_order_id r \<noteq> []"
        and m = "[]" and ks = "survivors e now rej ls" and k = k and r = r] survivor_id by auto
  then have own: "\<forall>k r. dget ?m k = Some r \<longrightarrow> client_order_id r = k \<and> k \<noteq> []" by blast
  have "dget (replay (map (\<lambda>r. Row (record_to_row r)) (survivors e now rej ls))) k
    = map_option settled (dget ?m k)" for k
    unfolding replay_def by (rule replay_records) (auto simp: survivor_id)
  then have rep: "\<forall>k. dget (replay (map (\<lambda>r. Row (record_to_row r)) (survivors e now rej ls))) k
    = map_option settled (dget ?m k)" by blast
  have "mirrored (s\<lparr>mem := m, log_file := Some l\<rparr>)"
    if "\<forall>k r. dget m k = Some r \<longrightarrow> client_order_id r = k \<and> k \<noteq> []"
      "\<forall>k. dget (replay l) k = map_option settled (dget m k)" for m l
    using on that by (simp add: mirrored_def log_lines_def)
  from this [OF own rep] show ?thesis by (simp only: clear_state [OF on Some] if_True)
qed

lemma replay_entry: "dget (replay ls) k = Some r \<Longrightarrow> client_order_id r = k \<and> k \<noteq> [] \<and> \<not> is_new r"
  using last_by_id_wf [OF map_of_SomeD, of ls k]
  by (auto simp: replay_last_by_id row_to_record_def)

lemma restart_mem:
  "persist_on s \<Longrightarrow> mem (load_store_from_disk (reset_store s)) = replay (log_lines s)"
  by (simp add: load_store_from_disk_def reset_store_def replay_def log_lines_def
      split: option.splits)

lemma restart_rest [simp]:
  "persist_on (load_store_from_disk (reset_store s)) = persist_on s"
  "log_lines (load_store_from_disk (reset_store s)) = log_lines s"
  by (simp_all add: load_store_from_disk_def reset_store_def log_lines_def split: option.splits)

lemma mirrored_restart:
  assumes "mirrored s"
  shows "mirrored (load_store_from_disk (reset_store s))"
proof -
  have on: "persist_on s" using assms by (simp add: mirrored_def)
  have "map_option settled (dget (replay ls) k) = dget (replay ls) k" for ls k
    using replay_entry [of ls k] by (cases "dget (replay ls) k") auto
  then show ?thesis using replay_entry by (auto simp: mirrored_def restart_mem on)
qed

lemma mirrored_step:
  assumes "mirrored s" "fst ev"
  shows "mirrored (idem_step e s ev)"
proof -
  obtain c where ev: "ev = (True, c)" using assms(2) by (cases ev) auto
  show ?thesis
  proof (cases c)
    case (CheckCall now t k v y p)
    then show ?thesis using assms(1) mirrored_check
      by (auto simp: ev idem_step_def split: sum.splits)
  next
    case (ResultCall t k st b p)
    then show ?thesis using assms(1) mirrored_result
      by (auto simp: ev idem_step_def split: sum.splits)
  qed (use assms(1) in \<open>simp_all add: ev idem_step_def mirrored_evict_call mirrored_clear mirrored_restart\<close>)
qed

interpretation idem: machine "idem_step e" mirrored fst for e
  by unfold_locales (rule mirrored_step)

section \<open>Properties\<close>

definition demo_env :: env where
  "demo_env = (\<lambda>_. None)"

definition demo_store :: idem_state where
  "demo_store = \<lparr>mem = [], persist_on = True, log_file = None\<rparr>"

definition demo_calls :: "(bool \<times> idem_call) list" where
  "demo_calls = [(True, CheckCall (Fin 100) (Fin 100) ''o1'' ''ibkr'' ''MNQ'' []),
                 (True, ResultCall (Fin 101) ''o1'' ''open'' (Some ''b9'') None)]"

lemma demo_mirrored: "mirrored demo_store"
  by (simp add: mirrored_def demo_store_def log_lines_def replay_def)

lemma demo_ok: "list_all fst demo_calls"
  by (simp add: demo_calls_def)

lemma demo_run: "dget (mem (foldl (idem_step demo_env) demo_store demo_calls)) ''o1''
  = Some \<lparr>client_order_id = ''o1'', ir_venue = ''ibkr'', ir_symbol = ''MNQ'', is_new = False,
          ir_status = ''open'', broker_order_id = Some ''b9'', ir_note = [],
          response_payload = None, intent_payload = [], recorded_at = Fin 101\<rparr>"
  by code_simp

text \<open>
  C5. No double submission: over any interleaving of checks, results, evictions, clears and
  restarts, failed disk writes included, an order id is handed out for routing at most once
  more than the store released it (its record expired, was marked retryable, or was
  dropped); an id that is already on record is never handed out without such a release.
\<close>

theorem no_double_routing:
  "routings e cid s evs + (if held cid s then 1 else 0) \<le> releases e cid s evs + 1"
  by (rule routings_bound)

text \<open>
  What a check does: an empty id is refused; an id without a live record (none, or expired) is
  registered as a new pending order stamped with the time of the call; a live record marked
  retryable is replaced by a new pending one; any other live record is returned, marked as not
  new, and the store is left as it was.
\<close>

theorem check_or_register_spec:
  "(cid = [] \<longrightarrow> check_or_register e now t ok cid v y p s = Inl InvalidId) \<and>
   (cid \<noteq> [] \<longrightarrow> (\<exists>r s'. check_or_register e now t ok cid v y p s = Inr (r, s') \<and>
      (case dget (mem s) cid of
         Some x \<Rightarrow>
           if is_expired e now x \<or> ir_status x = ''retryable_failed''
           then is_new r \<and> ir_status r = ''pending'' \<and> recorded_at r = t
                \<and> dget (mem s') cid = Some r
           else \<not> is_new r \<and> s' = s \<and> ir_status r = ir_status x
                \<and> broker_order_id r = broker_order_id x \<and> response_payload r = response_payload x
       | None \<Rightarrow> is_new r \<and> ir_status r = ''pending'' \<and> recorded_at r = t
                 \<and> dget (mem s') cid = Some r) \<and>
      (\<forall>k. k \<noteq> cid \<longrightarrow> dget (mem s') k = dget (mem s) k)))"
  by (cases rule: check_cases [where cid = cid and s = s and e = e and now = now])
    (simp_all add: check_outcomes)

theorem check_or_register_spec_witness:
  "\<exists>r s'. check_or_register demo_env (Fin 5) (Fin 5) True ''o2'' ''ibkr'' ''MNQ'' [] demo_store
          = Inr (r, s') \<and> is_new r"
  using check_or_register_spec [of "''o2''" demo_env "Fin 5" "Fin 5" True "''ibkr''" "''MNQ''" "[]" demo_store]
  by (auto simp: demo_store_def)

text \<open>
  Restarts are lossless: after any calls whose disk writes succeeded, restarting the process
  gives back every record (none of them marked new), and no others; so every check answers as
  it would have without the restart.
\<close>

theorem restart_keeps_dedup:
  assumes "mirrored s" "list_all fst evs"
  shows "dget (mem (idem_step e (foldl (idem_step e) s evs) (True, Restart))) k
           = map_option settled (dget (mem (foldl (idem_step e) s evs)) k)
         \<and> told_to_route e (idem_step e (foldl (idem_step e) s evs) (True, Restart)) (ok, c) k
           = told_to_route e (foldl (idem_step e) s evs) (ok, c) k"
proof -
  let ?s = "foldl (idem_step e) s evs"
  have m: "mirrored ?s" using assms by (rule idem.run_inv)
  then have on: "persist_on ?s" by (simp add: mirrored_def)
  have get: "dget (mem (idem_step e ?s (True, Restart))) k = map_option settled (dget (mem ?s) k)"
    using m by (simp add: idem_step_def restart_mem [OF on] mirrored_def)
  have exp: "is_expired e now (settled r) = is_expired e now r" for now r
    by (simp add: is_expired_def)
  have "told_to_route e u (ok, c) k = told_to_route e w (ok, c) k"
    if "dget (mem u) k = map_option settled (dget (mem w) k)" for u w
    using that
    by (cases c; cases "dget (mem w) k") (auto simp: told_check told_other exp)
  with get show ?thesis by blast
qed

theorem restart_keeps_dedup_witness:
  "\<exists>r. dget (mem (idem_step demo_env (foldl (idem_step demo_env) demo_store demo_calls)
             (True, Restart))) ''o1'' = Some r \<and> ir_status r = ''open'' \<and> recorded_at r = Fin 101"
  using restart_keeps_dedup [OF demo_mirrored demo_ok, of demo_env "''o1''" True Restart]
  by (simp add: demo_run)

text \<open>
  What the clearing tool keeps: of the last row of every id, exactly those that are not
  rejected and, unless only rejected rows are dropped, have not expired; they are in the
  memory and in the file, the summary counts every id once, and a restart gives the same
  memory.
\<close>

theorem clear_store_keeps:
  assumes "persist_on s" "log_file s = Some ls"
  shows "(kept (fst (clear_store e now True rej s)) + dropped (fst (clear_store e now True rej s))
            = length (last_by_id ls))
         \<and> kept (fst (clear_store e now True rej s))
             = length (filter (\<lambda>(k, w). survives e now rej w) (last_by_id ls))
         \<and> set (survivors e now rej ls)
             = {row_to_record w |w k. (k, w) \<in> set (last_by_id ls) \<and> survives e now rej w}
         \<and> log_file (snd (clear_store e now True rej s))
             = Some (map (\<lambda>r. Row (record_to_row r)) (survivors e now rej ls))"
proof -
  have split3: "length (filter (\<lambda>w. \<not> is_rejected w \<and> \<not> X w) ws)
      + (length (filter (\<lambda>w. \<not> is_rejected w \<and> X w) ws) + length (filter is_rejected ws))
      = length ws" for X and ws :: "idem_row list"
    by (induction ws) auto
  have split2: "length (filter (\<lambda>w. \<not> is_rejected w) ws) + length (filter is_rejected ws)
      = length ws" for ws :: "idem_row list"
    by (induction ws) auto
  have "kept (fst (clear_store e now True rej s)) + dropped (fst (clear_store e now True rej s))
            = length (last_by_id ls)"
    using assms split3 [of "\<lambda>w. is_expired e now (row_to_record w)" "map snd (last_by_id ls)"]
      split2 [of "map snd (last_by_id ls)"]
    by (cases rej) (simp_all add: clear_store_def Let_def survives_def [abs_def])
  moreover have "kept (fst (clear_store e now True rej s))
             = length (filter (\<lambda>(k, w). survives e now rej w) (last_by_id ls))"
    using assms by (simp add: clear_store_def Let_def filter_map comp_def case_prod_unfold)
  moreover have "set (survivors e now rej ls)
             = {row_to_record w |w k. (k, w) \<in> set (last_by_id ls) \<and> survives e now rej w}"
    by (force simp: survivors_def)
  ultimately show ?thesis by (simp add: clear_state [OF assms])
qed

theorem clear_store_keeps_witness:
  "kept (fst (clear_store demo_env (Fin 200) True False
        (foldl (idem_step demo_env) demo_store demo_calls))) = 1"
proof -
  let ?s = "foldl (idem_step demo_env) demo_store demo_calls"
  have n: "length (filter (\<lambda>(k, w). survives demo_env (Fin 200) False w)
     (last_by_id (the (log_file ?s)))) = 1" by code_simp
  have "persist_on ?s" by code_simp
  moreover have "log_file ?s = Some (the (log_file ?s))" by code_simp
  ultimately show ?thesis using clear_store_keeps n by metis
qed

text \<open>
  Recording the same result twice is not a no-op: the second call restarts the expiry clock of
  the record and appends another row.
\<close>

lemma repeat_result_restamps:
  assumes "record_result t ok cid st b p s = Inr (r, s')"
  shows "\<exists>r' s''. record_result t' True cid st b p s' = Inr (r', s'') \<and> recorded_at r' = t'
           \<and> (persist_on s \<longrightarrow> log_lines s'' = log_lines s' @ [Row (record_to_row r')])"
  using assms
  by (auto simp: record_result_def Let_def log_store split: if_splits option.splits)

end
