(* ===== verification/Whole.thy ===== *)
theory Whole
  imports Prelude
begin

text \<open>
  Whole numbers as floats: below \<open>2 ^ 53\<close> they are exact, so sums, differences and products of whole
  amounts are those of the integers.  The components state their arithmetic laws on such amounts.
  Floats are given a linear order, so that the library's sorting applies to them.
\<close>

section \<open>An order on floats\<close>

text \<open>NaN is put last; Python's order agrees on all other floats.\<close>

instantiation pyfloat :: linorder
begin

definition less_pyfloat :: "pyfloat \<Rightarrow> pyfloat \<Rightarrow> bool" where
  "less_pyfloat x y = (flt x y \<or> x \<noteq> NaN \<and> y = NaN)"

definition less_eq_pyfloat :: "pyfloat \<Rightarrow> pyfloat \<Rightarrow> bool" where
  "less_eq_pyfloat x y = (x = y \<or> flt x y \<or> x \<noteq> NaN \<and> y = NaN)"

instance
proof
  fix x y z :: pyfloat
  show "(x < y) = (x \<le> y \<and> \<not> y \<le> x)" "x \<le> y \<or> y \<le> x"
    by (cases x; cases y; auto simp: less_pyfloat_def less_eq_pyfloat_def)+
  show "x \<le> x" by (simp add: less_eq_pyfloat_def)
  show "x \<le> y \<Longrightarrow> y \<le> z \<Longrightarrow> x \<le> z"
    by (cases x; cases y; cases z; auto simp: less_eq_pyfloat_def)
  show "x \<le> y \<Longrightarrow> y \<le> x \<Longrightarrow> x = y"
    by (cases x; cases y; auto simp: less_eq_pyfloat_def)
qed

end

section \<open>Whole amounts\<close>

text \<open>Whole dollars, small enough that sums of them are exact.\<close>

definition whole :: "pyfloat \<Rightarrow> bool" where
  "whole x = (case x of Fin q \<Rightarrow> q = of_int \<lfloor>q\<rfloor> \<and> \<bar>q\<bar> \<le> 2 ^ 45 | _ \<Rightarrow> False)"

text \<open>The whole number of dollars in an amount.\<close>

definition whole_part :: "pyfloat \<Rightarrow> int" where
  "whole_part x = (case x of Fin q \<Rightarrow> \<lfloor>q\<rfloor> | _ \<Rightarrow> 0)"

lemma whole_part_whole [simp]: "whole_part (Fin (of_int n)) = n"
  by (simp add: whole_part_def)

lemma wholeE:
  assumes "whole x" obtains n where "x = Fin (of_int n)" "\<bar>n\<bar> \<le> 2 ^ 45"
proof -
  from assms obtain q where q: "x = Fin q" "q = of_int \<lfloor>q\<rfloor>" "\<bar>q\<bar> \<le> 2 ^ 45"
    by (auto simp: whole_def split: pyfloat.splits)
  then have "\<bar>of_int \<lfloor>q\<rfloor> :: rat\<bar> \<le> of_int (2 ^ 45)" by simp
  then have "\<bar>\<lfloor>q\<rfloor>\<bar> \<le> 2 ^ 45" by (simp only: of_int_abs [symmetric] of_int_le_iff)
  with q that show thesis by metis
qed

lemma fsub_whole: "\<bar>a - b\<bar> \<le> 2 ^ 53 \<Longrightarrow> fsub (Fin (of_int a)) (Fin (of_int b)) = Fin (of_int (a - b))"
  using fl_whole [of "a - b"] by simp

lemma pymin_whole: "pymin (Fin (of_int a)) (Fin (of_int b)) = Fin (of_int (min a b))"
  by (simp add: pymin_def min_def)

lemma pymax_whole: "pymax (Fin (of_int a)) (Fin (of_int b)) = Fin (of_int (max a b))"
  by (simp add: pymax_def max_def)

lemma fmul_whole: "\<bar>a * b\<bar> \<le> 2 ^ 53 \<Longrightarrow> fmul (Fin (of_int a)) (Fin (of_int b)) = Fin (of_int (a * b))"
  using fl_whole [of "a * b"] by simp

lemma fadd_whole:
  "\<bar>a + b\<bar> \<le> 2 ^ 53 \<Longrightarrow> fadd (Fin (of_int a)) (Fin (of_int b)) = Fin (of_int (a + b))"
  using fl_whole [of "a + b"] by simp

lemma sum_loop_whole:
  "\<bar>a\<bar> + sum_list (map abs ns) \<le> 2 ^ 53 \<Longrightarrow>
   sum_loop (Fin (of_int a)) (Fin 0) (map (\<lambda>n. Fin (of_int n)) ns) = Fin (of_int (a + sum_list ns))"
proof (induction ns arbitrary: a)
  case Nil
  then show ?case by (simp add: float_truthy_def)
next
  case (Cons n ns)
  have pos: "0 \<le> sum_list (map abs ns)" by (rule sum_list_nonneg) auto
  have b: "\<bar>a + n\<bar> \<le> 2 ^ 53" "\<bar>a\<bar> \<le> 2 ^ 53" "\<bar>n\<bar> \<le> 2 ^ 53"
    "\<bar>a + n\<bar> + sum_list (map abs ns) \<le> 2 ^ 53"
    using Cons.prems pos by auto
  have t: "fadd (Fin (of_int a)) (Fin (of_int n)) = Fin (of_int (a + n))"
    using b(1) by (rule fadd_whole)
  have "fsub (Fin (of_int a)) (Fin (of_int (a + n))) = Fin (of_int (- n))"
    "fsub (Fin (of_int n)) (Fin (of_int (a + n))) = Fin (of_int (- a))"
    using b fl_whole [of "- n"] fl_whole [of "- a"] by simp_all
  then have "fadd (fsub (Fin (of_int a)) (Fin (of_int (a + n)))) (Fin (of_int n)) = Fin 0"
    "fadd (fsub (Fin (of_int n)) (Fin (of_int (a + n)))) (Fin (of_int a)) = Fin 0"
    by simp_all
  then show ?case
    using Cons.IH [OF b(4)] t fadd_whole [of 0 0]
    by (simp add: Let_def add.assoc del: fadd.simps fsub_Fin_simp)
qed

lemma pysum_whole:
  "sum_list (map abs ns) \<le> 2 ^ 53 \<Longrightarrow>
   pysum (map (\<lambda>n. Fin (of_int n)) ns) = Fin (of_int (sum_list ns))"
proof (cases ns)
  case (Cons a ms)
  assume "sum_list (map abs ns) \<le> 2 ^ 53"
  then have le: "\<bar>a\<bar> + sum_list (map abs ms) \<le> 2 ^ 53" by (simp add: Cons)
  moreover have "0 \<le> sum_list (map abs ms)" by (rule sum_list_nonneg) auto
  ultimately have "fl (of_int a) = Fin (of_int a)" by (intro fl_whole) simp
  with sum_loop_whole [OF le] show ?thesis by (simp add: Cons)
qed simp

lemma whole_cents:
  assumes "\<bar>n\<bar> \<le> 2 ^ 53"
  shows "fround 2 (Fin (of_int n)) = Fin (of_int n)"
proof -
  have "rne (of_int n * 10 ^ 2) = n * 100" using rne_of_int [of "n * 100"] by simp
  then show ?thesis using fl_whole [OF assms] by simp
qed

text \<open>The whole part of a quotient of whole amounts is not disturbed by its rounding.\<close>

lemma binary_above: "1 \<le> (d :: int) \<Longrightarrow> \<exists>m. d \<le> 2 ^ m \<and> 2 ^ m \<le> 2 * d"
proof -
  assume d: "1 \<le> d"
  show ?thesis
  proof (cases "d = 1")
    case True
    then show ?thesis by (intro exI [of _ 0]) simp
  next
    case False
    define l where "l = nat (ilog2 d)"
    have "2 ^ l \<le> d" "d < 2 * 2 ^ l" using ilog2_bounds [of d] d by (simp_all add: l_def)
    then show ?thesis by (intro exI [of _ "Suc l"]) simp
  qed
qed

lemma dround_quotient:
  assumes "0 \<le> c" "c \<le> 2 ^ 45" "0 < d" "d \<le> 2 ^ 45"
  shows "\<lfloor>dround (of_int c / of_int d)\<rfloor> = c div d"
proof -
  define k where "k = c div d"
  have "c = k * d + c mod d" "0 \<le> c mod d" "c mod d < d" using assms by (simp_all add: k_def)
  then have "k * d \<le> c" "c < k * d + d" by linarith+
  moreover have "0 \<le> k" using assms by (simp add: k_def pos_imp_zdiv_nonneg_iff)
  ultimately have k: "0 \<le> k" "k * d \<le> c" "c < (k + 1) * d" by (simp_all add: distrib_right)
  obtain m where m: "d \<le> 2 ^ m" "(2::int) ^ m \<le> 2 * d" using binary_above [of d] assms(3) by auto
  define y where "y = (k + 1) * 2 ^ m - 1"
  have "k * d \<le> 2 ^ 45" using k assms by linarith
  have "k * 1 \<le> k * d" using k assms by (intro mult_left_mono) auto
  then have kl: "\<bar>k\<bar> \<le> 2 ^ 53" using k assms by simp
  have "(k + 1) * 2 ^ m \<le> (k + 1) * (2 * d)" using m k by (intro mult_left_mono) auto
  also have "\<dots> \<le> 2 ^ 47" using k assms by (simp add: algebra_simps)
  finally have ub: "(k + 1) * 2 ^ m \<le> 2 ^ 47" .
  have "1 * 1 \<le> (k + 1) * 2 ^ m" using k by (intro mult_mono) auto
  with ub have y: "\<bar>y\<bar> \<le> 2 ^ 53" by (simp add: y_def)
  have "(2::int) ^ m \<le> 2 ^ 46" using m assms by simp
  then have "m \<le> 46" by (intro power_le_imp_le_exp [of "2::int" m 46]) simp_all
  then have e: "- 1074 \<le> - int m" by simp
  have p: "(2::rat) powi (- int m) = 1 / of_int (2 ^ m)" by (simp add: power_int_minus divide_inverse)
  have "of_int c / of_int d \<le> (of_int y :: rat) * 2 powi (- int m)"
  proof -
    have "c * 2 ^ m + d \<le> (c + 1) * 2 ^ m" using m by (simp add: algebra_simps)
    also have "\<dots> \<le> ((k + 1) * d) * 2 ^ m" using k by (intro mult_right_mono) auto
    finally have "c * 2 ^ m \<le> y * d" by (simp add: y_def algebra_simps)
    then have "(of_int (c * 2 ^ m) :: rat) \<le> of_int (y * d)" by (simp only: of_int_le_iff)
    then show ?thesis using assms by (simp add: p field_simps)
  qed
  from dround_mono [OF this] have "dround (of_int c / of_int d) \<le> of_int y * 2 powi (- int m)"
    using dround_exact [OF y e] by simp
  also have "\<dots> < of_int (k + 1)"
  proof -
    have "(of_int y :: rat) < of_int ((k + 1) * 2 ^ m)" by (simp add: y_def)
    then show ?thesis by (simp add: p field_simps)
  qed
  finally have up: "dround (of_int c / of_int d) < of_int k + 1" by simp
  have "(of_int (k * d) :: rat) \<le> of_int c" using k(2) by (simp only: of_int_le_iff)
  then have "(of_int k :: rat) \<le> of_int c / of_int d" using assms by (simp add: field_simps)
  from dround_mono [OF this] have "of_int k \<le> dround (of_int c / of_int d)"
    using dround_of_int [OF kl] by simp
  with up show ?thesis by (simp add: floor_unique k_def)
qed
lemma fl_quotient_whole:
  assumes "\<bar>c\<bar> \<le> 2 ^ 45" "0 < d"
  shows "fl (of_int c / of_int d) = Fin (dround (of_int c / of_int d))" "\<bar>dround (of_int c / of_int d)\<bar> \<le> 2 ^ 45"
proof -
  have b: "- (2 ^ 45) \<le> (of_int c / of_int d :: rat)" "of_int c / of_int d \<le> (2 ^ 45 :: rat)"
  proof -
    have "\<bar>of_int c :: rat\<bar> \<le> of_int (2 ^ 45)" using assms(1) by (simp only: of_int_abs [symmetric] of_int_le_iff)
    moreover have "(1::rat) \<le> of_int d" using assms(2) by simp
    ultimately have "\<bar>of_int c / of_int d :: rat\<bar> \<le> 2 ^ 45 / 1" by (simp only: abs_divide) (intro frac_le; simp)
    then show "- (2 ^ 45) \<le> (of_int c / of_int d :: rat)" "of_int c / of_int d \<le> (2 ^ 45 :: rat)"
      by (simp_all only: abs_le_iff div_by_1) linarith+
  qed
  have "dround (2 ^ 45) = 2 ^ 45" using dround_of_int [of "2 ^ 45"] by simp
  then show le: "\<bar>dround (of_int c / of_int d)\<bar> \<le> 2 ^ 45"
    using dround_mono [OF b(1)] dround_mono [OF b(2)] dround_minus [of "2 ^ 45"] by (simp add: abs_le_iff)
  have "(2::rat) ^ 45 < dmax" unfolding dmax_def by (intro power_strict_increasing) auto
  with le show "fl (of_int c / of_int d) = Fin (dround (of_int c / of_int d))"
    by (auto simp: fl_def Let_def abs_le_iff)
qed

end
