(* ===== verification/Position_Caps.thy ===== *)
theory Position_Caps
  imports Durable "HOL-Library.List_Lexorder" "HOL-Library.Char_ord" Whole
begin

text \<open>
  The two size gates in front of order routing: the per-order cap of
  \<open>safety/position_cap.py\<close> and the fleet-wide net-position book of
  \<open>safety/cross_bot_position_tracker.py\<close>, which adds up the positions of all bots by
  symbol root, gates an entry by the net it would lead to, and mirrors the book in a JSON file.  The
  supervisor gates on the largest quantity it may send and records the one that was filled;
  \<open>gated_entry\<close> gates and records one quantity in one step.
\<close>

section \<open>The per-order cap\<close>

definition default_cap :: pyfloat where
  "default_cap = Fin 2"

definition cap_keys :: "string \<Rightarrow> string \<Rightarrow> string \<Rightarrow> string list" where
  "cap_keys side venue symbol =
     [''ETA_POSITION_CAP_'' @ upper side @ ''_'' @ upper venue @ ''_'' @ upper symbol,
      ''ETA_POSITION_CAP_'' @ upper side @ ''_'' @ upper venue,
      ''ETA_POSITION_CAP_'' @ upper side,
      ''ETA_POSITION_CAP'']"

fun first_cap :: "env \<Rightarrow> string list \<Rightarrow> pyfloat" where
  "first_cap e [] = default_cap"
| "first_cap e (k # ks) =
     (case e k of None \<Rightarrow> first_cap e ks
      | Some raw \<Rightarrow> (if strip raw = [] then first_cap e ks
                    else case parse_float raw of Some x \<Rightarrow> x | None \<Rightarrow> first_cap e ks))"

definition resolve_cap :: "env \<Rightarrow> string \<Rightarrow> string \<Rightarrow> string \<Rightarrow> pyfloat" where
  "resolve_cap e side venue symbol = first_cap e (cap_keys side venue symbol)"

datatype order_cap_error = PositionCapExceeded pyfloat pyfloat string string string

definition assert_within_caps ::
  "env \<Rightarrow> string \<Rightarrow> string \<Rightarrow> string \<Rightarrow> pyfloat \<Rightarrow> order_cap_error + unit" where
  "assert_within_caps e side venue symbol delta =
     (let cap = resolve_cap e side venue symbol
      in if flt cap (fabs delta) then Inl (PositionCapExceeded cap delta side venue symbol)
         else Inr ())"

section \<open>Symbol roots and sides\<close>

definition drop_suffix :: "string \<Rightarrow> string \<Rightarrow> string" where
  "drop_suffix suf s =
     (if ends_with s suf \<and> s \<noteq> suf then take (length s - length suf) s else s)"

definition normalize_root :: "string \<Rightarrow> string" where
  "normalize_root symbol =
     drop_suffix ''USD'' (drop_suffix ''USDT''
       (rstrip_by is_digit (lstrip_by (\<lambda>c. c = CHR ''/'') (upper symbol))))"

definition signed_delta :: "string \<Rightarrow> pyfloat \<Rightarrow> pyexc + pyfloat" where
  "signed_delta side qty =
     (if upper side \<in> {''BUY'', ''LONG''} then Inr (fabs qty)
      else if upper side \<in> {''SELL'', ''SHORT''} then Inr (fneg (fabs qty))
      else Inl ValueError)"

section \<open>Caps\<close>

definition default_root_caps :: "(string, pyfloat) dict" where
  "default_root_caps = [(''MBT'', Fin 3), (''MET'', Fin 3)]"

definition default_fallback_cap :: pyfloat where
  "default_fallback_cap = Fin 10"

definition default_prop_sleeve_caps :: "(string, pyfloat) dict" where
  "default_prop_sleeve_caps = [(''NASDAQ'', Fin 10)]"

definition prop_sleeve_multipliers :: "(string, (string, pyfloat) dict) dict" where
  "prop_sleeve_multipliers = [(''NASDAQ'', [(''MNQ'', Fin 1), (''NQ'', Fin 10)])]"

text \<open>An environment value as a cap: None when it is empty or not a number.\<close>

definition env_cap :: "env \<Rightarrow> string \<Rightarrow> pyfloat option" where
  "env_cap e k =
     (let raw = strip (env_get e k)
      in if raw = [] then None else map_option fabs (parse_float raw))"

definition resolve_fleet_cap :: "env \<Rightarrow> string \<Rightarrow> pyfloat" where
  "resolve_fleet_cap e rt =
     (case env_cap e (''ETA_FLEET_POSITION_CAP_'' @ upper rt) of
        Some x \<Rightarrow> x
      | None \<Rightarrow>
          (case dget default_root_caps (upper rt) of
             Some x \<Rightarrow> x
           | None \<Rightarrow>
               (case env_cap e ''ETA_FLEET_POSITION_CAP_DEFAULT'' of
                  Some x \<Rightarrow> x | None \<Rightarrow> default_fallback_cap)))"

fun sleeve_in :: "(string \<times> (string, pyfloat) dict) list \<Rightarrow> string \<Rightarrow> string option" where
  "sleeve_in [] rt = None"
| "sleeve_in ((sl, ms) # rest) rt = (if dget ms rt \<noteq> None then Some sl else sleeve_in rest rt)"

definition prop_sleeve_for_root :: "string \<Rightarrow> string option" where
  "prop_sleeve_for_root rt = sleeve_in prop_sleeve_multipliers (normalize_root rt)"

definition resolve_prop_sleeve_cap :: "env \<Rightarrow> string \<Rightarrow> pyfloat" where
  "resolve_prop_sleeve_cap e sleeve =
     (case env_cap e (''ETA_PROP_SLEEVE_CAP_'' @ upper sleeve @ ''_MNQ_EQUIV'') of
        Some x \<Rightarrow> x
      | None \<Rightarrow>
          (case env_cap e ''ETA_PROP_SLEEVE_CAP_DEFAULT_MNQ_EQUIV'' of
             Some x \<Rightarrow> x
           | None \<Rightarrow> dget_or default_prop_sleeve_caps (upper sleeve) default_fallback_cap))"

section \<open>The net-position book\<close>

record book =
  has_path :: bool
  disabled :: bool
  net_by_root :: "(string, pyfloat) dict"
  book_file :: jfile

datatype cap_error =
    FleetPositionCapExceeded string pyfloat pyfloat pyfloat pyfloat
  | PropSleeveCapExceeded string string pyfloat pyfloat pyfloat pyfloat
  | CapPy pyexc


definition cap_eps :: pyfloat where
  "cap_eps = fl (1 / 1000000000)"

text \<open>A cap that is None is resolved from the environment.\<close>

definition assert_fleet_position_cap ::
  "env \<Rightarrow> string \<Rightarrow> string \<Rightarrow> pyfloat \<Rightarrow> pyfloat option \<Rightarrow> book \<Rightarrow> cap_error + unit" where
  "assert_fleet_position_cap e symbol_root side delta cap_arg b =
     (if disabled b then Inr ()
      else
        let rt = normalize_root symbol_root
        in case signed_delta side delta of
             Inl x \<Rightarrow> Inl (CapPy x)
           | Inr signed \<Rightarrow>
               let cap = fabs (case cap_arg of None \<Rightarrow> resolve_fleet_cap e rt | Some c \<Rightarrow> c);
                   current = dget_or (net_by_root b) rt (Fin 0);
                   proposed = fadd current signed
               in if flt (fadd cap cap_eps) (fabs proposed)
                  then Inl (FleetPositionCapExceeded rt current signed proposed cap)
                  else Inr ())"

definition sleeve_exposure :: "book \<Rightarrow> (string, pyfloat) dict \<Rightarrow> pyfloat" where
  "sleeve_exposure b ms =
     pysum (map (\<lambda>(r, m). fmul (dget_or (net_by_root b) r (Fin 0)) m) ms)"

definition assert_prop_sleeve_cap ::
  "env \<Rightarrow> string \<Rightarrow> string \<Rightarrow> pyfloat \<Rightarrow> pyfloat option \<Rightarrow> book \<Rightarrow> cap_error + unit" where
  "assert_prop_sleeve_cap e symbol_root side delta cap_arg b =
     (if disabled b \<or> is_truthy_env e ''ETA_PROP_SLEEVE_CAP_DISABLED'' then Inr ()
      else
        let rt = normalize_root symbol_root
        in case prop_sleeve_for_root rt of
             None \<Rightarrow> Inr ()
           | Some sleeve \<Rightarrow>
               let multipliers = dget_or prop_sleeve_multipliers sleeve []
               in case signed_delta side delta of
                    Inl x \<Rightarrow> Inl (CapPy x)
                  | Inr signed \<Rightarrow>
                      (case dget multipliers rt of
                         None \<Rightarrow> Inl (CapPy KeyError)
                       | Some m \<Rightarrow>
                           let requested = fmul signed m;
                               cap = fabs (case cap_arg of None \<Rightarrow> resolve_prop_sleeve_cap e sleeve
                                           | Some c \<Rightarrow> c);
                               current = sleeve_exposure b multipliers;
                               proposed = fadd current requested
                           in if flt (fadd cap cap_eps) (fabs proposed)
                              then Inl (PropSleeveCapExceeded sleeve rt current requested proposed cap)
                              else Inr ()))"

section \<open>Updates and persistence\<close>

text \<open>The file holds the book with its keys sorted; a write that fails leaves it alone.\<close>

definition book_json :: "(string, pyfloat) dict \<Rightarrow> json" where
  "book_json d = JObj (map (\<lambda>(k, x). (k, JFloat x)) (sort_key fst d))"

definition persist_book :: "bool \<Rightarrow> book \<Rightarrow> book" where
  "persist_book ok b =
     (if has_path b \<and> ok then b\<lparr>book_file := Parsed (book_json (net_by_root b))\<rparr> else b)"

definition snap :: "pyfloat \<Rightarrow> pyfloat" where
  "snap x = (if flt (fabs x) cap_eps then Fin 0 else x)"

definition apply_delta :: "bool \<Rightarrow> string \<Rightarrow> pyfloat \<Rightarrow> book \<Rightarrow> pyfloat \<times> book" where
  "apply_delta ok symbol_root signed b =
     (let rt = normalize_root symbol_root;
          new_net = snap (fadd (dget_or (net_by_root b) rt (Fin 0)) signed)
      in (new_net, persist_book ok (b\<lparr>net_by_root := dset rt new_net (net_by_root b)\<rparr>)))"

definition record_entry ::
  "bool \<Rightarrow> string \<Rightarrow> string \<Rightarrow> pyfloat \<Rightarrow> book \<Rightarrow> pyexc + (pyfloat \<times> book)" where
  "record_entry ok symbol_root side qty b =
     rbind (signed_delta side qty) (\<lambda>signed. Inr (apply_delta ok symbol_root signed b))"

definition record_exit ::
  "bool \<Rightarrow> string \<Rightarrow> string \<Rightarrow> pyfloat \<Rightarrow> book \<Rightarrow> pyexc + (pyfloat \<times> book)" where
  "record_exit ok symbol_root side qty b =
     rbind (signed_delta side qty) (\<lambda>signed. Inr (apply_delta ok symbol_root signed b))"

definition resync_from_broker :: "bool \<Rightarrow> (string \<times> pyfloat) list \<Rightarrow> book \<Rightarrow> book" where
  "resync_from_broker ok by_root b =
     (if by_root = [] then b
      else persist_book ok
        (b\<lparr>net_by_root := foldl (\<lambda>d (r, q). dset (normalize_root r) q d) (net_by_root b) by_root\<rparr>))"

definition reset_book :: "bool \<Rightarrow> book \<Rightarrow> book" where
  "reset_book ok b = persist_book ok (b\<lparr>net_by_root := []\<rparr>)"

text \<open>
  Values that are not numbers are skipped; an integer too large for a float raises, with the
  entries before it already loaded.
\<close>

fun load_entries :: "(string \<times> json) list \<Rightarrow> (string, pyfloat) dict \<Rightarrow> pyexc option \<times> (string, pyfloat) dict" where
  "load_entries [] d = (None, d)"
| "load_entries ((k, v) # es) d =
     (case as_float v of
        Inr x \<Rightarrow> load_entries es (dset (normalize_root k) x d)
      | Inl x \<Rightarrow> if x \<in> {TypeError, ValueError} then load_entries es d else (Some x, d))"

definition load_book :: "book \<Rightarrow> (pyexc + nat) \<times> book" where
  "load_book b =
     (if \<not> has_path b then (Inr 0, b)
      else case book_file b of
             Parsed (JObj es) \<Rightarrow>
               (case load_entries es [] of
                  (None, d) \<Rightarrow> (Inr (length d), b\<lparr>net_by_root := d\<rparr>)
                | (Some x, d) \<Rightarrow> (Inl x, b\<lparr>net_by_root := d\<rparr>))
           | _ \<Rightarrow> (Inr 0, b))"

section \<open>The registered book\<close>

definition gate_fleet_position_cap ::
  "env \<Rightarrow> string \<Rightarrow> string \<Rightarrow> pyfloat \<Rightarrow> pyfloat option \<Rightarrow> book option \<Rightarrow> cap_error + unit" where
  "gate_fleet_position_cap e r side q c registered =
     (case registered of None \<Rightarrow> Inr () | Some b \<Rightarrow> assert_fleet_position_cap e r side q c b)"

definition gate_prop_sleeve_cap ::
  "env \<Rightarrow> string \<Rightarrow> string \<Rightarrow> pyfloat \<Rightarrow> pyfloat option \<Rightarrow> book option \<Rightarrow> cap_error + unit" where
  "gate_prop_sleeve_cap e r side q c registered =
     (case registered of None \<Rightarrow> Inr () | Some b \<Rightarrow> assert_prop_sleeve_cap e r side q c b)"


section \<open>Lemmas: the gate\<close>


lemma cap_eps_E:
  obtains x where "cap_eps = Fin x" "0 \<le> x" "x \<le> 1 / 2"
proof -
  have "fle (Fin 0) cap_eps" unfolding cap_eps_def by (rule fl_ge) simp_all
  moreover have "fle cap_eps (Fin (1 / 2))" unfolding cap_eps_def by (rule fl_le) simp_all
  ultimately show ?thesis using that by (rule fle_betweenE)
qed




lemma fadd_Fin_NaN [simp]: "fadd (Fin a) y = NaN \<longleftrightarrow> y = NaN"
  by (cases y) auto

lemma net_apply: "net_by_root (snd (apply_delta ok r x b)) =
   dset (normalize_root r) (snap (fadd (dget_or (net_by_root b) (normalize_root r) (Fin 0)) x)) (net_by_root b)"
  by (simp add: apply_delta_def persist_book_def Let_def)

lemma apply_rest [simp]:
  "disabled (snd (apply_delta ok r x b)) = disabled b"
  "has_path (snd (apply_delta ok r x b)) = has_path b"
  by (simp_all add: apply_delta_def persist_book_def Let_def)





section \<open>Lemmas: whole contracts\<close>

text \<open>A fill of a whole number of contracts: entry or exit, symbol, side, quantity.\<close>

type_synonym fill = "bool \<times> string \<times> string \<times> nat"

definition record_fill :: "bool \<Rightarrow> book \<Rightarrow> fill \<Rightarrow> book" where
  "record_fill ok b f =
     (case f of (is_entry, r, side, n) \<Rightarrow>
        case (if is_entry then record_entry ok r side (Fin (of_nat n)) b
              else record_exit ok r side (Fin (of_nat n)) b) of
          Inl _ \<Rightarrow> b | Inr (_, b') \<Rightarrow> b')"

definition fill_delta :: "string \<Rightarrow> fill \<Rightarrow> int" where
  "fill_delta r f =
     (case f of (_, s, side, n) \<Rightarrow>
        if normalize_root s \<noteq> r then 0
        else if upper side \<in> {''BUY'', ''LONG''} then int n
        else if upper side \<in> {''SELL'', ''SHORT''} then - int n else 0)"

definition fill_size :: "fill \<Rightarrow> int" where
  "fill_size f = (case f of (_, _, _, n) \<Rightarrow> int n)"

lemma fill_delta_size: "\<bar>fill_delta r f\<bar> \<le> fill_size f"
  by (cases f) (auto simp: fill_delta_def fill_size_def)

lemma snap_whole [simp]: "snap (Fin (of_int k)) = Fin (of_int k)"
proof (cases "k = 0")
  case False
  obtain x where x: "cap_eps = Fin x" "x \<le> 1 / 2" by (rule cap_eps_E)
  have "1 \<le> \<bar>of_int k :: rat\<bar>"
    using False by (metis of_int_1_le_iff of_int_abs zero_less_abs_iff int_one_le_iff_zero_less)
  then show ?thesis unfolding snap_def x using x(2) by simp
qed (simp add: snap_def)

lemma record_fill_eq:
  "record_fill ok b (en, s, side, n) = (case signed_delta side (Fin (of_nat n)) of
      Inl _ \<Rightarrow> b | Inr x \<Rightarrow> snd (apply_delta ok s x b))"
  by (auto simp: record_fill_def record_entry_def record_exit_def case_prod_unfold split: sum.splits)

lemma net_record_fill:
  assumes "dget_or (net_by_root b) r (Fin 0) = Fin (of_int z)" "\<bar>z\<bar> + fill_size f \<le> 2 ^ 53"
  shows "dget_or (net_by_root (record_fill ok b f)) r (Fin 0) = Fin (of_int (z + fill_delta r f))"
proof -
  obtain en s side n where f: "f = (en, s, side, n)" by (cases f)
  have b: "\<bar>z + int n\<bar> \<le> 2 ^ 53" "\<bar>z + - int n\<bar> \<le> 2 ^ 53"
    using assms(2) by (auto simp: f fill_size_def)
  have up: "snap (fadd (Fin (of_int z)) (Fin (of_nat n))) = Fin (of_int (z + int n))"
    using fadd_whole [OF b(1)] snap_whole [of "z + int n"] by (metis of_int_of_nat_eq)
  have dn: "snap (fadd (Fin (of_int z)) (Fin (- of_nat n))) = Fin (of_int (z + - int n))"
    using fadd_whole [OF b(2)] snap_whole [of "z + - int n"] by (metis of_int_of_nat_eq of_int_minus)
  show ?thesis
  proof (cases "normalize_root s = r")
    case True
    then show ?thesis
      by (simp add: record_fill_eq f signed_delta_def net_apply fill_delta_def assms(1) up dn
          del: fadd.simps of_int_add of_int_diff of_int_minus of_int_of_nat_eq)
  next
    case False
    then show ?thesis
      using assms(1) by (auto simp: record_fill_eq f net_apply fill_delta_def split: sum.splits)
  qed
qed

lemma net_record_fills:
  assumes "dget_or (net_by_root b) r (Fin 0) = Fin (of_int z)"
    "\<bar>z\<bar> + sum_list (map fill_size fs) \<le> 2 ^ 53"
  shows "dget_or (net_by_root (foldl (record_fill ok) b fs)) r (Fin 0)
         = Fin (of_int (z + sum_list (map (fill_delta r) fs)))"
  using assms
proof (induction fs arbitrary: b z)
  case Nil
  then show ?case by simp
next
  case (Cons f fs)
  have nn: "0 \<le> sum_list (map fill_size fs)"
    by (rule sum_list_nonneg) (auto simp: fill_size_def)
  have d: "\<bar>fill_delta r f\<bar> \<le> fill_size f" by (rule fill_delta_size)
  have "dget_or (net_by_root (record_fill ok b f)) r (Fin 0) = Fin (of_int (z + fill_delta r f))"
    using Cons.prems nn by (intro net_record_fill) auto
  moreover have "\<bar>z + fill_delta r f\<bar> + sum_list (map fill_size fs) \<le> 2 ^ 53"
    using Cons.prems(2) d by simp
  ultimately show ?case using Cons.IH [of "record_fill ok b f" "z + fill_delta r f"]
    by (simp add: add.assoc)
qed

text \<open>The tolerance never matters for whole contracts.\<close>

lemma whole_over_cap:
  assumes "0 \<le> c" "c \<le> 2 ^ 50"
  shows "flt (fadd (fabs (Fin (of_int c))) cap_eps) (fabs (Fin (of_int k))) \<longleftrightarrow> c < \<bar>k\<bar>"
proof -
  obtain x where x: "cap_eps = Fin x" "0 \<le> x" "x \<le> 1 / 2" by (rule cap_eps_E)
  have dbl: "is_dbl (Fin (of_int (2 * c + 1) / 2))" "is_dbl (Fin (of_int c))"
    using assms by (intro is_dbl_half is_dbl_whole; simp)+
  have "fle (fl (of_int c + x)) (Fin (of_int (2 * c + 1) / 2))"
    using x by (intro fl_le [OF dbl(1)]) (simp add: field_simps)
  moreover have "fle (Fin (of_int c)) (fl (of_int c + x))"
    using x by (intro fl_ge [OF dbl(2)]) simp
  ultimately obtain y where y: "fl (of_int c + x) = Fin y" "of_int c \<le> y" "y \<le> of_int c + 1 / 2"
    using fle_betweenE by (metis add_divide_distrib of_int_add of_int_mult of_int_1 of_int_numeral
        nonzero_mult_div_cancel_left zero_neq_numeral)
  have "y < \<bar>of_int k\<bar> \<longleftrightarrow> c < \<bar>k\<bar>"
  proof
    assume "y < \<bar>of_int k\<bar>"
    with y(2) have "(of_int c :: rat) < of_int \<bar>k\<bar>" by simp
    then show "c < \<bar>k\<bar>" by (simp only: of_int_less_iff)
  next
    assume "c < \<bar>k\<bar>"
    then have "of_int (c + 1) \<le> (of_int \<bar>k\<bar> :: rat)" by (simp only: of_int_le_iff)
    with y(3) show "y < \<bar>of_int k\<bar>" by simp
  qed
  moreover have "fadd (fabs (Fin (of_int c))) cap_eps = Fin y"
    unfolding x(1) using assms(1) y(1) by simp
  ultimately show ?thesis by simp
qed

text \<open>Exposure of the Nasdaq sleeve in whole contracts: micro plus ten times full-size.\<close>

lemma exposure_whole:
  assumes "dget_or (net_by_root b) ''MNQ'' (Fin 0) = Fin (of_int m)"
    "dget_or (net_by_root b) ''NQ'' (Fin 0) = Fin (of_int n)"
    "\<bar>m\<bar> \<le> 2 ^ 40" "\<bar>n\<bar> \<le> 2 ^ 40"
  shows "sleeve_exposure b [(''MNQ'', Fin 1), (''NQ'', Fin 10)] = Fin (of_int (m + 10 * n))"
proof -
  have w: "fl (of_int m) = Fin (of_int m)" "fl (of_int (n * 10)) = Fin (of_int (n * 10))"
    "fl (of_int (m + n * 10)) = Fin (of_int (m + n * 10))"
    "fl (of_int (- (n * 10))) = Fin (of_int (- (n * 10)))"
    "fl (of_int (- m)) = Fin (of_int (- m))"
    using assms(3,4) by (intro fl_whole; simp)+
  then show ?thesis
    by (auto simp: sleeve_exposure_def assms(1,2) Let_def float_truthy_def algebra_simps)
qed

lemma sleeve_refusal:
  assumes "\<not> disabled b" "\<not> is_truthy_env e ''ETA_PROP_SLEEVE_CAP_DISABLED''"
    "prop_sleeve_for_root (normalize_root s) = Some sl" "signed_delta side q = Inr x"
    "dget (dget_or prop_sleeve_multipliers sl []) (normalize_root s) = Some k"
  shows "(\<exists>y. assert_prop_sleeve_cap e s side q (Some c) b = Inl y) \<longleftrightarrow>
    flt (fadd (fabs c) cap_eps)
      (fabs (fadd (sleeve_exposure b (dget_or prop_sleeve_multipliers sl [])) (fmul x k)))"
  by (simp add: assert_prop_sleeve_cap_def assms Let_def)

section \<open>Lemmas: the file\<close>

text \<open>A root as the book stores it: normalising it again changes nothing.\<close>

definition normal_root :: "string \<Rightarrow> bool" where
  "normal_root r \<longleftrightarrow> normalize_root r = r"

definition saved :: "book \<Rightarrow> bool" where
  "saved b \<longleftrightarrow> has_path b \<and> distinct (map fst (net_by_root b))
     \<and> list_all normal_root (map fst (net_by_root b))
     \<and> (book_file b = Parsed (book_json (net_by_root b)) \<or> (net_by_root b = [] \<and> book_file b = Missing))"

lemma load_entries_floats:
  "load_entries (map (\<lambda>(k, x). (k, JFloat x)) es) d
   = (None, foldl (\<lambda>d (k, x). dset (normalize_root k) x d) d es)"
  by (induction es arbitrary: d) auto

lemma dget_foldl_normal:
  assumes "distinct (map fst es)" "list_all normal_root (map fst es)"
  shows "dget (foldl (\<lambda>d (k, x). dset (normalize_root k) x d) d es) r
         = (case dget es r of Some x \<Rightarrow> Some x | None \<Rightarrow> dget d r)"
  using assms
proof (induction es arbitrary: d)
  case Nil
  then show ?case by simp
next
  case (Cons kx es)
  obtain k x where kx: "kx = (k, x)" by (cases kx)
  have "dget es k = None" using Cons.prems(1) by (simp add: kx map_of_eq_None_iff)
  with Cons show ?case by (auto simp: kx normal_root_def split: option.splits)
qed

lemma distinct_foldl_dset:
  "distinct (map fst d) \<Longrightarrow> distinct (map fst (foldl (\<lambda>d (k, x). dset (normalize_root k) x d) d es))"
  by (induction es arbitrary: d) (auto simp: distinct_update)

lemma length_foldl_normal:
  assumes "distinct (map fst es)" "list_all normal_root (map fst es)"
  shows "length (foldl (\<lambda>d (k, x). dset (normalize_root k) x d) [] es) = length es"
proof -
  let ?d = "foldl (\<lambda>d (k, x). dset (normalize_root k) x d) [] es"
  have "dom (dget ?d) = dom (dget es)"
    using dget_foldl_normal [OF assms, of "[]"] by (auto simp: dom_def split: option.splits)
  then have "set (map fst ?d) = set (map fst es)" by (simp add: dom_map_of_conv_image_fst)
  then have "length (map fst ?d) = length (map fst es)"
    using distinct_foldl_dset [of "[]" es] assms(1) by (metis distinct_card map_is_Nil_conv list.simps(8) distinct.simps(1))
  then show ?thesis by simp
qed

lemma load_saved:
  assumes "saved b"
  shows "\<exists>b'. load_book (b\<lparr>net_by_root := []\<rparr>) = (Inr (length (net_by_root b)), b')
           \<and> dget (net_by_root b') = dget (net_by_root b)"
proof (cases "book_file b = Missing")
  case True
  with assms show ?thesis by (auto simp: saved_def load_book_def book_json_def)
next
  case False
  let ?es = "sort_key fst (net_by_root b)"
  have on_disk: "book_file b = Parsed (book_json (net_by_root b))" and
    d: "distinct (map fst (net_by_root b))" and n: "list_all normal_root (map fst (net_by_root b))"
    using assms False by (auto simp: saved_def)
  have d': "distinct (map fst ?es)" "list_all normal_root (map fst ?es)"
    using d n by (auto simp: distinct_map list_all_iff)
  have "dget (foldl (\<lambda>d (k, x). dset (normalize_root k) x d) [] ?es) = dget (net_by_root b)"
    using dget_foldl_normal [OF d', of "[]"] map_of_sorted [OF d] by (auto split: option.splits)
  with length_foldl_normal [OF d'] assms on_disk show ?thesis
    by (auto simp: load_book_def book_json_def load_entries_floats saved_def)
qed

datatype book_event =
    Fill fill
  | Resync "(string \<times> pyfloat) list"
  | ResetBook

definition book_step :: "book \<Rightarrow> book_event \<Rightarrow> book" where
  "book_step b ev =
     (case ev of Fill f \<Rightarrow> record_fill True b f
      | Resync by_root \<Rightarrow> resync_from_broker True by_root b
      | ResetBook \<Rightarrow> reset_book True b)"

definition event_normal :: "book_event \<Rightarrow> bool" where
  "event_normal ev =
     (case ev of Fill (_, s, _, _) \<Rightarrow> normal_root (normalize_root s)
      | Resync by_root \<Rightarrow> list_all (\<lambda>(r, _). normal_root (normalize_root r)) by_root
      | ResetBook \<Rightarrow> True)"

lemma saved_set:
  "saved b \<Longrightarrow> distinct (map fst d) \<Longrightarrow> list_all normal_root (map fst d) \<Longrightarrow>
   saved (persist_book True (b\<lparr>net_by_root := d\<rparr>))"
  by (simp add: saved_def persist_book_def)

lemma savedD: "saved b \<Longrightarrow> distinct (map fst (net_by_root b)) \<and> list_all normal_root (map fst (net_by_root b))"
  by (simp add: saved_def)

lemma normal_dset:
  "list_all normal_root (map fst d) \<Longrightarrow> normal_root r \<Longrightarrow> list_all normal_root (map fst (dset r x d))"
  by (auto simp: list_all_iff dest!: in_set_dset)

lemma normal_foldl_dset:
  "list_all normal_root (map fst d) \<Longrightarrow> list_all (\<lambda>(r, _). normal_root (normalize_root r)) es \<Longrightarrow>
   list_all normal_root (map fst (foldl (\<lambda>d (k, x). dset (normalize_root k) x d) d es))"
  by (induction es arbitrary: d) (auto simp: normal_dset)

lemma saved_apply:
  "saved b \<Longrightarrow> normal_root (normalize_root r) \<Longrightarrow> saved (snd (apply_delta True r x b))"
  unfolding apply_delta_def Let_def snd_conv
  by (rule saved_set) (use savedD in \<open>auto intro: distinct_update normal_dset\<close>)

lemma saved_step:
  assumes "saved b" "event_normal ev"
  shows "saved (book_step b ev)"
proof (cases ev)
  case (Fill f)
  then show ?thesis
    using assms
    by (cases f) (auto simp: book_step_def event_normal_def record_fill_eq split: sum.splits
        intro: saved_apply)
next
  case (Resync es)
  then show ?thesis
    using assms savedD [OF assms(1)]
    by (auto simp: book_step_def event_normal_def resync_from_broker_def
        intro!: saved_set distinct_foldl_dset normal_foldl_dset)
next
  case ResetBook
  then show ?thesis using assms by (simp add: book_step_def reset_book_def saved_set)
qed

interpretation book: machine book_step saved event_normal
  by unfold_locales (rule saved_step)

section \<open>Properties\<close>

definition plain_env :: env where
  "plain_env = (\<lambda>_. None)"

definition empty_book :: book where
  "empty_book = \<lparr>has_path = True, disabled = False, net_by_root = [], book_file = Missing\<rparr>"



lemma demo_roots:
  "normalize_root ''MNQ'' = ''MNQ''" "normalize_root ''NQ'' = ''NQ''"
  "normalize_root ''NQ1'' = ''NQ''" "normalize_root ''/mnq'' = ''MNQ''"
  by code_simp+

lemma demo_sides: "upper ''BUY'' = ''BUY''" "upper ''SELL'' = ''SELL''"
  by code_simp+

lemma plain_not_truthy: "\<not> is_truthy_env plain_env k"
  by (simp add: is_truthy_env_def plain_env_def env_get_def strip_by_def lstrip_by_def
      rstrip_by_def lower_def)

lemma empty_saved: "saved empty_book"
  by (simp add: saved_def empty_book_def)



text \<open>
  The book counts contracts exactly: after any fills of whole contracts (entries and exits,
  on any side spelling) the net of a root is the sum of the signed quantities filled on
  symbols of that root, with no rounding; so a position that is closed nets to exactly zero.
\<close>

theorem book_counts_contracts:
  assumes "dget_or (net_by_root b) r (Fin 0) = Fin (of_int z)"
    "\<bar>z\<bar> + sum_list (map fill_size fs) \<le> 2 ^ 53"
  shows "dget_or (net_by_root (foldl (record_fill ok) b fs)) r (Fin 0)
         = Fin (of_int (z + sum_list (map (fill_delta r) fs)))"
  using assms by (rule net_record_fills)

theorem book_counts_contracts_witness:
  "dget_or (net_by_root (foldl (record_fill True) empty_book
      [(True, ''NQ1'', ''BUY'', 3), (False, ''NQ'', ''SELL'', 2), (True, ''/mnq'', ''BUY'', 7)])) ''NQ'' (Fin 0)
   = Fin 1"
  using book_counts_contracts [where b = empty_book and r = "''NQ''" and z = 0 and ok = True
      and fs = "[(True, ''NQ1'', ''BUY'', 3), (False, ''NQ'', ''SELL'', 2), (True, ''/mnq'', ''BUY'', 7)]"]
  by (simp add: empty_book_def dget_or_def fill_size_def fill_delta_def demo_roots demo_sides)

text \<open>
  The book survives a restart: after any fills, broker resyncs and resets whose symbols
  normalise to stable roots, a new process that loads the file sees exactly the positions the
  old one had, and reports how many roots it loaded.
\<close>

theorem book_survives_restart:
  assumes "saved b" "list_all event_normal evs"
  shows "\<exists>b'. load_book ((foldl book_step b evs)\<lparr>net_by_root := []\<rparr>)
              = (Inr (length (net_by_root (foldl book_step b evs))), b')
            \<and> dget (net_by_root b') = dget (net_by_root (foldl book_step b evs))"
  using book.run_inv [OF assms] by (rule load_saved)

theorem book_survives_restart_witness:
  "\<exists>b'. load_book ((foldl book_step empty_book [Resync [(''NQ1'', Fin 2), (''/mnq'', NaN)]])
          \<lparr>net_by_root := []\<rparr>) = (Inr 2, b') \<and> dget (net_by_root b') ''MNQ'' = Some NaN"
proof -
  let ?evs = "[Resync [(''NQ1'', Fin 2), (''/mnq'', NaN)]]"
  have ok: "list_all event_normal ?evs" by (simp add: event_normal_def normal_root_def demo_roots)
  have d: "net_by_root (foldl book_step empty_book ?evs) = [(''NQ'', Fin 2), (''MNQ'', NaN)]"
    by (simp add: book_step_def resync_from_broker_def persist_book_def empty_book_def demo_roots)
  from book_survives_restart [OF empty_saved ok] show ?thesis unfolding d by auto
qed

text \<open>
  The sleeve gate counts micro and full-size Nasdaq contracts as one exposure: with whole
  positions \<open>m\<close> (micro) and \<open>n\<close> (full-size) and a whole cap, an order is refused exactly when the
  exposure after it, in micro equivalents, exceeds the cap in absolute value.
\<close>

theorem sleeve_gate_exact:
  assumes "dget_or (net_by_root b) ''MNQ'' (Fin 0) = Fin (of_int m)"
    "dget_or (net_by_root b) ''NQ'' (Fin 0) = Fin (of_int n)"
    "\<bar>m\<bar> \<le> 2 ^ 40" "\<bar>n\<bar> \<le> 2 ^ 40" "q \<le> 2 ^ 40" "0 \<le> c" "c \<le> 2 ^ 50"
    "\<not> disabled b" "\<not> is_truthy_env e ''ETA_PROP_SLEEVE_CAP_DISABLED''"
    "(normalize_root s, k) \<in> {(''MNQ'', 1), (''NQ'', 10)}"
    "(upper side, g) \<in> {(''BUY'', 1), (''LONG'', 1), (''SELL'', - 1), (''SHORT'', - 1)}"
  shows "(\<exists>x. assert_prop_sleeve_cap e s side (Fin (of_nat q)) (Some (Fin (of_int c))) b = Inl x)
         \<longleftrightarrow> c < \<bar>m + 10 * n + g * k * int q\<bar>"
proof -
  let ?ms = "[(''MNQ'', Fin 1), (''NQ'', Fin 10)]"
  have root: "normalize_root s = ''MNQ'' \<and> k = 1 \<or> normalize_root s = ''NQ'' \<and> k = 10"
    using assms(10) by auto
  have sl: "prop_sleeve_for_root (normalize_root s) = Some ''NASDAQ''"
    using root by (auto simp: prop_sleeve_for_root_def demo_roots prop_sleeve_multipliers_def)
  have ms: "dget_or prop_sleeve_multipliers ''NASDAQ'' [] = ?ms"
    by (simp add: prop_sleeve_multipliers_def dget_or_def)
  have mult: "dget ?ms (normalize_root s) = Some (Fin (of_int k))" using root by auto
  have sg: "signed_delta side (Fin (of_nat q)) = Inr (Fin (of_int (g * int q)))"
    using assms(11) by (auto simp: signed_delta_def)
  have g: "\<bar>g\<bar> = 1" and k: "1 \<le> k" "k \<le> 10" using assms(11) root by auto
  have b1: "\<bar>g * int q * k\<bar> \<le> 10 * 2 ^ 40"
    using g k assms(5) mult_mono [of "int q" "2 ^ 40" k 10] by (simp add: abs_mult)
  then have "fmul (Fin (of_int (g * int q))) (Fin (of_int k)) = Fin (of_int (g * int q * k))"
    using fl_whole [of "g * int q * k"] by simp
  moreover have "fadd (Fin (of_int (m + 10 * n))) (Fin (of_int (g * int q * k)))
      = Fin (of_int (m + 10 * n + g * int q * k))"
    using assms(3,4) b1 by (intro fadd_whole) simp
  ultimately have "fadd (sleeve_exposure b ?ms) (fmul (Fin (of_int (g * int q))) (Fin (of_int k)))
      = Fin (of_int (m + 10 * n + g * int q * k))"
    by (simp only: exposure_whole [OF assms(1-4)])
  moreover have "g * int q * k = g * k * int q" by simp
  ultimately show ?thesis
    using sleeve_refusal [OF assms(8,9) sl sg, of "Fin (of_int k)" "Fin (of_int c)"] mult
      whole_over_cap [OF assms(6,7), of "m + 10 * n + g * int q * k"]
    by (simp only: ms simp_thms)
qed

theorem sleeve_gate_exact_witness:
  "\<exists>x. assert_prop_sleeve_cap plain_env ''NQ1'' ''BUY'' (Fin (of_nat 2)) (Some (Fin (of_int 10))) empty_book = Inl x"
  using sleeve_gate_exact [of empty_book 0 0 2 10 plain_env "''NQ1''" 10 "''BUY''" 1]
  by (simp add: empty_book_def dget_or_def plain_not_truthy demo_roots demo_sides)

section \<open>Corners\<close>

text \<open>
  An order that reduces the sleeve exposure is still refused while the result is over the cap.
\<close>

lemma reducing_order_refused:
  "\<exists>x. assert_prop_sleeve_cap plain_env ''NQ'' ''SELL'' (Fin 1) (Some (Fin 10))
        (empty_book\<lparr>net_by_root := [(''NQ'', Fin 3)]\<rparr>) = Inl x"
proof -
  let ?b = "empty_book\<lparr>net_by_root := [(''NQ'', Fin 3)]\<rparr>"
  have "prop_sleeve_for_root (normalize_root ''NQ'') = Some ''NASDAQ''"
    by (simp add: prop_sleeve_for_root_def demo_roots prop_sleeve_multipliers_def)
  moreover have "signed_delta ''SELL'' (Fin 1) = Inr (Fin (- 1))"
    by (simp add: signed_delta_def demo_sides)
  moreover have "dget_or prop_sleeve_multipliers ''NASDAQ'' [] = [(''MNQ'', Fin 1), (''NQ'', Fin 10)]"
    by (simp add: prop_sleeve_multipliers_def dget_or_def)
  moreover have "sleeve_exposure ?b [(''MNQ'', Fin 1), (''NQ'', Fin 10)] = Fin 30"
    using exposure_whole [of ?b 0 3] by (simp add: dget_or_def)
  ultimately show ?thesis
    using whole_over_cap [of 10 20]
      sleeve_refusal [of ?b plain_env "''NQ''" "''NASDAQ''" "''SELL''" "Fin 1" "Fin (- 1)" "Fin 10" "Fin 10"]
    by (simp add: plain_not_truthy demo_roots) (simp add: empty_book_def)
qed

text \<open>A NaN order size, or a NaN cap, is never over a cap.\<close>

lemma nan_size_passes: "assert_within_caps e side venue symbol NaN = Inr ()"
  by (simp add: assert_within_caps_def Let_def)

text \<open>
  A symbol whose root needs two passes to normalise is found in the sleeve but not among its
  multipliers, and the gate raises a key error.
\<close>

lemma sleeve_key_error:
  "assert_prop_sleeve_cap plain_env ''MNQ1USD'' ''BUY'' (Fin 1) None empty_book = Inl (CapPy KeyError)"
  by code_simp

end
