(* ===== verification/Fleet_Risk.thy ===== *)
theory Fleet_Risk
  imports Prelude
begin

text \<open>
  The account-wide gates in front of an order: the daily-loss gate of
  \<open>safety/fleet_risk_gate.py\<close>, which adds up the profit and loss of all bots over a UTC day,
  and the on/off gate of \<open>safety/live_gate.py\<close>.  The date each call reads from the clock is an
  argument of the operation.
\<close>

section \<open>The daily-loss gate\<close>

record fleet_gate =
  fg_equity :: pyfloat
  fg_override :: "pyfloat option"
  fg_disabled :: bool
  fg_today :: int
  fg_net :: pyfloat
  fg_per_bot :: "(string, pyfloat) dict"

definition make_fleet_gate ::
  "env \<Rightarrow> int \<Rightarrow> pyfloat \<Rightarrow> pyfloat option \<Rightarrow> pyexc + fleet_gate" where
  "make_fleet_gate e today equity ovr =
     (if fle equity (Fin 0) then Inl ValueError
      else Inr \<lparr>fg_equity = equity, fg_override = ovr,
                fg_disabled = is_truthy_env e ''ETA_FLEET_RISK_DISABLED'',
                fg_today = today, fg_net = Fin 0, fg_per_bot = []\<rparr>)"

definition default_limit_pct :: pyfloat where
  "default_limit_pct = fl (35 / 1000)"

definition env_abs :: "env \<Rightarrow> string \<Rightarrow> pyfloat option" where
  "env_abs e k =
     (let raw = strip (env_get e k)
      in if raw = [] then None else map_option fabs (parse_float raw))"

definition limit_usd :: "env \<Rightarrow> fleet_gate \<Rightarrow> pyfloat" where
  "limit_usd e g =
     (case fg_override g of
        Some x \<Rightarrow> fabs x
      | None \<Rightarrow>
          (case env_abs e ''ETA_FLEET_DAILY_LOSS_LIMIT_USD'' of
             Some x \<Rightarrow> x
           | None \<Rightarrow>
               (case env_abs e ''ETA_FLEET_DAILY_LOSS_LIMIT_PCT'' of
                  Some p \<Rightarrow> fmul p (fg_equity g)
                | None \<Rightarrow> fmul default_limit_pct (fg_equity g))))"

definition maybe_rollover :: "int \<Rightarrow> fleet_gate \<Rightarrow> fleet_gate" where
  "maybe_rollover today g =
     (if today \<noteq> fg_today g then g\<lparr>fg_today := today, fg_net := Fin 0, fg_per_bot := []\<rparr> else g)"

definition record_pnl :: "int \<Rightarrow> string \<Rightarrow> pyfloat \<Rightarrow> fleet_gate \<Rightarrow> fleet_gate" where
  "record_pnl today bid delta g =
     (let g1 = maybe_rollover today g
      in g1\<lparr>fg_net := fadd (fg_net g1) delta,
            fg_per_bot := dset bid (fadd (dget_or (fg_per_bot g1) bid (Fin 0)) delta) (fg_per_bot g1)\<rparr>)"

definition over_budget :: "env \<Rightarrow> fleet_gate \<Rightarrow> bool" where
  "over_budget e g = fle (fg_net g) (fneg (limit_usd e g))"

definition fleet_tripped :: "env \<Rightarrow> int \<Rightarrow> fleet_gate \<Rightarrow> bool \<times> fleet_gate" where
  "fleet_tripped e today g =
     (if fg_disabled g then (False, g)
      else let g1 = maybe_rollover today g in (over_budget e g1, g1))"

datatype fleet_breach = FleetRiskBreach pyfloat pyfloat "string option"

definition require_ok ::
  "env \<Rightarrow> int \<Rightarrow> string option \<Rightarrow> fleet_gate \<Rightarrow> (fleet_breach + unit) \<times> fleet_gate" where
  "require_ok e today bid g =
     (if fg_disabled g then (Inr (), g)
      else let g1 = maybe_rollover today g
           in (if over_budget e g1 then Inl (FleetRiskBreach (fg_net g1) (limit_usd e g1) bid)
               else Inr (), g1))"

record fleet_status =
  fs_today :: int
  fs_net :: pyfloat
  fs_limit :: pyfloat
  fs_tripped :: bool
  fs_per_bot :: "(string, pyfloat) dict"
  fs_disabled :: bool
  fs_equity :: pyfloat

definition fleet_status_of :: "env \<Rightarrow> int \<Rightarrow> fleet_gate \<Rightarrow> fleet_status \<times> fleet_gate" where
  "fleet_status_of e today g =
     (let g1 = maybe_rollover today g
      in (\<lparr>fs_today = fg_today g1, fs_net = fround 2 (fg_net g1),
           fs_limit = fround 2 (limit_usd e g1), fs_tripped = over_budget e g1,
           fs_per_bot = map (\<lambda>(k, v). (k, fround 2 v)) (fg_per_bot g1),
           fs_disabled = fg_disabled g1, fs_equity = fround 2 (fg_equity g1)\<rparr>, g1))"

definition reset_fleet :: "int \<Rightarrow> fleet_gate \<Rightarrow> fleet_gate" where
  "reset_fleet today g = g\<lparr>fg_today := today, fg_net := Fin 0, fg_per_bot := []\<rparr>"

text \<open>The module-level gate: no registered gate lets everything through.\<close>

definition assert_fleet_within_budget ::
  "env \<Rightarrow> int \<Rightarrow> string option \<Rightarrow> fleet_gate option \<Rightarrow> (fleet_breach + unit) \<times> fleet_gate option" where
  "assert_fleet_within_budget e today bid registered =
     (case registered of
        None \<Rightarrow> (Inr (), None)
      | Some g \<Rightarrow> (case require_ok e today bid g of (r, g1) \<Rightarrow> (r, Some g1)))"

subsection \<open>Liquidation cascades\<close>

definition high_cascade_usd :: pyfloat where
  "high_cascade_usd = Fin 50000000"

definition moderate_cascade_usd :: pyfloat where
  "moderate_cascade_usd = Fin 10000000"

datatype cascade_level = GREEN | YELLOW | RED

text \<open>A heatmap: the current price and the levels (price, size in USD), absent values as 0.\<close>

record heatmap =
  current_price :: pyfloat
  levels :: "(pyfloat \<times> pyfloat) list"

definition zone_step :: "pyfloat \<Rightarrow> pyexc + pyfloat \<Rightarrow> pyfloat \<times> pyfloat \<Rightarrow> pyexc + pyfloat" where
  "zone_step price acc lv =
     (case lv of (p, sz) \<Rightarrow>
        if fle p (Fin 0) then acc
        else rbind acc (\<lambda>total.
          rbind (fdivx (fabs (fsub p price)) (pymax price (fl (1 / 1000000000)))) (\<lambda>d.
            Inr (if fle d (fl (5 / 100)) then fadd total sz else total))))"

definition cascade_risk_level :: "heatmap option \<Rightarrow> pyexc + cascade_level" where
  "cascade_risk_level h =
     (case h of
        None \<Rightarrow> Inr GREEN
      | Some m \<Rightarrow>
          if \<not> float_truthy (current_price m) \<or> levels m = [] then Inr GREEN
          else rbind (foldl (zone_step (current_price m)) (Inr (Fin 0)) (levels m)) (\<lambda>total.
                 Inr (if flt high_cascade_usd total then RED
                      else if flt moderate_cascade_usd total then YELLOW else GREEN)))"

section \<open>The live gate\<close>

datatype live_error = FirmHalted | LiveDisabled

definition assert_live_allowed :: "env \<Rightarrow> live_error + unit" where
  "assert_live_allowed e =
     (if is_truthy_env e ''FIRM_HALTED'' then Inl FirmHalted
      else if is_truthy_env e ''ETA_LIVE_TRADING_DISABLED'' then Inl LiveDisabled
      else Inr ())"

section \<open>Lemmas\<close>

type_synonym pnl_event = "int \<times> string \<times> pyfloat"

definition pnl_step :: "fleet_gate \<Rightarrow> pnl_event \<Rightarrow> fleet_gate" where
  "pnl_step g ev = (case ev of (day, bid, delta) \<Rightarrow> record_pnl day bid delta g)"

lemma pnl_step [simp]: "pnl_step g (day, bid, delta) = record_pnl day bid delta g"
  by (simp add: pnl_step_def)

text \<open>The deltas that count at the end of a run: those since the last change of date.\<close>

fun counted :: "int \<Rightarrow> pnl_event list \<Rightarrow> pnl_event list \<Rightarrow> int \<times> pnl_event list" where
  "counted d acc [] = (d, acc)"
| "counted d acc ((day, bid, x) # evs) =
     counted day ((if day = d then acc else []) @ [(day, bid, x)]) evs"

definition day_net :: "pnl_event list \<Rightarrow> pyfloat" where
  "day_net evs = foldl fadd (Fin 0) (map (\<lambda>(_, _, x). x) evs)"

definition bot_net :: "string \<Rightarrow> pnl_event list \<Rightarrow> pyfloat" where
  "bot_net bid evs = foldl fadd (Fin 0) (map (\<lambda>(_, _, x). x) (filter (\<lambda>(_, b, _). b = bid) evs))"

definition books :: "fleet_gate \<Rightarrow> int \<times> pnl_event list \<Rightarrow> bool" where
  "books g dc \<longleftrightarrow> fg_today g = fst dc \<and> fg_net g = day_net (snd dc)
     \<and> (\<forall>bid. dget_or (fg_per_bot g) bid (Fin 0) = bot_net bid (snd dc))"

lemma day_net_snoc: "day_net (acc @ [(d, b, x)]) = fadd (day_net acc) x"
  by (simp add: day_net_def)

lemma bot_net_snoc:
  "bot_net bid (acc @ [(d, b, x)]) = (if b = bid then fadd (bot_net bid acc) x else bot_net bid acc)"
  by (simp add: bot_net_def)

lemma books_step:
  assumes "books g (d, acc)"
  shows "books (record_pnl day bid x g) (day, (if day = d then acc else []) @ [(day, bid, x)])"
proof (cases "day = d")
  case True
  then show ?thesis
    using assms by (simp add: books_def record_pnl_def maybe_rollover_def Let_def day_net_snoc bot_net_snoc)
next
  case False
  then show ?thesis
    using assms day_net_snoc [of "[]"] bot_net_snoc [of _ "[]"]
    by (simp add: books_def record_pnl_def maybe_rollover_def Let_def day_net_def bot_net_def dget_or_def)
qed

lemma books_run: "books g (d, acc) \<Longrightarrow> books (foldl pnl_step g evs) (counted d acc evs)"
proof (induction evs arbitrary: g d acc)
  case Nil
  then show ?case by simp
next
  case (Cons ev evs)
  obtain day bid x where ev: "ev = (day, bid, x)" by (cases ev)
  show ?case
    using Cons.IH [OF books_step [OF Cons.prems, of day bid x]] by (simp add: ev)
qed

lemma fadd_le_left: "fle x (Fin 0) \<Longrightarrow> is_dbl y \<Longrightarrow> y \<noteq> PInf \<or> x \<noteq> NInf \<Longrightarrow> y \<noteq> NaN \<Longrightarrow> fle (fadd y x) y"
  by (cases x; cases y) (auto intro: fl_le)

lemma rollover_keeps [simp]:
  "fg_equity (maybe_rollover d g) = fg_equity g" "fg_override (maybe_rollover d g) = fg_override g"
  "fg_disabled (maybe_rollover d g) = fg_disabled g" "fg_today (maybe_rollover d g) = d"
  by (simp_all add: maybe_rollover_def)

lemma rollover_same [simp]: "fg_today g = d \<Longrightarrow> maybe_rollover d g = g"
  by (simp add: maybe_rollover_def)

lemma record_keeps [simp]:
  "fg_equity (record_pnl d b x g) = fg_equity g" "fg_override (record_pnl d b x g) = fg_override g"
  "fg_disabled (record_pnl d b x g) = fg_disabled g" "fg_today (record_pnl d b x g) = d"
  "fg_net (record_pnl d b x g) = fadd (fg_net (maybe_rollover d g)) x"
  by (simp_all add: record_pnl_def Let_def)

lemma limit_cong:
  "fg_override g = fg_override g' \<Longrightarrow> fg_equity g = fg_equity g' \<Longrightarrow> limit_usd e g = limit_usd e g'"
  by (simp add: limit_usd_def cong: option.case_cong)

lemma limit_rollover [simp]: "limit_usd e (maybe_rollover d g) = limit_usd e g"
  by (rule limit_cong) simp_all

lemma limit_record [simp]: "limit_usd e (record_pnl d b x g) = limit_usd e g"
  by (rule limit_cong) simp_all

text \<open>The cascade loop never divides by zero.\<close>

lemma zone_step_total: "\<exists>t'. zone_step price (Inr t) lv = Inr t'"
proof -
  obtain p sz where lv: "lv = (p, sz)" by (cases lv)
  have "fl (1 / 1000000000) \<noteq> Fin 0" by code_simp
  moreover have "pymax price (fl (1 / 1000000000)) \<noteq> Fin 0" if "pymax price (fl (1 / 1000000000)) = price"
  proof
    assume z: "pymax price (fl (1 / 1000000000)) = Fin 0"
    have "flt (Fin 0) (fl (1 / 1000000000))" by code_simp
    with z that show False by (auto simp: pymax_def split: if_splits)
  qed
  ultimately have "pymax price (fl (1 / 1000000000)) \<noteq> Fin 0" by (auto simp: pymax_def split: if_splits)
  then have "\<exists>d. fdivx x (pymax price (fl (1 / 1000000000))) = Inr d" for x
    by (cases x; cases "pymax price (fl (1 / 1000000000))") (auto simp: fdivx_def)
  then show ?thesis by (auto simp: lv zone_step_def)
qed

lemma cascade_total: "\<exists>l. cascade_risk_level h = Inr l"
proof -
  have "\<exists>t'. foldl (zone_step price) (Inr t) lvs = Inr t'" for price t lvs
  proof (induction lvs arbitrary: t)
    case (Cons lv lvs)
    then show ?case using zone_step_total [of price t lv] by auto
  qed simp
  then show ?thesis by (auto simp: cascade_risk_level_def split: option.splits)
qed

section \<open>Properties\<close>

text \<open>
  C24. The gate counts the day: after any sequence of profit and loss reports, the fleet total is
  the (left to right) float sum of the deltas reported since the last change of date, and
  every bot's total is the sum of its own; nothing of an earlier day remains.
\<close>

theorem gate_counts_the_day:
  "fg_net (foldl pnl_step (reset_fleet d g) evs) = day_net (snd (counted d [] evs))
   \<and> dget_or (fg_per_bot (foldl pnl_step (reset_fleet d g) evs)) b (Fin 0)
     = bot_net b (snd (counted d [] evs))
   \<and> fg_today (foldl pnl_step (reset_fleet d g) evs) = fst (counted d [] evs)"
proof -
  have "books (reset_fleet d g) (d, [])"
    by (simp add: books_def reset_fleet_def day_net_def bot_net_def dget_or_def)
  from books_run [OF this, of evs] show ?thesis by (simp add: books_def)
qed

text \<open>
  A breached budget stays breached: while the date does not change, recording further losses
  keeps the gate tripped, and a tripped gate refuses every order with the totals it tripped on.
\<close>

theorem losses_keep_tripped:
  assumes "fst (fleet_tripped e d g)" "is_dbl (fg_net g)" "fg_net g \<noteq> PInf" "fg_today g = d"
    and "list_all (\<lambda>(day, _, x). day = d \<and> fle x (Fin 0)) evs"
  shows "fst (fleet_tripped e d (foldl pnl_step g evs))
    \<and> fst (require_ok e d who (foldl pnl_step g evs))
      = Inl (FleetRiskBreach (fg_net (foldl pnl_step g evs)) (limit_usd e g) who)"
proof -
  have "fleet_tripped e d (foldl pnl_step g evs) = (True, foldl pnl_step g evs)
      \<and> limit_usd e (foldl pnl_step g evs) = limit_usd e g \<and> \<not> fg_disabled (foldl pnl_step g evs)
      \<and> over_budget e (foldl pnl_step g evs) \<and> fg_today (foldl pnl_step g evs) = d"
    using assms
  proof (induction evs arbitrary: g)
    case Nil
    then show ?case by (auto simp: fleet_tripped_def Let_def split: if_splits)
  next
    case (Cons ev evs)
    obtain b x where ev: "ev = (d, b, x)" and x: "fle x (Fin 0)" using Cons.prems(5) by (cases ev) auto
    let ?g = "record_pnl d b x g"
    have live: "\<not> fg_disabled g" "fle (fg_net g) (fneg (limit_usd e g))"
      using Cons.prems(1,4) by (auto simp: fleet_tripped_def over_budget_def Let_def split: if_splits)
    have "fg_net g \<noteq> NaN" using live(2) by auto
    then have le: "fle (fadd (fg_net g) x) (fg_net g)"
      using x Cons.prems(2,3) by (auto intro: fadd_le_left)
    then have "over_budget e ?g"
      using live(2) Cons.prems(4) by (auto simp: over_budget_def intro: fle_trans)
    moreover have "is_dbl (fg_net ?g)" "fg_net ?g \<noteq> PInf"
      using le Cons.prems(2,3,4) by (auto simp: fle_def feq_def elim: flt.elims)
    ultimately have "fleet_tripped e d (foldl pnl_step ?g evs) = (True, foldl pnl_step ?g evs)
      \<and> limit_usd e (foldl pnl_step ?g evs) = limit_usd e ?g \<and> \<not> fg_disabled (foldl pnl_step ?g evs)
      \<and> over_budget e (foldl pnl_step ?g evs) \<and> fg_today (foldl pnl_step ?g evs) = d"
      using Cons.prems(4,5) live by (intro Cons.IH) (auto simp: fleet_tripped_def Let_def)
    then show ?case by (simp add: ev)
  qed
  then show ?thesis by (simp add: require_ok_def Let_def)
qed

theorem losses_keep_tripped_witness:
  "fst (fleet_tripped (\<lambda>_. None) 7 (foldl pnl_step
     \<lparr>fg_equity = Fin 100000, fg_override = Some (Fin 3500), fg_disabled = False, fg_today = 7,
      fg_net = Fin (- 3500), fg_per_bot = []\<rparr> [(7, ''b1'', Fin (- 20)), (7, ''b2'', NInf)]))"
  by (rule losses_keep_tripped [THEN conjunct1])
    (simp_all add: fleet_tripped_def over_budget_def limit_usd_def)

text \<open>
  A NaN in the books blinds the gate: once a bot reports a NaN delta, the gate lets every
  order through for the rest of the day, whatever losses follow.
\<close>

lemma nan_blinds_gate:
  assumes "fg_today g = d" "fg_net g = NaN" "list_all (\<lambda>(day, _, _). day = d) evs"
  shows "fst (require_ok e d who (foldl pnl_step g evs)) = Inr ()"
proof -
  have step: "fg_net (record_pnl d b x h) = NaN \<and> fg_today (record_pnl d b x h) = d"
    if "fg_today h = d" "fg_net h = NaN" for b x h
    using that by (cases x) (simp_all add: record_pnl_def maybe_rollover_def)
  have "fg_net (foldl pnl_step g evs) = NaN \<and> fg_today (foldl pnl_step g evs) = d"
    using assms by (induction evs arbitrary: g) (auto simp only: list.pred_inject foldl.simps pnl_step split_paired_all split_conv step)
  then show ?thesis by (simp add: require_ok_def over_budget_def Let_def)
qed

end
