(* ===== verification/Order_Reconcile.thy ===== *)
theory Order_Reconcile
  imports Prelude "HOL-Library.List_Lexorder" "HOL-Library.Char_ord"
begin

text \<open>
  \<open>core/order_state_reconcile.py\<close>: after a reconnect, the local orders and the venue's
  orders, both keyed by client order id, are compared and one action per known id is produced,
  in the order of the ids.  Applying the actions is the caller's and not part of the module.
\<close>

section \<open>Orders and actions\<close>

datatype action_kind =
    MARK_FILLED | MARK_CANCELLED | MARK_PARTIAL | ACCEPT_VENUE | RESOLVE_MISSING | NOOP

record local_order =
  lo_id :: string
  lo_symbol :: string
  lo_status :: string
  lo_qty :: pyfloat
  lo_filled :: pyfloat
  lo_venue_id :: "string option"

record venue_order =
  vo_id :: string
  vo_client_id :: string
  vo_symbol :: string
  vo_status :: string
  vo_qty :: pyfloat
  vo_filled :: pyfloat

record reconcile_action =
  ra_kind :: action_kind
  ra_id :: string
  ra_symbol :: string
  ra_reason :: string
  ra_venue_id :: "string option"
  ra_expected :: "string option"
  ra_canonical :: "string option"
  ra_filled :: pyfloat

definition actions_of_kind :: "action_kind \<Rightarrow> reconcile_action list \<Rightarrow> reconcile_action list" where
  "actions_of_kind k acts = filter (\<lambda>a. ra_kind a = k) acts"

definition has_divergence :: "reconcile_action list \<Rightarrow> bool" where
  "has_divergence acts = list_ex (\<lambda>a. ra_kind a \<noteq> NOOP) acts"

definition terminal_states :: "string list" where
  "terminal_states = [''FILLED'', ''CANCELLED'', ''REJECTED'', ''EXPIRED'']"

section \<open>One pair\<close>

definition reconcile_pair :: "local_order \<Rightarrow> venue_order \<Rightarrow> reconcile_action" where
  "reconcile_pair l v =
     (let coid = lo_id l;
          ls = upper (lo_status l);
          vs = upper (vo_status v);
          filled = vo_filled v;
          act = (\<lambda>k why canon. \<lparr>ra_kind = k, ra_id = coid, ra_symbol = vo_symbol v, ra_reason = why,
                   ra_venue_id = Some (vo_id v), ra_expected = Some ls, ra_canonical = Some canon,
                   ra_filled = filled\<rparr>)
      in if ls = vs \<and> feq (lo_filled l) filled then act NOOP ''states match'' vs
         else if vs = ''FILLED'' \<and> ls \<in> {''OPEN'', ''PARTIAL''} then
           act MARK_FILLED ''venue filled while local was alive'' ''FILLED''
         else if vs = ''PARTIAL'' \<and> flt (lo_filled l) filled then
           act MARK_PARTIAL ''venue reports more fill than local'' ''PARTIAL''
         else if vs \<in> {''CANCELLED'', ''REJECTED'', ''EXPIRED''} \<and> ls \<in> {''OPEN'', ''PARTIAL''} then
           act MARK_CANCELLED (''venue shows '' @ lower vs @ ''; local still '' @ lower ls) vs
         else act ACCEPT_VENUE (''mismatch local='' @ ls @ '' venue='' @ vs) vs)"

section \<open>The whole run\<close>

definition accept_unknown :: "string \<Rightarrow> venue_order \<Rightarrow> reconcile_action" where
  "accept_unknown coid v =
     \<lparr>ra_kind = ACCEPT_VENUE, ra_id = coid, ra_symbol = vo_symbol v,
      ra_reason = ''venue has order not tracked locally'', ra_venue_id = Some (vo_id v),
      ra_expected = None, ra_canonical = Some (vo_status v), ra_filled = vo_filled v\<rparr>"

definition absent_at_venue :: "bool \<Rightarrow> string \<Rightarrow> local_order \<Rightarrow> reconcile_action" where
  "absent_at_venue conservative coid l =
     (if List.member terminal_states (lo_status l) then
        \<lparr>ra_kind = NOOP, ra_id = coid, ra_symbol = lo_symbol l,
         ra_reason = ''local in terminal state; venue correctly absent'', ra_venue_id = None,
         ra_expected = Some (lo_status l), ra_canonical = None, ra_filled = Fin 0\<rparr>
      else
        \<lparr>ra_kind = (if conservative then MARK_CANCELLED else RESOLVE_MISSING), ra_id = coid,
         ra_symbol = lo_symbol l, ra_reason = ''local open but venue has no record'',
         ra_venue_id = None, ra_expected = Some (lo_status l),
         ra_canonical = Some (if conservative then ''CANCELLED'' else ''UNKNOWN''),
         ra_filled = Fin 0\<rparr>)"

definition known_ids :: "(string, local_order) dict \<Rightarrow> (string, venue_order) dict \<Rightarrow> string list" where
  "known_ids lcl ven = sort (remdups (map fst lcl @ map fst ven))"

definition decide ::
  "bool \<Rightarrow> (string, local_order) dict \<Rightarrow> (string, venue_order) dict \<Rightarrow> string \<Rightarrow> reconcile_action option" where
  "decide conservative lcl ven coid =
     (case (dget lcl coid, dget ven coid) of
        (None, Some v) \<Rightarrow> Some (accept_unknown coid v)
      | (Some l, None) \<Rightarrow> Some (absent_at_venue conservative coid l)
      | (Some l, Some v) \<Rightarrow> Some (reconcile_pair l v)
      | (None, None) \<Rightarrow> None)"

definition reconcile ::
  "bool \<Rightarrow> (string, local_order) dict \<Rightarrow> (string, venue_order) dict \<Rightarrow> reconcile_action list" where
  "reconcile conservative lcl ven = List.map_filter (decide conservative lcl ven) (known_ids lcl ven)"

section \<open>Lemmas\<close>

lemma upper_idem [simp]: "upper (upper s) = upper s"
proof -
  have "to_upper (to_upper c) = to_upper c" for c
  proof (cases "97 \<le> code_of c \<and> code_of c \<le> 122")
    case True
    then have "(code_of c - 32) mod 256 = code_of c - 32" by (intro mod_less) arith
    then have "code_of (char_of (code_of c - 32)) = code_of c - 32"
      by (simp add: code_of_def of_char_of)
    moreover have "\<not> 97 \<le> code_of c - 32" using True by arith
    ultimately show ?thesis using True by (simp add: to_upper_def)
  next
    case False
    then have "to_upper c = c" by (simp only: to_upper_def if_False)
    then show ?thesis by simp
  qed
  then show ?thesis by (simp add: upper_def comp_def)
qed

lemma known_ids_set: "set (known_ids lcl ven) = set (map fst lcl) \<union> set (map fst ven)"
  by (simp add: known_ids_def)

lemma distinct_known [simp]: "distinct (known_ids lcl ven)"
  by (simp add: known_ids_def)

lemma decide_known: "k \<in> set (known_ids lcl ven) \<longleftrightarrow> decide c lcl ven k \<noteq> None"
proof -
  have "k \<in> set (map fst lcl) \<longleftrightarrow> dget lcl k \<noteq> None" "k \<in> set (map fst ven) \<longleftrightarrow> dget ven k \<noteq> None"
    by (metis map_of_eq_None_iff set_map)+
  then show ?thesis
    by (auto simp: known_ids_set decide_def split: option.splits simp del: set_map)
qed

lemma map_filter_total:
  "(\<And>x. x \<in> set xs \<Longrightarrow> f x \<noteq> None) \<Longrightarrow> List.map_filter f xs = map (\<lambda>x. the (f x)) xs"
  by (induction xs) (auto simp: List.map_filter_def)

lemma reconcile_eq: "reconcile c lcl ven = map (\<lambda>k. the (decide c lcl ven k)) (known_ids lcl ven)"
  unfolding reconcile_def by (rule map_filter_total) (use decide_known in blast)

text \<open>Orders stored under their own client id.\<close>

definition keyed :: "(string, local_order) dict \<Rightarrow> bool" where
  "keyed lcl \<longleftrightarrow> list_all (\<lambda>(k, l). lo_id l = k) lcl"

lemma keyed_get: "keyed lcl \<Longrightarrow> dget lcl k = Some l \<Longrightarrow> lo_id l = k"
  by (auto simp: keyed_def list_all_iff dest: map_of_SomeD)

lemma decide_id: "keyed lcl \<Longrightarrow> decide c lcl ven k = Some a \<Longrightarrow> ra_id a = k"
  by (auto simp: decide_def accept_unknown_def absent_at_venue_def reconcile_pair_def Let_def
      keyed_get split: option.splits if_splits)

lemma pair_noop_iff:
  "ra_kind (reconcile_pair l v) = NOOP \<longleftrightarrow>
     upper (lo_status l) = upper (vo_status v) \<and> feq (lo_filled l) (vo_filled v)"
  by (auto simp: reconcile_pair_def Let_def)

text \<open>
  What an action must say of its order, given what each side knows of it: the facts are the
  venue's where the venue lists the order, each kind means what its name says, and an order the
  venue does not list is never reported as filled.
\<close>

definition alive :: "local_order \<Rightarrow> bool" where
  "alive l = (upper (lo_status l) \<in> {''OPEN'', ''PARTIAL''})"

definition answers :: "bool \<Rightarrow> local_order option \<Rightarrow> venue_order option \<Rightarrow> reconcile_action \<Rightarrow> bool" where
  "answers conservative lo vo a =
     (case vo of
        Some v \<Rightarrow>
          ra_venue_id a = Some (vo_id v) \<and> ra_symbol a = vo_symbol v \<and> ra_filled a = vo_filled v
          \<and> map_option upper (ra_canonical a) = Some (upper (vo_status v))
          \<and> (ra_kind a = NOOP \<longleftrightarrow>
               (\<exists>l. lo = Some l \<and> upper (lo_status l) = upper (vo_status v) \<and> feq (lo_filled l) (vo_filled v)))
          \<and> (ra_kind a = MARK_FILLED \<longleftrightarrow> (\<exists>l. lo = Some l \<and> alive l) \<and> upper (vo_status v) = ''FILLED'')
          \<and> (ra_kind a = MARK_CANCELLED \<longleftrightarrow>
               (\<exists>l. lo = Some l \<and> alive l) \<and> upper (vo_status v) \<in> {''CANCELLED'', ''REJECTED'', ''EXPIRED''})
          \<and> (ra_kind a = MARK_PARTIAL \<longleftrightarrow>
               (\<exists>l. lo = Some l \<and> flt (lo_filled l) (vo_filled v)) \<and> upper (vo_status v) = ''PARTIAL'')
          \<and> ra_kind a \<noteq> RESOLVE_MISSING
      | None \<Rightarrow>
          ra_venue_id a = None \<and> ra_filled a = Fin 0
          \<and> (\<exists>l. lo = Some l \<and> ra_symbol a = lo_symbol l \<and>
               (ra_kind a, ra_canonical a) =
                 (if lo_status l \<in> {''FILLED'', ''CANCELLED'', ''REJECTED'', ''EXPIRED''} then (NOOP, None)
                  else if conservative then (MARK_CANCELLED, Some ''CANCELLED'')
                  else (RESOLVE_MISSING, Some ''UNKNOWN''))))"

lemma pair_facts:
  "ra_venue_id (reconcile_pair l v) = Some (vo_id v)" "ra_symbol (reconcile_pair l v) = vo_symbol v"
  "ra_filled (reconcile_pair l v) = vo_filled v" "ra_canonical (reconcile_pair l v) = Some (upper (vo_status v))"
  by (auto simp: reconcile_pair_def Let_def)

lemma pair_kinds:
  "ra_kind (reconcile_pair l v) = MARK_FILLED \<longleftrightarrow> alive l \<and> upper (vo_status v) = ''FILLED''"
  "ra_kind (reconcile_pair l v) = MARK_CANCELLED \<longleftrightarrow>
     alive l \<and> upper (vo_status v) \<in> {''CANCELLED'', ''REJECTED'', ''EXPIRED''}"
  "ra_kind (reconcile_pair l v) = MARK_PARTIAL \<longleftrightarrow>
     flt (lo_filled l) (vo_filled v) \<and> upper (vo_status v) = ''PARTIAL''"
  "ra_kind (reconcile_pair l v) \<noteq> RESOLVE_MISSING"
proof -
  have "flt x y \<Longrightarrow> \<not> feq x y" for x y by (auto simp: feq_def)
  then show "ra_kind (reconcile_pair l v) = MARK_PARTIAL \<longleftrightarrow>
     flt (lo_filled l) (vo_filled v) \<and> upper (vo_status v) = ''PARTIAL''"
    by (auto simp: reconcile_pair_def Let_def)
qed (auto simp: reconcile_pair_def alive_def Let_def)

lemma decide_answers:
  assumes "decide c lcl ven k = Some a"
  shows "answers c (dget lcl k) (dget ven k) a"
proof -
  consider (gone) l where "dget lcl k = Some l" "dget ven k = None"
    | (unknown) v where "dget lcl k = None" "dget ven k = Some v"
    | (both) l v where "dget lcl k = Some l" "dget ven k = Some v"
    using assms by (cases "dget lcl k"; cases "dget ven k") (auto simp: decide_def)
  then show ?thesis
  proof cases
    case gone
    with assms show ?thesis by (auto simp: decide_def absent_at_venue_def answers_def terminal_states_def)
  next
    case unknown
    with assms show ?thesis by (auto simp: decide_def accept_unknown_def answers_def)
  next
    case both
    with assms have "a = reconcile_pair l v" by (simp add: decide_def)
    with both show ?thesis by (auto simp: answers_def pair_facts pair_kinds pair_noop_iff)
  qed
qed

text \<open>The result depends on the two mappings only, not on the order of their entries.\<close>

lemma known_ids_cong:
  assumes "dget lcl' = dget lcl" "dget ven' = dget ven"
  shows "known_ids lcl' ven' = known_ids lcl ven"
proof -
  have "set (map fst lcl') = set (map fst lcl)" "set (map fst ven') = set (map fst ven)"
    using dom_map_of_conv_image_fst [of lcl'] dom_map_of_conv_image_fst [of lcl]
      dom_map_of_conv_image_fst [of ven'] dom_map_of_conv_image_fst [of ven] assms by simp_all
  then show ?thesis
    unfolding known_ids_def by (intro sorted_distinct_set_unique) simp_all
qed

section \<open>Properties\<close>

text \<open>
  C22. A reconciliation is complete and true to the venue, in both modes: it makes one action for
  every id known to either side, each id once and in sorted order; where the venue lists the order
  the action carries the venue's order id, symbol, status and fill, it is a no-op exactly when
  status and fill agree, and it says filled, cancelled or partly filled exactly when the venue does
  and the local order is still alive (for a partial fill, is behind); where the venue does not list
  the order no fill is reported, and an order that is not finished is cancelled, or left to be
  resolved when not conservative.  A divergence is reported exactly when some id is unknown
  locally, is open locally and gone from the venue, or differs; and nothing depends on the order of
  the dictionaries.
\<close>

theorem reconcile_complete:
  assumes "keyed lcl"
  shows "map ra_id (reconcile c lcl ven) = sort (remdups (map fst lcl @ map fst ven))
    \<and> (\<forall>a\<in>set (reconcile c lcl ven). answers c (dget lcl (ra_id a)) (dget ven (ra_id a)) a)
    \<and> (has_divergence (reconcile c lcl ven) \<longleftrightarrow>
        (\<exists>k. case (dget lcl k, dget ven k) of
               (None, Some v) \<Rightarrow> True
             | (Some l, None) \<Rightarrow> lo_status l \<notin> {''FILLED'', ''CANCELLED'', ''REJECTED'', ''EXPIRED''}
             | (Some l, Some v) \<Rightarrow> upper (lo_status l) \<noteq> upper (vo_status v)
                                   \<or> \<not> feq (lo_filled l) (vo_filled v)
             | (None, None) \<Rightarrow> False))
    \<and> (dget lcl' = dget lcl \<and> dget ven' = dget ven \<longrightarrow> reconcile c lcl' ven' = reconcile c lcl ven)"
proof -
  have ids: "ra_id (the (decide c lcl ven k)) = k" if "k \<in> set (known_ids lcl ven)" for k
    using that decide_known decide_id [OF assms] by fastforce
  then have "map ra_id (reconcile c lcl ven) = known_ids lcl ven"
    by (simp add: reconcile_eq map_idI)
  moreover have "\<forall>a\<in>set (reconcile c lcl ven). answers c (dget lcl (ra_id a)) (dget ven (ra_id a)) a"
    using decide_answers decide_id [OF assms] by (fastforce simp: reconcile_def)
  moreover have "has_divergence (reconcile c lcl ven) \<longleftrightarrow>
      (\<exists>k a. decide c lcl ven k = Some a \<and> ra_kind a \<noteq> NOOP)"
    using decide_known [of _ lcl ven c] by (force simp: has_divergence_def reconcile_eq list_ex_iff)
  moreover have "(\<exists>a. decide c lcl ven k = Some a \<and> ra_kind a \<noteq> NOOP) \<longleftrightarrow>
      (case (dget lcl k, dget ven k) of
               (None, Some v) \<Rightarrow> True
             | (Some l, None) \<Rightarrow> lo_status l \<notin> {''FILLED'', ''CANCELLED'', ''REJECTED'', ''EXPIRED''}
             | (Some l, Some v) \<Rightarrow> upper (lo_status l) \<noteq> upper (vo_status v)
                                   \<or> \<not> feq (lo_filled l) (vo_filled v)
             | (None, None) \<Rightarrow> False)" for k
    by (auto simp: decide_def accept_unknown_def absent_at_venue_def pair_noop_iff terminal_states_def
        split: option.splits)
  moreover have "reconcile c lcl' ven' = reconcile c lcl ven" if "dget lcl' = dget lcl" "dget ven' = dget ven"
  proof -
    have "decide c lcl' ven' = decide c lcl ven" by (rule ext) (simp add: decide_def that)
    then show ?thesis using known_ids_cong [OF that] by (simp add: reconcile_def)
  qed
  ultimately show ?thesis by (simp add: known_ids_def)
qed

definition demo_local :: "(string, local_order) dict" where
  "demo_local =
     [(''c1'', \<lparr>lo_id = ''c1'', lo_symbol = ''MNQ'', lo_status = ''OPEN'', lo_qty = Fin 2,
              lo_filled = Fin 0, lo_venue_id = None\<rparr>),
      (''c2'', \<lparr>lo_id = ''c2'', lo_symbol = ''MNQ'', lo_status = ''OPEN'', lo_qty = Fin 1,
              lo_filled = Fin 0, lo_venue_id = None\<rparr>)]"

definition demo_venue :: "(string, venue_order) dict" where
  "demo_venue =
     [(''c2'', \<lparr>vo_id = ''v2'', vo_client_id = ''c2'', vo_symbol = ''MNQ'', vo_status = ''FILLED'',
              vo_qty = Fin 1, vo_filled = Fin 1\<rparr>),
      (''c3'', \<lparr>vo_id = ''v3'', vo_client_id = ''c3'', vo_symbol = ''NQ'', vo_status = ''OPEN'',
              vo_qty = Fin 1, vo_filled = Fin 0\<rparr>)]"

lemma demo_keyed: "keyed demo_local"
  by (simp add: keyed_def demo_local_def)

theorem reconcile_complete_witness:
  "map ra_id (reconcile True demo_local demo_venue) = [''c1'', ''c2'', ''c3'']
   \<and> has_divergence (reconcile True demo_local demo_venue)
   \<and> reconcile True (rev demo_local) demo_venue = reconcile True demo_local demo_venue"
proof -
  have ids: "sort (remdups (map fst demo_local @ map fst demo_venue)) = [''c1'', ''c2'', ''c3'']" by code_simp
  have r: "dget (rev demo_local) = dget demo_local" by (rule ext) (simp add: demo_local_def)
  note rc = reconcile_complete [OF demo_keyed, of True demo_venue "rev demo_local" demo_venue]
  have "has_divergence (reconcile True demo_local demo_venue)"
    by (subst rc [THEN conjunct2, THEN conjunct2, THEN conjunct1]) (rule exI [of _ "''c3''"], simp add: demo_local_def demo_venue_def)
  with rc r ids show ?thesis by simp
qed

text \<open>
  The terminal test for an order the venue no longer lists is case sensitive, unlike the
  comparison of a pair.
\<close>

lemma lower_case_fill_cancelled:
  "lo_status l = ''filled'' \<Longrightarrow> ra_kind (absent_at_venue True k l) = MARK_CANCELLED"
  by (simp add: absent_at_venue_def terminal_states_def)

end
