(* ===== verification/Breaker.thy ===== *)
theory Breaker
  imports Prelude
begin

text \<open>
  The circuit breaker of the agent fleet: \<open>brain/avengers/circuit_breaker.py\<close>, one process,
  and \<open>brain/avengers/shared_breaker.py\<close>, which shares the trip through a file.  Times are
  microseconds since the epoch; the clock reading of each call is an argument.
\<close>

section \<open>One process\<close>

datatype breaker_state = CLOSED | OPEN | HALF_OPEN

record breaker_config =
  max_failures :: int
  max_denials :: int
  max_cost :: pyfloat
  cooldown :: int

datatype trip_reason =
    NoReason | FailuresInARow int | DenialsInARow int | CostPerMinute pyfloat pyfloat | OtherReason string

record breaker =
  state :: breaker_state
  tripped_at :: "int option"
  reopen_at :: "int option"
  consec_failures :: int
  consec_denials :: int
  cost_window :: "(int \<times> pyfloat) list"
  last_reason :: trip_reason

record task_result =
  success :: bool
  reason_code :: string
  cost_multiplier :: pyfloat

definition new_breaker :: breaker where
  "new_breaker =
     \<lparr>state = CLOSED, tripped_at = None, reopen_at = None, consec_failures = 0,
      consec_denials = 0, cost_window = [], last_reason = NoReason\<rparr>"

datatype breaker_error = BreakerTripped trip_reason

definition pre_dispatch :: "int \<Rightarrow> breaker \<Rightarrow> (breaker_error + unit) \<times> breaker" where
  "pre_dispatch now b =
     (if state b = OPEN then
        (case reopen_at b of
           Some r \<Rightarrow> if r \<le> now then (Inr (), b\<lparr>state := HALF_OPEN\<rparr>)
                     else (Inl (BreakerTripped (last_reason b)), b)
         | None \<Rightarrow> (Inl (BreakerTripped (last_reason b)), b))
      else (Inr (), b))"

definition trip :: "breaker_config \<Rightarrow> trip_reason \<Rightarrow> int \<Rightarrow> breaker \<Rightarrow> breaker" where
  "trip c why now b =
     b\<lparr>state := OPEN, tripped_at := Some now, reopen_at := Some (now + cooldown c), last_reason := why\<rparr>"

definition window_us :: int where
  "window_us = 60000000"

definition window_sum :: "(int \<times> pyfloat) list \<Rightarrow> pyfloat" where
  "window_sum w = pysum (map snd w)"

definition record_counts :: "int \<Rightarrow> task_result \<Rightarrow> breaker \<Rightarrow> breaker" where
  "record_counts now r b =
     b\<lparr>cost_window := dropWhile (\<lambda>(t, _). t < now - window_us)
                        (cost_window b @ [(now, cost_multiplier r)]),
       consec_denials := (if reason_code r = ''jarvis_denied'' then consec_denials b + 1 else 0),
       consec_failures := (if success r then 0 else consec_failures b + 1)\<rparr>"

definition trip_reason_of :: "breaker_config \<Rightarrow> breaker \<Rightarrow> trip_reason option" where
  "trip_reason_of c b =
     (if max_failures c \<le> consec_failures b then Some (FailuresInARow (consec_failures b))
      else if max_denials c \<le> consec_denials b then Some (DenialsInARow (consec_denials b))
      else if flt (Fin 0) (max_cost c) \<and> flt (max_cost c) (window_sum (cost_window b)) then
        Some (CostPerMinute (window_sum (cost_window b)) (max_cost c))
      else None)"

definition record_task :: "breaker_config \<Rightarrow> int \<Rightarrow> task_result \<Rightarrow> breaker \<Rightarrow> breaker" where
  "record_task c now r b =
     (let b1 = record_counts now r b
      in case trip_reason_of c b1 of
           Some why \<Rightarrow> trip c why now b1
         | None \<Rightarrow>
             if state b1 = HALF_OPEN \<and> success r
             then b1\<lparr>state := CLOSED, tripped_at := None, reopen_at := None, last_reason := NoReason\<rparr>
             else b1)"

definition reset_breaker :: "breaker \<Rightarrow> breaker" where
  "reset_breaker b =
     b\<lparr>state := CLOSED, tripped_at := None, reopen_at := None, consec_failures := 0,
       consec_denials := 0, last_reason := NoReason\<rparr>"

record breaker_status =
  bs_state :: breaker_state
  bs_tripped_at :: "int option"
  bs_reopen_at :: "int option"
  bs_failures :: int
  bs_denials :: int
  bs_window_sum :: pyfloat
  bs_reason :: trip_reason

definition breaker_status_of :: "breaker \<Rightarrow> breaker_status" where
  "breaker_status_of b =
     \<lparr>bs_state = state b, bs_tripped_at = tripped_at b, bs_reopen_at = reopen_at b,
      bs_failures = consec_failures b, bs_denials = consec_denials b,
      bs_window_sum = window_sum (cost_window b), bs_reason = last_reason b\<rparr>"

section \<open>Several processes\<close>

text \<open>
  What a reader finds in the shared file: nothing, something that is not a valid object of
  the schema, or the payload.  A time stamp is absent, not ISO-8601, or a time.
\<close>

datatype stamp = NoStamp | BadStamp | At int

record payload =
  pl_state :: "string option"
  pl_tripped :: stamp
  pl_reopen :: stamp
  pl_reason :: trip_reason

datatype shared_file = NoFile | Unreadable | Shared int payload

record shared_disk =
  own_file :: shared_file
  at_default_path :: bool
  legacy_file :: shared_file

definition schema_version :: int where
  "schema_version = 1"

definition read_shared_file :: "bool \<Rightarrow> shared_file \<Rightarrow> payload option" where
  "read_shared_file validate f =
     (case f of Shared v p \<Rightarrow> if validate \<and> v \<noteq> schema_version then None else Some p | _ \<Rightarrow> None)"

definition read_shared :: "shared_disk \<Rightarrow> payload option" where
  "read_shared d =
     (case read_shared_file True (own_file d) of
        Some p \<Rightarrow> Some p
      | None \<Rightarrow> if \<not> at_default_path d \<or> own_file d \<noteq> NoFile then None
                else read_shared_file True (legacy_file d))"

definition state_of_string :: "string \<Rightarrow> breaker_state option" where
  "state_of_string s =
     (if s = ''CLOSED'' then Some CLOSED else if s = ''OPEN'' then Some OPEN
      else if s = ''HALF_OPEN'' then Some HALF_OPEN else None)"

definition string_of_state :: "breaker_state \<Rightarrow> string" where
  "string_of_state s = (case s of CLOSED \<Rightarrow> ''CLOSED'' | OPEN \<Rightarrow> ''OPEN'' | HALF_OPEN \<Rightarrow> ''HALF_OPEN'')"

definition refresh_from_disk :: "int \<Rightarrow> shared_disk \<Rightarrow> breaker \<Rightarrow> breaker" where
  "refresh_from_disk now d b =
     (case read_shared d of
        None \<Rightarrow> b
      | Some p \<Rightarrow>
          (case Option.bind (pl_state p) state_of_string of
             None \<Rightarrow> b
           | Some OPEN \<Rightarrow>
               (case (pl_reopen p, pl_tripped p) of
                  (At r, At t) \<Rightarrow>
                    b\<lparr>state := (if r \<le> now then HALF_OPEN else OPEN), tripped_at := Some t,
                      reopen_at := Some r, last_reason := pl_reason p\<rparr>
                | _ \<Rightarrow> b)
           | Some CLOSED \<Rightarrow>
               (if state b \<noteq> CLOSED
                then b\<lparr>state := CLOSED, tripped_at := None, reopen_at := None, last_reason := NoReason,
                       consec_failures := 0, consec_denials := 0\<rparr>
                else b)
           | Some HALF_OPEN \<Rightarrow> b))"

definition stamp_of :: "int option \<Rightarrow> stamp" where
  "stamp_of t = (case t of None \<Rightarrow> NoStamp | Some x \<Rightarrow> At x)"

definition payload_of :: "breaker \<Rightarrow> payload" where
  "payload_of b =
     \<lparr>pl_state = Some (string_of_state (if state b = HALF_OPEN then OPEN else state b)),
      pl_tripped = stamp_of (tripped_at b), pl_reopen = stamp_of (reopen_at b),
      pl_reason = last_reason b\<rparr>"

definition write_shared :: "bool \<Rightarrow> breaker \<Rightarrow> shared_disk \<Rightarrow> shared_disk" where
  "write_shared ok b d = (if ok then d\<lparr>own_file := Shared schema_version (payload_of b)\<rparr> else d)"

text \<open>Each operation takes the process's breaker and the shared disk, and returns both.\<close>

definition new_shared :: "int \<Rightarrow> bool \<Rightarrow> shared_disk \<Rightarrow> breaker" where
  "new_shared now rehydrate d = (if rehydrate then refresh_from_disk now d new_breaker else new_breaker)"

definition shared_pre_dispatch ::
  "bool \<Rightarrow> int \<Rightarrow> breaker \<Rightarrow> shared_disk \<Rightarrow> (breaker_error + unit) \<times> breaker \<times> shared_disk" where
  "shared_pre_dispatch ok now b d =
     (let b1 = refresh_from_disk now d b
      in case pre_dispatch now b1 of
           (Inl x, b2) \<Rightarrow> (Inl x, b2, d)
         | (Inr _, b2) \<Rightarrow>
             (Inr (), b2,
              if state b2 \<noteq> state b \<and> state b2 \<noteq> HALF_OPEN then write_shared ok b2 d else d))"

definition shared_record ::
  "breaker_config \<Rightarrow> bool \<Rightarrow> int \<Rightarrow> task_result \<Rightarrow> breaker \<Rightarrow> shared_disk \<Rightarrow> breaker \<times> shared_disk" where
  "shared_record c ok now r b d =
     (let b1 = record_task c now r b
      in (b1, if state b1 \<noteq> state b then write_shared ok b1 d else d))"

definition shared_reset :: "bool \<Rightarrow> breaker \<Rightarrow> shared_disk \<Rightarrow> breaker \<times> shared_disk" where
  "shared_reset ok b d = (reset_breaker b, write_shared ok (reset_breaker b) d)"

definition reset_shared :: "bool \<Rightarrow> shared_disk \<Rightarrow> bool \<times> shared_disk" where
  "reset_shared ok d =
     (if ok then (True, d\<lparr>own_file := Shared schema_version
                          \<lparr>pl_state = Some ''CLOSED'', pl_tripped = NoStamp, pl_reopen = NoStamp,
                           pl_reason = OtherReason ''operator_reset''\<rparr>\<rparr>)
      else (False, d))"

definition read_shared_status :: "bool \<Rightarrow> shared_disk \<Rightarrow> payload option" where
  "read_shared_status explicit_path d =
     (case read_shared_file False (own_file d) of
        Some p \<Rightarrow> Some p
      | None \<Rightarrow> if explicit_path \<or> own_file d \<noteq> NoFile then None
                else read_shared_file False (legacy_file d))"

section \<open>Runs of one breaker\<close>

datatype breaker_op = Pre int | Rec int task_result | Reset

definition breaker_step :: "breaker_config \<Rightarrow> breaker \<Rightarrow> breaker_op \<Rightarrow> breaker" where
  "breaker_step c b opn =
     (case opn of Pre now \<Rightarrow> snd (pre_dispatch now b) | Rec now r \<Rightarrow> record_task c now r b
      | Reset \<Rightarrow> reset_breaker b)"

text \<open>How many dispatches a run lets through.\<close>

fun dispatched :: "breaker_config \<Rightarrow> breaker \<Rightarrow> breaker_op list \<Rightarrow> nat" where
  "dispatched c b [] = 0"
| "dispatched c b (opn # ops) =
     (case opn of Pre now \<Rightarrow> (case fst (pre_dispatch now b) of Inr _ \<Rightarrow> 1 | Inl _ \<Rightarrow> 0) | _ \<Rightarrow> 0)
     + dispatched c (breaker_step c b opn) ops"

section \<open>Lemmas\<close>

lemma counts_simps [simp]:
  "state (record_counts now r b) = state b" "tripped_at (record_counts now r b) = tripped_at b"
  "reopen_at (record_counts now r b) = reopen_at b" "last_reason (record_counts now r b) = last_reason b"
  by (simp_all add: record_counts_def)

lemma trip_simps [simp]:
  "state (trip c why now b) = OPEN" "tripped_at (trip c why now b) = Some now"
  "reopen_at (trip c why now b) = Some (now + cooldown c)" "last_reason (trip c why now b) = why"
  "consec_failures (trip c why now b) = consec_failures b"
  "consec_denials (trip c why now b) = consec_denials b"
  "cost_window (trip c why now b) = cost_window b"
  by (simp_all add: trip_def)

lemma record_counters [simp]:
  "consec_failures (record_task c now r b) = (if success r then 0 else consec_failures b + 1)"
  "consec_denials (record_task c now r b)
   = (if reason_code r = ''jarvis_denied'' then consec_denials b + 1 else 0)"
  by (auto simp: record_task_def record_counts_def Let_def split: option.splits)

text \<open>Open until at least the cooldown after \<open>t\<close>.\<close>

definition open_until :: "breaker_config \<Rightarrow> int \<Rightarrow> breaker \<Rightarrow> bool" where
  "open_until c t b \<longleftrightarrow> state b = OPEN \<and> (\<exists>r. reopen_at b = Some r \<and> t + cooldown c \<le> r)"

definition within_cooldown :: "breaker_config \<Rightarrow> int \<Rightarrow> breaker_op \<Rightarrow> bool" where
  "within_cooldown c t opn =
     (case opn of Pre now \<Rightarrow> now < t + cooldown c | Rec now r \<Rightarrow> t \<le> now | Reset \<Rightarrow> False)"

lemma open_until_step:
  "open_until c t b \<Longrightarrow> within_cooldown c t opn \<Longrightarrow> open_until c t (breaker_step c b opn)"
  by (cases opn) (auto simp: open_until_def within_cooldown_def breaker_step_def pre_dispatch_def
      record_task_def Let_def split: option.splits)

interpretation cooling: machine "breaker_step c" "open_until c t" "within_cooldown c t" for c t
  by unfold_locales (rule open_until_step)

text \<open>Every trip is consistent: an open breaker knows when and why it tripped.\<close>

definition breaker_wf :: "breaker_config \<Rightarrow> breaker \<Rightarrow> bool" where
  "breaker_wf c b \<longleftrightarrow> 0 \<le> consec_failures b \<and> 0 \<le> consec_denials b \<and>
     (state b = CLOSED \<longrightarrow> tripped_at b = None \<and> reopen_at b = None \<and> last_reason b = NoReason) \<and>
     (state b \<noteq> CLOSED \<longrightarrow> last_reason b \<noteq> NoReason \<and>
        (\<exists>t. tripped_at b = Some t \<and> reopen_at b = Some (t + cooldown c)))"

lemma trip_reason_some: "trip_reason_of c b = Some why \<Longrightarrow> why \<noteq> NoReason"
  by (auto simp: trip_reason_of_def split: if_splits)

lemma breaker_wf_step: "breaker_wf c b \<Longrightarrow> breaker_wf c (breaker_step c b opn)"
proof (cases opn)
  case (Rec now r)
  assume "breaker_wf c b"
  with Rec show ?thesis
    using trip_reason_some
    by (auto simp: breaker_wf_def breaker_step_def record_task_def Let_def record_counts_def
        split: option.splits)
qed (auto simp: breaker_wf_def breaker_step_def pre_dispatch_def reset_breaker_def split: option.splits)

interpretation breaker: machine "breaker_step c" "breaker_wf c" "\<lambda>_. True" for c
  by unfold_locales (rule breaker_wf_step)

lemma blocked_dispatch: "open_until c t b \<Longrightarrow> now < t + cooldown c \<Longrightarrow> \<exists>x. fst (pre_dispatch now b) = Inl x"
  by (auto simp: open_until_def pre_dispatch_def)

lemma none_dispatched:
  "open_until c t b \<Longrightarrow> list_all (within_cooldown c t) ops \<Longrightarrow> dispatched c b ops = 0"
proof (induction ops arbitrary: b)
  case (Cons opn ops)
  then have "open_until c t (breaker_step c b opn)" by (auto intro: open_until_step)
  with Cons.IH Cons.prems(2) have rest: "dispatched c (breaker_step c b opn) ops = 0" by simp
  show ?case
  proof (cases opn)
    case (Pre now)
    with Cons.prems blocked_dispatch [of c t b now] rest show ?thesis
      by (auto simp: within_cooldown_def)
  qed (use rest in simp_all)
qed simp

lemma tripped_open:
  "trip_reason_of c (record_counts now r b) = Some why \<Longrightarrow> open_until c now (record_task c now r b)"
  by (simp add: record_task_def open_until_def Let_def)

lemma trailing_run:
  fixes f :: "'a \<Rightarrow> int \<Rightarrow> int"
  assumes "\<And>x n. f x n = (if P x then n + 1 else 0)"
  shows "foldl (\<lambda>n x. f x n) 0 xs = int (length (takeWhile P (rev xs)))"
  by (induction xs rule: rev_induct) (auto simp: assms)

lemma counters_run:
  "consec_failures (foldl (\<lambda>b (now, r). record_task c now r b) b rs)
     = foldl (\<lambda>n x. if \<not> success (snd x) then n + 1 else 0) (consec_failures b) rs"
  "consec_denials (foldl (\<lambda>b (now, r). record_task c now r b) b rs)
     = foldl (\<lambda>n x. if reason_code (snd x) = ''jarvis_denied'' then n + 1 else 0) (consec_denials b) rs"
  by (induction rs arbitrary: b) (auto split: prod.splits)

section \<open>Properties\<close>

definition demo_config :: breaker_config where
  "demo_config = \<lparr>max_failures = 2, max_denials = 5, max_cost = Fin 50, cooldown = 120000000\<rparr>"

definition failed :: task_result where
  "failed = \<lparr>success = False, reason_code = ''executor_error'', cost_multiplier = Fin 1\<rparr>"

lemma demo_reason: "trip_reason_of demo_config
    (record_counts 20 failed (record_task demo_config 10 failed new_breaker)) = Some (FailuresInARow 2)"
  by (simp add: trip_reason_of_def demo_config_def failed_def record_counts_def new_breaker_def)

text \<open>
  C23. The cooldown holds: when recording a result trips a guard, no dispatch is let through until
  the cooldown has passed, whatever dispatch attempts are made and whatever late results (good
  or bad) are recorded meanwhile, unless an operator resets the breaker.
\<close>

theorem cooldown_blocks_dispatch:
  assumes "trip_reason_of c (record_counts now r b) = Some why"
    and "list_all (within_cooldown c now) ops"
  shows "dispatched c (record_task c now r b) ops = 0
    \<and> state (foldl (breaker_step c) (record_task c now r b) ops) = OPEN"
  using none_dispatched [OF tripped_open [OF assms(1)] assms(2)]
    cooling.run_inv [OF tripped_open [OF assms(1)] assms(2)]
  by (simp add: open_until_def)

theorem cooldown_blocks_dispatch_witness:
  "dispatched demo_config
     (record_task demo_config 20 failed (record_task demo_config 10 failed new_breaker))
     [Pre 30, Rec 40 \<lparr>success = True, reason_code = ''ok'', cost_multiplier = Fin 0\<rparr>, Pre 120000019] = 0"
  by (rule cooldown_blocks_dispatch [OF demo_reason, THEN conjunct1])
    (simp add: within_cooldown_def demo_config_def)

text \<open>
  The guards count runs: after any results recorded on a new breaker, the failure and denial
  counters are the lengths of the unbroken runs of failures and of denials at the end, so the
  last result trips the breaker when such a run has reached its limit.
\<close>

theorem breaker_counts_runs:
  "consec_failures (foldl (\<lambda>b (now, r). record_task c now r b) new_breaker rs)
     = int (length (takeWhile (\<lambda>x. \<not> success (snd x)) (rev rs)))
   \<and> consec_denials (foldl (\<lambda>b (now, r). record_task c now r b) new_breaker rs)
     = int (length (takeWhile (\<lambda>x. reason_code (snd x) = ''jarvis_denied'') (rev rs)))"
  unfolding counters_run
  using trailing_run [where P = "\<lambda>x. \<not> success (snd x)" and xs = rs]
    trailing_run [where P = "\<lambda>x. reason_code (snd x) = ''jarvis_denied''" and xs = rs]
  by (simp add: new_breaker_def)

text \<open>
  A trip reaches every process: when one process trips and its write succeeds, every other
  process on the same file, whatever its own state, refuses to dispatch until the cooldown has
  passed, and so does a process started meanwhile.
\<close>

theorem trip_reaches_every_process:
  assumes "trip_reason_of c (record_counts now r a) = Some why" "state a \<noteq> OPEN"
    and "later < now + cooldown c"
  shows "fst (shared_pre_dispatch ok later other (snd (shared_record c True now r a d)))
           = Inl (BreakerTripped why)
    \<and> state (new_shared later True (snd (shared_record c True now r a d))) = OPEN"
proof -
  let ?d = "snd (shared_record c True now r a d)"
  have "own_file ?d = Shared schema_version (payload_of (trip c why now (record_counts now r a)))"
    using assms(1,2) by (simp add: shared_record_def record_task_def write_shared_def Let_def)
  then have rd: "read_shared ?d = Some (payload_of (trip c why now (record_counts now r a)))"
    by (simp add: read_shared_def read_shared_file_def)
  have "refresh_from_disk later ?d b
    = b\<lparr>state := OPEN, tripped_at := Some now, reopen_at := Some (now + cooldown c), last_reason := why\<rparr>" for b
    using assms(3) by (simp add: refresh_from_disk_def rd payload_of_def stamp_of_def
        string_of_state_def state_of_string_def)
  then show ?thesis
    using assms(3) by (simp add: shared_pre_dispatch_def pre_dispatch_def new_shared_def Let_def)
qed

lemma demo_first: "state (record_task demo_config 10 failed new_breaker) = CLOSED"
  by (simp add: demo_config_def record_task_def trip_reason_of_def record_counts_def failed_def
      new_breaker_def Let_def window_sum_def window_us_def)

theorem trip_reaches_every_process_witness:
  "fst (shared_pre_dispatch True 100 new_breaker (snd (shared_record demo_config True 20 failed
     (record_task demo_config 10 failed new_breaker)
     \<lparr>own_file = NoFile, at_default_path = True, legacy_file = NoFile\<rparr>)))
   = Inl (BreakerTripped (FailuresInARow 2))"
  by (rule trip_reaches_every_process [OF demo_reason, THEN conjunct1])
    (simp_all add: demo_first, simp add: demo_config_def)

section \<open>Corners\<close>

text \<open>
  The file is adopted whether or not it is newer: a trip whose write failed is undone by an
  older CLOSED record at the next dispatch.
\<close>

lemma stale_close_loses_trip:
  assumes "own_file d = Shared schema_version (payload_of new_breaker)"
    and "(a', d') = shared_record c False now r a d"
  shows "fst (shared_pre_dispatch ok later a' d') = Inr ()"
  using assms
  by (auto simp: shared_record_def write_shared_def shared_pre_dispatch_def refresh_from_disk_def
      read_shared_def read_shared_file_def payload_of_def new_breaker_def string_of_state_def
      state_of_string_def pre_dispatch_def stamp_of_def Let_def split: if_splits)

text \<open>A failed probe does not reopen the breaker unless one of the guards trips again.\<close>

lemma failed_probe_stays_half_open:
  "state b = HALF_OPEN \<Longrightarrow> \<not> success r \<Longrightarrow> trip_reason_of c (record_counts now r b) = None \<Longrightarrow>
   state (record_task c now r b) = HALF_OPEN \<and> fst (pre_dispatch later (record_task c now r b)) = Inr ()"
  by (simp add: record_task_def pre_dispatch_def Let_def)

end
