(* ===== verification/Promotion.thy ===== *)
theory Promotion
  imports Durable "HOL-Library.List_Lexorder" "HOL-Library.Char_ord"
begin

text \<open>
  \<open>brain/avengers/promotion.py\<close>: the gatekeeper of the strategy lifecycle.  A strategy's
  spec moves along the stages by decisions of \<open>evaluate\<close> that \<open>apply\<close> carries out.
  The red team, the fleet's profit and loss and its correlation monitor are callables handed to
  the gate: arguments of the configuration.  Reasons are kept as data, not as rendered text.
\<close>

section \<open>Stages, thresholds, metrics\<close>

datatype stage = SHADOW | PAPER | LIVE_1LOT | LIVE_FULL | RETIRED

definition stage_order :: "stage list" where
  "stage_order = [SHADOW, PAPER, LIVE_1LOT, LIVE_FULL]"

record thresholds =
  min_days :: pyfloat
  min_trades :: int
  min_sharpe :: pyfloat
  max_dd_pct :: pyfloat
  min_win_rate :: pyfloat
  max_slip_bps :: pyfloat

definition default_thresholds :: "(stage, thresholds) dict" where
  "default_thresholds =
     [(SHADOW, \<lparr>min_days = Fin 14, min_trades = 50, min_sharpe = Fin 1, max_dd_pct = Fin 5,
               min_win_rate = fl (45 / 100), max_slip_bps = Fin 3\<rparr>),
      (PAPER, \<lparr>min_days = Fin 21, min_trades = 100, min_sharpe = fl (13 / 10), max_dd_pct = Fin 4,
              min_win_rate = fl (48 / 100), max_slip_bps = fl (25 / 10)\<rparr>),
      (LIVE_1LOT, \<lparr>min_days = Fin 30, min_trades = 150, min_sharpe = fl (15 / 10),
                  max_dd_pct = fl (35 / 10), min_win_rate = fl (1 / 2), max_slip_bps = Fin 2\<rparr>),
      (LIVE_FULL, \<lparr>min_days = Fin 0, min_trades = 0, min_sharpe = Fin 0, max_dd_pct = Fin 100,
                  min_win_rate = Fin 0, max_slip_bps = Fin 999\<rparr>)]"

record metrics =
  trades :: int
  days_active :: pyfloat
  sharpe :: pyfloat
  dd_pct :: pyfloat
  win_rate :: pyfloat
  slippage_bps :: pyfloat
  pnl :: pyfloat

definition no_metrics :: metrics where
  "no_metrics = \<lparr>trades = 0, days_active = Fin 0, sharpe = Fin 0, dd_pct = Fin 0,
                 win_rate = Fin 0, slippage_bps = Fin 0, pnl = Fin 0\<rparr>"

datatype action = PROMOTE | HOLD | DEMOTE | RETIRE

datatype threshold_check = Days | Trades | Sharpe | Drawdown | WinRate | Slippage

datatype reason =
    UnknownStrategy | IsRetired | HardBreakAtShadow | BreakDrawdown pyfloat | BreakSharpe pyfloat
  | AlreadyFull | Misses threshold_check | AllCleared | RedTeamBlocked stage stage
  | RedTeamRaised | Fragile threshold_check | FleetRiskBlocked | CorrelationBlocked pyfloat | OtherReason string

record decision =
  strategy_id :: string
  from_stage :: stage
  to_stage :: stage
  action :: action
  reasons :: "reason list"
  dec_metrics :: metrics

record spec =
  spec_id :: string
  current_stage :: stage
  entered_stage_at :: int
  spec_metrics :: metrics

record verdict =
  approve :: bool
  rt_reasons :: "reason list"
  risk_score :: pyfloat

definition gated_transitions :: "(stage \<times> stage) list" where
  "gated_transitions = [(SHADOW, PAPER), (PAPER, LIVE_1LOT)]"

section \<open>The default red team\<close>

definition one_tenth :: pyfloat where
  "one_tenth = fl (1 / 10)"

definition trades_factor :: pyfloat where
  "trades_factor = fl (13 / 10)"

definition min_live_slippage :: pyfloat where
  "min_live_slippage = fl (25 / 100)"

definition default_red_team_gate :: "(stage, thresholds) dict \<Rightarrow> spec \<Rightarrow> decision \<Rightarrow> pyexc + verdict" where
  "default_red_team_gate thr_arg sp d =
     (let thr_map = (if thr_arg = [] then default_thresholds else thr_arg)
      in case dget thr_map (from_stage d) of
           None \<Rightarrow> Inr \<lparr>approve = True, rt_reasons = [], risk_score = Fin 0\<rparr>
         | Some t \<Rightarrow>
             rbind (as_int (JFloat (fmul (fint (min_trades t)) trades_factor))) (\<lambda>required_n.
             let m = spec_metrics sp;
                 rs = (if flt (Fin 0) (min_sharpe t)
                          \<and> flt (sharpe m) (fmul (min_sharpe t) (fadd (Fin 1) one_tenth))
                       then [Fragile Sharpe] else [])
                    @ (if flt (Fin 0) (max_dd_pct t)
                          \<and> flt (fmul (max_dd_pct t) (fsub (Fin 1) one_tenth)) (dd_pct m)
                       then [Fragile Drawdown] else [])
                    @ (if flt (Fin 0) (min_win_rate t)
                          \<and> flt (win_rate m) (fmul (min_win_rate t) (fadd (Fin 1) one_tenth))
                       then [Fragile WinRate] else [])
                    @ (if 0 < min_trades t \<and> trades m < required_n then [Fragile Trades] else [])
                    @ (if from_stage d = PAPER \<and> to_stage d = LIVE_1LOT
                          \<and> flt (slippage_bps m) min_live_slippage
                       then [Fragile Slippage] else [])
             in rbind (fdivx (fint (int (length rs))) (Fin 5)) (\<lambda>q.
                  Inr \<lparr>approve = (rs = []), rt_reasons = rs,
                       risk_score = pymax (Fin 0) (pymin (Fin 1) q)\<rparr>)))"

section \<open>The gate\<close>

record gate_config =
  gate_thresholds :: "(stage, thresholds) dict"
  demote_dd_pct :: pyfloat
  demote_sharpe :: pyfloat
  red_team_gate :: "(spec \<Rightarrow> decision \<Rightarrow> pyexc + verdict) option"
  fleet_risk_limit :: "pyfloat option"
  fleet_pnl :: "pyfloat option"
  fleet_correlation :: "(string \<Rightarrow> pyfloat option) option"

datatype journal_row =
    Registered string stage
  | Applied string stage stage action "reason list" "verdict option"

record gate =
  specs :: "(string, spec) dict"
  last_verdict :: "(string, verdict) dict"
  journal :: "journal_row list"
  saved_specs :: "(string \<times> spec option) list option"

text \<open>
  The state file: absent or unreadable (None), or rows whose payload validates or not.
\<close>

definition load_gate :: "(string \<times> spec option) list option \<Rightarrow> gate" where
  "load_gate f =
     \<lparr>specs = (case f of None \<Rightarrow> []
               | Some rows \<Rightarrow> foldl (\<lambda>d (k, s). case s of None \<Rightarrow> d | Some x \<Rightarrow> dset k x d) [] rows),
      last_verdict = [], journal = [], saved_specs = f\<rparr>"

definition persist_state :: "bool \<Rightarrow> gate \<Rightarrow> (pyexc + unit) \<times> gate" where
  "persist_state ok g =
     (if ok then (Inr (), g\<lparr>saved_specs := Some (map (\<lambda>(k, s). (k, Some s)) (specs g))\<rparr>)
      else (Inl OSError, g))"

definition append_journal :: "journal_row \<Rightarrow> gate \<Rightarrow> gate" where
  "append_journal r g = g\<lparr>journal := journal g @ [r]\<rparr>"

definition register :: "bool \<Rightarrow> int \<Rightarrow> string \<Rightarrow> stage \<Rightarrow> gate \<Rightarrow> (pyexc + spec) \<times> gate" where
  "register ok now sid st g =
     (case dget (specs g) sid of
        Some s \<Rightarrow> (Inr s, g)
      | None \<Rightarrow>
          let s = \<lparr>spec_id = sid, current_stage = st, entered_stage_at = now, spec_metrics = no_metrics\<rparr>
          in case persist_state ok (g\<lparr>specs := dset sid s (specs g)\<rparr>) of
               (Inl x, g1) \<Rightarrow> (Inl x, g1)
             | (Inr _, g1) \<Rightarrow> (Inr s, append_journal (Registered sid st) g1))"

definition update_metrics :: "bool \<Rightarrow> int \<Rightarrow> string \<Rightarrow> metrics \<Rightarrow> gate \<Rightarrow> (pyexc + spec) \<times> gate" where
  "update_metrics ok now sid m g =
     (case register ok now sid SHADOW g of
        (Inl x, g1) \<Rightarrow> (Inl x, g1)
      | (Inr s, g1) \<Rightarrow>
          let s1 = s\<lparr>spec_metrics := m\<rparr>
          in case persist_state ok (g1\<lparr>specs := dset sid s1 (specs g1)\<rparr>) of
               (Inl x, g2) \<Rightarrow> (Inl x, g2)
             | (Inr _, g2) \<Rightarrow> (Inr s1, g2))"

definition check_fleet_risk :: "gate_config \<Rightarrow> bool" where
  "check_fleet_risk c =
     (case fleet_risk_limit c of
        None \<Rightarrow> True
      | Some l \<Rightarrow>
          if fle l (Fin 0) then True
          else flt (fneg (fabs l)) (case fleet_pnl c of None \<Rightarrow> Fin 0 | Some x \<Rightarrow> x))"

text \<open>
  The tuple the correlation check returns: two values, or the three values of its pass branch.
\<close>

datatype corr_result = Pair2 bool reason | Triple3 bool "pyfloat option"

definition check_fleet_correlation :: "gate_config \<Rightarrow> string \<Rightarrow> corr_result" where
  "check_fleet_correlation c sid =
     (case fleet_correlation c of
        None \<Rightarrow> Pair2 True (OtherReason ''no fleet correlation monitor configured'')
      | Some f \<Rightarrow>
          (case f sid of
             None \<Rightarrow> Triple3 True None
           | Some x \<Rightarrow> if flt x (fl (7 / 10)) then Triple3 True (Some x)
                       else Pair2 False (CorrelationBlocked x)))"

definition unpack2 :: "corr_result \<Rightarrow> pyexc + (bool \<times> reason)" where
  "unpack2 r = (case r of Pair2 b why \<Rightarrow> Inr (b, why) | Triple3 b x \<Rightarrow> Inl ValueError)"

fun index_of :: "stage list \<Rightarrow> stage \<Rightarrow> nat option" where
  "index_of [] s = None"
| "index_of (x # xs) s = (if x = s then Some 0 else map_option Suc (index_of xs s))"

definition up :: "stage \<Rightarrow> stage" where
  "up s = (case index_of stage_order s of None \<Rightarrow> s
           | Some i \<Rightarrow> stage_order ! min (i + 1) (length stage_order - 1))"

definition down :: "stage \<Rightarrow> stage" where
  "down s = (case index_of stage_order s of None \<Rightarrow> s | Some i \<Rightarrow> stage_order ! (i - 1))"

definition hard_breaks :: "gate_config \<Rightarrow> metrics \<Rightarrow> reason list" where
  "hard_breaks c m =
     (if fle (demote_dd_pct c) (dd_pct m) then [BreakDrawdown (dd_pct m)] else [])
     @ (if fle (sharpe m) (demote_sharpe c) \<and> 10 < trades m then [BreakSharpe (sharpe m)] else [])"

definition misses :: "thresholds \<Rightarrow> metrics \<Rightarrow> reason list" where
  "misses t m =
     (if flt (days_active m) (min_days t) then [Misses Days] else [])
     @ (if trades m < min_trades t then [Misses Trades] else [])
     @ (if flt (sharpe m) (min_sharpe t) then [Misses Sharpe] else [])
     @ (if flt (max_dd_pct t) (dd_pct m) then [Misses Drawdown] else [])
     @ (if flt (win_rate m) (min_win_rate t) then [Misses WinRate] else [])
     @ (if flt (max_slip_bps t) (slippage_bps m) then [Misses Slippage] else [])"

definition thresholds_at :: "gate_config \<Rightarrow> stage \<Rightarrow> thresholds option" where
  "thresholds_at c st =
     (let tm = (if gate_thresholds c = [] then default_thresholds else gate_thresholds c)
      in case dget tm st of Some t \<Rightarrow> Some t | None \<Rightarrow> dget default_thresholds st)"

text \<open>The veto of the red team: its verdict, a raised exception counting as a refusal.\<close>

definition red_team_verdict :: "gate_config \<Rightarrow> spec \<Rightarrow> decision \<Rightarrow> verdict option" where
  "red_team_verdict c sp d =
     (case red_team_gate c of
        None \<Rightarrow> None
      | Some f \<Rightarrow>
          if List.member gated_transitions (from_stage d, to_stage d) then
            Some (case f sp d of Inr v \<Rightarrow> v
                  | Inl _ \<Rightarrow> \<lparr>approve = False, rt_reasons = [RedTeamRaised], risk_score = Fin 1\<rparr>)
          else None)"

definition hold :: "string \<Rightarrow> stage \<Rightarrow> reason list \<Rightarrow> metrics \<Rightarrow> decision" where
  "hold sid st rs m =
     \<lparr>strategy_id = sid, from_stage = st, to_stage = st, action = HOLD, reasons = rs, dec_metrics = m\<rparr>"

text \<open>The last two gates, on a tentative promotion.\<close>

definition fleet_gates :: "gate_config \<Rightarrow> decision \<Rightarrow> pyexc + decision" where
  "fleet_gates c d =
     (let sid = strategy_id d; st = from_stage d; m = dec_metrics d
      in if to_stage d \<in> {LIVE_1LOT, LIVE_FULL} \<and> \<not> check_fleet_risk c
         then Inr (hold sid st [FleetRiskBlocked] m)
         else if st = SHADOW \<and> to_stage d = PAPER
         then rbind (unpack2 (check_fleet_correlation c sid)) (\<lambda>(corr_ok, why).
                Inr (if corr_ok then d else hold sid st [why] m))
         else Inr d)"

definition evaluate_strategy :: "gate_config \<Rightarrow> string \<Rightarrow> gate \<Rightarrow> (pyexc + decision) \<times> gate" where
  "evaluate_strategy c sid g =
     (case dget (specs g) sid of
        None \<Rightarrow> (Inr (hold sid SHADOW [UnknownStrategy] no_metrics), g)
      | Some sp \<Rightarrow>
          let st = current_stage sp; m = spec_metrics sp; hb = hard_breaks c m
          in if st = RETIRED then (Inr (hold sid st [IsRetired] m), g)
             else if hb \<noteq> [] then
               (Inr (if st = SHADOW
                     then \<lparr>strategy_id = sid, from_stage = st, to_stage = RETIRED, action = RETIRE,
                           reasons = HardBreakAtShadow # hb, dec_metrics = m\<rparr>
                     else \<lparr>strategy_id = sid, from_stage = st, to_stage = down st, action = DEMOTE,
                           reasons = hb, dec_metrics = m\<rparr>), g)
             else if st = LIVE_FULL then (Inr (hold sid st [AlreadyFull] m), g)
             else case thresholds_at c st of
                    None \<Rightarrow> (Inl KeyError, g)
                  | Some t \<Rightarrow>
                      if misses t m \<noteq> [] then (Inr (hold sid st (misses t m) m), g)
                      else
                        let tentative = \<lparr>strategy_id = sid, from_stage = st, to_stage = up st,
                               action = PROMOTE, reasons = [AllCleared], dec_metrics = m\<rparr>
                        in case red_team_verdict c sp tentative of
                             None \<Rightarrow> (fleet_gates c tentative, g)
                           | Some v \<Rightarrow>
                               let g1 = g\<lparr>last_verdict := dset sid v (last_verdict g)\<rparr>
                               in if \<not> approve v
                                  then (Inr (hold sid st (RedTeamBlocked st (up st) # rt_reasons v) m), g1)
                                  else (fleet_gates c tentative, g1))"

definition apply_decision :: "bool \<Rightarrow> int \<Rightarrow> decision \<Rightarrow> gate \<Rightarrow> (pyexc + spec) \<times> gate" where
  "apply_decision ok now d g =
     (let sid = strategy_id d
      in case register ok now sid SHADOW g of
           (Inl x, g1) \<Rightarrow> (Inl x, g1)
         | (Inr s, g1) \<Rightarrow>
             let s1 = (if action d \<in> {PROMOTE, DEMOTE, RETIRE}
                       then s\<lparr>current_stage := to_stage d, entered_stage_at := now, spec_metrics := no_metrics\<rparr>
                       else s)
             in case persist_state ok (g1\<lparr>specs := dset sid s1 (specs g1)\<rparr>) of
                  (Inl x, g2) \<Rightarrow> (Inl x, g2)
                | (Inr _, g2) \<Rightarrow>
                    (Inr s1, append_journal
                       (Applied sid (from_stage d) (to_stage d) (action d) (reasons d) (dget (last_verdict g2) sid))
                       (g2\<lparr>last_verdict := ddel sid (last_verdict g2)\<rparr>)))"

definition last_red_team_verdict :: "string \<Rightarrow> gate \<Rightarrow> verdict option" where
  "last_red_team_verdict sid g = dget (last_verdict g) sid"

definition snapshot_specs :: "gate \<Rightarrow> spec list" where
  "snapshot_specs g = sort_key spec_id (map snd (specs g))"

section \<open>Lemmas: decisions\<close>

lemma stage_moves [simp]:
  "up SHADOW = PAPER" "up PAPER = LIVE_1LOT" "up LIVE_1LOT = LIVE_FULL" "up LIVE_FULL = LIVE_FULL"
  "up RETIRED = RETIRED" "down SHADOW = SHADOW" "down PAPER = SHADOW" "down LIVE_1LOT = PAPER"
  "down LIVE_FULL = LIVE_1LOT" "down RETIRED = RETIRED"
  by (simp_all add: up_def down_def stage_order_def)

lemma hold_simps [simp]:
  "strategy_id (hold sid st rs m) = sid" "from_stage (hold sid st rs m) = st"
  "to_stage (hold sid st rs m) = st" "action (hold sid st rs m) = HOLD"
  by (simp_all add: hold_def)

lemma fleet_gates_cases:
  assumes "fleet_gates c d = Inr d'"
  shows "d' = d \<and> \<not> (to_stage d \<in> {LIVE_1LOT, LIVE_FULL} \<and> \<not> check_fleet_risk c)
           \<and> (from_stage d = SHADOW \<and> to_stage d = PAPER \<longrightarrow> fleet_correlation c = None)
         \<or> (\<exists>rs. d' = hold (strategy_id d) (from_stage d) rs (dec_metrics d))"
  using assms
  by (auto simp: fleet_gates_def Let_def unpack2_def check_fleet_correlation_def
      split: if_splits corr_result.splits option.splits)

text \<open>The conditions under which the gate promotes.\<close>

definition earned :: "gate_config \<Rightarrow> spec \<Rightarrow> string \<Rightarrow> bool" where
  "earned c sp sid =
     (let st = current_stage sp; m = spec_metrics sp
      in st \<in> {SHADOW, PAPER, LIVE_1LOT} \<and> hard_breaks c m = []
         \<and> (case thresholds_at c st of None \<Rightarrow> False | Some t \<Rightarrow> misses t m = [])
         \<and> (case red_team_verdict c sp \<lparr>strategy_id = sid, from_stage = st, to_stage = up st,
                 action = PROMOTE, reasons = [AllCleared], dec_metrics = m\<rparr> of
              None \<Rightarrow> True | Some v \<Rightarrow> approve v)
         \<and> (up st \<in> {LIVE_1LOT, LIVE_FULL} \<longrightarrow> check_fleet_risk c)
         \<and> (st = SHADOW \<longrightarrow> fleet_correlation c = None))"

lemma evaluate_decision:
  assumes "evaluate_strategy c sid g = (Inr d, g')" "dget (specs g) sid = Some sp"
  shows "strategy_id d = sid \<and> from_stage d = current_stage sp \<and> specs g' = specs g \<and> journal g' = journal g
    \<and> (action d = HOLD \<and> to_stage d = current_stage sp
       \<or> action d = PROMOTE \<and> to_stage d = up (current_stage sp) \<and> earned c sp sid
       \<or> action d = DEMOTE \<and> to_stage d = down (current_stage sp) \<and> current_stage sp \<notin> {SHADOW, RETIRED}
          \<and> hard_breaks c (spec_metrics sp) \<noteq> []
       \<or> action d = RETIRE \<and> to_stage d = RETIRED \<and> current_stage sp = SHADOW
          \<and> hard_breaks c (spec_metrics sp) \<noteq> [])"
proof -
  let ?st = "current_stage sp" and ?m = "spec_metrics sp"
  let ?t = "\<lparr>strategy_id = sid, from_stage = ?st, to_stage = up ?st, action = PROMOTE,
             reasons = [AllCleared], dec_metrics = ?m\<rparr>"
  note e = assms(1) [unfolded evaluate_strategy_def assms(2) option.case Let_def]
  consider (retired) "?st = RETIRED" | (broken) "?st \<noteq> RETIRED" "hard_breaks c ?m \<noteq> []"
    | (full) "?st = LIVE_FULL" "hard_breaks c ?m = []"
    | (climb) "?st \<in> {SHADOW, PAPER, LIVE_1LOT}" "hard_breaks c ?m = []"
    by (cases ?st) auto
  then show ?thesis
  proof cases
    case retired
    with e show ?thesis by auto
  next
    case broken
    with e show ?thesis by (auto split: if_splits)
  next
    case full
    with e show ?thesis by auto
  next
    case climb
    then have ne: "?st \<noteq> RETIRED" "?st \<noteq> LIVE_FULL" by auto
    then obtain t where t: "thresholds_at c ?st = Some t" using e climb(2) by (auto split: option.splits)
    show ?thesis
    proof (cases "misses t ?m = []")
      case False
      with e t climb ne show ?thesis by auto
    next
      case True
      show ?thesis
      proof (cases "red_team_verdict c sp ?t")
        case None
        with e t climb ne True have "fleet_gates c ?t = Inr d" "g' = g" by auto
        with fleet_gates_cases [OF this(1)] t climb ne True None show ?thesis
          by (auto simp: earned_def)
      next
        case (Some v)
        show ?thesis
        proof (cases "approve v")
          case False
          with e t climb ne True Some show ?thesis by auto
        next
          case app: True
          with e t climb ne True Some have "fleet_gates c ?t = Inr d"
            "g' = g\<lparr>last_verdict := dset sid v (last_verdict g)\<rparr>" by auto
          with fleet_gates_cases [OF this(1)] t climb ne True Some app show ?thesis
            by (auto simp: earned_def)
        qed
      qed
    qed
  qed
qed

section \<open>Runs of the gate\<close>

text \<open>
  One cycle evaluates a strategy and applies the decision; the other calls feed metrics or
  register strategies.  Writes to the state file succeed.
\<close>

datatype gate_op = Cycle gate_config int string | Feed int string metrics | Enrol int string stage

definition gate_step :: "gate \<Rightarrow> gate_op \<Rightarrow> gate" where
  "gate_step g opn =
     (case opn of
        Cycle c now sid \<Rightarrow>
          (case evaluate_strategy c sid g of
             (Inl _, g1) \<Rightarrow> g1
           | (Inr d, g1) \<Rightarrow> snd (apply_decision True now d g1))
      | Feed now sid m \<Rightarrow> snd (update_metrics True now sid m g)
      | Enrol now sid st \<Rightarrow> snd (register True now sid st g))"

definition rank :: "stage \<Rightarrow> nat" where
  "rank s = (case s of SHADOW \<Rightarrow> 0 | PAPER \<Rightarrow> 1 | LIVE_1LOT \<Rightarrow> 2 | LIVE_FULL \<Rightarrow> 3 | RETIRED \<Rightarrow> 0)"

fun promotes :: "string \<Rightarrow> journal_row \<Rightarrow> bool" where
  "promotes sid (Applied s st1 st2 a rs v) = (s = sid \<and> a = PROMOTE)"
| "promotes sid (Registered s st) = False"

definition promotions :: "string \<Rightarrow> gate \<Rightarrow> nat" where
  "promotions sid g = length (filter (promotes sid) (journal g))"

text \<open>No strategy is lost, climbs more than its journaled promotions, or leaves retirement.\<close>

definition lifecycle_le :: "gate \<Rightarrow> gate \<Rightarrow> bool" where
  "lifecycle_le g h \<longleftrightarrow>
     (\<forall>sid sp. dget (specs g) sid = Some sp \<longrightarrow>
        (\<exists>sp'. dget (specs h) sid = Some sp' \<and>
           rank (current_stage sp') + promotions sid g \<le> rank (current_stage sp) + promotions sid h \<and>
           (current_stage sp = RETIRED \<longrightarrow> current_stage sp' = RETIRED)))
     \<and> (\<forall>sid. promotions sid g \<le> promotions sid h)"

lemma rank_up: "rank (up st) \<le> rank st + 1"
  by (cases st) (simp_all add: rank_def)

lemma rank_down: "rank (down st) \<le> rank st"
  by (cases st) (simp_all add: rank_def)

lemma register_effect:
  "specs (snd (register True now sid st g))
     = (if dget (specs g) sid = None
        then dset sid \<lparr>spec_id = sid, current_stage = st, entered_stage_at = now, spec_metrics = no_metrics\<rparr> (specs g)
        else specs g)
   \<and> promotions k (snd (register True now sid st g)) = promotions k g
   \<and> fst (register True now sid st g) = Inr (case dget (specs g) sid of Some s \<Rightarrow> s
        | None \<Rightarrow> \<lparr>spec_id = sid, current_stage = st, entered_stage_at = now, spec_metrics = no_metrics\<rparr>)"
  by (auto simp: register_def persist_state_def append_journal_def promotions_def Let_def
      split: option.splits)

lemma feed_effect:
  assumes "dget (specs g) sid = Some s"
  shows "specs (snd (update_metrics True now sid m g)) = dset sid (s\<lparr>spec_metrics := m\<rparr>) (specs g)
    \<and> promotions k (snd (update_metrics True now sid m g)) = promotions k g"
  using assms by (simp add: update_metrics_def register_def persist_state_def promotions_def Let_def)

lemma apply_effect:
  assumes "dget (specs g) (strategy_id d) = Some s"
  shows "specs (snd (apply_decision True now d g))
      = dset (strategy_id d)
          (if action d \<in> {PROMOTE, DEMOTE, RETIRE}
           then s\<lparr>current_stage := to_stage d, entered_stage_at := now, spec_metrics := no_metrics\<rparr> else s)
          (specs g)
    \<and> promotions k (snd (apply_decision True now d g))
      = promotions k g + (if k = strategy_id d \<and> action d = PROMOTE then 1 else 0)"
  using assms by (simp add: apply_decision_def register_def persist_state_def append_journal_def
      promotions_def Let_def)

lemma lifecycle_refl: "lifecycle_le g g"
  by (simp add: lifecycle_le_def)

lemma lifecycle_trans:
  assumes "lifecycle_le f g" "lifecycle_le g h"
  shows "lifecycle_le f h"
  unfolding lifecycle_le_def
proof (intro conjI allI impI)
  fix sid sp
  assume "dget (specs f) sid = Some sp"
  then obtain sp1 where 1: "dget (specs g) sid = Some sp1"
    "rank (current_stage sp1) + promotions sid f \<le> rank (current_stage sp) + promotions sid g"
    "current_stage sp = RETIRED \<longrightarrow> current_stage sp1 = RETIRED"
    using assms(1) unfolding lifecycle_le_def by blast
  then obtain sp2 where 2: "dget (specs h) sid = Some sp2"
    "rank (current_stage sp2) + promotions sid g \<le> rank (current_stage sp1) + promotions sid h"
    "current_stage sp1 = RETIRED \<longrightarrow> current_stage sp2 = RETIRED"
    using assms(2) unfolding lifecycle_le_def by blast
  show "\<exists>sp'. dget (specs h) sid = Some sp' \<and>
    rank (current_stage sp') + promotions sid f \<le> rank (current_stage sp) + promotions sid h \<and>
    (current_stage sp = RETIRED \<longrightarrow> current_stage sp' = RETIRED)"
    by (intro exI [of _ sp2]) (use 1 2 in auto)
next
  fix sid show "promotions sid f \<le> promotions sid h"
    using assms le_trans unfolding lifecycle_le_def by blast
qed

text \<open>Replacing one spec by another that does not break the order.\<close>

lemma lifecycle_set:
  assumes "specs h = dset sid s' (specs g)" "\<And>k. promotions k g \<le> promotions k h"
    and "\<And>sp. dget (specs g) sid = Some sp \<Longrightarrow>
      rank (current_stage s') + promotions sid g \<le> rank (current_stage sp) + promotions sid h
      \<and> (current_stage sp = RETIRED \<longrightarrow> current_stage s' = RETIRED)"
  shows "lifecycle_le g h"
  using assms by (auto simp: lifecycle_le_def)

lemma lifecycle_same:
  "specs h = specs g \<Longrightarrow> journal h = journal g \<Longrightarrow> lifecycle_le g h"
  by (simp add: lifecycle_le_def promotions_def)

lemma lifecycle_register: "lifecycle_le g (snd (register True now sid st g))"
  using register_effect [of now sid st g] by (auto simp: lifecycle_le_def)

lemma lifecycle_feed: "lifecycle_le g (snd (update_metrics True now sid m g))"
proof (cases "dget (specs g) sid")
  case (Some s)
  show ?thesis
    by (rule lifecycle_set [of _ sid "s\<lparr>spec_metrics := m\<rparr>"]) (use feed_effect [OF Some] Some in auto)
next
  case None
  have "\<exists>s'. specs (snd (update_metrics True now sid m g)) = dset sid s' (specs g)"
    using None by (auto simp: update_metrics_def register_def persist_state_def append_journal_def Let_def)
  moreover have "promotions k (snd (update_metrics True now sid m g)) = promotions k g" for k
    using None by (simp add: update_metrics_def register_def persist_state_def append_journal_def
        promotions_def Let_def)
  ultimately show ?thesis using None by (auto simp: lifecycle_le_def)
qed

lemma evaluate_specs:
  "specs (snd (evaluate_strategy c sid g)) = specs g \<and> journal (snd (evaluate_strategy c sid g)) = journal g"
  by (auto simp: evaluate_strategy_def Let_def split: option.splits)

lemma lifecycle_apply:
  assumes "dget (specs g) (strategy_id d) = Some sp" "from_stage d = current_stage sp"
    and "action d = HOLD
       \<or> action d = PROMOTE \<and> to_stage d = up (current_stage sp) \<and> current_stage sp \<noteq> RETIRED
       \<or> action d = DEMOTE \<and> to_stage d = down (current_stage sp) \<and> current_stage sp \<noteq> RETIRED
       \<or> action d = RETIRE \<and> to_stage d = RETIRED"
  shows "lifecycle_le g (snd (apply_decision True now d g))"
  by (rule lifecycle_set [OF conjunct1 [OF apply_effect [OF assms(1)]]])
    (use assms apply_effect [OF assms(1), of now] rank_up rank_down in
      \<open>auto simp: rank_def [of RETIRED]\<close>)

lemma lifecycle_step: "lifecycle_le g (gate_step g opn)"
proof (cases opn)
  case (Cycle c now sid)
  obtain r g1 where e: "evaluate_strategy c sid g = (r, g1)" by (cases "evaluate_strategy c sid g")
  have same: "specs g1 = specs g" "journal g1 = journal g" using evaluate_specs [of c sid g] e by auto
  show ?thesis
  proof (cases r)
    case (Inl x)
    then show ?thesis using same lifecycle_same by (simp add: gate_step_def Cycle e)
  next
    case (Inr d)
    have "lifecycle_le g1 (snd (apply_decision True now d g1))"
    proof (cases "dget (specs g) sid")
      case (Some sp)
      from evaluate_decision [OF e [unfolded Inr] Some] Some same show ?thesis
        by (intro lifecycle_apply [of _ _ sp]) (auto simp: earned_def Let_def)
    next
      case None
      then have d: "strategy_id d = sid" "action d = HOLD" using e Inr by (auto simp: evaluate_strategy_def)
      let ?s = "\<lparr>spec_id = sid, current_stage = SHADOW, entered_stage_at = now, spec_metrics = no_metrics\<rparr>"
      have "specs (snd (apply_decision True now d g1)) = dset sid ?s (specs g1)
        \<and> (\<forall>k. promotions k (snd (apply_decision True now d g1)) = promotions k g1)"
        using None same d by (simp add: apply_decision_def register_def persist_state_def
            append_journal_def promotions_def Let_def)
      then show ?thesis using None same by (auto simp: lifecycle_le_def)
    qed
    moreover have "lifecycle_le g g1" using same by (rule lifecycle_same)
    ultimately show ?thesis by (auto simp: gate_step_def Cycle e Inr intro: lifecycle_trans)
  qed
qed (simp_all add: gate_step_def lifecycle_feed lifecycle_register)

interpretation lifecycle: ordered_machine gate_step "\<lambda>_. True" "\<lambda>_. True" lifecycle_le
  by unfold_locales (auto simp: lifecycle_refl lifecycle_step intro: lifecycle_trans)

section \<open>Properties\<close>

definition demo_gate_config :: gate_config where
  "demo_gate_config =
     \<lparr>gate_thresholds = [(SHADOW, \<lparr>min_days = Fin 14, min_trades = 50, min_sharpe = Fin 1, max_dd_pct = Fin 5,
                                 min_win_rate = Fin 0, max_slip_bps = Fin 3\<rparr>)],
      demote_dd_pct = Fin 10, demote_sharpe = Fin (- 1),
      red_team_gate = Some (\<lambda>_ _. Inr \<lparr>approve = True, rt_reasons = [], risk_score = Fin 0\<rparr>),
      fleet_risk_limit = None, fleet_pnl = None, fleet_correlation = None\<rparr>"

definition demo_metrics :: metrics where
  "demo_metrics = \<lparr>trades = 80, days_active = Fin 20, sharpe = Fin 2, dd_pct = Fin 3,
                   win_rate = Fin 1, slippage_bps = Fin 1, pnl = Fin 900\<rparr>"

definition demo_gate :: gate where
  "demo_gate =
     \<lparr>specs = [(''s1'', \<lparr>spec_id = ''s1'', current_stage = SHADOW, entered_stage_at = 5,
                        spec_metrics = demo_metrics\<rparr>)],
      last_verdict = [], journal = [], saved_specs = None\<rparr>"

lemma demo_specs: "dget (specs demo_gate) ''s1'' = Some \<lparr>spec_id = ''s1'', current_stage = SHADOW,
    entered_stage_at = 5, spec_metrics = demo_metrics\<rparr>"
  by (simp add: demo_gate_def)

lemma demo_promotes:
  "\<exists>d g'. evaluate_strategy demo_gate_config ''s1'' demo_gate = (Inr d, g') \<and> action d = PROMOTE"
  by (simp add: evaluate_strategy_def demo_specs hard_breaks_def demo_metrics_def demo_gate_config_def
      thresholds_at_def misses_def red_team_verdict_def gated_transitions_def fleet_gates_def
      check_fleet_correlation_def unpack2_def Let_def)

lemma thresholds_at_Some:
  "thresholds_at c st = Some t \<Longrightarrow>
     dget (gate_thresholds c) st = Some t \<or> dget (gate_thresholds c) st = None \<and> dget default_thresholds st = Some t"
  by (auto simp: thresholds_at_def Let_def split: if_splits option.splits)

lemma check_fleet_risk_limit:
  "check_fleet_risk c \<Longrightarrow> fleet_risk_limit c = Some l \<Longrightarrow> fle l (Fin 0) \<or>
     flt (fneg (fabs l)) (case fleet_pnl c of None \<Rightarrow> Fin 0 | Some x \<Rightarrow> x)"
  by (auto simp: check_fleet_risk_def split: if_splits)

text \<open>
  C20. A promotion is earned: when the gate decides to promote, the strategy moves from SHADOW to
  PAPER, from PAPER to LIVE_1LOT or from LIVE_1LOT to LIVE_FULL; it has no hard break and misses
  none of the six thresholds configured for its stage (or, without any, of the default ones).  A red
  team that is configured has approved the first two moves (it is not asked about the third).  The
  two moves into a live stage keep the fleet's loss within a configured positive limit (the move to
  PAPER is not tested), and a move to PAPER happens only without a correlation monitor.
\<close>

theorem promotion_is_earned:
  assumes "evaluate_strategy c sid g = (Inr d, g')" "dget (specs g) sid = Some sp" "action d = PROMOTE"
  shows "(current_stage sp, to_stage d) \<in> {(SHADOW, PAPER), (PAPER, LIVE_1LOT), (LIVE_1LOT, LIVE_FULL)}
    \<and> \<not> fle (demote_dd_pct c) (dd_pct (spec_metrics sp))
    \<and> \<not> (fle (sharpe (spec_metrics sp)) (demote_sharpe c) \<and> 10 < trades (spec_metrics sp))
    \<and> (\<exists>t. (dget (gate_thresholds c) (current_stage sp) = Some t
            \<or> dget (gate_thresholds c) (current_stage sp) = None \<and> dget default_thresholds (current_stage sp) = Some t)
         \<and> \<not> flt (days_active (spec_metrics sp)) (min_days t) \<and> min_trades t \<le> trades (spec_metrics sp)
         \<and> \<not> flt (sharpe (spec_metrics sp)) (min_sharpe t) \<and> \<not> flt (max_dd_pct t) (dd_pct (spec_metrics sp))
         \<and> \<not> flt (win_rate (spec_metrics sp)) (min_win_rate t)
         \<and> \<not> flt (max_slip_bps t) (slippage_bps (spec_metrics sp)))
    \<and> (\<forall>f. red_team_gate c = Some f \<and> current_stage sp \<noteq> LIVE_1LOT \<longrightarrow>
         (\<exists>v. f sp \<lparr>strategy_id = sid, from_stage = current_stage sp, to_stage = to_stage d,
                action = PROMOTE, reasons = [AllCleared], dec_metrics = spec_metrics sp\<rparr> = Inr v \<and> approve v))
    \<and> (current_stage sp \<noteq> SHADOW \<longrightarrow> (\<forall>l. fleet_risk_limit c = Some l \<longrightarrow> fle l (Fin 0) \<or>
         flt (fneg (fabs l)) (case fleet_pnl c of None \<Rightarrow> Fin 0 | Some x \<Rightarrow> x)))
    \<and> (current_stage sp = SHADOW \<longrightarrow> fleet_correlation c = None)"
proof -
  have e: "earned c sp sid" and t: "to_stage d = up (current_stage sp)"
    using evaluate_decision [OF assms(1,2)] assms(3) by auto
  have st: "(current_stage sp, to_stage d) \<in> {(SHADOW, PAPER), (PAPER, LIVE_1LOT), (LIVE_1LOT, LIVE_FULL)}"
    using e t by (auto simp: earned_def Let_def)
  have rt: "\<exists>v. f sp \<lparr>strategy_id = sid, from_stage = current_stage sp, to_stage = to_stage d,
                action = PROMOTE, reasons = [AllCleared], dec_metrics = spec_metrics sp\<rparr> = Inr v \<and> approve v"
    if "red_team_gate c = Some f" "current_stage sp \<noteq> LIVE_1LOT" for f
    using e that t
    by (auto simp: earned_def Let_def red_team_verdict_def gated_transitions_def split: sum.splits)
  have risk: "fle l (Fin 0) \<or> flt (fneg (fabs l)) (case fleet_pnl c of None \<Rightarrow> Fin 0 | Some x \<Rightarrow> x)"
    if "current_stage sp \<noteq> SHADOW" "fleet_risk_limit c = Some l" for l
    by (rule check_fleet_risk_limit) (use e that in \<open>auto simp: earned_def Let_def\<close>)
  obtain th where th: "thresholds_at c (current_stage sp) = Some th" "misses th (spec_metrics sp) = []"
    using e by (auto simp: earned_def Let_def split: option.splits)
  have br: "hard_breaks c (spec_metrics sp) = []" "current_stage sp = SHADOW \<longrightarrow> fleet_correlation c = None"
    using e by (auto simp: earned_def Let_def)
  show ?thesis
    using st rt risk br thresholds_at_Some [OF th(1)] th(2)
    by (intro conjI) (auto simp: hard_breaks_def misses_def split: if_splits)
qed

theorem promotion_is_earned_witness:
  "\<exists>d g'. evaluate_strategy demo_gate_config ''s1'' demo_gate = (Inr d, g') \<and> to_stage d = PAPER"
  using demo_promotes promotion_is_earned [OF _ demo_specs] by fastforce

text \<open>
  Full size takes three promotions: over any run of evaluate-and-apply cycles, metric updates
  and registrations, a strategy is never lost, its stage climbs by at most the promotions the
  journal records for it (so from SHADOW to LIVE_FULL at least three), and a retired strategy
  stays retired.
\<close>

theorem lifecycle_climbs_by_promotions:
  assumes "dget (specs g) sid = Some sp"
  shows "\<exists>sp'. dget (specs (foldl gate_step g ops)) sid = Some sp'
    \<and> rank (current_stage sp') + promotions sid g
        \<le> rank (current_stage sp) + promotions sid (foldl gate_step g ops)
    \<and> (current_stage sp = RETIRED \<longrightarrow> current_stage sp' = RETIRED)"
proof -
  have "lifecycle_le g (foldl gate_step g ops)" by (rule lifecycle.run_le) (simp_all add: list_all_iff)
  with assms show ?thesis unfolding lifecycle_le_def by blast
qed

theorem lifecycle_climbs_by_promotions_witness:
  "\<exists>sp'. dget (specs (foldl gate_step demo_gate [Cycle demo_gate_config 9 ''s1'', Feed 10 ''s1'' demo_metrics])) ''s1''
     = Some sp' \<and> rank (current_stage sp')
       \<le> promotions ''s1'' (foldl gate_step demo_gate [Cycle demo_gate_config 9 ''s1'', Feed 10 ''s1'' demo_metrics])"
  using lifecycle_climbs_by_promotions [OF demo_specs,
      of "[Cycle demo_gate_config 9 ''s1'', Feed 10 ''s1'' demo_metrics]"]
  by (auto simp: rank_def promotions_def demo_gate_def)

text \<open>
  A hard break always costs a stage: whatever its other metrics, a strategy with a drawdown at
  the demotion limit or a collapsed Sharpe ratio loses a stage in the next cycle (SHADOW goes to
  RETIRED), starts over with empty metrics, and the move is journaled.
\<close>

theorem hard_break_demotes:
  assumes "dget (specs g) sid = Some sp" "current_stage sp \<noteq> RETIRED"
    and "hard_breaks c (spec_metrics sp) \<noteq> []"
  shows "\<exists>sp'. dget (specs (gate_step g (Cycle c now sid))) sid = Some sp'
    \<and> current_stage sp' = (if current_stage sp = SHADOW then RETIRED else down (current_stage sp))
    \<and> spec_metrics sp' = no_metrics
    \<and> (\<exists>a rs v. journal (gate_step g (Cycle c now sid))
        = journal g @ [Applied sid (current_stage sp) (current_stage sp') a rs v])"
  using assms
  by (cases "current_stage sp = SHADOW") (simp_all add: gate_step_def evaluate_strategy_def
      apply_decision_def register_def persist_state_def append_journal_def Let_def)

theorem hard_break_demotes_witness:
  "\<exists>sp'. dget (specs (gate_step demo_gate (Cycle (demo_gate_config\<lparr>demote_dd_pct := Fin 3\<rparr>) 9 ''s1''))) ''s1'' = Some sp'
     \<and> current_stage sp' = RETIRED"
  using hard_break_demotes [OF demo_specs, of "demo_gate_config\<lparr>demote_dd_pct := Fin 3\<rparr>" 9]
  by (auto simp: hard_breaks_def demo_metrics_def demo_gate_config_def)

text \<open>
  With a correlation monitor no strategy leaves SHADOW by promotion: when all other gates pass
  and the monitor reports no data or a correlation under its limit, the evaluation raises
  (three values are returned where two are unpacked); otherwise it holds.
\<close>

theorem correlation_monitor_blocks_promotion:
  assumes "fleet_correlation c = Some f" "dget (specs g) sid = Some sp" "current_stage sp = SHADOW"
  shows "(\<forall>d. fst (evaluate_strategy c sid g) = Inr d \<longrightarrow> action d \<noteq> PROMOTE)
    \<and> (earned (c\<lparr>fleet_correlation := None\<rparr>) sp sid \<and> (case f sid of None \<Rightarrow> True | Some x \<Rightarrow> flt x (fl (7 / 10)))
        \<longrightarrow> fst (evaluate_strategy c sid g) = Inl ValueError)"
proof (rule conjI)
  show "\<forall>d. fst (evaluate_strategy c sid g) = Inr d \<longrightarrow> action d \<noteq> PROMOTE"
  proof (intro allI impI)
    fix d
    assume "fst (evaluate_strategy c sid g) = Inr d"
    then have "evaluate_strategy c sid g = (Inr d, snd (evaluate_strategy c sid g))"
      by (simp add: prod_eq_iff)
    from evaluate_decision [OF this assms(2)] show "action d \<noteq> PROMOTE"
      using assms by (auto simp: earned_def Let_def)
  qed
  have same: "thresholds_at (c\<lparr>fleet_correlation := None\<rparr>) = thresholds_at c"
    "hard_breaks (c\<lparr>fleet_correlation := None\<rparr>) = hard_breaks c"
    "red_team_verdict (c\<lparr>fleet_correlation := None\<rparr>) = red_team_verdict c"
    by (simp_all add: fun_eq_iff thresholds_at_def hard_breaks_def red_team_verdict_def)
  show "earned (c\<lparr>fleet_correlation := None\<rparr>) sp sid \<and> (case f sid of None \<Rightarrow> True | Some x \<Rightarrow> flt x (fl (7 / 10)))
        \<longrightarrow> fst (evaluate_strategy c sid g) = Inl ValueError"
    using assms
    by (auto simp: earned_def same evaluate_strategy_def fleet_gates_def
        check_fleet_correlation_def unpack2_def Let_def split: option.splits)
qed

theorem correlation_monitor_blocks_promotion_witness:
  "fst (evaluate_strategy (demo_gate_config\<lparr>fleet_correlation := Some (\<lambda>_. None)\<rparr>) ''s1'' demo_gate)
   = Inl ValueError"
proof -
  have "earned (demo_gate_config\<lparr>fleet_correlation := Some (\<lambda>_. None), fleet_correlation := None\<rparr>)
      \<lparr>spec_id = ''s1'', current_stage = SHADOW, entered_stage_at = 5, spec_metrics = demo_metrics\<rparr> ''s1''"
    by (simp add: earned_def hard_breaks_def demo_metrics_def demo_gate_config_def
      thresholds_at_def misses_def red_team_verdict_def gated_transitions_def Let_def)
  with correlation_monitor_blocks_promotion [OF _ demo_specs,
      of "demo_gate_config\<lparr>fleet_correlation := Some (\<lambda>_. None)\<rparr>" "\<lambda>_. None"]
  show ?thesis by simp
qed

end
