(* ===== verification/Venue_Base.thy ===== *)
theory Venue_Base
  imports Durable
begin

text \<open>
  \<open>venues/base.py\<close>: the order request every venue takes, the result it returns, and the id of a
  request.  The digest of a request without a client id (SHA-256 of its fields) is an argument.
\<close>

datatype order_side = Buy | Sell
datatype order_type = Market | Limit | PostOnly
datatype order_status = Filled | Partial | Open | Rejected

record order_request =
  rq_symbol :: string
  rq_side :: order_side
  rq_qty :: pyfloat
  rq_type :: order_type
  rq_price :: "pyfloat option"
  rq_reduce_only :: bool
  rq_client_id :: "string option"
  rq_stop :: "pyfloat option"
  rq_target :: "pyfloat option"
  rq_bot :: "string option"

record order_result =
  or_id :: string
  or_status :: order_status
  or_filled :: pyfloat
  or_avg :: pyfloat
  or_fees :: pyfloat
  or_latency :: pyfloat
  or_raw :: "(string \<times> json) list"

definition idempotency_key :: "(order_request \<Rightarrow> string) \<Rightarrow> order_request \<Rightarrow> string" where
  "idempotency_key digest r =
     (case rq_client_id r of Some x \<Rightarrow> if x = [] then digest r else x | None \<Rightarrow> digest r)"

definition side_name :: "order_side \<Rightarrow> string" where
  "side_name s = (case s of Buy \<Rightarrow> ''BUY'' | Sell \<Rightarrow> ''SELL'')"

end
