(* ===== verification/Order_Submission.thy ===== *)
theory Order_Submission
  imports Venue_Base Idempotency Position_Caps Fleet_Risk
begin

text \<open>
  \<open>IbkrClientPortalVenue.place_order\<close> of \<open>venues/ibkr.py\<close>, the path of an order through the gates: the live
  switch, the daily-loss gate, the size cap, the configuration checks, the dedup store, the
  payload, and the record of the result.
\<close>

section \<open>Configuration\<close>

record portal_config =
  pc_account :: string
  pc_venue_type :: string
  pc_require_paper :: bool
  pc_conids :: "(string, int) dict"
  pc_exchange :: string

definition default_conids :: "(string, int) dict" where
  "default_conids = [(''BTCUSD'', 764777976), (''ETHUSD'', 764777977)]"

definition default_exchanges :: "(string, string) dict" where
  "default_exchanges = [(''BTCUSD'', ''PAXOS''), (''ETHUSD'', ''PAXOS'')]"

definition missing_requirements :: "portal_config \<Rightarrow> string list" where
  "missing_requirements c =
     (if pc_venue_type c \<noteq> ''paper'' then [''IBKR_VENUE_TYPE=paper''] else [])
     @ (if pc_account c = [] then [''IBKR_ACCOUNT_ID''] else [])
     @ (if pc_require_paper c \<and> pc_account c \<noteq> [] \<and> take 2 (pc_account c) \<noteq> ''DU''
        then [''IBKR_ACCOUNT_ID must be a paper account id beginning with DU''] else [])
     @ (if pc_conids c = [] \<and> default_conids = []
        then [''IBKR_SYMBOL_CONID_MAP or IBKR_CONID_<SYMBOL>''] else [])"

definition has_credentials :: "portal_config \<Rightarrow> bool" where
  "has_credentials c = (missing_requirements c = [])"

definition ticker_of :: "string \<Rightarrow> string" where
  "ticker_of s = lstrip_by (\<lambda>c. c = CHR ''/'') (upper s)"

definition conid_for :: "portal_config \<Rightarrow> string \<Rightarrow> int option" where
  "conid_for c s =
     (case dget (pc_conids c) (ticker_of s) of
        Some n \<Rightarrow> Some n | None \<Rightarrow> dget default_conids (ticker_of s))"

definition exchange_for :: "portal_config \<Rightarrow> string \<Rightarrow> string" where
  "exchange_for c s = dget_or default_exchanges (ticker_of s) (pc_exchange c)"

definition ibkr_order_type :: "order_type \<Rightarrow> string" where
  "ibkr_order_type t = (case t of Market \<Rightarrow> ''MKT'' | Limit \<Rightarrow> ''LMT'' | PostOnly \<Rightarrow> ''LMT'')"

definition build_order_payload ::
  "(order_request \<Rightarrow> string) \<Rightarrow> portal_config \<Rightarrow> order_request \<Rightarrow> int \<Rightarrow> pyexc + (string \<times> json) list" where
  "build_order_payload digest c r conid =
     rbind (as_int (JFloat (rq_qty r))) (\<lambda>qty.
       if qty < 1 then Inl ValueError
       else
         let base = [(''acctId'', JStr (pc_account c)), (''conid'', JInt conid),
               (''cOID'', JStr (idempotency_key digest r)),
               (''orderType'', JStr (ibkr_order_type (rq_type r))),
               (''listingExchange'', JStr (exchange_for c (rq_symbol r))),
               (''side'', JStr (side_name (rq_side r))),
               (''ticker'', JStr (ticker_of (rq_symbol r))), (''tif'', JStr ''DAY''),
               (''quantity'', JInt qty)]
         in if ibkr_order_type (rq_type r) = ''LMT'' then
              (case rq_price r of
                 None \<Rightarrow> Inl ValueError
               | Some p \<Rightarrow> Inr (base @ [(''price'', JFloat p)]))
            else Inr base)"

section \<open>Placing an order\<close>

datatype submit_error =
    LiveDisabledError live_error | FleetError fleet_breach | CapError order_cap_error | SubmitPy pyexc

record desk =
  dk_idem :: idem_state
  dk_fleet :: "fleet_gate option"
  dk_orders :: "(string, order_result) dict"

text \<open>
  What one call reads from outside: the date, the three clock readings of the store, and
  whether its two disk writes succeed.
\<close>

record call_env =
  ce_today :: int
  ce_now :: pyfloat
  ce_stamp :: pyfloat
  ce_done :: pyfloat
  ce_ok1 :: bool
  ce_ok2 :: bool

definition rejected :: "string \<Rightarrow> string \<Rightarrow> order_result" where
  "rejected k why = \<lparr>or_id = k, or_status = Rejected, or_filled = Fin 0, or_avg = Fin 0, or_fees = Fin 0, or_latency = Fin 0,
     or_raw = [(''venue'', JStr ''ibkr''), (''reason'', JStr why)]\<rparr>"

definition signed_qty :: "order_request \<Rightarrow> pyfloat" where
  "signed_qty r = (case rq_side r of Sell \<Rightarrow> fneg (fabs (rq_qty r)) | Buy \<Rightarrow> fabs (rq_qty r))"

definition intent_of :: "order_request \<Rightarrow> int \<Rightarrow> (string \<times> json) list" where
  "intent_of r conid =
     [(''symbol'', JStr (rq_symbol r)), (''side'', JStr (side_name (rq_side r))),
      (''quantity'', JFloat (rq_qty r)), (''conid'', JInt conid)]"

definition deduped :: "string \<Rightarrow> idem_record \<Rightarrow> order_result" where
  "deduped k r =
     \<lparr>or_id = (case broker_order_id r of Some b \<Rightarrow> if b = [] then k else b | None \<Rightarrow> k),
      or_status = (if ir_status r = ''submitted'' then Open else Rejected), or_filled = Fin 0, or_avg = Fin 0, or_fees = Fin 0, or_latency = Fin 0,
      or_raw = [(''venue'', JStr ''ibkr''), (''deduped'', JBool True), (''note'', JStr (ir_note r)),
                (''cached_response'', JObj (case response_payload r of Some p \<Rightarrow> p | None \<Rightarrow> []))]\<rparr>"

definition route_order ::
  "(order_request \<Rightarrow> string) \<Rightarrow> portal_config \<Rightarrow> call_env \<Rightarrow> order_request \<Rightarrow> int \<Rightarrow> desk \<Rightarrow>
   (submit_error + order_result) \<times> desk" where
  "route_order digest c ce r conid s =
     (let k = idempotency_key digest r
      in case build_order_payload digest c r conid of
           Inl x \<Rightarrow> (Inl (SubmitPy x), s)
         | Inr p \<Rightarrow>
             let res = \<lparr>or_id = k, or_status = Open, or_filled = Fin 0, or_avg = Fin 0,
                        or_fees = Fin 0, or_latency = Fin 0,
                        or_raw = [(''venue'', JStr ''ibkr''), (''payload'', JObj p), (''mode'', JStr ''paper'')]\<rparr>;
                 s1 = s\<lparr>dk_orders := dset k res (dk_orders s)\<rparr>
             in (Inr res,
                 case record_result (ce_done ce) (ce_ok2 ce) k ''submitted'' (Some k)
                        (Some [(''venue'', JStr ''ibkr''), (''mode'', JStr ''paper'')]) (dk_idem s1) of
                   Inl _ \<Rightarrow> s1
                 | Inr (_, i) \<Rightarrow> s1\<lparr>dk_idem := i\<rparr>))"

definition place_order ::
  "env \<Rightarrow> (order_request \<Rightarrow> string) \<Rightarrow> portal_config \<Rightarrow> call_env \<Rightarrow> order_request \<Rightarrow> desk \<Rightarrow>
   (submit_error + order_result) \<times> desk" where
  "place_order e digest c ce r s =
     (case assert_live_allowed e of
        Inl x \<Rightarrow> (Inl (LiveDisabledError x), s)
      | Inr _ \<Rightarrow>
     (case assert_fleet_within_budget e (ce_today ce) (rq_bot r) (dk_fleet s) of
        (Inl x, f) \<Rightarrow> (Inl (FleetError x), s\<lparr>dk_fleet := f\<rparr>)
      | (Inr _, f) \<Rightarrow>
          let s1 = s\<lparr>dk_fleet := f\<rparr>; k = idempotency_key digest r
          in case assert_within_caps e ''mnq'' ''ibkr'' (rq_symbol r) (signed_qty r) of
               Inl x \<Rightarrow> (Inl (CapError x), s1)
             | Inr _ \<Rightarrow>
                 if \<not> has_credentials c
                 then (Inr (rejected k ''missing IBKR paper-routing configuration''), s1)
                 else case conid_for c (rq_symbol r) of
                        None \<Rightarrow> (Inr (rejected k (''missing IBKR conid for '' @ rq_symbol r)), s1)
                      | Some conid \<Rightarrow>
                          (case check_or_register e (ce_now ce) (ce_stamp ce) (ce_ok1 ce) k ''ibkr''
                                  (rq_symbol r) (intent_of r conid) (dk_idem s1) of
                             Inl _ \<Rightarrow> (Inr (rejected k ''idempotency unavailable''), s1)
                           | Inr (rec, i) \<Rightarrow>
                               if \<not> is_new rec then (Inr (deduped k rec), s1\<lparr>dk_idem := i\<rparr>)
                               else route_order digest c ce r conid (s1\<lparr>dk_idem := i\<rparr>))))"

definition cancel_order :: "string \<Rightarrow> desk \<Rightarrow> bool \<times> desk" where
  "cancel_order k s = (dget (dk_orders s) k \<noteq> None, s\<lparr>dk_orders := ddel k (dk_orders s)\<rparr>)"

definition get_order_status :: "string \<Rightarrow> desk \<Rightarrow> order_result option" where
  "get_order_status k s = dget (dk_orders s) k"

section \<open>Lemmas\<close>

text \<open>Did this call route the order, and which calls of the store did it make?\<close>

definition routed :: "env \<Rightarrow> (order_request \<Rightarrow> string) \<Rightarrow> portal_config \<Rightarrow> call_env \<Rightarrow> order_request \<Rightarrow> desk \<Rightarrow> bool" where
  "routed e digest c ce r s =
     (case fst (place_order e digest c ce r s) of
        Inr res \<Rightarrow> dget (or_raw res) ''payload'' \<noteq> None | Inl _ \<Rightarrow> False)"

definition passes_gates :: "env \<Rightarrow> portal_config \<Rightarrow> call_env \<Rightarrow> order_request \<Rightarrow> desk \<Rightarrow> bool" where
  "passes_gates e c ce r s =
     (assert_live_allowed e = Inr ()
      \<and> fst (assert_fleet_within_budget e (ce_today ce) (rq_bot r) (dk_fleet s)) = Inr ()
      \<and> assert_within_caps e ''mnq'' ''ibkr'' (rq_symbol r) (signed_qty r) = Inr ()
      \<and> has_credentials c \<and> conid_for c (rq_symbol r) \<noteq> None)"

definition store_calls ::
  "env \<Rightarrow> (order_request \<Rightarrow> string) \<Rightarrow> portal_config \<Rightarrow> call_env \<Rightarrow> order_request \<Rightarrow> desk \<Rightarrow> (bool \<times> idem_call) list" where
  "store_calls e digest c ce r s =
     (case (passes_gates e c ce r s, conid_for c (rq_symbol r)) of
        (True, Some conid) \<Rightarrow>
          let k = idempotency_key digest r;
              chk = (ce_ok1 ce, CheckCall (ce_now ce) (ce_stamp ce) k ''ibkr'' (rq_symbol r) (intent_of r conid))
          in chk # (case (told_to_route e (dk_idem s) chk k, build_order_payload digest c r conid) of
                      (True, Inr _) \<Rightarrow> [(ce_ok2 ce, ResultCall (ce_done ce) k ''submitted'' (Some k)
                         (Some [(''venue'', JStr ''ibkr''), (''mode'', JStr ''paper'')]))]
                    | _ \<Rightarrow> [])
      | _ \<Rightarrow> [])"

lemma gates_blocked:
  "\<not> passes_gates e c ce r s \<Longrightarrow> dk_orders (snd (place_order e digest c ce r s)) = dk_orders s
     \<and> dk_idem (snd (place_order e digest c ce r s)) = dk_idem s \<and> \<not> routed e digest c ce r s"
  by (auto simp: routed_def passes_gates_def place_order_def rejected_def Let_def
      split: sum.splits prod.splits option.splits)

lemma gates_passed:
  assumes "passes_gates e c ce r s" "conid_for c (rq_symbol r) = Some conid"
  shows "place_order e digest c ce r s =
    (let k = idempotency_key digest r;
         s1 = s\<lparr>dk_fleet := snd (assert_fleet_within_budget e (ce_today ce) (rq_bot r) (dk_fleet s))\<rparr>
     in case check_or_register e (ce_now ce) (ce_stamp ce) (ce_ok1 ce) k ''ibkr''
               (rq_symbol r) (intent_of r conid) (dk_idem s) of
          Inl _ \<Rightarrow> (Inr (rejected k ''idempotency unavailable''), s1)
        | Inr (rec, i) \<Rightarrow>
            if \<not> is_new rec then (Inr (deduped k rec), s1\<lparr>dk_idem := i\<rparr>)
            else route_order digest c ce r conid (s1\<lparr>dk_idem := i\<rparr>))"
  using assms
  by (cases "assert_fleet_within_budget e (ce_today ce) (rq_bot r) (dk_fleet s)")
    (simp add: passes_gates_def place_order_def Let_def)

lemma told_fst:
  "told_to_route e i (ok, CheckCall now t k v y p) k \<longleftrightarrow>
     (case check_or_register e now t ok k v y p i of Inr (r, _) \<Rightarrow> is_new r | Inl _ \<Rightarrow> False)"
  by (simp add: told_to_route_def)

lemma route_result:
  "fst (route_order digest c ce r conid s) = (case build_order_payload digest c r conid of
      Inl x \<Rightarrow> Inl (SubmitPy x)
    | Inr p \<Rightarrow> Inr \<lparr>or_id = idempotency_key digest r, or_status = Open, or_filled = Fin 0, or_avg = Fin 0,
        or_fees = Fin 0, or_latency = Fin 0,
        or_raw = [(''venue'', JStr ''ibkr''), (''payload'', JObj p), (''mode'', JStr ''paper'')]\<rparr>)"
  by (simp add: route_order_def Let_def split: sum.splits)

lemma route_store:
  "dk_idem (snd (route_order digest c ce r conid s)) = (case build_order_payload digest c r conid of
      Inl x \<Rightarrow> dk_idem s
    | Inr p \<Rightarrow> idem_step e (dk_idem s) (ce_ok2 ce, ResultCall (ce_done ce) (idempotency_key digest r)
        ''submitted'' (Some (idempotency_key digest r)) (Some [(''venue'', JStr ''ibkr''), (''mode'', JStr ''paper'')])))"
  by (auto simp: route_order_def idem_step_def Let_def split: sum.splits prod.splits)

lemma routed_iff:
  "routed e digest c ce r s \<longleftrightarrow> passes_gates e c ce r s \<and>
     (\<exists>conid p. conid_for c (rq_symbol r) = Some conid \<and> build_order_payload digest c r conid = Inr p
       \<and> told_to_route e (dk_idem s) (ce_ok1 ce, CheckCall (ce_now ce) (ce_stamp ce)
           (idempotency_key digest r) ''ibkr'' (rq_symbol r) (intent_of r conid)) (idempotency_key digest r))"
proof (cases "passes_gates e c ce r s")
  case False
  then show ?thesis using gates_blocked by simp
next
  case True
  then obtain conid where c: "conid_for c (rq_symbol r) = Some conid" by (auto simp: passes_gates_def)
  show ?thesis
    using True
    by (auto simp: routed_def gates_passed [OF True c] c told_fst route_result rejected_def deduped_def
        Let_def split: sum.splits prod.splits if_splits)
qed

text \<open>The store sees exactly these calls.\<close>

lemma store_trace:
  "dk_idem (snd (place_order e digest c ce r s)) = foldl (idem_step e) (dk_idem s) (store_calls e digest c ce r s)"
proof (cases "passes_gates e c ce r s")
  case False
  then show ?thesis using gates_blocked by (simp add: store_calls_def)
next
  case True
  then obtain conid where c: "conid_for c (rq_symbol r) = Some conid" by (auto simp: passes_gates_def)
  let ?k = "idempotency_key digest r"
  let ?chk = "check_or_register e (ce_now ce) (ce_stamp ce) (ce_ok1 ce) ?k ''ibkr''
      (rq_symbol r) (intent_of r conid) (dk_idem s)"
  show ?thesis
  proof (cases ?chk)
    case (Inl x)
    then show ?thesis
      using True by (simp add: gates_passed [OF True c] store_calls_def c told_fst idem_step_def Let_def)
  next
    case (Inr ri)
    obtain rec i where ri: "ri = (rec, i)" by (cases ri)
    show ?thesis
    proof (cases "is_new rec")
      case False
      then show ?thesis
        using True Inr ri by (simp add: gates_passed [OF True c] store_calls_def c told_fst idem_step_def Let_def)
    next
      case new: True
      show ?thesis
        using True Inr ri new
        by (cases "build_order_payload digest c r conid")
          (simp_all add: gates_passed [OF True c] store_calls_def c told_fst route_store [where e = e]
            idem_step_def [of e "dk_idem s"] Let_def)
    qed
  qed
qed

lemma routed_counts:
  "(if routed e digest c ce r s then 1 else 0)
   \<le> routings e (idempotency_key digest r) (dk_idem s) (store_calls e digest c ce r s)"
proof (cases "routed e digest c ce r s")
  case True
  then show ?thesis by (auto simp: routed_iff store_calls_def Let_def)
qed simp

lemma no_fleet_kept: "dk_fleet s = None \<Longrightarrow> dk_fleet (snd (place_order e digest c ce r s)) = None"
  by (auto simp: place_order_def route_order_def assert_fleet_within_budget_def Let_def
      split: sum.splits prod.splits option.splits)

lemma routings_append:
  "routings e k i (xs @ ys) = routings e k i xs + routings e k (foldl (idem_step e) i xs) ys"
  by (induction xs arbitrary: i) auto

section \<open>Runs of the desk\<close>

text \<open>
  A desk under one environment and configuration: orders are placed and cancelled, and the
  dedup store may be used by others, cleared or reloaded after a restart in between.
\<close>

datatype desk_event = Place call_env order_request | Cancel string | StoreCall "bool \<times> idem_call"

definition desk_step ::
  "env \<Rightarrow> (order_request \<Rightarrow> string) \<Rightarrow> portal_config \<Rightarrow> desk \<Rightarrow> desk_event \<Rightarrow> desk" where
  "desk_step e digest c s ev =
     (case ev of
        Place ce r \<Rightarrow> snd (place_order e digest c ce r s)
      | Cancel k \<Rightarrow> snd (cancel_order k s)
      | StoreCall sc \<Rightarrow> s\<lparr>dk_idem := idem_step e (dk_idem s) sc\<rparr>)"

definition desk_calls ::
  "env \<Rightarrow> (order_request \<Rightarrow> string) \<Rightarrow> portal_config \<Rightarrow> desk \<Rightarrow> desk_event \<Rightarrow> (bool \<times> idem_call) list" where
  "desk_calls e digest c s ev =
     (case ev of Place ce r \<Rightarrow> store_calls e digest c ce r s | Cancel k \<Rightarrow> [] | StoreCall sc \<Rightarrow> [sc])"

fun all_calls ::
  "env \<Rightarrow> (order_request \<Rightarrow> string) \<Rightarrow> portal_config \<Rightarrow> desk \<Rightarrow> desk_event list \<Rightarrow> (bool \<times> idem_call) list" where
  "all_calls e digest c s [] = []"
| "all_calls e digest c s (ev # evs) =
     desk_calls e digest c s ev @ all_calls e digest c (desk_step e digest c s ev) evs"

fun submissions ::
  "env \<Rightarrow> (order_request \<Rightarrow> string) \<Rightarrow> portal_config \<Rightarrow> string \<Rightarrow> desk \<Rightarrow> desk_event list \<Rightarrow> nat" where
  "submissions e digest c k s [] = 0"
| "submissions e digest c k s (ev # evs) =
     (case ev of Place ce r \<Rightarrow> if idempotency_key digest r = k \<and> routed e digest c ce r s then 1 else 0
      | _ \<Rightarrow> 0)
     + submissions e digest c k (desk_step e digest c s ev) evs"

lemma desk_trace: "dk_idem (desk_step e digest c s ev) = foldl (idem_step e) (dk_idem s) (desk_calls e digest c s ev)"
  by (cases ev) (simp_all add: desk_step_def desk_calls_def store_trace cancel_order_def)

lemma submissions_le_routings:
  "submissions e digest c k s evs \<le> routings e k (dk_idem s) (all_calls e digest c s evs)"
proof (induction evs arbitrary: s)
  case (Cons ev evs)
  have "(case ev of Place ce r \<Rightarrow> if idempotency_key digest r = k \<and> routed e digest c ce r s then 1 else 0
      | _ \<Rightarrow> 0) \<le> routings e k (dk_idem s) (desk_calls e digest c s ev)"
  proof (cases ev)
    case (Place ce r)
    then show ?thesis using routed_counts [of e digest c ce r s] by (auto simp: desk_calls_def)
  qed simp_all
  with Cons.IH [of "desk_step e digest c s ev"] show ?case
    by (simp add: routings_append desk_trace)
qed simp

section \<open>What a routed order has passed\<close>

text \<open>The contract of a symbol: the configured one, and for two symbols a default.\<close>

definition contract_known :: "portal_config \<Rightarrow> string \<Rightarrow> int \<Rightarrow> bool" where
  "contract_known c symbol n =
     (case dget (pc_conids c) (ticker_of symbol) of
        Some m \<Rightarrow> n = m
      | None \<Rightarrow> (ticker_of symbol, n) \<in> {(''BTCUSD'', 764777976), (''ETHUSD'', 764777977)})"

lemma conid_known: "conid_for c symbol = Some n \<Longrightarrow> contract_known c symbol n"
  by (auto simp: conid_for_def contract_known_def default_conids_def split: option.splits if_splits)

lemma routed_gates:
  assumes "routed e digest c ce r s"
  shows "\<not> is_truthy_env e ''FIRM_HALTED''" "\<not> is_truthy_env e ''ETA_LIVE_TRADING_DISABLED''"
    "\<forall>g. dk_fleet s = Some g \<and> \<not> fg_disabled g \<longrightarrow> \<not> over_budget e (maybe_rollover (ce_today ce) g)"
    "\<not> flt (resolve_cap e ''mnq'' ''ibkr'' (rq_symbol r)) (fabs (rq_qty r))"
    "pc_venue_type c = ''paper''" "pc_account c \<noteq> []" "pc_require_paper c \<longrightarrow> take 2 (pc_account c) = ''DU''"
proof -
  have g: "passes_gates e c ce r s" using assms by (simp add: routed_iff)
  have q: "fabs (signed_qty r) = fabs (rq_qty r)"
    by (cases "rq_qty r") (simp_all add: signed_qty_def split: order_side.splits)
  show "pc_venue_type c = ''paper''" "pc_account c \<noteq> []" "pc_require_paper c \<longrightarrow> take 2 (pc_account c) = ''DU''"
    using g by (auto simp: passes_gates_def has_credentials_def missing_requirements_def split: if_splits)
  show "\<not> is_truthy_env e ''FIRM_HALTED''" "\<not> is_truthy_env e ''ETA_LIVE_TRADING_DISABLED''"
    using g by (auto simp: passes_gates_def assert_live_allowed_def split: if_splits)
  show "\<forall>g. dk_fleet s = Some g \<and> \<not> fg_disabled g \<longrightarrow> \<not> over_budget e (maybe_rollover (ce_today ce) g)"
    using g by (auto simp: passes_gates_def assert_fleet_within_budget_def require_ok_def Let_def split: if_splits)
  show "\<not> flt (resolve_cap e ''mnq'' ''ibkr'' (rq_symbol r)) (fabs (rq_qty r))"
    using g q by (auto simp: passes_gates_def assert_within_caps_def Let_def split: if_splits)
qed

lemma payload_fields:
  "build_order_payload digest c r n = Inr p \<Longrightarrow>
     dget p ''conid'' = Some (JInt n) \<and> dget p ''acctId'' = Some (JStr (pc_account c))"
  by (auto simp: build_order_payload_def Let_def split: if_splits option.splits)

lemma routed_contract:
  assumes "routed e digest c ce r s"
  shows "\<exists>n p res. contract_known c (rq_symbol r) n
    \<and> fst (place_order e digest c ce r s) = Inr res \<and> dget (or_raw res) ''payload'' = Some (JObj p)
    \<and> dget p ''conid'' = Some (JInt n) \<and> dget p ''acctId'' = Some (JStr (pc_account c))
    \<and> told_to_route e (dk_idem s) (ce_ok1 ce, CheckCall (ce_now ce) (ce_stamp ce)
        (idempotency_key digest r) ''ibkr'' (rq_symbol r) (intent_of r n)) (idempotency_key digest r)"
proof -
  from assms obtain n p where g: "passes_gates e c ce r s" and n: "conid_for c (rq_symbol r) = Some n"
    and p: "build_order_payload digest c r n = Inr p"
    and t: "told_to_route e (dk_idem s) (ce_ok1 ce, CheckCall (ce_now ce) (ce_stamp ce) (idempotency_key digest r)
        ''ibkr'' (rq_symbol r) (intent_of r n)) (idempotency_key digest r)"
    by (auto simp: routed_iff)
  obtain rec i where "check_or_register e (ce_now ce) (ce_stamp ce) (ce_ok1 ce) (idempotency_key digest r) ''ibkr''
      (rq_symbol r) (intent_of r n) (dk_idem s) = Inr (rec, i)" "is_new rec"
    using t by (auto simp: told_fst split: sum.splits)
  then have "\<exists>res. fst (place_order e digest c ce r s) = Inr res \<and> dget (or_raw res) ''payload'' = Some (JObj p)"
    by (simp add: gates_passed [OF g n] route_result p Let_def)
  then show ?thesis using conid_known [OF n] payload_fields [OF p] t by blast
qed

lemma unrouted_book:
  assumes "\<not> routed e digest c ce r s"
  shows "dk_orders (snd (place_order e digest c ce r s)) = dk_orders s"
proof (cases "passes_gates e c ce r s")
  case False
  then show ?thesis using gates_blocked by simp
next
  case True
  then obtain n where n: "conid_for c (rq_symbol r) = Some n" by (auto simp: passes_gates_def)
  show ?thesis using assms True n
    by (auto simp: routed_iff gates_passed [OF True n] told_fst route_order_def Let_def split: sum.splits prod.splits)
qed

section \<open>A pending record\<close>

text \<open>At a check at \<open>now\<close> a pending record stamped \<open>t\<close> is still live.\<close>

definition still_live :: "env \<Rightarrow> pyfloat \<Rightarrow> pyfloat \<Rightarrow> bool" where
  "still_live e t now =
     (\<not> fle t (Fin 0) \<and> \<not> flt (env_float e ''ETA_IDEMPOTENCY_TTL_S'' (Fin 3600)) (fsub now t))"

text \<open>
  The events that leave the pending record of \<open>k\<close> alone: orders and checks of any key while it is
  live, cancels, and results and evictions of other keys.
\<close>

definition leaves_pending :: "env \<Rightarrow> pyfloat \<Rightarrow> string \<Rightarrow> desk_event \<Rightarrow> bool" where
  "leaves_pending e t k ev =
     (case ev of
        Place ce r \<Rightarrow> still_live e t (ce_now ce)
      | Cancel _ \<Rightarrow> True
      | StoreCall (_, CheckCall now _ _ _ _ _) \<Rightarrow> still_live e t now
      | StoreCall (_, ResultCall _ cid _ _ _) \<Rightarrow> cid \<noteq> k
      | StoreCall (_, EvictCall cid) \<Rightarrow> cid \<noteq> k
      | _ \<Rightarrow> False)"

definition own_ids :: "idem_state \<Rightarrow> bool" where
  "own_ids i = (\<forall>k rec. dget (mem i) k = Some rec \<longrightarrow> client_order_id rec = k)"

lemma own_ids_store: "own_ids i \<Longrightarrow> own_ids (store_record ok rec i)"
  by (simp add: own_ids_def)

lemma own_ids_drop: "own_ids i \<Longrightarrow> own_ids (evict_and_rewrite ok k i)"
  by (simp add: own_ids_def)

lemma own_ids_load: "own_ids i \<Longrightarrow> own_ids (i\<lparr>mem := foldl load_line (mem i) ls\<rparr>)"
proof (induction ls arbitrary: i)
  case (Cons l ls)
  have "own_ids (i\<lparr>mem := load_line (mem i) l\<rparr>)"
    using Cons.prems by (auto simp: own_ids_def load_line_def row_to_record_def split: line.split)
  from Cons.IH [OF this] show ?case by simp
qed simp

text \<open>Every operation of the store, restarts included, keeps the records under their own ids.\<close>

lemma own_ids_step:
  assumes "own_ids i"
  shows "own_ids (idem_step e i ev)"
proof -
  obtain ok c where ev: "ev = (ok, c)" by (cases ev)
  show ?thesis
  proof (cases c)
    case (CheckCall now t' k' v y p)
    show ?thesis
      by (cases rule: check_cases [where cid = k' and s = i and e = e and now = now])
        (use assms in \<open>auto simp: ev CheckCall idem_step_def check_outcomes intro!: own_ids_store own_ids_drop\<close>)
  next
    case (ResultCall t' k' st b resp)
    then show ?thesis using assms own_ids_store
      by (auto simp: ev idem_step_def record_result_def Let_def split: sum.splits prod.splits option.splits if_splits)
  next
    case (EvictCall k')
    then show ?thesis using assms own_ids_drop by (simp add: ev idem_step_def evict_def)
  next
    case (ClearCall now rej)
    have own: "own_ids (i\<lparr>mem := foldl (\<lambda>m r. dset (client_order_id r) r m) [] ks, log_file := f\<rparr>)" for ks f
    proof (unfold own_ids_def, intro allI impI)
      fix k r
      assume "dget (mem (i\<lparr>mem := foldl (\<lambda>m r. dset (client_order_id r) r m) [] ks, log_file := f\<rparr>)) k = Some r"
      then show "client_order_id r = k"
        using foldl_dset_id [where f = client_order_id and P = "\<lambda>_. True" and m = "[]" and ks = ks and k = k and r = r] by simp
    qed
    have "own_ids (snd (clear_store e now ok rej i))"
    proof (cases "if persist_on i then log_file i else None")
      case None
      then show ?thesis using assms by (simp only: clear_store_def option.case snd_conv)
    next
      case (Some ls)
      show ?thesis unfolding clear_store_def Some option.case Let_def snd_conv by (rule own)
    qed
    then show ?thesis by (simp only: ev ClearCall idem_step_def prod.case idem_call.case)
  next
    case Restart
    have r: "own_ids (reset_store i)" by (simp add: own_ids_def reset_store_def)
    show ?thesis
    proof (cases "log_file (reset_store i)")
      case None
      then show ?thesis using r by (simp add: ev Restart idem_step_def load_store_from_disk_def)
    next
      case (Some ls)
      then show ?thesis using r own_ids_load [OF r, of ls] by (simp add: ev Restart idem_step_def load_store_from_disk_def)
    qed
  qed
qed

definition pending_at :: "string \<Rightarrow> pyfloat \<Rightarrow> idem_state \<Rightarrow> bool" where
  "pending_at k t i =
     (own_ids i \<and> k \<noteq> [] \<and> (case dget (mem i) k of Some rec \<Rightarrow> ir_status rec = ''pending'' \<and> recorded_at rec = t | None \<Rightarrow> False))"

lemma pending_atE:
  assumes "pending_at k t i"
  obtains rec where "own_ids i" "k \<noteq> []" "dget (mem i) k = Some rec" "ir_status rec = ''pending''" "recorded_at rec = t"
  using assms by (auto simp: pending_at_def split: option.splits)

lemma pending_at_cong:
  "pending_at k t i \<Longrightarrow> own_ids i' \<Longrightarrow> dget (mem i') k = dget (mem i) k \<Longrightarrow> pending_at k t i'"
  by (simp add: pending_at_def)

lemma pending_live:
  assumes "ir_status rec = ''pending''"
  shows "is_expired e now rec = (\<not> still_live e (recorded_at rec) now)"
proof -
  have "lower ''pending'' \<noteq> ''rejected''" by code_simp
  then show ?thesis using assms by (simp add: is_expired_def ttl_for_status_def still_live_def)
qed

definition duplicate_of :: "idem_state \<Rightarrow> string \<Rightarrow> idem_record" where
  "duplicate_of i k =
     (let rec = the (dget (mem i) k)
      in rec\<lparr>is_new := False, ir_note := if ir_note rec = [] then ''duplicate'' else ir_note rec\<rparr>)"

lemma pending_duplicate:
  assumes "pending_at k t i" "still_live e t now"
  shows "check_or_register e now t' ok k v y p i = Inr (duplicate_of i k, i)" "\<not> is_new (duplicate_of i k)"
    "ir_status (duplicate_of i k) = ''pending''"
proof -
  from assms(1) obtain rec where r: "own_ids i" "k \<noteq> []" "dget (mem i) k = Some rec" "ir_status rec = ''pending''" "recorded_at rec = t"
    by (rule pending_atE)
  then have "\<not> is_expired e now rec" using assms(2) pending_live by simp
  with r show "check_or_register e now t' ok k v y p i = Inr (duplicate_of i k, i)" "\<not> is_new (duplicate_of i k)"
    "ir_status (duplicate_of i k) = ''pending''"
    by (simp_all add: check_duplicate duplicate_of_def)
qed

lemma pending_not_told:
  assumes "pending_at k t i" "still_live e t now"
  shows "\<not> told_to_route e i (ok, CheckCall now t' k v y p) k"
  by (simp add: told_fst pending_duplicate [OF assms])

lemma check_keeps_pending:
  assumes "pending_at k t i" "still_live e t now"
  shows "pending_at k t (idem_step e i (ok, CheckCall now t' k' v y p))"
proof (cases "k' = k")
  case True
  then show ?thesis using assms(1) by (simp add: idem_step_def pending_duplicate [OF assms])
next
  case False
  obtain rec where own: "own_ids i" using assms(1) by (rule pending_atE)
  have "dget (mem (idem_step e i (ok, CheckCall now t' k' v y p))) k = dget (mem i) k"
  proof (cases "k' = []")
    case True
    then show ?thesis by (simp add: idem_step_def)
  next
    case ne: False
    have ids: "client_order_id r = k'" if "dget (mem i) k' = Some r" for r using own that by (simp add: own_ids_def)
    show ?thesis
      by (cases rule: check_cases [where cid = k' and s = i and e = e and now = now])
        (use False ne ids in \<open>auto simp: idem_step_def check_outcomes\<close>)
  qed
  then show ?thesis by (rule pending_at_cong [OF assms(1) own_ids_step [OF own]])
qed

lemma result_keeps_pending:
  assumes "pending_at k t i" "k' \<noteq> k"
  shows "pending_at k t (idem_step e i (ok, ResultCall t' k' st b p))" "pending_at k t (idem_step e i (ok, EvictCall k'))"
proof -
  have own: "own_ids i" using assms(1) by (rule pending_atE)
  then have ids: "client_order_id r = k'" if "dget (mem i) k' = Some r" for r using that by (simp add: own_ids_def)
  have "dget (mem (idem_step e i (ok, ResultCall t' k' st b p))) k = dget (mem i) k"
    using assms(2) ids
    by (auto simp: idem_step_def record_result_def Let_def split: sum.splits prod.splits option.splits if_splits)
  then show "pending_at k t (idem_step e i (ok, ResultCall t' k' st b p))"
    by (rule pending_at_cong [OF assms(1) own_ids_step [OF own]])
  have "dget (mem (idem_step e i (ok, EvictCall k'))) k = dget (mem i) k"
    using assms(2) by (auto simp: idem_step_def evict_def split: if_splits)
  then show "pending_at k t (idem_step e i (ok, EvictCall k'))"
    by (rule pending_at_cong [OF assms(1) own_ids_step [OF own]])
qed

lemma desk_keeps_pending:
  assumes "pending_at k t (dk_idem s)" "leaves_pending e t k ev"
  shows "pending_at k t (dk_idem (desk_step e digest c s ev))"
proof (cases ev)
  case (Place ce r)
  then have l: "still_live e t (ce_now ce)" using assms(2) by (simp add: leaves_pending_def)
  have "pending_at k t (foldl (idem_step e) (dk_idem s) (store_calls e digest c ce r s))"
  proof (cases "idempotency_key digest r = k")
    case True
    then show ?thesis using pending_not_told [OF assms(1) l] check_keeps_pending [OF assms(1) l] assms(1)
      by (auto simp: store_calls_def Let_def split: bool.splits option.splits)
  next
    case False
    then show ?thesis using check_keeps_pending [OF assms(1) l] assms(1) result_keeps_pending(1)
      by (auto simp: store_calls_def Let_def split: bool.splits option.splits sum.splits)
  qed
  then show ?thesis using Place by (simp add: desk_step_def store_trace)
next
  case (Cancel i)
  then show ?thesis using assms(1) by (simp add: desk_step_def cancel_order_def)
next
  case (StoreCall sc)
  then show ?thesis using assms check_keeps_pending result_keeps_pending
    by (cases sc; cases "snd sc") (auto simp: desk_step_def leaves_pending_def)
qed

lemma pending_run:
  assumes "pending_at k t (dk_idem s)" "list_all (leaves_pending e t k) evs"
  shows "pending_at k t (dk_idem (foldl (desk_step e digest c) s evs)) \<and> submissions e digest c k s evs = 0"
  using assms
proof (induction evs arbitrary: s)
  case (Cons ev evs)
  have "\<not> (idempotency_key digest r = k \<and> routed e digest c ce r s)" if "ev = Place ce r" for ce r
    using pending_not_told [OF Cons.prems(1), of e "ce_now ce"] Cons.prems(2) that
    by (auto simp: routed_iff leaves_pending_def)
  then show ?case
    using Cons.IH [of "desk_step e digest c s ev"] desk_keeps_pending [OF Cons.prems(1), of e ev digest c] Cons.prems(2)
    by (cases ev) simp_all
qed simp

text \<open>What an order is told whose key is pending.\<close>

lemma answered_duplicate:
  assumes "pending_at (idempotency_key digest r) t (dk_idem s)" "passes_gates e c ce r s" "still_live e t (ce_now ce)"
  shows "\<exists>res. fst (place_order e digest c ce r s) = Inr res \<and> or_status res = Rejected
    \<and> dget (or_raw res) ''deduped'' = Some (JBool True)"
proof -
  obtain n where n: "conid_for c (rq_symbol r) = Some n" using assms(2) by (auto simp: passes_gates_def)
  have "fst (place_order e digest c ce r s) = Inr (deduped (idempotency_key digest r) (duplicate_of (dk_idem s) (idempotency_key digest r)))"
    by (simp add: gates_passed [OF assms(2) n] pending_duplicate [OF assms(1,3)] Let_def)
  then show ?thesis using pending_duplicate(3) [OF assms(1,3)] by (simp add: deduped_def)
qed

section \<open>Properties\<close>

text \<open>
  C4. No double submission: over any run of the desk (orders placed, retried and cancelled, the
  dedup store shared, cleared, restarted, its disk failing or not) the broker gets an order
  with a given key at most once more than the store released that key, and not at all without
  a release when the key was on record at the start.
\<close>

theorem no_double_submission:
  "submissions e digest c k s evs + (if held k (dk_idem s) then 1 else 0)
   \<le> releases e k (dk_idem s) (all_calls e digest c s evs) + 1"
  using submissions_le_routings [of e digest c k s evs]
    routings_bound [of e k "dk_idem s" "all_calls e digest c s evs"] by linarith

text \<open>
  C27. No order gets past the gates: if an order is routed, live trading was allowed, the day's
  loss was within budget, its size was not over the cap of its symbol, the account was ready
  for paper trading, the contract of its symbol is configured (or one of the two default ones) and
  is the contract named in the payload, for that account, and the store had handed its key out for
  routing.  An order that is not routed leaves the book of routed orders as it was.
\<close>

theorem routed_only_past_gates:
  "(routed e digest c ce r s \<longrightarrow>
      \<not> is_truthy_env e ''FIRM_HALTED'' \<and> \<not> is_truthy_env e ''ETA_LIVE_TRADING_DISABLED''
    \<and> (\<forall>g. dk_fleet s = Some g \<and> \<not> fg_disabled g \<longrightarrow> \<not> over_budget e (maybe_rollover (ce_today ce) g))
    \<and> \<not> flt (resolve_cap e ''mnq'' ''ibkr'' (rq_symbol r)) (fabs (rq_qty r))
    \<and> pc_venue_type c = ''paper'' \<and> pc_account c \<noteq> []
    \<and> (pc_require_paper c \<longrightarrow> take 2 (pc_account c) = ''DU'')
    \<and> (\<exists>n p res. contract_known c (rq_symbol r) n
         \<and> fst (place_order e digest c ce r s) = Inr res \<and> dget (or_raw res) ''payload'' = Some (JObj p)
         \<and> dget p ''conid'' = Some (JInt n) \<and> dget p ''acctId'' = Some (JStr (pc_account c))
         \<and> told_to_route e (dk_idem s) (ce_ok1 ce, CheckCall (ce_now ce) (ce_stamp ce)
             (idempotency_key digest r) ''ibkr'' (rq_symbol r) (intent_of r n)) (idempotency_key digest r)))
   \<and> (\<not> routed e digest c ce r s \<longrightarrow> dk_orders (snd (place_order e digest c ce r s)) = dk_orders s)"
  using routed_gates [of e digest c ce r s] routed_contract [of e digest c ce r s] unrouted_book [of e digest c ce r s]
  by blast

definition demo_portal :: portal_config where
  "demo_portal = \<lparr>pc_account = ''DU1'', pc_venue_type = ''paper'', pc_require_paper = True,
                  pc_conids = [], pc_exchange = ''CME''\<rparr>"

definition demo_desk :: desk where
  "demo_desk = \<lparr>dk_idem = \<lparr>mem = [], persist_on = False, log_file = None\<rparr>, dk_fleet = None, dk_orders = []\<rparr>"

definition demo_ce :: call_env where
  "demo_ce = \<lparr>ce_today = 1, ce_now = Fin 100, ce_stamp = Fin 100, ce_done = Fin 101, ce_ok1 = True, ce_ok2 = True\<rparr>"

definition demo_order :: "pyfloat \<Rightarrow> order_request" where
  "demo_order q = \<lparr>rq_symbol = ''BTCUSD'', rq_side = Buy, rq_qty = q, rq_type = Market, rq_price = None,
                   rq_reduce_only = False, rq_client_id = Some ''o1'', rq_stop = None,
                   rq_target = None, rq_bot = None\<rparr>"

lemma bare_env: "\<not> is_truthy_env (\<lambda>_. None) k"
  by (simp add: is_truthy_env_def env_get_def strip_by_def lstrip_by_def rstrip_by_def lower_def)

lemma demo_gates: "flt (Fin 2) (fabs q) = False \<Longrightarrow> passes_gates (\<lambda>_. None) demo_portal demo_ce (demo_order q) demo_desk"
  and demo_conid: "conid_for demo_portal (rq_symbol (demo_order q)) = Some 764777976"
proof -
  have t: "ticker_of ''BTCUSD'' = ''BTCUSD''" by code_simp
  then show c: "conid_for demo_portal (rq_symbol (demo_order q)) = Some 764777976" for q
    by (simp add: conid_for_def demo_portal_def demo_order_def default_conids_def)
  assume "flt (Fin 2) (fabs q) = False"
  then show "passes_gates (\<lambda>_. None) demo_portal demo_ce (demo_order q) demo_desk"
    using c by (simp add: passes_gates_def assert_live_allowed_def bare_env assert_fleet_within_budget_def
        demo_desk_def assert_within_caps_def resolve_cap_def cap_keys_def default_cap_def signed_qty_def
        has_credentials_def missing_requirements_def demo_portal_def default_conids_def demo_order_def Let_def)
qed

theorem routed_only_past_gates_witness:
  "contract_known demo_portal ''BTCUSD'' 764777976
   \<and> \<not> flt (resolve_cap (\<lambda>_. None) ''mnq'' ''ibkr'' ''BTCUSD'') (Fin 1)"
proof -
  have "\<exists>p. build_order_payload rq_symbol demo_portal (demo_order (Fin 1)) 764777976 = Inr p"
    by (simp add: build_order_payload_def demo_order_def ibkr_order_type_def Let_def)
  then have r: "routed (\<lambda>_. None) rq_symbol demo_portal demo_ce (demo_order (Fin 1)) demo_desk"
    unfolding routed_iff using demo_gates [of "Fin 1"] demo_conid [of "Fin 1"]
    by (simp add: told_check demo_desk_def idempotency_key_def demo_order_def)
  from routed_only_past_gates [THEN conjunct1, rule_format, OF this]
  have "\<exists>n. contract_known demo_portal (rq_symbol (demo_order (Fin 1))) n"
    "\<not> flt (resolve_cap (\<lambda>_. None) ''mnq'' ''ibkr'' (rq_symbol (demo_order (Fin 1)))) (fabs (rq_qty (demo_order (Fin 1))))"
    by blast+
  moreover have "ticker_of ''BTCUSD'' = ''BTCUSD''" by code_simp
  ultimately show ?thesis by (auto simp: demo_order_def contract_known_def demo_portal_def)
qed

text \<open>
  C28. An order whose payload is refused poisons its key: when an order with a fresh key (in a store
  that keeps every record under its own id, as all of its operations do) passes the gates and its payload is refused, for whatever reason, the call raises that error, routes nothing and leaves
  a pending record of the key.  From then on, over any run of orders, cancels and checks while that record is live (and
  results and evictions of other keys), no order with that key is routed, and every one that passes the
  gates is answered as a rejected duplicate.
\<close>

theorem refused_payload_poisons_key:
  assumes "passes_gates e c ce r s" "contract_known c (rq_symbol r) n" "build_order_payload digest c r n = Inl x"
    and "k = idempotency_key digest r" "k \<noteq> []" "dget (mem (dk_idem s)) k = None" "own_ids (dk_idem s)"
    and "s1 = snd (place_order e digest c ce r s)"
    and "list_all (leaves_pending e (ce_stamp ce) k) evs" "s2 = foldl (desk_step e digest c) s1 evs"
  shows "fst (place_order e digest c ce r s) = Inl (SubmitPy x) \<and> dk_orders s1 = dk_orders s
    \<and> (\<exists>rec. dget (mem (dk_idem s1)) k = Some rec \<and> ir_status rec = ''pending'')
    \<and> submissions e digest c k s1 evs = 0
    \<and> (\<forall>ce2 r2. idempotency_key digest r2 = k \<and> passes_gates e c ce2 r2 s2 \<and> still_live e (ce_stamp ce) (ce_now ce2) \<longrightarrow>
         (\<exists>res. fst (place_order e digest c ce2 r2 s2) = Inr res \<and> or_status res = Rejected
            \<and> dget (or_raw res) ''deduped'' = Some (JBool True)))"
proof -
  obtain m where "conid_for c (rq_symbol r) = Some m" using assms(1) by (auto simp: passes_gates_def)
  then have c: "conid_for c (rq_symbol r) = Some n"
    using assms(2) by (auto simp: conid_for_def contract_known_def default_conids_def split: option.splits if_splits)
  have run: "fst (place_order e digest c ce r s) = Inl (SubmitPy x)" "dk_orders s1 = dk_orders s"
    "dget (mem (dk_idem s1)) k = Some (pending_record k ''ibkr'' (rq_symbol r) [] (intent_of r n) (ce_stamp ce))"
    using assms(3-6,8) by (simp_all add: gates_passed [OF assms(1) c] check_fresh route_order_def Let_def)
  have "dk_idem s1 = store_record (ce_ok1 ce)
      (pending_record k ''ibkr'' (rq_symbol r) [] (intent_of r n) (ce_stamp ce)) (dk_idem s)"
    using assms(3-6,8) by (simp add: gates_passed [OF assms(1) c] check_fresh route_order_def Let_def)
  then have own: "own_ids (dk_idem s1)" using own_ids_store [OF assms(7)] by simp
  have p: "pending_at k (ce_stamp ce) (dk_idem s1)" using run(3) assms(5) own by (simp add: pending_at_def)
  note later = pending_run [OF p assms(9), of digest c, folded assms(10)]
  have "\<exists>res. fst (place_order e digest c ce2 r2 s2) = Inr res \<and> or_status res = Rejected
      \<and> dget (or_raw res) ''deduped'' = Some (JBool True)"
    if "idempotency_key digest r2 = k" "passes_gates e c ce2 r2 s2" "still_live e (ce_stamp ce) (ce_now ce2)" for ce2 r2
    using answered_duplicate [OF _ that(2,3)] later that(1) by simp
  then show ?thesis using run later by simp
qed

theorem refused_payload_poisons_key_witness:
  "fst (place_order (\<lambda>_. None) rq_symbol demo_portal demo_ce (demo_order (Fin (1 / 2))) demo_desk)
     = Inl (SubmitPy ValueError)
   \<and> submissions (\<lambda>_. None) rq_symbol demo_portal ''o1''
       (snd (place_order (\<lambda>_. None) rq_symbol demo_portal demo_ce (demo_order (Fin (1 / 2))) demo_desk))
       [Place demo_ce (demo_order (Fin 1)), Cancel ''o1'', Place demo_ce (demo_order (Fin 1))] = 0"
proof -
  let ?r = "demo_order (Fin (1 / 2))"
  have g: "passes_gates (\<lambda>_. None) demo_portal demo_ce ?r demo_desk" by (rule demo_gates) simp
  have t: "ticker_of ''BTCUSD'' = ''BTCUSD''" by code_simp
  have ttl: "env_float (\<lambda>_. None) ''ETA_IDEMPOTENCY_TTL_S'' (Fin 3600) = Fin 3600"
    by (simp add: env_float_def env_get_def strip_by_def lstrip_by_def rstrip_by_def)
  have n: "contract_known demo_portal (rq_symbol ?r) 764777976"
    by (simp add: contract_known_def demo_portal_def demo_order_def t)
  have x: "build_order_payload rq_symbol demo_portal ?r 764777976 = Inl ValueError"
    by (simp add: build_order_payload_def demo_order_def)
  have k: "''o1'' = idempotency_key rq_symbol ?r" "''o1'' \<noteq> []" "dget (mem (dk_idem demo_desk)) ''o1'' = None"
    "own_ids (dk_idem demo_desk)"
    by (simp_all add: own_ids_def idempotency_key_def demo_order_def demo_desk_def)
  have l: "list_all (leaves_pending (\<lambda>_. None) (ce_stamp demo_ce) ''o1'')
      [Place demo_ce (demo_order (Fin 1)), Cancel ''o1'', Place demo_ce (demo_order (Fin 1))]"
    by (simp add: leaves_pending_def still_live_def demo_ce_def ttl)
  show ?thesis using refused_payload_poisons_key [OF g n x k refl l refl] by blast
qed

end
