(* ===== verification/Calendar.thy ===== *)
theory Calendar
  imports Prelude
begin

text \<open>
  Dates of the standard library, as far as the trading calendar uses them: the proleptic
  Gregorian calendar with its ordinals and weekdays, and \<open>date.fromisoformat\<close> and
  \<open>isoformat\<close>.  The Chicago clock and the Easter date come from packages and are arguments.
  Then the session calendar of \<open>core/consistency_guard.py\<close>: which trading day an instant belongs to, the exchange
  holidays, and the next trading day.
\<close>

section \<open>Dates\<close>

record date =
  year :: int
  month :: int
  day :: int

definition is_leap :: "int \<Rightarrow> bool" where
  "is_leap y = (y mod 4 = 0 \<and> (y mod 100 \<noteq> 0 \<or> y mod 400 = 0))"

definition days_in_month :: "int \<Rightarrow> int \<Rightarrow> int" where
  "days_in_month y m =
     (if m = 2 then (if is_leap y then 29 else 28) else if m \<in> {4, 6, 9, 11} then 30 else 31)"

definition valid_date :: "date \<Rightarrow> bool" where
  "valid_date d =
     (1 \<le> year d \<and> year d \<le> 9999 \<and> 1 \<le> month d \<and> month d \<le> 12
      \<and> 1 \<le> day d \<and> day d \<le> days_in_month (year d) (month d))"

definition days_before_year :: "int \<Rightarrow> int" where
  "days_before_year y = (y - 1) * 365 + (y - 1) div 4 - (y - 1) div 100 + (y - 1) div 400"

definition days_before_month :: "int \<Rightarrow> int \<Rightarrow> int" where
  "days_before_month y m = sum_list (map (days_in_month y) [1..m - 1])"

definition toordinal :: "date \<Rightarrow> int" where
  "toordinal d = days_before_year (year d) + days_before_month (year d) (month d) + day d"

text \<open>Monday is 0.\<close>

definition weekday :: "date \<Rightarrow> int" where
  "weekday d = (toordinal d + 6) mod 7"

text \<open>\<open>d + timedelta(days=1)\<close>, which raises after the last year.\<close>

definition next_day :: "date \<Rightarrow> pyexc + date" where
  "next_day d =
     (if day d < days_in_month (year d) (month d) then Inr (d\<lparr>day := day d + 1\<rparr>)
      else if month d < 12 then Inr (d\<lparr>month := month d + 1, day := 1\<rparr>)
      else if year d < 9999 then Inr \<lparr>year = year d + 1, month = 1, day = 1\<rparr>
      else Inl OverflowError)"

definition prev_day :: "date \<Rightarrow> pyexc + date" where
  "prev_day d =
     (if 1 < day d then Inr (d\<lparr>day := day d - 1\<rparr>)
      else if 1 < month d then Inr (d\<lparr>month := month d - 1, day := days_in_month (year d) (month d - 1)\<rparr>)
      else if 1 < year d then Inr \<lparr>year = year d - 1, month = 12, day = 31\<rparr>
      else Inl OverflowError)"

section \<open>Lemmas on dates\<close>

lemma days_before_month_1: "days_before_month y 1 = 0"
  by (simp add: days_before_month_def)

lemma days_before_month_succ:
  "1 \<le> m \<Longrightarrow> days_before_month y (m + 1) = days_before_month y m + days_in_month y m"
  by (simp add: days_before_month_def upto_rec2)

lemma year_length: "days_before_month y 12 + 31 = (if is_leap y then 366 else 365)"
proof -
  have "[1..11] = [1, 2, 3, 4, 5, 6, 7, 8, 9, 10, 11 :: int]" by (simp add: upto_rec1)
  then show ?thesis by (simp add: days_before_month_def days_in_month_def)
qed

lemma div_succ:
  fixes x k :: int assumes "0 < k"
  shows "(x + 1) div k = x div k + (if (x + 1) mod k = 0 then 1 else 0)"
proof (cases "x mod k = k - 1")
  case True
  then have "x + 1 = x div k * k + k" using div_mult_mod_eq [of x k] by linarith
  then have "x + 1 = (x div k + 1) * k" by (simp add: distrib_right)
  then show ?thesis using assms by simp
next
  case False
  have b: "0 \<le> x mod k + 1" "x mod k + 1 < k"
    using assms False pos_mod_sign [of k x] pos_mod_bound [of k x] by linarith+
  have e: "x + 1 = (x mod k + 1) + x div k * k" using div_mult_mod_eq [of x k] by linarith
  have "(x + 1) mod k = x mod k + 1" by (subst e) (simp only: mod_mult_self1 mod_pos_pos_trivial [OF b])
  moreover have "(x + 1) div k = x div k"
    by (subst e, subst div_mult_self1) (use assms in simp, simp only: div_pos_pos_trivial [OF b] add_0_right)
  moreover have "x mod k + 1 \<noteq> 0" using pos_mod_sign [of k x] assms by linarith
  ultimately show ?thesis by simp
qed

lemma days_before_year_succ:
  "days_before_year (y + 1) = days_before_year y + (if is_leap y then 366 else 365)"
proof -
  have d: "y div 4 = (y - 1) div 4 + (if y mod 4 = 0 then 1 else 0)"
    "y div 100 = (y - 1) div 100 + (if y mod 100 = 0 then 1 else 0)"
    "y div 400 = (y - 1) div 400 + (if y mod 400 = 0 then 1 else 0)"
    using div_succ [of _ "y - 1"] by simp_all
  have gen: "y * 365 + (a + p) - (b + q) + (c + r) = (y - 1) * 365 + a - b + c + 365 + p - q + r"
    for a b c p q r :: int by simp
  have leap: "K + 365 + (if p then 1 else 0) - (if q then 1 else 0) + (if r then 1 else 0)
      = K + (if p \<and> (\<not> q \<or> r) then 366 else (365 :: int))"
    if "r \<Longrightarrow> q" "q \<Longrightarrow> p" for K p q r using that by (cases p; cases q; cases r) simp_all
  have m: "y mod 400 = 0 \<Longrightarrow> y mod 100 = 0" "y mod 100 = 0 \<Longrightarrow> y mod 4 = 0"
    using dvd_trans [of 100 400 y] dvd_trans [of 4 100 y] by (auto simp: mod_eq_0_iff_dvd)
  have "days_before_year (y + 1) = y * 365 + y div 4 - y div 100 + y div 400"
    by (simp add: days_before_year_def)
  also have "\<dots> = days_before_year y + 365 + (if y mod 4 = 0 then 1 else 0)
      - (if y mod 100 = 0 then 1 else 0) + (if y mod 400 = 0 then 1 else 0)"
    unfolding days_before_year_def d by (rule gen)
  also have "\<dots> = days_before_year y + (if is_leap y then 366 else 365)"
    unfolding is_leap_def by (rule leap) (rule m, assumption)+
  finally show ?thesis .
qed

lemma next_day_cases:
  assumes "valid_date d" "next_day d = Inr d'"
  obtains (day) "d' = d\<lparr>day := day d + 1\<rparr>" "day d < days_in_month (year d) (month d)"
  | (month) "d' = d\<lparr>month := month d + 1, day := 1\<rparr>" "month d < 12"
      "day d = days_in_month (year d) (month d)"
  | (year) "d' = \<lparr>year = year d + 1, month = 1, day = 1\<rparr>" "month d = 12" "day d = 31" "year d < 9999"
proof -
  have "day d \<le> days_in_month (year d) (month d)" "month d \<le> 12" using assms(1) by (simp_all add: valid_date_def)
  then consider "day d < days_in_month (year d) (month d)"
    | "day d = days_in_month (year d) (month d)" "month d < 12"
    | "day d = days_in_month (year d) (month d)" "month d = 12" by linarith
  then show ?thesis
  proof cases
    case 1
    with assms(2) show ?thesis by (intro day) (simp_all add: next_day_def)
  next
    case 2
    with assms(2) show ?thesis by (intro month) (simp_all add: next_day_def)
  next
    case 3
    then have "day d = 31" by (simp add: days_in_month_def)
    with 3 assms(2) show ?thesis by (intro year) (simp_all add: next_day_def split: if_splits)
  qed
qed

lemma next_day_ordinal:
  assumes "valid_date d" "next_day d = Inr d'"
  shows "toordinal d' = toordinal d + 1"
  using assms
proof (cases rule: next_day_cases)
  case day
  then show ?thesis by (simp add: toordinal_def)
next
  case month
  have "1 \<le> month d" using assms(1) by (simp add: valid_date_def)
  with month days_before_month_succ [of "month d" "year d"] show ?thesis by (simp add: toordinal_def)
next
  case year
  have "toordinal d' = days_before_year (year d + 1) + 1"
    by (simp add: year(1) toordinal_def days_before_month_1)
  moreover have "toordinal d = days_before_year (year d) + days_before_month (year d) 12 + 31"
    by (simp add: year(2,3) toordinal_def)
  ultimately show ?thesis
    using days_before_year_succ [of "year d"] year_length [of "year d"] by linarith
qed

lemma next_day_valid:
  assumes "valid_date d" "next_day d = Inr d'"
  shows "valid_date d'"
  using assms
proof (cases rule: next_day_cases)
  case month
  have "1 \<le> days_in_month (year d) (month d + 1)" by (simp add: days_in_month_def)
  with month assms(1) show ?thesis by (simp add: valid_date_def)
next
  case year
  with assms(1) show ?thesis by (simp add: valid_date_def days_in_month_def)
qed (use assms(1) in \<open>simp add: valid_date_def\<close>)

lemma next_day_weekday: "valid_date d \<Longrightarrow> next_day d = Inr d' \<Longrightarrow> weekday d' = (weekday d + 1) mod 7"
  using next_day_ordinal [of d d'] by (simp add: weekday_def mod_simps algebra_simps)

section \<open>ISO strings\<close>

definition digit_char :: "int \<Rightarrow> char" where
  "digit_char n = char_of (48 + nat n)"

definition two_digits :: "int \<Rightarrow> string" where
  "two_digits n = [digit_char (n div 10), digit_char (n mod 10)]"

definition isoformat :: "date \<Rightarrow> string" where
  "isoformat d = two_digits (year d div 100) @ two_digits (year d mod 100) @ ''-''
     @ two_digits (month d) @ ''-'' @ two_digits (day d)"

definition digits_opt :: "string \<Rightarrow> int option" where
  "digits_opt s = (if s \<noteq> [] \<and> list_all is_digit s then Some (digits_value s) else None)"

definition slice :: "nat \<Rightarrow> nat \<Rightarrow> string \<Rightarrow> string" where
  "slice i n s = take n (drop i s)"

text \<open>The Monday of ISO week 1, as an ordinal, and a date from an ordinal by walking the year.\<close>

definition iso_week1_monday :: "int \<Rightarrow> int" where
  "iso_week1_monday y =
     (let first = days_before_year y + 1; wd = (first + 6) mod 7; monday = first - wd
      in if 3 < wd then monday + 7 else monday)"

definition long_iso_year :: "int \<Rightarrow> bool" where
  "long_iso_year y =
     (let wd = (days_before_year y + 1) mod 7 in wd = 4 \<or> wd = 3 \<and> is_leap y)"

definition week_ordinal :: "int \<Rightarrow> int \<Rightarrow> int \<Rightarrow> int option" where
  "week_ordinal y w d =
     (if 1 \<le> y \<and> y \<le> 9999 \<and> (1 \<le> w \<and> w < 53 \<or> w = 53 \<and> long_iso_year y) \<and> 1 \<le> d \<and> d \<le> 7
      then Some (iso_week1_monday y + (w - 1) * 7 + (d - 1)) else None)"

text \<open>\<open>date.fromisoformat(s)\<close> succeeds: the calendar form, or the week form.\<close>

definition is_iso_week :: "string \<Rightarrow> nat \<Rightarrow> bool \<Rightarrow> int \<Rightarrow> bool" where
  "is_iso_week s pos sep y =
     (case digits_opt (slice (pos + 1) 2 s) of
        None \<Rightarrow> False
      | Some w \<Rightarrow>
          if length s \<noteq> pos + 3 \<and> (slice (pos + 3) 1 s = ''-'') \<noteq> sep then False
          else
            let rest = drop (pos + 3 + (if sep then 1 else 0)) s
            in if length s = pos + 3 \<or> length rest = 1 then
                 (case (if length s = pos + 3 then Some 1 else digits_opt rest) of
                    None \<Rightarrow> False
                  | Some d \<Rightarrow>
                      (case week_ordinal y w d of
                         None \<Rightarrow> False | Some n \<Rightarrow> 1 \<le> n \<and> n \<le> days_before_year 10000))
               else False)"

definition parse_iso_calendar :: "string \<Rightarrow> date option" where
  "parse_iso_calendar s =
     (let sep = (slice 4 1 s = ''-''); pos = (if sep then 5 else 4); pos2 = (if sep then 8 else 6)
      in if length s \<noteq> (if sep then 10 else 8) \<or> (sep \<and> slice 7 1 s \<noteq> ''-'') then None
         else case (digits_opt (slice 0 4 s), digits_opt (slice pos 2 s), digits_opt (slice pos2 2 s)) of
                (Some y, Some m, Some d) \<Rightarrow>
                  let x = \<lparr>year = y, month = m, day = d\<rparr> in if valid_date x then Some x else None
              | _ \<Rightarrow> None)"

definition is_iso_date :: "string \<Rightarrow> bool" where
  "is_iso_date s =
     (let sep = (slice 4 1 s = ''-''); pos = (if sep then 5 else 4)
      in length s \<in> {7, 8, 10}
         \<and> (if slice pos 1 s = ''W''
            then (case digits_opt (slice 0 4 s) of None \<Rightarrow> False | Some y \<Rightarrow> is_iso_week s pos sep y)
            else parse_iso_calendar s \<noteq> None))"

lemma digit_char [simp]:
  assumes "0 \<le> n" "n \<le> 9"
  shows "is_digit (digit_char n)" "code_of (digit_char n) = 48 + nat n"
proof -
  have "(48 + nat n) mod 256 = 48 + nat n" using assms by (intro mod_less) linarith
  then show "code_of (digit_char n) = 48 + nat n" by (simp add: code_of_def digit_char_def of_char_of)
  then show "is_digit (digit_char n)" using assms by (simp add: is_digit_def)
qed

lemma digit_bounds:
  assumes "0 \<le> x" "x \<le> 99"
  shows "0 \<le> x div 10" "x div 10 \<le> 9" "0 \<le> x mod 10" "x mod 10 \<le> (9 :: int)"
  using assms mult_div_mod_eq [of 10 x] pos_mod_sign [of 10 x] pos_mod_bound [of 10 x] by linarith+

lemma two_digits_value: "0 \<le> n \<Longrightarrow> n \<le> 99 \<Longrightarrow>
   foldl (\<lambda>n c. 10 * n + int (code_of c - 48)) a (two_digits n) = 100 * a + n"
  using digit_bounds [of n] mult_div_mod_eq [of 10 n] by (simp add: two_digits_def)

lemma two_digits_digits: "0 \<le> n \<Longrightarrow> n \<le> 99 \<Longrightarrow> list_all is_digit (two_digits n)"
  using digit_bounds [of n] by (simp add: two_digits_def)

lemma two_digits_parse: "0 \<le> n \<Longrightarrow> n \<le> 99 \<Longrightarrow> digits_opt (two_digits n) = Some n"
  using two_digits_value [of n 0] two_digits_digits [of n]
  by (auto simp: digits_opt_def digits_value_def two_digits_def)

lemma four_digits_parse:
  assumes "0 \<le> n" "n \<le> 9999"
  shows "digits_opt (two_digits (n div 100) @ two_digits (n mod 100)) = Some n"
proof -
  have h: "0 \<le> n div 100" "n div 100 \<le> 99" "0 \<le> n mod 100" "n mod 100 \<le> 99"
    using assms mult_div_mod_eq [of 100 n] pos_mod_sign [of 100 n] pos_mod_bound [of 100 n] by linarith+
  have A: "digits_value (two_digits (n div 100)) = n div 100"
    unfolding digits_value_def using two_digits_value [OF h(1,2), of 0] by (simp only: mult_zero_right add_0)
  have "digits_value (two_digits (n div 100) @ two_digits (n mod 100))
      = foldl (\<lambda>n c. 10 * n + int (code_of c - 48)) (digits_value (two_digits (n div 100))) (two_digits (n mod 100))"
    by (simp only: digits_value_def foldl_append)
  also have "\<dots> = 100 * (n div 100) + n mod 100"
    unfolding A by (rule two_digits_value [OF h(3,4)])
  also have "\<dots> = n" by (rule mult_div_mod_eq)
  finally have v: "digits_value (two_digits (n div 100) @ two_digits (n mod 100)) = n" .
  have "two_digits (n div 100) @ two_digits (n mod 100) \<noteq> []" by (simp add: two_digits_def)
  then show ?thesis
    using two_digits_digits [OF h(1,2)] two_digits_digits [OF h(3,4)]
    by (simp only: digits_opt_def v list_all_append simp_thms if_True not_False_eq_True)
qed

lemma not_digits: "\<not> is_digit CHR ''-''" "\<not> is_digit CHR ''W''"
  by code_simp+

lemma digit_char_not [simp]: "0 \<le> n \<Longrightarrow> n \<le> 9 \<Longrightarrow> digit_char n \<noteq> CHR ''-''"
  "0 \<le> n \<Longrightarrow> n \<le> 9 \<Longrightarrow> digit_char n \<noteq> CHR ''W''"
  by (rule notI, drule arg_cong [where f = is_digit], simp add: not_digits)+

lemma two_digits_len [simp]: "length (two_digits n) = 2"
  by (simp add: two_digits_def)

lemma parse_isoformat:
  assumes "valid_date d"
  shows "parse_iso_calendar (isoformat d) = Some d"
proof -
  have y: "0 \<le> year d" "year d \<le> 9999" and m: "0 \<le> month d" "month d \<le> 99"
    and dd: "0 \<le> day d" "day d \<le> 99"
    using assms by (auto simp: valid_date_def days_in_month_def split: if_splits)
  let ?s = "isoformat d"
  have parts: "slice 0 4 ?s = two_digits (year d div 100) @ two_digits (year d mod 100)"
    "slice 4 1 ?s = ''-''" "slice 5 2 ?s = two_digits (month d)" "slice 7 1 ?s = ''-''"
    "slice 8 2 ?s = two_digits (day d)" "length ?s = 10"
    by (simp_all add: slice_def isoformat_def two_digits_def)
  have d: "\<lparr>year = year d, month = month d, day = day d\<rparr> = d" by simp
  show ?thesis
    using four_digits_parse [OF y] two_digits_parse [OF m] two_digits_parse [OF dd] assms
    by (simp add: parse_iso_calendar_def parts d Let_def del: One_nat_def)
qed

lemma isoformat_is_iso: "valid_date d \<Longrightarrow> is_iso_date (isoformat d)"
proof -
  assume v: "valid_date d"
  have "0 \<le> month d div 10" "month d div 10 \<le> 9" using v by (auto simp: valid_date_def)
  then have "slice 5 1 (isoformat d) \<noteq> ''W''" by (simp add: slice_def isoformat_def two_digits_def)
  moreover have "slice 4 1 (isoformat d) = ''-''" "length (isoformat d) = 10"
    by (simp_all add: slice_def isoformat_def two_digits_def)
  ultimately show ?thesis using parse_isoformat [OF v]
    by (simp add: is_iso_date_def Let_def del: One_nat_def)
qed

section \<open>The session calendar\<close>

text \<open>
  A clock reading is a date and an hour.  \<open>chicago\<close> is the reading on the exchange's clock, None
  when the time zone database is missing; the fallback then uses the UTC reading.
\<close>

definition trading_day :: "(date \<times> int) option \<Rightarrow> date \<times> int \<Rightarrow> pyexc + date" where
  "trading_day chicago utc =
     (case chicago of
        Some (d, h) \<Rightarrow> if 17 \<le> h then next_day d else Inr d
      | None \<Rightarrow> (case utc of (d, h) \<Rightarrow> if 23 \<le> h then next_day d else Inr d))"

definition trading_day_iso :: "(date \<times> int) option \<Rightarrow> date \<times> int \<Rightarrow> pyexc + string" where
  "trading_day_iso chicago utc = rbind (trading_day chicago utc) (\<lambda>d. Inr (isoformat d))"

definition fixed_closures :: "(int \<times> int) list" where
  "fixed_closures = [(1, 1), (6, 19), (7, 4), (12, 25)]"

text \<open>\<open>easter\<close> is the package's function, None when it is not installed.\<close>

definition is_cme_holiday :: "(int \<Rightarrow> date) option \<Rightarrow> date \<Rightarrow> bool" where
  "is_cme_holiday easter d =
     (List.member fixed_closures (month d, day d)
      \<or> month d = 1 \<and> weekday d = 0 \<and> 15 \<le> day d \<and> day d \<le> 21
      \<or> month d = 2 \<and> weekday d = 0 \<and> 15 \<le> day d \<and> day d \<le> 21
      \<or> month d = 5 \<and> weekday d = 0 \<and> 25 \<le> day d
      \<or> month d = 9 \<and> weekday d = 0 \<and> day d \<le> 7
      \<or> month d = 11 \<and> weekday d = 3 \<and> 22 \<le> day d \<and> day d \<le> 28
      \<or> (case easter of None \<Rightarrow> False
         | Some f \<Rightarrow> rbind (prev_day (f (year d))) prev_day = Inr d))"

definition is_trading_day :: "(int \<Rightarrow> date) option \<Rightarrow> date \<Rightarrow> bool" where
  "is_trading_day easter d = (weekday d < 5 \<and> \<not> is_cme_holiday easter d)"

text \<open>
  The loop of \<open>_next_trading_day\<close> ends on a trading day, or raises when the calendar ends.
  Dates are valid by construction in the source; the loop is not entered on any other value.
\<close>

function next_trading_day :: "(int \<Rightarrow> date) option \<Rightarrow> date \<Rightarrow> pyexc + date" where
  "next_trading_day easter d =
     (if \<not> valid_date d \<or> is_trading_day easter d then Inr d
      else case next_day d of Inl x \<Rightarrow> Inl x | Inr d' \<Rightarrow> next_trading_day easter d')"
  by pat_completeness auto
termination
proof (relation "measures [\<lambda>(_, d). nat (9999 - year d), \<lambda>(_, d). nat (12 - month d), \<lambda>(_, d). nat (31 - day d)]")
  fix easter d d'
  assume "\<not> (\<not> valid_date d \<or> is_trading_day easter d)" "next_day d = Inr d'"
  then have "valid_date d" "next_day d = Inr d'" by simp_all
  moreover have "days_in_month (year d) (month d) \<le> 31" by (simp add: days_in_month_def)
  ultimately show "((easter, d'), (easter, d)) \<in> measures [\<lambda>(_, d). nat (9999 - year d),
      \<lambda>(_, d). nat (12 - month d), \<lambda>(_, d). nat (31 - day d)]"
    by (cases rule: next_day_cases) simp_all
qed simp

declare next_trading_day.simps [simp del]

definition cme_trading_day_iso ::
  "(int \<Rightarrow> date) option \<Rightarrow> (date \<times> int) option \<Rightarrow> date \<times> int \<Rightarrow> pyexc + string" where
  "cme_trading_day_iso easter chicago utc =
     rbind (trading_day_iso chicago utc) (\<lambda>s.
       case parse_iso_calendar s of
         None \<Rightarrow> Inl ValueError
       | Some base \<Rightarrow>
           if is_trading_day easter base then Inr s
           else rbind (next_trading_day easter base) (\<lambda>d. Inr (isoformat d)))"

section \<open>Lemmas on the session calendar\<close>

lemma prev_next:
  assumes "valid_date d" "prev_day d = Inr d'"
  shows "valid_date d' \<and> next_day d' = Inr d"
proof -
  have b: "1 \<le> month d" "month d \<le> 12" "1 \<le> day d" "day d \<le> days_in_month (year d) (month d)" "year d \<le> 9999"
    using assms(1) by (simp_all add: valid_date_def)
  have l: "1 \<le> days_in_month y m" for y m by (simp add: days_in_month_def)
  consider (day) "1 < day d" | (month) "day d = 1" "1 < month d" | (year) "day d = 1" "month d = 1" "1 < year d"
    | (none) "day d = 1" "month d = 1" "\<not> 1 < year d" using b by linarith
  then show ?thesis
  proof cases
    case day
    then have "d' = d\<lparr>day := day d - 1\<rparr>" using assms(2) by (simp add: prev_day_def)
    with day b assms(1) show ?thesis by (simp add: valid_date_def next_day_def)
  next
    case month
    then have "d' = d\<lparr>month := month d - 1, day := days_in_month (year d) (month d - 1)\<rparr>"
      using assms(2) by (simp add: prev_day_def)
    with month b assms(1) l [of "year d" "month d - 1"] show ?thesis by (simp add: valid_date_def next_day_def)
  next
    case year
    then have "d' = \<lparr>year = year d - 1, month = 12, day = 31\<rparr>" using assms(2) by (simp add: prev_day_def)
    with year b assms(1) show ?thesis by (simp add: valid_date_def next_day_def days_in_month_def)
  next
    case none
    with assms(2) show ?thesis by (simp add: prev_day_def)
  qed
qed

text \<open>Easter is a Sunday, so Good Friday is a Friday.\<close>

definition easter_ok :: "(int \<Rightarrow> date) option \<Rightarrow> bool" where
  "easter_ok easter \<longleftrightarrow>
     (case easter of None \<Rightarrow> True | Some f \<Rightarrow> \<forall>y. valid_date (f y) \<and> weekday (f y) = 6)"

lemma good_friday:
  assumes "easter_ok (Some f)" "rbind (prev_day (f y)) prev_day = Inr d"
  shows "weekday d = 4"
proof -
  have v: "valid_date (f y)" "weekday (f y) = 6" using assms(1) by (simp_all add: easter_ok_def)
  obtain d1 where d1: "prev_day (f y) = Inr d1" "prev_day d1 = Inr d" using assms(2) by auto
  have "weekday (f y) = (weekday d1 + 1) mod 7" "weekday d1 = (weekday d + 1) mod 7"
    using prev_next [OF v(1) d1(1)] prev_next [OF _ d1(2)] next_day_weekday by blast+
  moreover have "0 \<le> weekday d" "weekday d < 7" by (simp_all add: weekday_def)
  ultimately show ?thesis using v(2) by presburger
qed

lemma midweek_closed_fixed:
  assumes "easter_ok easter" "weekday d \<in> {1, 2}" "\<not> is_trading_day easter d"
  shows "(month d, day d) \<in> set fixed_closures"
proof -
  have "\<not> (case easter of None \<Rightarrow> False | Some f \<Rightarrow> rbind (prev_day (f (year d))) prev_day = Inr d)"
  proof (cases easter)
    case (Some f)
    then show ?thesis using good_friday [of f "year d" d] assms(1,2) by (auto simp del: rbind_Inr_iff)
  qed simp
  with assms(2,3) show ?thesis by (auto simp: is_trading_day_def is_cme_holiday_def)
qed

lemma after_fixed_closure:
  assumes "valid_date d" "next_day d = Inr d'" "(month d, day d) \<in> set fixed_closures"
  shows "(month d', day d') \<notin> set fixed_closures"
  using assms(1,2)
proof (cases rule: next_day_cases)
  case day
  with assms(3) show ?thesis by (auto simp: fixed_closures_def)
next
  case month
  with assms(3) show ?thesis by (auto simp: fixed_closures_def days_in_month_def split: if_splits)
next
  case year
  with assms(3) show ?thesis by (auto simp: fixed_closures_def)
qed

fun advance :: "nat \<Rightarrow> date \<Rightarrow> pyexc + date" where
  "advance 0 d = Inr d"
| "advance (Suc n) d = rbind (next_day d) (advance n)"

lemma advance_ordinal:
  "valid_date d \<Longrightarrow> advance n d = Inr t \<Longrightarrow> valid_date t \<and> toordinal t = toordinal d + int n"
proof (induction n arbitrary: d)
  case (Suc n)
  then obtain d1 where d1: "next_day d = Inr d1" "advance n d1 = Inr t" by auto
  have "valid_date d1" using next_day_valid Suc.prems(1) d1(1) .
  with Suc.IH d1(2) next_day_ordinal [OF Suc.prems(1) d1(1)] show ?case by simp
qed simp

lemma advance_facts:
  assumes "valid_date d" "advance n d = Inr t"
  shows "valid_date t \<and> toordinal t = toordinal d + int n \<and> weekday t = (weekday d + int n) mod 7"
proof -
  have t: "valid_date t" "toordinal t = toordinal d + int n" using advance_ordinal [OF assms] by simp_all
  have "(toordinal d + int n + 6) mod 7 = ((toordinal d + 6) + int n) mod 7" by (simp add: ac_simps)
  then show ?thesis using t by (simp only: weekday_def mod_add_left_eq)
qed

lemma next_day_ok: "valid_date d \<Longrightarrow> \<not> (year d = 9999 \<and> month d = 12) \<Longrightarrow> \<exists>d'. next_day d = Inr d'"
  by (auto simp: next_day_def valid_date_def)

lemma advance_ok:
  "valid_date d \<Longrightarrow> year d < 9999 \<or> month d = 1 \<and> day d + int n \<le> 31 \<Longrightarrow> n \<le> 20 \<Longrightarrow>
   \<exists>t. advance n d = Inr t"
proof (induction n arbitrary: d)
  case (Suc n)
  then obtain d' where d': "next_day d = Inr d'" using next_day_ok [of d] by (auto simp: valid_date_def)
  have v: "valid_date d'" using next_day_valid Suc.prems(1) d' .
  have "year d' < 9999 \<or> month d' = 1 \<and> day d' + int n \<le> 31"
    using Suc.prems(1) d'
  proof (cases rule: next_day_cases)
    case day
    with Suc.prems show ?thesis by auto
  next
    case month
    with Suc.prems show ?thesis by (auto simp: days_in_month_def)
  next
    case year
    with Suc.prems show ?thesis by auto
  qed
  with Suc.IH [OF v] Suc.prems(3) d' show ?case by simp
qed simp

lemma next_trading_found:
  "valid_date d \<Longrightarrow> advance n d = Inr t \<Longrightarrow> is_trading_day easter t \<Longrightarrow>
   \<exists>r k. next_trading_day easter d = Inr r \<and> advance k d = Inr r \<and> k \<le> n \<and> is_trading_day easter r
     \<and> (\<forall>j u. j < k \<and> advance j d = Inr u \<longrightarrow> \<not> is_trading_day easter u)"
proof (induction n arbitrary: d)
  case 0
  then have "next_trading_day easter d = Inr d" by (simp add: next_trading_day.simps)
  with 0 show ?case by (intro exI [of _ d] exI [of _ 0]) simp
next
  case (Suc n)
  show ?case
  proof (cases "is_trading_day easter d")
    case True
    then have "next_trading_day easter d = Inr d" by (simp add: next_trading_day.simps)
    with True show ?thesis by (intro exI [of _ d] exI [of _ 0]) simp
  next
    case False
    obtain d1 where d1: "next_day d = Inr d1" "advance n d1 = Inr t" using Suc.prems(2) by auto
    obtain r k where r: "next_trading_day easter d1 = Inr r" "advance k d1 = Inr r" "k \<le> n"
      "is_trading_day easter r" "\<And>j u. j < k \<Longrightarrow> advance j d1 = Inr u \<Longrightarrow> \<not> is_trading_day easter u"
      using Suc.IH [OF next_day_valid [OF Suc.prems(1) d1(1)] d1(2) Suc.prems(3)] by blast
    have "next_trading_day easter d = Inr r"
      using False Suc.prems(1) d1(1) r(1) by (simp add: next_trading_day.simps [of _ d])
    moreover have "\<not> is_trading_day easter u" if "j < Suc k" "advance j d = Inr u" for j u
      using that False r(5) d1(1) by (cases j) auto
    ultimately show ?thesis
      using r d1(1) by (intro exI [of _ r] exI [of _ "Suc k"]) auto
  qed
qed

text \<open>Every week has a trading day: its Tuesday, or the Wednesday after a closed Tuesday.\<close>

lemma week_has_trading_day:
  assumes "valid_date d" "year d < 9999" "easter_ok easter"
  shows "\<exists>n t. n \<le> 7 \<and> advance n d = Inr t \<and> is_trading_day easter t"
proof -
  define n where "n = nat ((8 - weekday d) mod 7)"
  have n: "n \<le> 6" "int n = (8 - weekday d) mod 7" by (auto simp: n_def nat_le_iff)
  obtain t where t: "advance n d = Inr t" using advance_ok [OF assms(1)] assms(2) n(1) by force
  have ft: "valid_date t" "weekday t = (weekday d + int n) mod 7" using advance_facts [OF assms(1) t] by simp_all
  then have tue: "weekday t = 1" using n(2) by (simp add: mod_simps)
  show ?thesis
  proof (cases "is_trading_day easter t")
    case True
    with t n(1) show ?thesis by (intro exI [of _ n] exI [of _ t]) simp
  next
    case False
    have fx: "(month t, day t) \<in> set fixed_closures" using midweek_closed_fixed [OF assms(3) _ False] tue by simp
    obtain u where u: "advance (Suc n) d = Inr u" using advance_ok [OF assms(1), of "Suc n"] assms(2) n(1) by force
    have "advance (Suc n) d = rbind (advance n d) next_day"
    proof -
      have "advance (Suc n) x = rbind (advance n x) next_day" for x
      proof (induction n arbitrary: x)
        case 0
        show ?case by (cases "next_day x") simp_all
      next
        case (Suc m)
        show ?case by (cases "next_day x") (simp_all add: Suc.IH [simplified])
      qed
      then show ?thesis .
    qed
    with t u have nx: "next_day t = Inr u" by (simp del: advance.simps)
    have "weekday u = 2" using next_day_weekday [OF ft(1) nx] tue by simp
    moreover have "(month u, day u) \<notin> set fixed_closures" by (rule after_fixed_closure [OF ft(1) nx fx])
    ultimately have "is_trading_day easter u" using midweek_closed_fixed [OF assms(3), of u] by auto
    with u n(1) show ?thesis by (intro exI [of _ "Suc n"] exI [of _ u]) simp
  qed
qed

section \<open>Properties\<close>

text \<open>
  The session key is a trading day: for every instant whose Chicago trading day is in the
  calendar, the exchange-aware key is the ISO form of the first day at or after it that is
  neither a weekend nor a closure, it is at most a week away, and no trading day is skipped.
\<close>

theorem session_key_is_trading_day:
  assumes "trading_day chicago utc = Inr base" "valid_date base" "year base < 9999" "easter_ok easter"
  shows "\<exists>r n. cme_trading_day_iso easter chicago utc = Inr (isoformat r)
    \<and> advance n base = Inr r \<and> n \<le> 7 \<and> is_trading_day easter r
    \<and> (\<forall>j u. j < n \<and> advance j base = Inr u \<longrightarrow> \<not> is_trading_day easter u)"
proof -
  obtain n t where t: "n \<le> 7" "advance n base = Inr t" "is_trading_day easter t"
    using week_has_trading_day [OF assms(2,3,4)] by blast
  obtain r k where r: "next_trading_day easter base = Inr r" "advance k base = Inr r" "k \<le> n"
    "is_trading_day easter r" "\<forall>j u. j < k \<and> advance j base = Inr u \<longrightarrow> \<not> is_trading_day easter u"
    using next_trading_found [OF assms(2) t(2,3)] by blast
  have "cme_trading_day_iso easter chicago utc = Inr (isoformat r)"
    using assms(1,2) r(1) parse_isoformat [OF assms(2)]
    by (auto simp: cme_trading_day_iso_def trading_day_iso_def next_trading_day.simps [of easter base])
  with r t(1) show ?thesis by (intro exI [of _ r] exI [of _ k]) auto
qed

definition july_4_2026 :: date where
  "july_4_2026 = \<lparr>year = 2026, month = 7, day = 4\<rparr>"

theorem session_key_is_trading_day_witness:
  "cme_trading_day_iso None (Some (\<lparr>year = 2026, month = 7, day = 3\<rparr>, 17)) (july_4_2026, 22) = Inr ''2026-07-06''"
proof -
  have "trading_day (Some (\<lparr>year = 2026, month = 7, day = 3\<rparr>, 17)) (july_4_2026, 22) = Inr july_4_2026"
    by (simp add: trading_day_def next_day_def days_in_month_def july_4_2026_def)
  moreover have "valid_date july_4_2026" "year july_4_2026 < 9999"
    by (simp_all add: july_4_2026_def valid_date_def days_in_month_def)
  moreover have "easter_ok None" by (simp add: easter_ok_def)
  ultimately obtain r n where r: "cme_trading_day_iso None (Some (\<lparr>year = 2026, month = 7, day = 3\<rparr>, 17)) (july_4_2026, 22)
      = Inr (isoformat r)" "advance n july_4_2026 = Inr r" "is_trading_day None r"
    "\<forall>j u. j < n \<and> advance j july_4_2026 = Inr u \<longrightarrow> \<not> is_trading_day None u"
    using session_key_is_trading_day by blast
  have o': "toordinal july_4_2026 = 739801"
    by (simp add: toordinal_def july_4_2026_def days_before_year_def days_before_month_def upto_rec1
        days_in_month_def is_leap_def)
  have w: "weekday july_4_2026 = 5" using o' by (simp add: weekday_def)
  have a: "advance 1 july_4_2026 = Inr \<lparr>year = 2026, month = 7, day = 5\<rparr>"
    "advance 2 july_4_2026 = Inr \<lparr>year = 2026, month = 7, day = 6\<rparr>"
    by (simp_all add: july_4_2026_def next_day_def days_in_month_def numeral_2_eq_2)
  have v: "valid_date july_4_2026" by (simp add: july_4_2026_def valid_date_def days_in_month_def)
  have wk: "weekday \<lparr>year = 2026, month = 7, day = 5\<rparr> = 6" "weekday \<lparr>year = 2026, month = 7, day = 6\<rparr> = 0"
    using advance_facts [OF v a(1)] advance_facts [OF v a(2)] w by simp_all
  have t2: "is_trading_day None \<lparr>year = 2026, month = 7, day = 6\<rparr>"
    using wk by (simp add: is_trading_day_def is_cme_holiday_def fixed_closures_def)
  have "n = 2"
  proof -
    have "n \<noteq> 0"
    proof
      assume "n = 0"
      then have "r = july_4_2026" using r(2) by simp
      then show False using r(3) w by (simp add: is_trading_day_def)
    qed
    moreover have "n \<noteq> 1"
    proof
      assume "n = 1"
      then have "r = \<lparr>year = 2026, month = 7, day = 5\<rparr>" using r(2) a(1) by simp
      then show False using r(3) wk by (simp add: is_trading_day_def)
    qed
    moreover have "\<not> 2 < n" using r(4) a(2) t2 by blast
    ultimately show ?thesis by linarith
  qed
  then have "r = \<lparr>year = 2026, month = 7, day = 6\<rparr>" using r(2) a(2) by simp
  moreover have "isoformat \<lparr>year = 2026, month = 7, day = 6\<rparr> = ''2026-07-06''" by code_simp
  ultimately show ?thesis using r(1) by simp
qed

end
