(* ===== verification/Consistency.thy ===== *)
theory Consistency
  imports Calendar Durable "HOL-Library.List_Lexorder" "HOL-Library.Char_ord" Whole
begin

text \<open>
  \<open>core/consistency_guard.py\<close>: the tracker of the rule that no single winning day may make up
  more than a fraction of the total net profit.  The state is the thresholds and the profit and
  loss per ISO day, mirrored in a JSON file; the verdict classifies the largest winning day and
  reports how much more today may earn.
\<close>

section \<open>State and verdicts\<close>

datatype cons_error = ConsistencyCorrupt | ConsPy pyexc

datatype cons_status = INSUFFICIENT_DATA | OK | WARNING | VIOLATION

record cons_verdict =
  v_status :: cons_status
  v_threshold :: pyfloat
  v_warning :: pyfloat
  v_largest :: pyfloat
  v_largest_date :: "string option"
  v_total_net :: pyfloat
  v_total_winning :: pyfloat
  v_ratio :: pyfloat
  v_max_allowed :: pyfloat
  v_headroom :: pyfloat
  v_today_pnl :: pyfloat
  v_today :: "string option"

record cons_state =
  threshold_pct :: pyfloat
  warning_pct :: pyfloat
  days :: "(string, pyfloat) dict"

record cons_guard =
  cg_state :: cons_state
  cg_file :: jfile

definition validate_thresholds :: "pyfloat \<Rightarrow> pyfloat \<Rightarrow> pyexc + unit" where
  "validate_thresholds t w =
     (if \<not> (flt (Fin 0) t \<and> flt t (Fin 1)) then Inl ValueError
      else if \<not> (flt (Fin 0) w \<and> fle w t) then Inl ValueError
      else Inr ())"

definition cons_json :: "cons_state \<Rightarrow> json" where
  "cons_json s =
     JObj [(''days'', JObj (map (\<lambda>(k, x). (k, JFloat x)) (sort_key fst (days s)))),
           (''threshold_pct'', JFloat (threshold_pct s)), (''warning_pct'', JFloat (warning_pct s))]"

definition write_cons :: "cons_guard \<Rightarrow> cons_guard" where
  "write_cons g = g\<lparr>cg_file := Parsed (cons_json (cg_state g))\<rparr>"

definition make_guard :: "jfile \<Rightarrow> cons_state \<Rightarrow> pyexc + cons_guard" where
  "make_guard f s = rbind (validate_thresholds (threshold_pct s) (warning_pct s))
     (\<lambda>_. Inr \<lparr>cg_state = s, cg_file = f\<rparr>)"

fun lift_py :: "pyexc + 'a \<Rightarrow> cons_error + 'a" where
  "lift_py (Inl x) = Inl (ConsPy x)"
| "lift_py (Inr a) = Inr a"

fun load_days :: "(string \<times> json) list \<Rightarrow> (string, pyfloat) dict \<Rightarrow> cons_error + (string, pyfloat) dict" where
  "load_days [] d = Inr d"
| "load_days ((k, v) # es) d =
     (if \<not> is_iso_date k then Inl ConsistencyCorrupt
      else rbind (lift_py (as_float v)) (\<lambda>x. load_days es (dset k x d)))"

definition days_entries :: "json \<Rightarrow> pyexc + (string \<times> json) list" where
  "days_entries v =
     (if \<not> as_bool v then Inr []
      else case v of JObj es \<Rightarrow> Inr es | _ \<Rightarrow> Inl AttributeError)"

definition load_guard :: "jfile \<Rightarrow> pyfloat \<Rightarrow> pyfloat \<Rightarrow> cons_error + cons_guard" where
  "load_guard f t w =
     (case f of
        Missing \<Rightarrow>
          lift_py (rbind (make_guard f \<lparr>threshold_pct = t, warning_pct = w, days = []\<rparr>)
            (\<lambda>g. Inr (write_cons g)))
      | Garbled \<Rightarrow> Inl ConsistencyCorrupt
      | Parsed (JObj raw) \<Rightarrow>
          rbind (lift_py (as_float (jget raw ''threshold_pct'' (JFloat t)))) (\<lambda>lt.
          rbind (lift_py (as_float (jget raw ''warning_pct'' (JFloat w)))) (\<lambda>lw.
          rbind (lift_py (days_entries (jget raw ''days'' JNull))) (\<lambda>es.
          rbind (load_days es []) (\<lambda>d.
            lift_py (make_guard f \<lparr>threshold_pct = lt, warning_pct = lw, days = d\<rparr>)))))
      | Parsed _ \<Rightarrow> Inl (ConsPy AttributeError))"

section \<open>Evaluation\<close>

text \<open>\<open>max(d.items(), key=...)\<close>: the first of the largest.\<close>

definition max_item :: "(string \<times> pyfloat) \<Rightarrow> (string \<times> pyfloat) list \<Rightarrow> string \<times> pyfloat" where
  "max_item x xs = foldl (\<lambda>b y. if flt (snd b) (snd y) then y else b) x xs"

definition winners :: "(string, pyfloat) dict \<Rightarrow> (string \<times> pyfloat) list" where
  "winners d = filter (\<lambda>(k, p). flt (Fin 0) p) d"

definition largest_winner :: "(string, pyfloat) dict \<Rightarrow> string option \<times> pyfloat" where
  "largest_winner d =
     (case winners d of [] \<Rightarrow> (None, Fin 0)
      | x # xs \<Rightarrow> (Some (fst (max_item x xs)), snd (max_item x xs)))"

definition max_float :: "pyfloat list \<Rightarrow> pyfloat" where
  "max_float xs = (case xs of [] \<Rightarrow> Fin 0 | y # ys \<Rightarrow> foldl (\<lambda>b z. if flt b z then z else b) y ys)"

definition headroom_of :: "(string, pyfloat) dict \<Rightarrow> string option \<Rightarrow> pyfloat \<Rightarrow> pyexc + pyfloat" where
  "headroom_of d today threshold =
     (case today of
        None \<Rightarrow> Inr (Fin 0)
      | Some t \<Rightarrow>
          let today_pnl = dget_or d t (Fin 0);
              prior = filter (\<lambda>(k, p). k \<noteq> t) d;
              prior_total = pysum (map snd prior);
              prior_max_win = max_float (filter (flt (Fin 0)) (map snd prior))
          in if fle (Fin 1) threshold then Inr PInf
             else rbind (fdivx (fmul threshold prior_total) (fsub (Fin 1) threshold)) (\<lambda>cap.
               if flt (Fin 0) prior_max_win \<and> flt cap prior_max_win then
                 rbind (fdivx prior_max_win threshold) (\<lambda>q.
                   if fle (fsub q prior_total) prior_max_win
                   then Inr (pymax (Fin 0) (fsub prior_max_win today_pnl))
                   else Inr (Fin 0))
               else Inr (pymax (Fin 0) (fsub cap today_pnl))))"

definition days_with_today ::
  "string option \<Rightarrow> pyfloat option \<Rightarrow> (string, pyfloat) dict \<Rightarrow> (string, pyfloat) dict" where
  "days_with_today today pnl d =
     (case today of
        None \<Rightarrow> d
      | Some t \<Rightarrow> (case pnl of
                   Some p \<Rightarrow> dset t p d
                 | None \<Rightarrow> if dget d t = None then dset t (Fin 0) d else d))"

definition classify :: "pyfloat \<Rightarrow> pyfloat \<Rightarrow> pyfloat \<Rightarrow> pyfloat \<Rightarrow> pyfloat \<Rightarrow> cons_status" where
  "classify tot largest ratio threshold warning =
     (if fle tot (Fin 0) \<or> fle largest (Fin 0) then INSUFFICIENT_DATA
      else if fle threshold ratio then VIOLATION
      else if fle warning ratio then WARNING else OK)"

definition evaluate_cons :: "string option \<Rightarrow> pyfloat option \<Rightarrow> cons_state \<Rightarrow> pyexc + cons_verdict" where
  "evaluate_cons today pnl s =
     (if (case today of None \<Rightarrow> False | Some t \<Rightarrow> \<not> is_iso_date t) then Inl ValueError
      else
        let d = days_with_today today pnl (days s);
            tot = pysum (map snd d);
            (ldate, largest) = largest_winner d;
            t = threshold_pct s; w = warning_pct s
        in rbind (if flt (Fin 0) tot then fdivx largest tot else Inr (Fin 0)) (\<lambda>ratio.
           rbind (headroom_of d today t) (\<lambda>h.
             Inr \<lparr>v_status = classify tot largest ratio t w, v_threshold = t, v_warning = w,
                  v_largest = largest, v_largest_date = ldate, v_total_net = tot,
                  v_total_winning = pysum (map snd (winners d)), v_ratio = ratio,
                  v_max_allowed = (if flt (Fin 0) tot then fmul t tot else Fin 0),
                  v_headroom = h,
                  v_today_pnl = (case pnl of Some p \<Rightarrow> p
                                 | None \<Rightarrow> (case today of Some k \<Rightarrow> dget_or d k (Fin 0) | None \<Rightarrow> Fin 0)),
                  v_today = today\<rparr>)))"

definition record_eod :: "string \<Rightarrow> pyfloat \<Rightarrow> cons_guard \<Rightarrow> (pyexc + cons_verdict) \<times> cons_guard" where
  "record_eod t p g =
     (if \<not> is_iso_date t then (Inl ValueError, g)
      else
        let g1 = write_cons (g\<lparr>cg_state := (cg_state g)\<lparr>days := dset t p (days (cg_state g))\<rparr>\<rparr>)
        in (evaluate_cons (Some t) (Some p) (cg_state g1), g1))"

definition record_intraday :: "string \<Rightarrow> pyfloat \<Rightarrow> cons_guard \<Rightarrow> (pyexc + cons_verdict) \<times> cons_guard" where
  "record_intraday t p g = record_eod t p g"

definition reset_cons :: "cons_guard \<Rightarrow> cons_guard" where
  "reset_cons g = write_cons (g\<lparr>cg_state := (cg_state g)\<lparr>days := []\<rparr>\<rparr>)"

definition default_apex_guard :: "jfile \<Rightarrow> cons_error + cons_guard" where
  "default_apex_guard f = load_guard f (fl (3 / 10)) (fl (1 / 4))"


section \<open>Lemmas: evaluation\<close>

lemma validated_iff:
  "validate_thresholds t w = Inr () \<longleftrightarrow>
     flt (Fin 0) t \<and> flt t (Fin 1) \<and> flt (Fin 0) w \<and> fle w t"
  by (auto simp: validate_thresholds_def)

lemma pos_nonzero: "flt (Fin 0) x \<Longrightarrow> x \<noteq> Fin 0"
  by auto

lemma fdivx_total: "y \<noteq> Fin 0 \<Longrightarrow> \<exists>z. fdivx x y = Inr z"
  by (cases x; cases y) (auto simp: fdivx_def)

lemma headroom_total:
  assumes "flt (Fin 0) t" "flt t (Fin 1)" "is_dbl t"
  shows "\<exists>h. headroom_of d today t = Inr h"
proof -
  have t: "t \<noteq> PInf" "t \<noteq> NInf" using assms by auto
  have "fsub (Fin 1) t \<noteq> Fin 0"
    using fsub_pos_iff [of "Fin 1" t] assms t by (intro pos_nonzero) simp
  from fdivx_total [OF this] obtain cap where "\<And>x. fdivx x (fsub (Fin 1) t) = Inr (cap x)"
    by metis
  moreover from fdivx_total [OF pos_nonzero [OF assms(1)]] obtain q where "\<And>y. fdivx y t = Inr (q y)"
    by metis
  ultimately show ?thesis
    using assms(2) by (auto simp: headroom_of_def Let_def flt_not_fle split: option.splits)
qed

definition largest_ratio :: "pyfloat \<Rightarrow> pyfloat \<Rightarrow> pyfloat" where
  "largest_ratio largest tot =
     (if flt (Fin 0) tot then (case fdiv largest tot of Some r \<Rightarrow> r | None \<Rightarrow> Fin 0) else Fin 0)"

lemma ratio_is: "(if flt (Fin 0) tot then fdivx largest tot else Inr (Fin 0))
   = Inr (largest_ratio largest tot)"
proof (cases "flt (Fin 0) tot")
  case True
  then have "fdiv largest tot \<noteq> None" by (cases largest; cases tot) auto
  with True show ?thesis by (auto simp: largest_ratio_def fdivx_def)
qed (simp add: largest_ratio_def)

lemma evaluate_cons_total:
  assumes "flt (Fin 0) (threshold_pct s)" "flt (threshold_pct s) (Fin 1)" "is_dbl (threshold_pct s)"
    "case today of None \<Rightarrow> True | Some t \<Rightarrow> is_iso_date t"
    and d: "d = days_with_today today pnl (days s)"
  shows "\<exists>v. evaluate_cons today pnl s = Inr v
     \<and> v_total_net v = pysum (map snd d)
     \<and> v_largest v = snd (largest_winner d) \<and> v_largest_date v = fst (largest_winner d)
     \<and> v_ratio v = largest_ratio (snd (largest_winner d)) (pysum (map snd d))
     \<and> v_status v = classify (v_total_net v) (v_largest v) (v_ratio v)
         (threshold_pct s) (warning_pct s)"
proof -
  obtain h where "headroom_of d today (threshold_pct s) = Inr h"
    using headroom_total [OF assms(1-3)] by blast
  then show ?thesis
    using assms(4) unfolding d
    by (auto simp: evaluate_cons_def Let_def ratio_is split: option.splits prod.splits)
qed

subsection \<open>The largest winning day\<close>

lemma max_item_spec:
  "list_all (\<lambda>y. snd y \<noteq> NaN) (x # xs) \<Longrightarrow>
   max_item x xs \<in> set (x # xs) \<and> list_all (\<lambda>y. fle (snd y) (snd (max_item x xs))) (x # xs)"
proof (induction xs arbitrary: x)
  case Nil
  then show ?case by (simp add: max_item_def)
next
  case (Cons z zs)
  define b where "b = (if flt (snd x) (snd z) then z else x)"
  have m: "max_item x (z # zs) = max_item b zs" by (simp add: max_item_def b_def)
  have IH: "max_item b zs \<in> set (b # zs)" "list_all (\<lambda>y. fle (snd y) (snd (max_item b zs))) (b # zs)"
    using Cons.IH [of b] Cons.prems by (auto simp: b_def)
  have "fle (snd x) (snd b)" "fle (snd z) (snd b)"
    using Cons.prems by (auto simp: b_def flt_imp_fle not_flt)
  then have "fle (snd x) (snd (max_item b zs))" "fle (snd z) (snd (max_item b zs))"
    using IH(2) by (auto intro: fle_trans)
  moreover have "b = x \<or> b = z" by (simp add: b_def)
  ultimately show ?case using IH unfolding m by auto
qed

lemma largest_winner_spec:
  "(k, p) \<in> set d \<Longrightarrow> flt (Fin 0) p \<Longrightarrow>
   fle p (snd (largest_winner d)) \<and> (\<exists>k'. (k', snd (largest_winner d)) \<in> set d
     \<and> fst (largest_winner d) = Some k' \<and> flt (Fin 0) (snd (largest_winner d)))"
proof -
  assume a: "(k, p) \<in> set d" "flt (Fin 0) p"
  then have "(k, p) \<in> set (winners d)" by (simp add: winners_def)
  then obtain x xs where w: "winners d = x # xs" by (cases "winners d") auto
  have "list_all (\<lambda>y. snd y \<noteq> NaN) (x # xs)"
    unfolding w [symmetric] winners_def by (auto simp: list_all_iff)
  from max_item_spec [OF this]
  have m: "max_item x xs \<in> set (winners d)" "fle p (snd (max_item x xs))"
    using \<open>(k, p) \<in> set (winners d)\<close> unfolding w by (auto simp: list_all_iff)
  then have "max_item x xs \<in> set d" "flt (Fin 0) (snd (max_item x xs))"
    by (auto simp: winners_def)
  with m(2) show ?thesis by (cases "max_item x xs") (auto simp: largest_winner_def w)
qed

subsection \<open>Whole-dollar days\<close>

type_synonym dollar_days = "(string \<times> int) list"

definition in_dollars :: "dollar_days \<Rightarrow> (string, pyfloat) dict" where
  "in_dollars ds = map (\<lambda>(k, n). (k, Fin (of_int n))) ds"

lemma total_dollars:
  "sum_list (map (abs \<circ> snd) ds) \<le> 2 ^ 53 \<Longrightarrow>
   pysum (map snd (in_dollars ds)) = Fin (of_int (sum_list (map snd ds)))"
  using pysum_whole [of "map snd ds"] by (simp add: in_dollars_def comp_def case_prod_beta)

text \<open>The largest winner of whole-dollar days is one of them, and no other is larger.\<close>

lemma largest_dollars:
  assumes "(k, n) \<in> set ds" "0 < n"
  obtains k' m where "(k', m) \<in> set ds" "n \<le> m" "snd (largest_winner (in_dollars ds)) = Fin (of_int m)"
proof -
  have "(k, Fin (of_int n)) \<in> set (in_dollars ds)" using assms(1) by (force simp: in_dollars_def)
  from largest_winner_spec [OF this] assms(2) obtain k' m
    where "(k', m) \<in> set ds" "snd (largest_winner (in_dollars ds)) = Fin (of_int m)"
      "fle (Fin (of_int n)) (Fin (of_int m))"
    by (auto simp: in_dollars_def)
  then show thesis by (intro that) auto
qed

lemma ratio_dollars:
  "0 < N \<Longrightarrow> largest_ratio (Fin (of_int m)) (Fin (of_int N)) = fl (of_int m / of_int N)"
  by (simp add: largest_ratio_def)

lemma classify_violation:
  assumes "0 < N" "0 < m" "is_dbl (Fin c)" "c * of_int N \<le> of_int m"
  shows "classify (Fin (of_int N)) (Fin (of_int m)) (fl (of_int m / of_int N)) (Fin c) w = VIOLATION"
proof -
  have "c \<le> of_int m / of_int N" using assms(1,4) by (simp add: pos_le_divide_eq)
  with assms show ?thesis by (simp add: classify_def fl_ge)
qed

section \<open>Lemmas: the file\<close>

definition cons_saved :: "cons_guard \<Rightarrow> bool" where
  "cons_saved g = (validate_thresholds (threshold_pct (cg_state g)) (warning_pct (cg_state g)) = Inr ()
     \<and> cg_file g = Parsed (cons_json (cg_state g))
     \<and> distinct (map fst (days (cg_state g))) \<and> list_all is_iso_date (map fst (days (cg_state g))))"

lemma load_days_floats:
  "list_all is_iso_date (map fst es) \<Longrightarrow>
   load_days (map (\<lambda>(k, x). (k, JFloat x)) es) d = Inr (foldl (\<lambda>d (k, x). dset k x d) d es)"
  by (induction es arbitrary: d) auto

lemma dset_fresh: "k \<notin> fst ` set d \<Longrightarrow> dset k x d = d @ [(k, x)]"
  by (induction d) auto

lemma foldl_dset_fresh:
  "distinct (map fst (d @ es)) \<Longrightarrow> foldl (\<lambda>d (k, x). dset k x d) d es = d @ es"
proof (induction es arbitrary: d)
  case (Cons e es)
  then have "fst e \<notin> fst ` set d" by auto
  then have "dset (fst e) (snd e) d = d @ [e]" by (simp add: dset_fresh)
  then show ?case using Cons.IH [of "d @ [e]"] Cons.prems by (simp add: case_prod_beta)
qed simp

lemma load_saved_days:
  assumes "distinct (map fst d)" "list_all is_iso_date (map fst d)"
  shows "load_days (map (\<lambda>(k, x). (k, JFloat x)) (sort_key fst d)) [] = Inr (sort_key fst d)"
proof -
  have "distinct (map fst (sort_key fst d))"
    using assms(1) by (metis distinct_map distinct_sort set_sort)
  moreover have "list_all is_iso_date (map fst (sort_key fst d))"
    using assms(2) by (simp add: list_all_iff)
  ultimately show ?thesis using foldl_dset_fresh [of "[]"] by (simp add: load_days_floats)
qed

lemma load_saved_guard:
  assumes "cons_saved g"
  shows "load_guard (cg_file g) t w
     = Inr (g\<lparr>cg_state := (cg_state g)\<lparr>days := sort_key fst (days (cg_state g))\<rparr>\<rparr>)"
proof -
  have "days_entries (JObj (map (\<lambda>(k, x). (k, JFloat x)) (sort_key fst (days (cg_state g)))))
      = Inr (map (\<lambda>(k, x). (k, JFloat x)) (sort_key fst (days (cg_state g))))"
    by (simp add: days_entries_def)
  with assms load_saved_days show ?thesis
    by (cases g) (simp add: cons_saved_def load_guard_def cons_json_def jget_def dget_or_def
        make_guard_def)
qed

datatype cons_event = Record string pyfloat | ResetDays

definition cons_step :: "cons_guard \<Rightarrow> cons_event \<Rightarrow> cons_guard" where
  "cons_step g ev = (case ev of Record t p \<Rightarrow> snd (record_eod t p g) | ResetDays \<Rightarrow> reset_cons g)"

lemma cons_saved_step: "cons_saved g \<Longrightarrow> cons_saved (cons_step g ev)"
  by (cases ev)
    (auto simp: cons_step_def record_eod_def reset_cons_def write_cons_def cons_saved_def Let_def
      list_all_iff intro: distinct_update dest!: in_set_dset)

interpretation history: machine cons_step cons_saved "\<lambda>_. True"
  by unfold_locales (rule cons_saved_step)


section \<open>Properties\<close>

definition half_rule :: "(string, pyfloat) dict \<Rightarrow> cons_state" where
  "half_rule d = \<lparr>threshold_pct = Fin (1 / 2), warning_pct = Fin (1 / 2), days = d\<rparr>"

lemma half_rule_simps [simp]:
  "threshold_pct (half_rule d) = Fin (1 / 2)" "warning_pct (half_rule d) = Fin (1 / 2)"
  "days (half_rule d) = d"
  by (simp_all add: half_rule_def)

lemma demo_days: "is_iso_date ''2026-07-01''" "is_iso_date ''2026-07-02''" "\<not> is_iso_date ''2026-02-30''"
  by code_simp+

text \<open>
  C25. A violation is never missed.  When the days hold whole-dollar amounts and some winning day
  makes up at least the threshold of the positive total, the verdict is VIOLATION, however the
  float quotient rounds.
\<close>

theorem violation_never_missed:
  assumes "threshold_pct s = Fin c" "0 < c" "c < 1" "is_dbl (Fin c)"
    and "case today of None \<Rightarrow> True | Some t \<Rightarrow> is_iso_date t"
    and "days_with_today today pnl (days s) = in_dollars ds" "sum_list (map (abs \<circ> snd) ds) \<le> 2 ^ 53"
    and "(k, n) \<in> set ds" "0 < n" "0 < sum_list (map snd ds)" "c * of_int (sum_list (map snd ds)) \<le> of_int n"
  shows "\<exists>v. evaluate_cons today pnl s = Inr v \<and> v_status v = VIOLATION"
proof -
  obtain k' m where m: "n \<le> m" "snd (largest_winner (in_dollars ds)) = Fin (of_int m)"
    using assms(8,9) by (rule largest_dollars)
  moreover have "c * of_int (sum_list (map snd ds)) \<le> of_int m"
    using assms(11) m(1) by (meson of_int_le_iff order_trans)
  ultimately show ?thesis
    using evaluate_cons_total [of s today "in_dollars ds" pnl] assms(1-7,9,10)
      classify_violation [of "sum_list (map snd ds)" m c "warning_pct s"]
    by (auto simp: total_dollars ratio_dollars)
qed

theorem violation_never_missed_witness:
  "\<exists>v. evaluate_cons None None (half_rule [(''2026-07-01'', Fin 600), (''2026-07-02'', Fin 400)]) = Inr v
     \<and> v_status v = VIOLATION"
  by (rule violation_never_missed [where ds = "[(''2026-07-01'', 600), (''2026-07-02'', 400)]"
        and k = "''2026-07-01''" and n = 600 and c = "1 / 2"])
    (simp_all add: days_with_today_def in_dollars_def)

text \<open>
  Under validated thresholds recording a day never raises for an ISO date, whatever profit
  (infinite or NaN included) is recorded: no division in the ratio or the headroom is by zero.
  Any other date string raises a value error and changes neither state nor file.
\<close>

theorem record_eod_total:
  assumes "validate_thresholds (threshold_pct (cg_state g)) (warning_pct (cg_state g)) = Inr ()"
    "is_dbl (threshold_pct (cg_state g))"
  shows "if is_iso_date t
    then \<exists>v g'. record_eod t p g = (Inr v, g') \<and> days (cg_state g') = dset t p (days (cg_state g))
           \<and> cg_file g' = Parsed (cons_json (cg_state g')) \<and> v_today v = Some t \<and> v_today_pnl v = p
    else record_eod t p g = (Inl ValueError, g)"
proof (cases "is_iso_date t")
  case True
  obtain v where v: "evaluate_cons (Some t) (Some p)
      ((cg_state g)\<lparr>days := dset t p (days (cg_state g))\<rparr>) = Inr v"
    using evaluate_cons_total [of "(cg_state g)\<lparr>days := dset t p (days (cg_state g))\<rparr>"
        "Some t" "dset t p (dset t p (days (cg_state g)))" "Some p"] assms True
    by (auto simp: validated_iff days_with_today_def)
  then have "v_today v = Some t \<and> v_today_pnl v = p"
    by (auto simp: evaluate_cons_def Let_def split: if_splits prod.splits)
  with v True show ?thesis by (simp add: record_eod_def write_cons_def Let_def)
qed (simp add: record_eod_def)

theorem record_eod_total_witness:
  "\<exists>v g'. record_eod ''2026-07-01'' NaN \<lparr>cg_state = half_rule [], cg_file = Missing\<rparr> = (Inr v, g')
     \<and> days (cg_state g') = [(''2026-07-01'', NaN)]"
  using record_eod_total [of "\<lparr>cg_state = half_rule [], cg_file = Missing\<rparr>" "''2026-07-01''" NaN]
  by (auto simp: validate_thresholds_def demo_days)

text \<open>
  The profit history survives a restart: after any sequence of recorded days (refused ones
  included) and resets, loading the file gives a guard with the thresholds it was running with,
  whatever thresholds the new process asks for, and the same profit for every day.
\<close>

theorem history_survives_restart:
  assumes "cons_saved g"
  shows "\<exists>g'. load_guard (cg_file (foldl cons_step g evs)) t w = Inr g'
     \<and> threshold_pct (cg_state g') = threshold_pct (cg_state (foldl cons_step g evs))
     \<and> warning_pct (cg_state g') = warning_pct (cg_state (foldl cons_step g evs))
     \<and> dget (days (cg_state g')) = dget (days (cg_state (foldl cons_step g evs)))"
proof -
  have "cons_saved (foldl cons_step g evs)"
    using assms by (rule history.run_inv) (simp add: list_all_iff)
  moreover from this have "distinct (map fst (days (cg_state (foldl cons_step g evs))))"
    by (simp add: cons_saved_def)
  ultimately show ?thesis by (simp add: load_saved_guard map_of_sorted)
qed

theorem history_survives_restart_witness:
  "\<exists>g'. load_guard (cg_file (foldl cons_step (write_cons \<lparr>cg_state = half_rule [], cg_file = Missing\<rparr>)
          [Record ''2026-07-02'' (Fin 5), Record ''2026-02-30'' (Fin 1), Record ''2026-07-01'' (Fin 7)]))
        (Fin (1 / 4)) (Fin (1 / 4)) = Inr g'
     \<and> threshold_pct (cg_state g') = Fin (1 / 2) \<and> dget (days (cg_state g')) ''2026-07-02'' = Some (Fin 5)"
proof -
  let ?g = "write_cons \<lparr>cg_state = half_rule [], cg_file = Missing\<rparr>"
  have "cons_saved ?g" by (simp add: cons_saved_def write_cons_def validate_thresholds_def)
  from history_survives_restart [OF this, of "[Record ''2026-07-02'' (Fin 5),
      Record ''2026-02-30'' (Fin 1), Record ''2026-07-01'' (Fin 7)]" "Fin (1 / 4)" "Fin (1 / 4)"]
  show ?thesis
    by (auto simp: cons_step_def record_eod_def demo_days Let_def write_cons_def)
qed

section \<open>Corners of the headroom\<close>

text \<open>Earning exactly the reported headroom reaches the threshold, which is a violation.\<close>

lemma headroom_is_the_violation_point:
  "headroom_of [(''2026-07-01'', Fin 1000), (''2026-07-02'', Fin 0)] (Some ''2026-07-02'') (Fin (1 / 2))
     = Inr (Fin 1000)"
  "(case evaluate_cons (Some ''2026-07-02'') (Some (Fin 1000)) (half_rule [(''2026-07-01'', Fin 1000)]) of
      Inr v \<Rightarrow> v_status v = VIOLATION | Inl _ \<Rightarrow> False)"
  by code_simp+

text \<open>The headroom is positive although a prior day already violates the rule.\<close>

lemma headroom_after_violation:
  "(case evaluate_cons (Some ''2026-07-03'') None
           (half_rule [(''2026-07-01'', Fin 600), (''2026-07-02'', Fin 400)]) of
      Inr v \<Rightarrow> v_status v = VIOLATION \<and> v_headroom v = Fin 1000 | Inl _ \<Rightarrow> False)"
  by code_simp

text \<open>A prior winner above the cap does not raise the cap: the headroom is zero.\<close>

lemma prior_winner_zeroes_headroom:
  "headroom_of [(''2026-07-01'', Fin 1000), (''2026-07-02'', Fin (- 200))] (Some ''2026-07-03'') (Fin (1 / 2))
     = Inr (Fin 0)"
  by code_simp

text \<open>In exact arithmetic the branch that would raise it is never taken.\<close>

lemma raise_branch_unreachable:
  assumes "0 < c" "c < 1" "c * P / (1 - c) < (M :: rat)"
  shows "M < M / c - P"
proof -
  have "c * P < M * (1 - c)" using assms by (simp add: pos_divide_less_eq)
  then have "c * (M + P) < M" by (simp add: algebra_simps)
  then have "M + P < M / c" using assms(1) by (simp add: pos_less_divide_eq mult.commute)
  then show ?thesis by simp
qed

end
