(* ===== verification/Execution_Lease.thy ===== *)
theory Execution_Lease
  imports Durable
begin

text \<open>
  \<open>safety/execution_lease.py\<close>: the file lease that lets one process at a time write orders for a
  broker account, and the lock file around each read and write of it.  The lease operations are
  functions on a directory of files; the lock protocol is a step relation over the processes that
  run it, one step per system call, with a step of its own for every call that fails and one clock for
  wall and monotonic time.  The text of a JSON value that is not a string, the clock and
  the process's name are arguments.
\<close>

section \<open>Leases\<close>

type_synonym directory = "string \<Rightarrow> jfile"

record lease =
  el_venue :: string
  el_account :: string
  el_owner :: string
  el_client :: "int option"
  el_ttl :: pyfloat
  el_path :: string
  el_acquired :: pyfloat
  el_updated :: pyfloat
  el_expires :: pyfloat
  el_host :: string
  el_pid :: int

datatype lease_error = EmptyOwner | LeaseHeld "(string \<times> json) list" | LeasePy pyexc

definition lease_json :: "lease \<Rightarrow> json" where
  "lease_json l =
     JObj [(''account'', JStr (el_account l)), (''acquired_at'', JFloat (el_acquired l)),
           (''client_id'', jopt JInt (el_client l)), (''expires_at'', JFloat (el_expires l)),
           (''hostname'', JStr (el_host l)), (''owner'', JStr (el_owner l)), (''pid'', JInt (el_pid l)),
           (''ttl_s'', JFloat (el_ttl l)), (''updated_at'', JFloat (el_updated l)),
           (''venue'', JStr (el_venue l))]"

definition default_lease_root :: "env \<Rightarrow> string" where
  "default_lease_root e =
     (let raw = strip (env_get e ''ETA_EXECUTION_LEASE_ROOT'')
      in if raw = [] then ''C:/EvolutionaryTradingAlgo/var/eta_engine/state/execution_leases'' else raw)"

definition default_ttl :: pyfloat where
  "default_ttl = Fin 300"

definition lease_ttl :: "env \<Rightarrow> pyfloat option \<Rightarrow> pyfloat" where
  "lease_ttl e arg =
     (case arg of
        Some x \<Rightarrow> pymax (Fin 1) x
      | None \<Rightarrow>
          let raw = strip (env_get e ''ETA_EXECUTION_LEASE_TTL_S'')
          in if raw = [] then default_ttl
             else case parse_float raw of Some x \<Rightarrow> pymax (Fin 1) x | None \<Rightarrow> default_ttl)"

definition is_alnum :: "char \<Rightarrow> bool" where
  "is_alnum c = (is_digit c \<or> 65 \<le> code_of c \<and> code_of c \<le> 90 \<or> 97 \<le> code_of c \<and> code_of c \<le> 122)"

definition clean_token :: "string \<Rightarrow> string" where
  "clean_token v =
     (let cleaned = map (\<lambda>c. if is_alnum c \<or> c \<in> {CHR ''-'', CHR ''_'', CHR ''.''} then c else CHR ''_'') v;
          stripped = strip_by (\<lambda>c. c = CHR ''.'' \<or> c = CHR ''_'') cleaned
      in if stripped = [] then ''unknown'' else stripped)"

definition lease_path :: "string \<Rightarrow> string \<Rightarrow> string \<Rightarrow> string" where
  "lease_path base venue account = base @ ''/'' @ clean_token venue @ ''_'' @ clean_token account @ ''.json''"

definition parent_dir :: "string \<Rightarrow> string" where
  "parent_dir p = rev (tl (dropWhile (\<lambda>c. c \<noteq> CHR ''/'') (rev p)))"

text \<open>A missing, unreadable or non-object file, and an empty object, are no lease.\<close>

definition read_payload :: "jfile \<Rightarrow> (string \<times> json) list option" where
  "read_payload f = (case f of Parsed (JObj d) \<Rightarrow> Some d | _ \<Rightarrow> None)"

definition present_payload :: "jfile \<Rightarrow> (string \<times> json) list option" where
  "present_payload f = (case read_payload f of Some d \<Rightarrow> if d = [] then None else Some d | None \<Rightarrow> None)"

definition read_execution_lease :: "string \<Rightarrow> string \<Rightarrow> string \<Rightarrow> directory \<Rightarrow> (string \<times> json) list option" where
  "read_execution_lease base venue account dir = read_payload (dir (lease_path base venue account))"

text \<open>Equality of a raw value with an optional integer.\<close>

fun is_int_value :: "json \<Rightarrow> int \<Rightarrow> bool" where
  "is_int_value (JInt m) n = (m = n)"
| "is_int_value (JFloat x) n = (x = Fin (of_int n))"
| "is_int_value (JBool b) n = (n = (if b then 1 else 0))"
| "is_int_value _ n = False"

definition client_is :: "json \<Rightarrow> int option \<Rightarrow> bool" where
  "client_is v c = (case c of None \<Rightarrow> v = JNull | Some n \<Rightarrow> is_int_value v n)"

definition new_lease ::
  "string \<times> int \<Rightarrow> string \<Rightarrow> string \<Rightarrow> string \<Rightarrow> string \<Rightarrow> int option \<Rightarrow> pyfloat \<Rightarrow> pyfloat \<Rightarrow> pyfloat \<Rightarrow> lease" where
  "new_lease proc base venue account owner client ttl now acquired =
     \<lparr>el_venue = venue, el_account = account, el_owner = owner, el_client = client, el_ttl = ttl,
      el_path = lease_path base venue account, el_acquired = acquired, el_updated = now,
      el_expires = fadd now ttl, el_host = fst proc, el_pid = snd proc\<rparr>"

text \<open>What the section under the lock decides: the time of acquisition, or a refusal.\<close>

definition acquired_time ::
  "(json \<Rightarrow> string) \<Rightarrow> string \<Rightarrow> int option \<Rightarrow> pyfloat \<Rightarrow> jfile \<Rightarrow> lease_error + pyfloat" where
  "acquired_time show_json owner client now f =
     (case present_payload f of
        None \<Rightarrow> Inr now
      | Some d \<Rightarrow>
          (case or_float (jget d ''expires_at'' JNull) (Fin 0) of
             Inl x \<Rightarrow> Inl (LeasePy x)
           | Inr expires \<Rightarrow>
               let same = or_text show_json (jget d ''owner'' JNull) [] = owner
                          \<and> (client = None \<or> client_is (jget d ''client_id'' JNull) client)
               in if flt now expires \<and> \<not> same then Inl (LeaseHeld d)
                  else if same then
                    (case or_float (jget d ''acquired_at'' JNull) now of
                       Inl x \<Rightarrow> Inl (LeasePy x) | Inr a \<Rightarrow> Inr a)
                  else Inr now))"

definition acquire_lease ::
  "(json \<Rightarrow> string) \<Rightarrow> env \<Rightarrow> string \<times> int \<Rightarrow> string \<Rightarrow> string \<Rightarrow> string \<Rightarrow> string \<Rightarrow> int option \<Rightarrow>
   pyfloat option \<Rightarrow> pyfloat \<Rightarrow> directory \<Rightarrow> (lease_error + lease) \<times> directory" where
  "acquire_lease show_json e proc base venue account owner client ttl now dir =
     (if strip owner = [] then (Inl EmptyOwner, dir)
      else
        let p = lease_path base venue account
        in case acquired_time show_json owner client now (dir p) of
             Inl x \<Rightarrow> (Inl x, dir)
           | Inr a \<Rightarrow>
               let l = new_lease proc base venue account owner client (lease_ttl e ttl) now a
               in (Inr l, dir(p := Parsed (lease_json l))))"

definition refresh_lease ::
  "(json \<Rightarrow> string) \<Rightarrow> env \<Rightarrow> string \<times> int \<Rightarrow> lease \<Rightarrow> pyfloat \<Rightarrow> directory \<Rightarrow> (lease_error + lease) \<times> directory" where
  "refresh_lease show_json e proc l now dir =
     acquire_lease show_json e proc (parent_dir (el_path l)) (el_venue l) (el_account l) (el_owner l)
       (el_client l) (Some (el_ttl l)) now dir"

text \<open>\<open>ok\<close> is False when removing the file raises an OS error.\<close>

definition release_lease :: "(json \<Rightarrow> string) \<Rightarrow> bool \<Rightarrow> lease \<Rightarrow> directory \<Rightarrow> bool \<times> directory" where
  "release_lease show_json ok l dir =
     (case present_payload (dir (el_path l)) of
        None \<Rightarrow> (False, dir)
      | Some d \<Rightarrow>
          if or_text show_json (jget d ''owner'' JNull) [] \<noteq> el_owner l
             \<or> \<not> client_is (jget d ''client_id'' JNull) (el_client l) then (False, dir)
          else if ok then (True, dir(el_path l := Missing)) else (False, dir))"

section \<open>The lock file\<close>

text \<open>
  \<open>_file_lock\<close>, one step per system call, so that other processes may run between any two of
  them.  A process that tries creates the file or is refused; a refused one reads the age of the file
  and, when it is older than \<open>stale\<close> seconds, unlinks it and tries again at once; when the file is
  young or gone, or a call on it fails, it compares its deadline and raises the busy error or sleeps 0.05
  seconds.  The unlink takes away whatever file is there.  Leaving unlinks too, and an error of that
  unlink is suppressed.  Creating may fail otherwise, before the file is made or when writing into it,
  and a process may die anywhere.  \<open>time.time\<close>, the file's time stamps and
  \<open>time.monotonic\<close> are one clock.  The lock remembers its creation time; \<open>lock_by\<close> is its creator,
  which the code never looks at.  A step is labelled with the process that moves, none for the clock.
\<close>

datatype phase =
    Idle | Waiting rat | Refused rat | SawStale rat | Late rat | Asleep rat rat
  | Inside rat | GaveUp | Failed | Dead

record lock_world =
  lock_file :: "rat option"
  lock_by :: nat
  clock :: rat
  phases :: "nat \<Rightarrow> phase"

definition wait_s :: rat where
  "wait_s = 5"

definition stale_after :: "rat \<Rightarrow> rat" where
  "stale_after ttl = max 30 (ttl * 2)"

definition go :: "nat \<Rightarrow> phase \<Rightarrow> lock_world \<Rightarrow> lock_world" where
  "go p x w = w\<lparr>phases := (phases w)(p := x)\<rparr>"

inductive lock_step :: "rat \<Rightarrow> nat option \<Rightarrow> lock_world \<Rightarrow> lock_world \<Rightarrow> bool" for stale where
  Tick: "0 \<le> d \<Longrightarrow> lock_step stale None w (w\<lparr>clock := clock w + d\<rparr>)"
| Start: "phases w p \<in> {Idle, GaveUp, Failed} \<Longrightarrow> lock_step stale (Some p) w (go p (Waiting (clock w + wait_s)) w)"
| Enter: "phases w p = Waiting dl \<Longrightarrow> lock_file w = None \<Longrightarrow>
    lock_step stale (Some p) w (go p (Inside (clock w)) (w\<lparr>lock_file := Some (clock w), lock_by := p\<rparr>))"
| Refuse: "phases w p = Waiting dl \<Longrightarrow> lock_file w = Some m \<Longrightarrow> lock_step stale (Some p) w (go p (Refused dl) w)"
| OpenFails: "phases w p = Waiting dl \<Longrightarrow> lock_step stale (Some p) w (go p Failed w)"
| WriteFails: "phases w p = Waiting dl \<Longrightarrow> lock_file w = None \<Longrightarrow>
    lock_step stale (Some p) w (go p Failed (w\<lparr>lock_file := Some (clock w), lock_by := p\<rparr>))"
| StatOld: "phases w p = Refused dl \<Longrightarrow> lock_file w = Some m \<Longrightarrow> stale < clock w - m \<Longrightarrow>
    lock_step stale (Some p) w (go p (SawStale dl) w)"
| StatYoung: "phases w p = Refused dl \<Longrightarrow> lock_file w = Some m \<Longrightarrow> clock w - m \<le> stale \<Longrightarrow>
    lock_step stale (Some p) w (go p (Late dl) w)"
| StatFails: "phases w p = Refused dl \<Longrightarrow> lock_step stale (Some p) w (go p (Late dl) w)"
| Steal: "phases w p = SawStale dl \<Longrightarrow> lock_file w = Some m \<Longrightarrow>
    lock_step stale (Some p) w (go p (Waiting dl) (w\<lparr>lock_file := None\<rparr>))"
| StealFails: "phases w p = SawStale dl \<Longrightarrow> lock_step stale (Some p) w (go p (Late dl) w)"
| GiveUp: "phases w p = Late dl \<Longrightarrow> dl \<le> clock w \<Longrightarrow> lock_step stale (Some p) w (go p GaveUp w)"
| Sleep: "phases w p = Late dl \<Longrightarrow> clock w < dl \<Longrightarrow>
    lock_step stale (Some p) w (go p (Asleep dl (clock w + 1 / 20)) w)"
| Wake: "phases w p = Asleep dl u \<Longrightarrow> u \<le> clock w \<Longrightarrow> lock_step stale (Some p) w (go p (Waiting dl) w)"
| Leave: "phases w p = Inside t \<Longrightarrow> lock_step stale (Some p) w (go p Idle (w\<lparr>lock_file := None\<rparr>))"
| LeaveFails: "phases w p = Inside t \<Longrightarrow> lock_step stale (Some p) w (go p Idle w)"
| Crash: "lock_step stale (Some p) w (go p Dead w)"

inductive_cases lock_stepE: "lock_step stale a w w'"

inductive lock_run :: "rat \<Rightarrow> lock_world \<Rightarrow> nat option list \<Rightarrow> lock_world \<Rightarrow> bool" for stale where
  stop: "lock_run stale w [] w"
| more: "lock_step stale a w w1 \<Longrightarrow> lock_run stale w1 as w2 \<Longrightarrow> lock_run stale w (a # as) w2"

inductive_cases lock_run_NilE: "lock_run stale w [] w'"
inductive_cases lock_run_ConsE: "lock_run stale w (a # as) w'"

definition lock_start :: lock_world where
  "lock_start = \<lparr>lock_file = None, lock_by = 0, clock = 0, phases = (\<lambda>_. Idle)\<rparr>"

lemma go_simps [simp]:
  "phases (go p x w) = (phases w)(p := x)" "lock_file (go p x w) = lock_file w" "clock (go p x w) = clock w"
  "lock_by (go p x w) = lock_by w"
  by (simp_all add: go_def)

subsection \<open>Mutual exclusion\<close>

text \<open>
  A state is prompt when the lock file, if there is one, belongs to a process that is inside since it
  was made, at most \<open>stale\<close> seconds ago: nobody died inside, failed to write or failed to unlink.
\<close>

definition prompt :: "rat \<Rightarrow> lock_world \<Rightarrow> bool" where
  "prompt stale w = (\<forall>m. lock_file w = Some m \<longrightarrow> phases w (lock_by w) = Inside m \<and> clock w - m \<le> stale)"

inductive prompt_run :: "rat \<Rightarrow> lock_world \<Rightarrow> bool" for stale where
  start: "prompt_run stale lock_start"
| step: "prompt_run stale w \<Longrightarrow> lock_step stale a w w' \<Longrightarrow> prompt stale w' \<Longrightarrow> prompt_run stale w'"

definition owned :: "lock_world \<Rightarrow> bool" where
  "owned w = (\<forall>p. (\<forall>t. phases w p = Inside t \<longrightarrow> lock_file w = Some t \<and> lock_by w = p)
     \<and> (\<forall>dl. phases w p \<noteq> SawStale dl))"

lemma owned_unique: "owned w \<Longrightarrow> phases w p = Inside t \<Longrightarrow> phases w q = Inside u \<Longrightarrow> p = q"
  unfolding owned_def by metis

lemma owned_go: "owned w \<Longrightarrow> (\<And>t. x \<noteq> Inside t) \<Longrightarrow> (\<And>dl. x \<noteq> SawStale dl) \<Longrightarrow> owned (go p x w)"
  by (simp add: owned_def)

lemma owned_free: "owned w \<Longrightarrow> lock_file w = None \<Longrightarrow> phases w p \<noteq> Inside t"
  by (auto simp: owned_def)

lemma owned_step:
  assumes "lock_step stale a w w'" "owned w" "prompt stale w"
  shows "owned w'"
  using assms
proof cases
  case (StatOld p dl m)
  then show ?thesis using assms(3) by (auto simp: prompt_def)
next
  case (Enter p dl)
  then show ?thesis using assms(2) by (auto simp: owned_def)
next
  case (WriteFails p dl)
  then show ?thesis using assms(2) by (auto simp: owned_def)
next
  case (Leave p t)
  have "phases w' q \<noteq> Inside u" for q u
    using Leave(2,3) owned_unique [OF assms(2) Leave(3), of q u] by auto
  moreover have "phases w' q \<noteq> SawStale u" for q u
    using Leave(2) assms(2) by (simp add: owned_def)
  ultimately show ?thesis by (simp add: owned_def)
next
  case (Steal p dl m)
  then show ?thesis using assms(2) by (auto simp: owned_def)
next
  case (Tick d)
  then show ?thesis using assms(2) by (simp add: owned_def)
qed (simp_all add: owned_go [OF assms(2)])

lemma prompt_run_owned: "prompt_run stale w \<Longrightarrow> owned w \<and> prompt stale w"
proof (induction rule: prompt_run.induct)
  case start
  then show ?case by (simp add: owned_def prompt_def lock_start_def)
qed (use owned_step in blast)

lemma lock_run_trans: "lock_run stale w as w1 \<Longrightarrow> lock_run stale w1 bs w2 \<Longrightarrow> lock_run stale w (as @ bs) w2"
  by (induction rule: lock_run.induct) (auto intro: lock_run.intros)

subsection \<open>Waiting\<close>

text \<open>The deadline of a process that is still trying, and how trying ends.\<close>

fun deadline :: "phase \<Rightarrow> rat option" where
  "deadline (Waiting dl) = Some dl"
| "deadline (Refused dl) = Some dl"
| "deadline (SawStale dl) = Some dl"
| "deadline (Late dl) = Some dl"
| "deadline (Asleep dl u) = Some dl"
| "deadline _ = None"

fun ended :: "phase \<Rightarrow> bool" where
  "ended (Inside t) = True"
| "ended GaveUp = True"
| "ended Failed = True"
| "ended Dead = True"
| "ended _ = False"

text \<open>The steps of its own that a process past its deadline has left when the lock file is not older than \<open>c\<close>, or is.\<close>

fun steps_left :: "bool \<Rightarrow> phase \<Rightarrow> nat" where
  "steps_left fresh (Waiting dl) = (if fresh then 3 else 6)"
| "steps_left fresh (Refused dl) = (if fresh then 2 else 5)"
| "steps_left fresh (SawStale dl) = 4"
| "steps_left fresh (Late dl) = 1"
| "steps_left fresh (Asleep dl u) = (if fresh then 4 else 7)"
| "steps_left fresh _ = 0"

definition fresh_lock :: "rat \<Rightarrow> lock_world \<Rightarrow> bool" where
  "fresh_lock c w = (\<forall>m. lock_file w = Some m \<longrightarrow> c \<le> m)"

definition own_steps :: "nat \<Rightarrow> nat option list \<Rightarrow> nat" where
  "own_steps p as = length (filter (\<lambda>a. a = Some p) as)"

lemma own_steps_simps [simp]:
  "own_steps p [] = 0" "own_steps p (a # as) = (if a = Some p then 1 else 0) + own_steps p as"
  by (simp_all add: own_steps_def)

lemma steps_left_le: "steps_left fresh x \<le> steps_left False x"
  by (cases x) simp_all

lemma steps_left_bound: "steps_left fresh x \<le> 7"
  by (cases x) simp_all

lemma clock_step: "lock_step stale a w w' \<Longrightarrow> clock w \<le> clock w'"
  by (induction rule: lock_step.induct) simp_all

lemma clock_run: "lock_run stale w as w' \<Longrightarrow> clock w \<le> clock w'"
  by (induction rule: lock_run.induct) (auto dest: clock_step)

text \<open>A file stays as fresh as it was: only files made later take its place.\<close>

lemma fresh_step: "lock_step stale a w w' \<Longrightarrow> c \<le> clock w \<Longrightarrow> fresh_lock c w \<Longrightarrow> fresh_lock c w'"
  by (induction rule: lock_step.induct) (auto simp: fresh_lock_def)

lemma other_step: "lock_step stale a w w' \<Longrightarrow> a \<noteq> Some p \<Longrightarrow> phases w' p = phases w p"
  by (induction rule: lock_step.induct) auto

lemma own_step:
  assumes "lock_step stale (Some p) w w'" "deadline (phases w p) = Some dl" "dl \<le> clock w"
    "c \<le> clock w" "clock w \<le> c + stale"
  shows "ended (phases w' p) \<or> deadline (phases w' p) = Some dl
    \<and> steps_left (fresh_lock c w') (phases w' p) < steps_left (fresh_lock c w) (phases w p)"
  using assms
proof cases
  case (StatOld dl m)
  then have "\<not> fresh_lock c w" using assms(5) by (auto simp: fresh_lock_def)
  then show ?thesis using StatOld assms(2) by simp
next
  case (Steal dl m)
  then show ?thesis using assms(2) by (simp add: fresh_lock_def)
qed (use assms(2,3) in \<open>auto simp: fresh_lock_def\<close>)

lemma waiting_run:
  assumes "lock_run stale w as w'" "deadline (phases w p) = Some dl" "dl \<le> clock w"
    "c \<le> clock w" "clock w' \<le> c + stale"
  shows "(\<exists>as1 as2 w1. as = as1 @ as2 \<and> lock_run stale w as1 w1 \<and> lock_run stale w1 as2 w'
      \<and> own_steps p as1 \<le> steps_left (fresh_lock c w) (phases w p) \<and> ended (phases w1 p))
    \<or> deadline (phases w' p) = Some dl \<and> own_steps p as < steps_left (fresh_lock c w) (phases w p)"
  using assms
proof (induction rule: lock_run.induct)
  case (stop w)
  then show ?case by (cases "phases w p") auto
next
  case (more a w w1 as w2)
  have c1: "clock w \<le> clock w1" "clock w1 \<le> clock w2" using clock_step [OF more(1)] clock_run [OF more(2)] by simp_all
  show ?case
  proof (cases "a = Some p")
    case False
    have same: "phases w1 p = phases w p" by (rule other_step [OF more(1) False])
    have le: "steps_left (fresh_lock c w1) (phases w p) \<le> steps_left (fresh_lock c w) (phases w p)"
      using fresh_step [OF more(1,6)] steps_left_le [of "fresh_lock c w1" "phases w p"] by (cases "fresh_lock c w") auto
    from more.IH more.prems c1 same have IH: "(\<exists>as1 as2 u. as = as1 @ as2 \<and> lock_run stale w1 as1 u \<and> lock_run stale u as2 w2
        \<and> own_steps p as1 \<le> steps_left (fresh_lock c w1) (phases w p) \<and> ended (phases u p))
      \<or> deadline (phases w2 p) = Some dl \<and> own_steps p as < steps_left (fresh_lock c w1) (phases w p)" by simp
    then show ?thesis
    proof (elim disjE exE conjE)
      fix as1 as2 u
      assume u: "as = as1 @ as2" "lock_run stale w1 as1 u" "lock_run stale u as2 w2"
        "own_steps p as1 \<le> steps_left (fresh_lock c w1) (phases w p)" "ended (phases u p)"
      then have "lock_run stale w (a # as1) u" "own_steps p (a # as1) \<le> steps_left (fresh_lock c w) (phases w p)"
        using lock_run.more [OF more(1) u(2)] False le by simp_all
      then show ?thesis using u by (metis append_Cons)
    qed (use False le in auto)
  next
    case own: True
    from own_step [OF more(1) [unfolded own] more.prems(1,2,3)] more.prems(4) c1
    have st: "ended (phases w1 p) \<or> deadline (phases w1 p) = Some dl
      \<and> steps_left (fresh_lock c w1) (phases w1 p) < steps_left (fresh_lock c w) (phases w p)" by simp
    have pos: "0 < steps_left (fresh_lock c w) (phases w p)" using more.prems(1) by (cases "phases w p") auto
    show ?thesis
    proof (cases "ended (phases w1 p)")
      case True
      have "lock_run stale w [a] w1" by (rule lock_run.more [OF more(1) lock_run.stop])
      moreover have "own_steps p [a] \<le> steps_left (fresh_lock c w) (phases w p)" using pos own by simp
      ultimately show ?thesis using True more(2) by (metis append_Cons append_Nil)
    next
      case False
      with st have st: "deadline (phases w1 p) = Some dl"
        "steps_left (fresh_lock c w1) (phases w1 p) < steps_left (fresh_lock c w) (phases w p)" by simp_all
      from more.IH [OF st(1)] more.prems c1 have IH: "(\<exists>as1 as2 u. as = as1 @ as2 \<and> lock_run stale w1 as1 u
          \<and> lock_run stale u as2 w2 \<and> own_steps p as1 \<le> steps_left (fresh_lock c w1) (phases w1 p) \<and> ended (phases u p))
        \<or> deadline (phases w2 p) = Some dl \<and> own_steps p as < steps_left (fresh_lock c w1) (phases w1 p)" by simp
      then show ?thesis
      proof (elim disjE exE conjE)
        fix as1 as2 u
        assume u: "as = as1 @ as2" "lock_run stale w1 as1 u" "lock_run stale u as2 w2"
          "own_steps p as1 \<le> steps_left (fresh_lock c w1) (phases w1 p)" "ended (phases u p)"
        then have "lock_run stale w (a # as1) u" "own_steps p (a # as1) \<le> steps_left (fresh_lock c w) (phases w p)"
          using lock_run.more [OF more(1) u(2)] own st(2) by simp_all
        then show ?thesis using u by (metis append_Cons)
      qed (use own st(2) in auto)
    qed
  qed
qed

text \<open>A process past its deadline can always move, unless it has to sleep to the end first.\<close>

lemma can_move:
  assumes "deadline (phases w p) = Some dl" "dl \<le> clock w" "\<And>u. phases w p = Asleep dl u \<Longrightarrow> u \<le> clock w"
  shows "\<exists>w'. lock_step stale (Some p) w w' \<and> phases w' p \<notin> {Failed, Dead}"
proof (cases "phases w p")
  case (Waiting d)
  show ?thesis
  proof (cases "lock_file w")
    case None
    show ?thesis by (rule exI, rule conjI, rule lock_step.Enter [OF Waiting None]) simp
  next
    case (Some m)
    show ?thesis by (rule exI, rule conjI, rule lock_step.Refuse [OF Waiting Some]) simp
  qed
next
  case (Refused d)
  show ?thesis by (rule exI, rule conjI, rule lock_step.StatFails [OF Refused]) simp
next
  case (SawStale d)
  show ?thesis by (rule exI, rule conjI, rule lock_step.StealFails [OF SawStale]) simp
next
  case (Late d)
  with assms have d: "d \<le> clock w" by simp
  show ?thesis by (rule exI, rule conjI, rule lock_step.GiveUp [OF Late d]) simp
next
  case (Asleep d u)
  with assms have u: "u \<le> clock w" by simp
  show ?thesis by (rule exI, rule conjI, rule lock_step.Wake [OF Asleep u]) simp
qed (use assms(1) in simp_all)

section \<open>Lemmas: leases\<close>

lemma no_slash_strip: "c \<notin> set v \<Longrightarrow> c \<notin> set (strip_by P v)"
  by (metis (no_types, lifting) lstrip_by_def rstrip_by_def set_dropWhileD set_rev strip_by_def)

lemma map_avoids: "(\<And>x. f x \<noteq> c) \<Longrightarrow> c \<notin> set (map f v)"
  by (simp add: image_iff) metis

lemma clean_token_no_slash: "CHR ''/'' \<notin> set (clean_token v)"
proof -
  let ?c = "\<lambda>c. if is_alnum c \<or> c \<in> {CHR ''-'', CHR ''_'', CHR ''.''} then c else CHR ''_''"
  have a: "\<not> is_alnum (CHR ''/'')" by code_simp
  have "?c x \<noteq> CHR ''/''" for x
  proof (cases "x = CHR ''/''")
    case True
    then show ?thesis using a by simp
  next
    case False
    then show ?thesis by (simp split: if_split)
  qed
  then have "CHR ''/'' \<notin> set (map ?c v)" by (rule map_avoids)
  from no_slash_strip [OF this] show ?thesis unfolding clean_token_def Let_def
    by (simp only: split: if_split) simp
qed

lemma parent_lease_path: "parent_dir (lease_path base venue account) = base"
proof -
  let ?t = "clean_token venue @ ''_'' @ clean_token account @ ''.json''"
  have "CHR ''/'' \<notin> set (rev ?t)" using clean_token_no_slash by simp
  then have "dropWhile (\<lambda>c. c \<noteq> CHR ''/'') (rev ?t @ CHR ''/'' # rev base) = CHR ''/'' # rev base"
    by (subst dropWhile_append2) auto
  then show ?thesis by (simp add: parent_dir_def lease_path_def)
qed

lemma payload_of_lease [simp]:
  "present_payload (Parsed (lease_json l)) \<noteq> None"
  by (simp add: present_payload_def read_payload_def lease_json_def)

lemma or_float_lease: "or_float (JFloat x) (Fin 0) = Inr x"
  by (simp add: or_float_def float_truthy_def)

lemma client_is_jopt [simp]: "client_is (jopt JInt a) b = (a = b)"
  by (cases a; cases b) (auto simp: client_is_def jopt_def)

lemma acquired_time_other:
  assumes "f = Parsed (lease_json l)" "flt now (el_expires l)"
    "el_owner l \<noteq> owner \<or> client \<noteq> None \<and> el_client l \<noteq> client"
  shows "\<exists>d. acquired_time show_json owner client now f = Inl (LeaseHeld d)"
  using assms
  by (auto simp: acquired_time_def present_payload_def read_payload_def lease_json_def jget_def
      dget_or_def or_float_lease)

lemma release_other:
  assumes "dir (el_path l) = Parsed (lease_json k)" "(el_owner k, el_client k) \<noteq> (el_owner l, el_client l)"
  shows "release_lease show_json ok l dir = (False, dir)"
  using assms
  by (auto simp: release_lease_def present_payload_def read_payload_def lease_json_def jget_def
      dget_or_def)

subsection \<open>Runs of lease operations\<close>

text \<open>
  Processes acquire, refresh and release at times that do not go back.  \<open>lw_held\<close> remembers, per
  file, owner and client, the lease object the last acquisition returned, until it is released.
\<close>

type_synonym client = "string \<times> int option"

record lease_world =
  lw_dir :: directory
  lw_now :: rat
  lw_held :: "string \<Rightarrow> client \<Rightarrow> lease option"

datatype lease_op =
    Acquire string string string "int option" "pyfloat option"
  | Refresh lease
  | Release lease bool

definition client_of :: "lease \<Rightarrow> client" where
  "client_of l = (el_owner l, el_client l)"

definition take_lease :: "rat \<Rightarrow> (lease_error + lease) \<times> directory \<Rightarrow> lease_world \<Rightarrow> lease_world" where
  "take_lease t r w =
     (case r of
        (Inr l, dir) \<Rightarrow> \<lparr>lw_dir = dir, lw_now = t,
          lw_held = (lw_held w)(el_path l := (lw_held w (el_path l))(client_of l \<mapsto> l))\<rparr>
      | (Inl _, dir) \<Rightarrow> w\<lparr>lw_dir := dir, lw_now := t\<rparr>)"

definition lease_step ::
  "(json \<Rightarrow> string) \<Rightarrow> env \<Rightarrow> string \<Rightarrow> lease_world \<Rightarrow> rat \<times> (string \<times> int) \<times> lease_op \<Rightarrow> lease_world" where
  "lease_step show_json e base w ev =
     (case ev of (d, proc, op) \<Rightarrow>
        let t = lw_now w + d
        in case op of
             Acquire v a ow c ttl \<Rightarrow>
               take_lease t (acquire_lease show_json e proc base v a ow c ttl (Fin t) (lw_dir w)) w
           | Refresh l \<Rightarrow> take_lease t (refresh_lease show_json e proc l (Fin t) (lw_dir w)) w
           | Release l ok \<Rightarrow>
               (case release_lease show_json ok l (lw_dir w) of
                  (True, dir) \<Rightarrow> \<lparr>lw_dir = dir, lw_now = t,
                    lw_held = (lw_held w)(el_path l := (lw_held w (el_path l))(client_of l := None))\<rparr>
                | (False, dir) \<Rightarrow> w\<lparr>lw_dir := dir, lw_now := t\<rparr>))"

text \<open>Every client names its client id, and time does not go back.\<close>

definition named_op :: "rat \<times> (string \<times> int) \<times> lease_op \<Rightarrow> bool" where
  "named_op ev =
     (case ev of (d, _, op) \<Rightarrow> 0 \<le> d \<and>
        (case op of Acquire _ _ _ c _ \<Rightarrow> c \<noteq> None | Refresh l \<Rightarrow> el_client l \<noteq> None | Release _ _ \<Rightarrow> True))"

text \<open>A lease somebody holds and that has not expired is the one in the file.\<close>

definition lease_inv :: "lease_world \<Rightarrow> bool" where
  "lease_inv w = (\<forall>p x l. lw_held w p x = Some l \<longrightarrow>
     client_of l = x \<and> (flt (Fin (lw_now w)) (el_expires l) \<longrightarrow> lw_dir w p = Parsed (lease_json l)))"

lemma lease_invD:
  "lease_inv w \<Longrightarrow> lw_held w p x = Some l \<Longrightarrow> client_of l = x"
  "lease_inv w \<Longrightarrow> lw_held w p x = Some l \<Longrightarrow> flt (Fin (lw_now w)) (el_expires l) \<Longrightarrow>
   lw_dir w p = Parsed (lease_json l)"
  unfolding lease_inv_def by blast+

lemma later_live: "lw_now w \<le> t \<Longrightarrow> flt (Fin t) x \<Longrightarrow> flt (Fin (lw_now w)) x"
  by (cases x) auto

lemma idle_inv:
  assumes "lease_inv w" "lw_now w \<le> t"
  shows "lease_inv (w\<lparr>lw_dir := lw_dir w, lw_now := t\<rparr>)"
  using lease_invD [OF assms(1)] later_live [OF assms(2)] unfolding lease_inv_def by simp

lemma acquire_cases:
  assumes "acquire_lease show_json e proc base v a ow c ttl now dir = (r, dir')"
  obtains (refused) x where "r = Inl x" "dir' = dir"
  | (granted) l where "r = Inr l" "dir' = dir(el_path l := Parsed (lease_json l))"
      "el_path l = lease_path base v a" "client_of l = (ow, c)" "el_expires l = fadd now (lease_ttl e ttl)"
      "\<exists>u. acquired_time show_json ow c now (dir (el_path l)) = Inr u"
  using assms
  by (auto simp: acquire_lease_def Let_def new_lease_def client_of_def split: if_splits sum.splits)

lemma take_lease_inv:
  assumes inv: "lease_inv w" and t: "lw_now w \<le> t" and c: "c \<noteq> None"
    and r: "acquire_lease show_json e proc base v a ow c ttl (Fin t) (lw_dir w) = (r, dir')"
  shows "lease_inv (take_lease t (r, dir') w)"
  using r
proof (cases rule: acquire_cases)
  case refused
  with idle_inv [OF inv t] show ?thesis by (simp add: take_lease_def)
next
  case (granted l)
  have other: "\<not> flt (Fin t) (el_expires k)" if "lw_held w (el_path l) x = Some k" "x \<noteq> (ow, c)" for x k
  proof
    assume live: "flt (Fin t) (el_expires k)"
    then have "lw_dir w (el_path l) = Parsed (lease_json k)"
      using lease_invD(2) [OF inv that(1)] later_live [OF t] by blast
    moreover have "client_of k \<noteq> (ow, c)" using lease_invD(1) [OF inv that(1)] that(2) by simp
    ultimately show False
      using acquired_time_other [OF _ live, of "lw_dir w (el_path l)" ow c show_json] c granted(6)
      by (auto simp: client_of_def)
  qed
  show ?thesis unfolding lease_inv_def
  proof (intro allI impI conjI)
    fix p x k
    assume k: "lw_held (take_lease t (r, dir') w) p x = Some k"
    show "client_of k = x"
      using k lease_invD(1) [OF inv] granted by (auto simp: take_lease_def split: if_splits)
    assume "flt (Fin (lw_now (take_lease t (r, dir') w))) (el_expires k)"
    then have live: "flt (Fin t) (el_expires k)" using granted(1) by (simp add: take_lease_def)
    show "lw_dir (take_lease t (r, dir') w) p = Parsed (lease_json k)"
    proof (cases "p = el_path l")
      case True
      then have "x = (ow, c)" using k granted other live
        by (auto simp: take_lease_def split: if_splits)
      then show ?thesis using True k granted by (simp add: take_lease_def)
    next
      case False
      then have "lw_held w p x = Some k" using k granted(1) by (simp add: take_lease_def)
      then show ?thesis using lease_invD(2) [OF inv] later_live [OF t live] False granted
        by (simp add: take_lease_def)
    qed
  qed
qed

lemma release_inv:
  assumes inv: "lease_inv w" and t: "lw_now w \<le> t"
    and r: "release_lease show_json ok l (lw_dir w) = (True, dir')"
  shows "lease_inv \<lparr>lw_dir = dir', lw_now = t,
           lw_held = (lw_held w)(el_path l := (lw_held w (el_path l))(client_of l := None))\<rparr>"
proof -
  have dir: "dir' = (lw_dir w)(el_path l := Missing)"
    using r by (auto simp: release_lease_def split: option.splits if_splits)
  have gone: "\<not> flt (Fin t) (el_expires k)" if "lw_held w (el_path l) x = Some k" "x \<noteq> client_of l" for x k
  proof
    assume "flt (Fin t) (el_expires k)"
    then have "lw_dir w (el_path l) = Parsed (lease_json k)"
      using lease_invD(2) [OF inv that(1)] later_live [OF t] by blast
    moreover have "client_of k \<noteq> client_of l" using lease_invD(1) [OF inv that(1)] that(2) by simp
    ultimately show False
      using r release_other [of "lw_dir w" l k show_json ok] by (auto simp: client_of_def)
  qed
  show ?thesis
    using lease_invD [OF inv] later_live [OF t] gone
    unfolding lease_inv_def dir by (auto split: if_splits)
qed

lemma lease_step_inv:
  assumes "lease_inv w" "named_op ev"
  shows "lease_inv (lease_step show_json e base w ev)"
proof -
  obtain d proc op where ev: "ev = (d, proc, op)" by (cases ev) auto
  have t: "lw_now w \<le> lw_now w + d" using assms(2) by (simp add: named_op_def ev)
  show ?thesis
  proof (cases op)
    case (Acquire v a ow c ttl)
    then show ?thesis using take_lease_inv [OF assms(1) t] assms(2)
      by (auto simp: lease_step_def ev named_op_def Let_def) (metis prod.collapse)
  next
    case (Refresh l)
    then show ?thesis using take_lease_inv [OF assms(1) t] assms(2)
      by (auto simp: lease_step_def ev named_op_def Let_def refresh_lease_def) (metis prod.collapse)
  next
    case (Release l ok)
    obtain b dir where r: "release_lease show_json ok l (lw_dir w) = (b, dir)" by fastforce
    have "\<not> b \<Longrightarrow> dir = lw_dir w"
      using r by (auto simp: release_lease_def split: option.splits if_splits)
    then show ?thesis using release_inv [OF assms(1) t] idle_inv [OF assms(1) t] r
      by (cases b) (simp_all add: lease_step_def ev Release)
  qed
qed

interpretation leases: machine "lease_step show_json e base" lease_inv named_op
  for show_json e base
  by unfold_locales (rule lease_step_inv)

subsection \<open>Who holds what\<close>

definition live_clients :: "lease_world \<Rightarrow> string \<Rightarrow> client set" where
  "live_clients w p =
     {x. case lw_held w p x of Some l \<Rightarrow> flt (Fin (lw_now w)) (el_expires l) | None \<Rightarrow> False}"

definition insiders :: "lock_world \<Rightarrow> nat set" where
  "insiders w = {p. case phases w p of Inside _ \<Rightarrow> True | _ \<Rightarrow> False}"

lemma live_clientsE:
  assumes "x \<in> live_clients w p"
  obtains l where "lw_held w p x = Some l" "flt (Fin (lw_now w)) (el_expires l)"
  using assms by (cases "lw_held w p x") (simp_all add: live_clients_def)

lemma insidersE:
  assumes "p \<in> insiders w"
  obtains t where "phases w p = Inside t"
  using assms by (cases "phases w p") (simp_all add: insiders_def)

lemma lease_json_client: "lease_json k = lease_json l \<Longrightarrow> client_of k = client_of l"
proof -
  assume "lease_json k = lease_json l"
  then have "el_owner k = el_owner l" "jopt JInt (el_client k) = jopt JInt (el_client l)"
    by (auto simp: lease_json_def)
  moreover from this(2) have "el_client k = el_client l"
    using client_is_jopt [of "el_client k" "el_client l"] client_is_jopt [of "el_client l" "el_client l"]
    by metis
  ultimately show ?thesis by (simp add: client_of_def)
qed

lemma live_unique:
  assumes "lease_inv w" "x \<in> live_clients w p" "y \<in> live_clients w p"
  shows "x = y"
proof -
  obtain k where k: "lw_held w p x = Some k" "flt (Fin (lw_now w)) (el_expires k)"
    using assms(2) by (rule live_clientsE)
  obtain l where l: "lw_held w p y = Some l" "flt (Fin (lw_now w)) (el_expires l)"
    using assms(3) by (rule live_clientsE)
  have "lease_json k = lease_json l"
    using lease_invD(2) [OF assms(1) k] lease_invD(2) [OF assms(1) l] by simp
  from lease_json_client [OF this] show ?thesis
    using lease_invD(1) [OF assms(1) k(1)] lease_invD(1) [OF assms(1) l(1)] by simp
qed

section \<open>Properties\<close>

definition empty_world :: "directory \<Rightarrow> rat \<Rightarrow> lease_world" where
  "empty_world dir t = \<lparr>lw_dir = dir, lw_now = t, lw_held = (\<lambda>_ _. None)\<rparr>"

definition demo_ops :: "(rat \<times> (string \<times> int) \<times> lease_op) list" where
  "demo_ops = [(0, (''h'', 1), Acquire ''ibkr'' ''DU1'' ''router'' (Some 11) (Some (Fin 10))),
               (5, (''h'', 2), Acquire ''ibkr'' ''DU1'' ''bridge'' (Some 12) (Some (Fin 10)))]"

definition demo_world :: lease_world where
  "demo_world = foldl (lease_step (\<lambda>_. []) (\<lambda>_. None) ''r'') (empty_world (\<lambda>_. Missing) 100) demo_ops"

text \<open>
  C12. One writer per account: whatever processes acquire, refresh and release, in any order and with
  any leases found on disk at the start, at every moment at most one client (owner and client id)
  holds an unexpired lease of a lease file, as long as every client names its client id.
\<close>

theorem lease_exclusive:
  assumes "list_all named_op evs"
  shows "\<exists>x. live_clients (foldl (lease_step show_json e base) (empty_world dir t) evs) p \<subseteq> {x}"
proof -
  have "lease_inv (empty_world dir t)" by (simp add: lease_inv_def empty_world_def)
  from leases.run_inv [OF this assms]
  have "lease_inv (foldl (lease_step show_json e base) (empty_world dir t) evs)" .
  from live_unique [OF this] show ?thesis by blast
qed

theorem lease_exclusive_witness:
  "live_clients demo_world (lease_path ''r'' ''ibkr'' ''DU1'') = {(''router'', Some 11)}"
proof -
  have "list_all named_op demo_ops" by (simp add: demo_ops_def named_op_def)
  from lease_exclusive [OF this, of "\<lambda>_. []" "\<lambda>_. None" "''r''" "\<lambda>_. Missing" 100]
  have "\<exists>x. live_clients demo_world (lease_path ''r'' ''ibkr'' ''DU1'') \<subseteq> {x}"
    unfolding demo_world_def .
  moreover have "case lw_held demo_world (lease_path ''r'' ''ibkr'' ''DU1'') (''router'', Some 11) of
      Some l \<Rightarrow> flt (Fin (lw_now demo_world)) (el_expires l) | None \<Rightarrow> False"
    by code_simp
  then have "(''router'', Some 11) \<in> live_clients demo_world (lease_path ''r'' ''ibkr'' ''DU1'')"
    by (simp add: live_clients_def)
  ultimately show ?thesis by blast
qed

text \<open>
  The lock file excludes: as long as the lock file always belongs to a process that is inside for at most the stale limit,
  no interleaving of the system calls puts two processes inside.
\<close>

theorem lock_excludes:
  assumes "prompt_run (stale_after ttl) w"
  shows "\<exists>q. insiders w \<subseteq> {q}"
proof -
  have "owned w" using prompt_run_owned [OF assms] by simp
  then have "p = q" if "p \<in> insiders w" "q \<in> insiders w" for p q
    using that owned_unique by (blast elim: insidersE)
  then show ?thesis by blast
qed

definition demo_inside :: lock_world where
  "demo_inside = lock_start\<lparr>lock_file := Some 0, lock_by := 7, phases := (\<lambda>_. Idle)(7 := Inside 0)\<rparr>"

theorem lock_excludes_witness: "insiders demo_inside = {7}"
proof -
  let ?w = "go 7 (Waiting (clock lock_start + wait_s)) lock_start"
  have "prompt_run (stale_after 300) ?w"
    by (rule prompt_run.step [OF prompt_run.start lock_step.Start]) (simp_all add: lock_start_def prompt_def)
  then have "prompt_run (stale_after 300) (go 7 (Inside (clock ?w)) (?w\<lparr>lock_file := Some (clock ?w), lock_by := 7\<rparr>))"
    by (rule prompt_run.step [OF _ lock_step.Enter [where dl = "clock lock_start + wait_s"]])
      (simp_all add: lock_start_def prompt_def stale_after_def)
  then have "prompt_run (stale_after 300) demo_inside" by (simp add: demo_inside_def lock_start_def go_def)
  from lock_excludes [OF this] show ?thesis by (auto simp: demo_inside_def insiders_def split: if_splits)
qed

text \<open>
  C29. No process waits forever: whatever the processes do, in any run of at most the stale limit that starts with a
  process past its deadline and still trying, either the process is done with trying (inside the lock, with the busy error, with
  another error, or dead) after at most seven system calls of its own, or it has made fewer than seven and the run can go
  on with its next call, unless it has to sleep out its 0.05 seconds first.  This covers unlinks that fail and lock files that
  others make, leave and take away in between.
\<close>

theorem wait_ends:
  assumes "lock_run stale w as w'" "deadline (phases w p) = Some dl" "dl \<le> clock w" "clock w' \<le> clock w + stale"
  shows "(\<exists>as1 as2 w1. as = as1 @ as2 \<and> lock_run stale w as1 w1 \<and> lock_run stale w1 as2 w'
      \<and> own_steps p as1 \<le> 7 \<and> ended (phases w1 p))
    \<or> deadline (phases w' p) = Some dl \<and> own_steps p as < 7
      \<and> ((\<exists>u. phases w' p = Asleep dl u \<and> clock w' < u)
         \<or> (\<exists>w2. lock_step stale (Some p) w' w2 \<and> phases w2 p \<notin> {Failed, Dead}))"
proof -
  have "steps_left (fresh_lock (clock w) w) (phases w p) \<le> 7" by (rule steps_left_bound)
  moreover have "dl \<le> clock w'" using clock_run [OF assms(1)] assms(3) by simp
  then have "deadline (phases w' p) = Some dl \<Longrightarrow> (\<exists>u. phases w' p = Asleep dl u \<and> clock w' < u)
      \<or> (\<exists>w2. lock_step stale (Some p) w' w2 \<and> phases w2 p \<notin> {Failed, Dead})"
    using can_move [of w' p dl stale] by (metis not_le)
  moreover have "(\<exists>as1 as2 w1. as = as1 @ as2 \<and> lock_run stale w as1 w1 \<and> lock_run stale w1 as2 w'
      \<and> own_steps p as1 \<le> steps_left (fresh_lock (clock w) w) (phases w p) \<and> ended (phases w1 p))
    \<or> deadline (phases w' p) = Some dl \<and> own_steps p as < steps_left (fresh_lock (clock w) w) (phases w p)"
    by (rule waiting_run [OF assms(1-3) order_refl assms(4)])
  ultimately show ?thesis by (elim disjE exE conjE) (blast dest: le_trans, simp)
qed

text \<open>A process that waits behind an old lock unlinks it and gets inside.\<close>

lemma stealing_run:
  assumes "phases w p = Waiting dl" "lock_file w = Some m" "stale < clock w - m"
  shows "\<exists>w'. lock_run stale w [Some p, Some p, Some p, Some p] w' \<and> phases w' p = Inside (clock w) \<and> clock w' = clock w
    \<and> lock_file w' = Some (clock w) \<and> (\<forall>q. q \<noteq> p \<longrightarrow> phases w' q = phases w q)"
proof -
  define w1 where "w1 = go p (Refused dl) w"
  define w2 where "w2 = go p (SawStale dl) w1"
  define w3 where "w3 = go p (Waiting dl) (w2\<lparr>lock_file := None\<rparr>)"
  define w4 where "w4 = go p (Inside (clock w3)) (w3\<lparr>lock_file := Some (clock w3), lock_by := p\<rparr>)"
  have "lock_step stale (Some p) w w1" unfolding w1_def using assms by (intro lock_step.Refuse)
  moreover have "lock_step stale (Some p) w1 w2" unfolding w2_def
    using assms by (intro lock_step.StatOld) (auto simp: w1_def)
  moreover have "lock_step stale (Some p) w2 w3" unfolding w3_def
    using assms by (intro lock_step.Steal) (auto simp: w2_def w1_def)
  moreover have "lock_step stale (Some p) w3 w4" unfolding w4_def
    by (rule lock_step.Enter) (simp_all add: w3_def)
  ultimately have "lock_run stale w [Some p, Some p, Some p, Some p] w4" by (blast intro: lock_run.intros)
  then show ?thesis by (intro exI [of _ w4] conjI) (simp_all add: w4_def w3_def w2_def w1_def)
qed

theorem wait_ends_witness:
  "\<exists>as w'. lock_run 60 (demo_inside\<lparr>clock := 100, phases := (\<lambda>_. Waiting 5)\<rparr>) as w' \<and> own_steps 8 as \<le> 7
     \<and> ended (phases w' 8)"
proof -
  let ?w = "demo_inside\<lparr>clock := 100, phases := (\<lambda>_. Waiting 5)\<rparr>"
  obtain w' where r: "lock_run 60 ?w [Some 8, Some 8, Some 8, Some 8] w'" "phases w' 8 = Inside (clock ?w)" "clock w' = clock ?w"
    using stealing_run [of ?w 8 5 0 60] by (auto simp: demo_inside_def)
  from wait_ends [OF r(1), of 8 5] r(2,3) show ?thesis by auto
qed

section \<open>Corners\<close>

text \<open>
  After a crash inside, two waiting processes can both see the old lock; the second unlinks the
  fresh lock of the first, and both are inside, however short their sections are.
\<close>

lemma two_stealers_inside:
  assumes "phases w p = Waiting d1" "phases w q = Waiting d2" "p \<noteq> q"
    "lock_file w = Some m" "stale < clock w - m"
  shows "\<exists>as w'. lock_run stale w as w' \<and> clock w' = clock w
    \<and> phases w' p = Inside (clock w) \<and> phases w' q = Inside (clock w)"
proof -
  define w1 where "w1 = go q (Refused d2) w"
  define w2 where "w2 = go q (SawStale d2) w1"
  have q: "lock_step stale (Some q) w w1" "lock_step stale (Some q) w1 w2"
    unfolding w1_def w2_def using assms by (auto intro!: lock_step.Refuse lock_step.StatOld)
  obtain w3 where w3: "lock_run stale w2 [Some p, Some p, Some p, Some p] w3" "phases w3 p = Inside (clock w)" "clock w3 = clock w"
    "phases w3 q = SawStale d2" "lock_file w3 = Some (clock w)"
    using stealing_run [of w2 p d1 m stale] assms by (auto simp: w2_def w1_def)
  define w4 where "w4 = go q (Waiting d2) (w3\<lparr>lock_file := None\<rparr>)"
  define w5 where "w5 = go q (Inside (clock w4)) (w4\<lparr>lock_file := Some (clock w4), lock_by := q\<rparr>)"
  have "lock_step stale (Some q) w3 w4" unfolding w4_def using w3 by (intro lock_step.Steal)
  moreover have "lock_step stale (Some q) w4 w5" unfolding w5_def
    by (rule lock_step.Enter) (simp_all add: w4_def)
  ultimately have "lock_run stale w3 [Some q, Some q] w5" by (blast intro: lock_run.intros)
  with w3(1) have "lock_run stale w2 ([Some p, Some p, Some p, Some p] @ [Some q, Some q]) w5" by (rule lock_run_trans)
  then have "lock_run stale w (Some q # Some q # [Some p, Some p, Some p, Some p] @ [Some q, Some q]) w5"
    using q by (blast intro: lock_run.more)
  then show ?thesis
    using assms(3) w3 by (intro exI conjI) (assumption, simp_all add: w5_def w4_def)
qed

text \<open>
  A caller without a client id takes over the unexpired lease of another client id of its owner.
\<close>

lemma anonymous_client_takes_over:
  assumes "strip (el_owner l) \<noteq> []" "dir (lease_path base v a) = Parsed (lease_json l)"
  shows "\<exists>k dir'. acquire_lease show_json e proc base v a (el_owner l) None ttl now dir = (Inr k, dir')
    \<and> el_client k = None"
  using assms
  by (auto simp: acquire_lease_def acquired_time_def present_payload_def read_payload_def lease_json_def
      jget_def dget_or_def or_float_lease new_lease_def or_float_def Let_def)

text \<open>A lease file that cannot be parsed is treated as free.\<close>

lemma damaged_lease_is_free:
  assumes "strip owner \<noteq> []" "dir (lease_path base v a) = Garbled"
  shows "\<exists>k dir'. acquire_lease show_json e proc base v a owner c ttl now dir = (Inr k, dir')"
  using assms by (simp add: acquire_lease_def acquired_time_def present_payload_def read_payload_def Let_def)

end
