(* ===== verification/Decimal.thy ===== *)
theory Decimal
  imports Prelude
begin

text \<open>\<open>str(n)\<close> of a natural number, which event numbers and one-time codes are written with.\<close>

section \<open>Decimal text of a counter\<close>

definition digit_of :: "nat \<Rightarrow> char" where
  "digit_of n = char_of (48 + n)"

fun show_nat :: "nat \<Rightarrow> string" where
  "show_nat n = (if n < 10 then [digit_of n] else show_nat (n div 10) @ [digit_of (n mod 10)])"

declare show_nat.simps [simp del]

lemma code_of_digit: "n < 10 \<Longrightarrow> code_of (digit_of n) = 48 + n"
  by (simp add: code_of_def digit_of_def)

lemma digits_value_show_nat: "digits_value (show_nat n) = int n"
proof (induction n rule: show_nat.induct)
  case (1 n)
  show ?case
  proof (cases "n < 10")
    case True
    then show ?thesis by (simp add: show_nat.simps [of n] digits_value_def code_of_digit)
  next
    case False
    with 1 have "digits_value (show_nat n) = 10 * int (n div 10) + int (n mod 10)"
      by (simp add: show_nat.simps [of n] digits_value_def code_of_digit)
    then show ?thesis by (simp add: zdiv_int zmod_int)
  qed
qed

lemma show_nat_inj: "show_nat m = show_nat n \<Longrightarrow> m = n"
  using digits_value_show_nat by (metis of_nat_eq_iff)

lemma is_digit_of: "n < 10 \<Longrightarrow> is_digit (digit_of n)"
  by (simp add: is_digit_def code_of_digit)

lemma show_nat_digits: "list_all is_digit (show_nat n)"
proof (induction n rule: show_nat.induct)
  case (1 n)
  then show ?case by (cases "n < 10") (simp_all add: show_nat.simps [of n] is_digit_of)
qed

lemma length_show_nat: "n < 10 ^ d \<Longrightarrow> 0 < d \<Longrightarrow> length (show_nat n) \<le> d"
proof (induction n arbitrary: d rule: show_nat.induct)
  case (1 n)
  show ?case
  proof (cases "n < 10")
    case True
    then show ?thesis using 1(3) by (simp add: show_nat.simps [of n])
  next
    case False
    obtain k where d: "d = Suc k" using 1(3) by (cases d) auto
    with 1(2) have "n div 10 < 10 ^ k" by (simp add: less_mult_imp_div_less mult.commute)
    moreover from False 1(2) d have "0 < k" by (cases k) auto
    ultimately have "length (show_nat (n div 10)) \<le> k" using 1(1) [OF False] by blast
    then show ?thesis using False d by (simp add: show_nat.simps [of n])
  qed
qed

text \<open>\<open>s.zfill(n)\<close> on a text without sign.\<close>

definition zfill :: "nat \<Rightarrow> string \<Rightarrow> string" where
  "zfill n s = replicate (n - length s) (CHR ''0'') @ s"

end
