(* ===== verification/Cost_Basis.thy ===== *)
theory Cost_Basis
  imports Decimal Whole "HOL-Library.Multiset"
begin

text \<open>
  \<open>tax/cost_basis.py\<close> with the event of \<open>tax/models.py\<close>: lots per asset and account tier, sold in
  FIFO, LIFO, HIFO or chosen order.  A book's lots are shared objects in Python; here the loop
  updates the sorted lots and the book takes the new version of each lot by its id.  Times are
  whole microseconds.
\<close>

section \<open>Lots and books\<close>

datatype account_tier = US | OFFSHORE
datatype instrument_type = FUTURES_1256 | CRYPTO_SPOT | CRYPTO_PERP
datatype event_type = TRADE_CLOSE | STAKING_RECEIPT | AIRDROP | FEE | FUNDING_PAYMENT | TRANSFER
datatype lot_method = FIFO | LIFO | HIFO | SPEC_ID

record lot =
  lt_id :: string
  lt_asset :: string
  lt_qty :: pyfloat
  lt_price :: pyfloat
  lt_time :: int
  lt_fees :: pyfloat

record taxable_event =
  te_id :: string
  te_time :: int
  te_type :: event_type
  te_asset :: string
  te_qty :: pyfloat
  te_cost :: pyfloat
  te_proceeds :: pyfloat
  te_gain :: pyfloat
  te_holding :: int
  te_tier :: account_tier
  te_instrument :: instrument_type

record lot_book =
  lb_lots :: "lot list"
  lb_counter :: nat

record calculator =
  cb_method :: lot_method
  cb_books :: "(string \<times> account_tier, lot_book) dict"
  cb_events :: nat

definition is_long_term :: "taxable_event \<Rightarrow> bool" where
  "is_long_term ev = (365 \<le> te_holding ev)"

definition is_short_term :: "taxable_event \<Rightarrow> bool" where
  "is_short_term ev = (\<not> is_long_term ev \<and> te_instrument ev \<noteq> FUTURES_1256)"

definition cost_basis :: "lot \<Rightarrow> pyfloat" where
  "cost_basis l = fadd (fmul (lt_qty l) (lt_price l)) (lt_fees l)"

definition tier_name :: "account_tier \<Rightarrow> string" where
  "tier_name t = (case t of US \<Rightarrow> ''US'' | OFFSHORE \<Rightarrow> ''OFFSHORE'')"

definition book_of :: "string \<Rightarrow> account_tier \<Rightarrow> calculator \<Rightarrow> lot_book \<times> calculator" where
  "book_of asset tier c =
     (case dget (cb_books c) (asset, tier) of
        Some b \<Rightarrow> (b, c)
      | None \<Rightarrow> let b = \<lparr>lb_lots = [], lb_counter = 0\<rparr>
                in (b, c\<lparr>cb_books := dset (asset, tier) b (cb_books c)\<rparr>))"

definition put_book :: "string \<Rightarrow> account_tier \<Rightarrow> lot_book \<Rightarrow> calculator \<Rightarrow> calculator" where
  "put_book asset tier b c = c\<lparr>cb_books := dset (asset, tier) b (cb_books c)\<rparr>"

definition lot_name :: "string \<Rightarrow> account_tier \<Rightarrow> nat \<Rightarrow> string" where
  "lot_name asset tier n = asset @ ''-'' @ tier_name tier @ ''-'' @ show_nat n"

definition add_buy ::
  "string \<Rightarrow> pyfloat \<Rightarrow> pyfloat \<Rightarrow> int \<Rightarrow> pyfloat \<Rightarrow> account_tier \<Rightarrow> calculator \<Rightarrow> (pyexc + lot) \<times> calculator" where
  "add_buy asset qty price time fees tier c =
     (if fle qty (Fin 0) then (Inl ValueError, c)
      else
        let (b, c1) = book_of asset tier c;
            n = Suc (lb_counter b);
            l = \<lparr>lt_id = lot_name asset tier n, lt_asset = asset, lt_qty = qty, lt_price = price,
                 lt_time = time, lt_fees = fees\<rparr>
        in (Inr l, put_book asset tier \<lparr>lb_lots = lb_lots b @ [l], lb_counter = n\<rparr> c1))"

definition open_lots :: "string \<Rightarrow> account_tier \<Rightarrow> calculator \<Rightarrow> lot list \<times> calculator" where
  "open_lots asset tier c = (let (b, c1) = book_of asset tier c in (lb_lots b, c1))"

section \<open>Selling\<close>

text \<open>\<open>sorted\<close> is stable, also with \<open>reverse=True\<close>.\<close>

definition sorted_desc :: "('a \<Rightarrow> 'b :: linorder) \<Rightarrow> 'a list \<Rightarrow> 'a list" where
  "sorted_desc k xs = rev (sort_key k (rev xs))"

definition lot_priority :: "lot_method \<Rightarrow> lot list \<Rightarrow> string option \<Rightarrow> pyexc + lot list" where
  "lot_priority m lots choice =
     (case (m, choice) of
        (SPEC_ID, Some i) \<Rightarrow>
          let selected = filter (\<lambda>l. lt_id l = i) lots
          in if selected = [] then Inl ValueError
             else Inr (selected @ filter (\<lambda>l. lt_id l \<noteq> i) lots)
      | (LIFO, _) \<Rightarrow> Inr (sorted_desc lt_time lots)
      | (HIFO, _) \<Rightarrow> Inr (sorted_desc lt_price lots)
      | _ \<Rightarrow> Inr (sort_key lt_time lots))"

record sale =
  sl_asset :: string
  sl_qty :: pyfloat
  sl_price :: pyfloat
  sl_time :: int
  sl_fees :: pyfloat
  sl_tier :: account_tier
  sl_instrument :: instrument_type

definition day_us :: int where
  "day_us = 86400 * 1000000"

text \<open>
  One pass of the loop: the event and the lot left over.  Building the event raises when the rounded
  cost is below zero (a NaN is not); the holding period is never negative.
\<close>

definition sell_lot :: "sale \<Rightarrow> pyfloat \<Rightarrow> nat \<Rightarrow> lot \<Rightarrow> pyexc + (taxable_event \<times> lot)" where
  "sell_lot s remaining n l =
     (let take' = pymin remaining (lt_qty l)
      in rbind (if flt (Fin 0) (lt_qty l) then fdivx take' (lt_qty l) else Inr (Fin 1)) (\<lambda>frac.
         rbind (fdivx take' (sl_qty s)) (\<lambda>share.
         let lot_cost = fadd (fmul (lt_price l) take') (fmul (lt_fees l) frac);
             proceeds = fsub (fmul (sl_price s) take') (fmul (sl_fees s) share);
             gain = fsub proceeds lot_cost;
             cost6 = fround 6 lot_cost
         in if flt cost6 (Fin 0) then Inl ValueError
            else Inr (\<lparr>te_id = ''sell-'' @ show_nat n, te_time = sl_time s, te_type = TRADE_CLOSE,
                       te_asset = sl_asset s, te_qty = take', te_cost = cost6,
                       te_proceeds = fround 6 proceeds, te_gain = fround 6 gain,
                       te_holding = max ((sl_time s - lt_time l) div day_us) 0,
                       te_tier = sl_tier s, te_instrument = sl_instrument s\<rparr>,
                      l\<lparr>lt_qty := fsub (lt_qty l) take', lt_fees := fmul (lt_fees l) (fsub (Fin 1) frac)\<rparr>))))"

text \<open>The loop: the exception that ended it, the events, the lots, what remains, the event counter.\<close>

fun sell_loop ::
  "sale \<Rightarrow> pyfloat \<Rightarrow> nat \<Rightarrow> lot list \<Rightarrow> pyexc option \<times> taxable_event list \<times> lot list \<times> pyfloat \<times> nat" where
  "sell_loop s remaining n [] = (None, [], [], remaining, n)"
| "sell_loop s remaining n (l # ls) =
     (if fle remaining (Fin 0) then (None, [], l # ls, remaining, n)
      else case sell_lot s remaining (Suc n) l of
             Inl x \<Rightarrow> (Some x, [], l # ls, remaining, Suc n)
           | Inr (ev, l') \<Rightarrow>
               (case sell_loop s (fsub remaining (te_qty ev)) (Suc n) ls of
                  (x, evs, ls', r, n') \<Rightarrow> (x, ev # evs, l' # ls', r, n')))"

definition refresh_lots :: "lot list \<Rightarrow> lot list \<Rightarrow> lot list" where
  "refresh_lots lots new =
     map (\<lambda>l. case find (\<lambda>k. lt_id k = lt_id l) new of Some k \<Rightarrow> k | None \<Rightarrow> l) lots"

definition lot_eps :: pyfloat where
  "lot_eps = fl (1 / 10 ^ 12)"

definition oversell_eps :: pyfloat where
  "oversell_eps = fl (1 / 10 ^ 9)"

definition process_sell ::
  "sale \<Rightarrow> string option \<Rightarrow> calculator \<Rightarrow> (pyexc + taxable_event list) \<times> calculator" where
  "process_sell s choice c =
     (if fle (sl_qty s) (Fin 0) then (Inl ValueError, c)
      else
        let (b, c1) = book_of (sl_asset s) (sl_tier s) c
        in if lb_lots b = [] then (Inl ValueError, c1)
           else case lot_priority (cb_method c) (lb_lots b) choice of
             Inl x \<Rightarrow> (Inl x, c1)
           | Inr order \<Rightarrow>
               (case sell_loop s (sl_qty s) (cb_events c) order of
                  (err, evs, new, remaining, n) \<Rightarrow>
                    let lots = refresh_lots (lb_lots b) new; c2 = c1\<lparr>cb_events := n\<rparr>
                    in case err of
                         Some x \<Rightarrow> (Inl x, put_book (sl_asset s) (sl_tier s) (b\<lparr>lb_lots := lots\<rparr>) c2)
                       | None \<Rightarrow>
                           let c3 = put_book (sl_asset s) (sl_tier s)
                                 (b\<lparr>lb_lots := filter (\<lambda>l. flt lot_eps (lt_qty l)) lots\<rparr>) c2
                           in if flt oversell_eps remaining then (Inl ValueError, c3) else (Inr evs, c3)))"

section \<open>Lemmas: values that are not negative\<close>

definition nonneg :: "pyfloat \<Rightarrow> bool" where
  "nonneg x = (\<not> flt x (Fin 0))"

named_theorems nonneg_intros

lemma nonneg_Fin [simp]: "nonneg (Fin a) = (0 \<le> a)" "nonneg PInf" "nonneg NaN" "\<not> nonneg NInf"
  by (auto simp: nonneg_def)

lemma nonneg_fl [nonneg_intros]: "0 \<le> a \<Longrightarrow> nonneg (fl a)"
  using fl_ge [of 0 a] by (auto simp: nonneg_def dest: flt_not_fle)

lemma nonneg_fadd [nonneg_intros]: "nonneg x \<Longrightarrow> nonneg y \<Longrightarrow> nonneg (fadd x y)"
  by (cases x; cases y) (auto intro: nonneg_fl)

lemma nonneg_fmul [nonneg_intros]: "nonneg x \<Longrightarrow> nonneg y \<Longrightarrow> nonneg (fmul x y)"
  by (cases x; cases y) (auto simp: finf_def zero_less_mult_iff mult_less_0_iff sgn_if intro: nonneg_fl)

lemma nonneg_fdiv: "nonneg x \<Longrightarrow> nonneg y \<Longrightarrow> fdiv x y = Some z \<Longrightarrow> nonneg z"
  by (cases x; cases y)
    (auto simp: finf_def sgn_if zero_less_mult_iff mult_less_0_iff split: if_splits intro!: nonneg_fl)

lemma nonneg_fround [nonneg_intros]: "nonneg x \<Longrightarrow> nonneg (fround n x)"
proof (cases x)
  case (Fin a)
  assume "nonneg x"
  then have "0 \<le> a * 10 ^ n" using Fin by simp
  then have "0 \<le> rne (a * 10 ^ n)" using of_int_le_rne [of 0 "a * 10 ^ n"] by simp
  then show ?thesis using Fin by (simp add: nonneg_fl)
qed simp_all

lemma nonneg_pymin [nonneg_intros]: "nonneg x \<Longrightarrow> nonneg y \<Longrightarrow> nonneg (pymin x y)"
  by (simp add: pymin_def)

section \<open>Lemmas: whole lots\<close>

text \<open>Quantities in whole units; prices and fees are any values that are not negative.\<close>

definition whole_lot :: "lot \<Rightarrow> int \<Rightarrow> bool" where
  "whole_lot l n = (lt_qty l = Fin (of_int n) \<and> 0 < n \<and> n \<le> 2 ^ 53 \<and> nonneg (lt_price l) \<and> nonneg (lt_fees l))"

definition float_units :: "pyfloat \<Rightarrow> int" where
  "float_units x = (case x of Fin a \<Rightarrow> \<lfloor>a\<rfloor> | _ \<Rightarrow> 0)"

definition units :: "lot \<Rightarrow> int" where
  "units l = float_units (lt_qty l)"

lemma whole_lot_units: "whole_lot l n \<Longrightarrow> units l = n"
  by (simp add: whole_lot_def units_def float_units_def)

text \<open>
  What an event must say of \<open>n\<close> units taken from a lot: the quantity, the cost at the lot's own price
  with its share of the lot's fees, and the whole days the lot was held.
\<close>

definition taken :: "sale \<Rightarrow> lot \<Rightarrow> int \<Rightarrow> pyfloat \<times> pyfloat \<times> int" where
  "taken s l n =
     (Fin (of_int n),
      fround 6 (fadd (fmul (lt_price l) (Fin (of_int n))) (fmul (lt_fees l) (fl (of_int n / of_int (units l))))),
      max ((sl_time s - lt_time l) div day_us) 0)"

definition told :: "taxable_event \<Rightarrow> pyfloat \<times> pyfloat \<times> int" where
  "told ev = (te_qty ev, te_cost ev, te_holding ev)"

text \<open>What a sale never changes of a lot.\<close>

definition lot_mark :: "lot \<Rightarrow> string \<times> pyfloat \<times> int" where
  "lot_mark l = (lt_id l, lt_price l, lt_time l)"

lemma fsub_units: "\<bar>a - b\<bar> \<le> 2 ^ 53 \<Longrightarrow> fsub (Fin (of_int a)) (Fin (of_int b)) = Fin (of_int (a - b))"
  using fl_whole [of "a - b"] by simp

lemma pymin_units: "pymin (Fin (of_int a)) (Fin (of_int b)) = Fin (of_int (min a b))"
  by (simp add: pymin_def min_def)

lemma sell_whole_lot:
  assumes "whole_lot l n" "0 < r" "r \<le> 2 ^ 53" "sl_qty s = Fin (of_int q)" "0 < q"
  obtains ev l' where "sell_lot s (Fin (of_int r)) k l = Inr (ev, l')"
    "te_qty ev = Fin (of_int (min r n))" "lt_qty l' = Fin (of_int (n - min r n))"
    "lot_mark l' = lot_mark l" "told ev = taken s l (min r n)"
proof -
  let ?t = "Fin (of_int (min r n))"
  define share where "share = fl (of_int (min r n) / of_int q)"
  define frac where "frac = fl (of_int (min r n) / of_int n)"
  have frac: "fdivx ?t (lt_qty l) = Inr frac" "flt (Fin 0) (lt_qty l)"
    using assms(1) by (auto simp: whole_lot_def fdivx_def frac_def)
  have share: "fdivx ?t (sl_qty s) = Inr share" using assms(4,5) by (simp add: fdivx_def share_def)
  have take': "pymin (Fin (of_int r)) (lt_qty l) = ?t"
    using assms(1) pymin_units by (simp add: whole_lot_def)
  have "nonneg frac" unfolding frac_def using assms(1,2) by (intro nonneg_fl) (simp add: whole_lot_def)
  then have "nonneg (fround 6 (fadd (fmul (lt_price l) ?t) (fmul (lt_fees l) frac)))"
    using assms(1,2) by (intro nonneg_intros) (simp_all add: whole_lot_def)
  moreover have "fsub (lt_qty l) ?t = Fin (of_int (n - min r n))"
    using fsub_units [of n "min r n"] assms(1,2) by (auto simp: whole_lot_def)
  ultimately have "\<exists>ev l'. sell_lot s (Fin (of_int r)) k l = Inr (ev, l')
      \<and> te_qty ev = ?t \<and> lt_qty l' = Fin (of_int (n - min r n))
      \<and> lot_mark l' = lot_mark l \<and> told ev = taken s l (min r n)"
    using whole_lot_units [OF assms(1)]
    by (simp add: sell_lot_def take' frac share Let_def nonneg_def lot_mark_def told_def taken_def frac_def
        del: fsub_Fin_simp fround.simps)
  then show thesis using that by blast
qed

text \<open>The reference: what a sale takes from whole lots in priority order, and what it leaves.\<close>

fun takes :: "int \<Rightarrow> int list \<Rightarrow> int list" where
  "takes q [] = []"
| "takes q (n # ns) = (if q \<le> 0 then [] else min q n # takes (q - min q n) ns)"

fun leaves :: "int \<Rightarrow> int list \<Rightarrow> int list" where
  "leaves q [] = []"
| "leaves q (n # ns) = (if q \<le> 0 then n # ns else (n - min q n) # leaves (q - min q n) ns)"

lemma takes_sum: "0 \<le> q \<Longrightarrow> list_all ((\<le>) 0) ns \<Longrightarrow> sum_list (takes q ns) = min q (sum_list ns)"
proof (induction q ns rule: takes.induct)
  case (2 q n ns)
  then have "0 \<le> sum_list ns" by (auto simp: list_all_iff intro: sum_list_nonneg)
  with 2 show ?case by (cases "q \<le> 0") (auto simp: min_def)
qed simp

lemma leaves_sum: "0 \<le> q \<Longrightarrow> list_all ((\<le>) 0) ns \<Longrightarrow> sum_list (leaves q ns) = max 0 (sum_list ns - q)"
proof (induction q ns rule: leaves.induct)
  case (2 q n ns)
  then have "0 \<le> sum_list ns" by (auto simp: list_all_iff intro: sum_list_nonneg)
  with 2 show ?case by (cases "q \<le> 0") (auto simp: min_def)
qed simp

lemma leaves_nonneg: "list_all ((\<le>) 0) ns \<Longrightarrow> list_all ((\<le>) 0) (leaves q ns)"
  by (induction q ns rule: leaves.induct) auto

definition qtys :: "int list \<Rightarrow> pyfloat list" where
  "qtys ns = map (\<lambda>n. Fin (of_int n)) ns"

lemma qtys_simps [simp]: "qtys [] = []" "qtys (n # ns) = Fin (of_int n) # qtys ns"
  by (simp_all add: qtys_def)

lemma sell_loop_whole:
  assumes "list_all2 whole_lot lots ns" "0 \<le> r" "r \<le> 2 ^ 53" "sl_qty s = Fin (of_int q)" "0 < q"
  shows "\<exists>evs new k'. sell_loop s (Fin (of_int r)) k lots
      = (None, evs, new, Fin (of_int (max 0 (r - sum_list ns))), k')
    \<and> map te_qty evs = qtys (takes r ns) \<and> map lt_qty new = qtys (leaves r ns)
    \<and> map lot_mark new = map lot_mark lots \<and> map told evs = map2 (taken s) lots (takes r ns) \<and> k' = k + length evs"
  using assms
proof (induction lots arbitrary: ns r k)
  case Nil
  then show ?case by simp
next
  case (Cons l ls)
  obtain n ms where ns: "ns = n # ms" "whole_lot l n" "list_all2 whole_lot ls ms"
    using Cons.prems(1) by (auto simp: list_all2_Cons1)
  show ?case
  proof (cases "r = 0")
    case True
    have "list_all2 (\<lambda>l n. lt_qty l = Fin (of_int n)) ls ms"
      using ns(3) by (rule list_all2_mono) (simp add: whole_lot_def)
    then have "map lt_qty ls = qtys ms"
      by (induction rule: list_all2_induct) auto
    moreover have "0 \<le> sum_list ms"
      using ns(3) by (induction rule: list_all2_induct) (auto simp: whole_lot_def)
    ultimately show ?thesis using ns True by (simp add: whole_lot_def max_def)
  next
    case False
    then have r: "0 < r" using Cons.prems(2) by simp
    obtain ev l' where lot: "sell_lot s (Fin (of_int r)) (Suc k) l = Inr (ev, l')"
      "te_qty ev = Fin (of_int (min r n))" "lt_qty l' = Fin (of_int (n - min r n))" "lot_mark l' = lot_mark l"
      "told ev = taken s l (min r n)"
      using sell_whole_lot [OF ns(2) r Cons.prems(3-5)] by metis
    have n: "0 < n" using ns(2) by (simp add: whole_lot_def)
    have sub: "fsub (Fin (of_int r)) (te_qty ev) = Fin (of_int (r - min r n))"
      unfolding lot(2) by (rule fsub_units) (use r n Cons.prems(3) in auto)
    have "0 \<le> r - min r n" "r - min r n \<le> 2 ^ 53" using n r Cons.prems(3) by auto
    from Cons.IH [OF ns(3) this Cons.prems(4,5), of "Suc k"] obtain evs new k' where IH: "sell_loop s (Fin (of_int (r - min r n))) (Suc k) ls
        = (None, evs, new, Fin (of_int (max 0 (r - min r n - sum_list ms))), k')"
      "map te_qty evs = qtys (takes (r - min r n) ms)" "map lt_qty new = qtys (leaves (r - min r n) ms)"
      "map lot_mark new = map lot_mark ls" "map told evs = map2 (taken s) ls (takes (r - min r n) ms)" "k' = Suc k + length evs"
      by blast
    have "0 \<le> sum_list ms"
      using ns(3) by (induction rule: list_all2_induct) (auto simp: whole_lot_def)
    then have "max 0 (r - min r n - sum_list ms) = max 0 (r - sum_list ns)"
      using n r ns(1) by (auto simp: max_def min_def)
    then show ?thesis using IH lot sub r ns(1) by (simp add: not_le)
  qed
qed

section \<open>Lemmas: the selling order\<close>

text \<open>
  The order in which a method sells, by the position in the book: \<open>sells_first\<close> is the method's
  own comparison of two lots, and lots it does not tell apart are sold in the order of the book.
\<close>

definition sells_first :: "lot_method \<Rightarrow> string option \<Rightarrow> lot \<Rightarrow> lot \<Rightarrow> bool" where
  "sells_first m choice l k =
     (case (m, choice) of
        (SPEC_ID, Some i) \<Rightarrow> lt_id l = i \<and> lt_id k \<noteq> i
      | (LIFO, _) \<Rightarrow> lt_time k < lt_time l
      | (HIFO, _) \<Rightarrow> flt (lt_price k) (lt_price l)
      | _ \<Rightarrow> lt_time l < lt_time k)"

definition ahead :: "lot_method \<Rightarrow> string option \<Rightarrow> lot list \<Rightarrow> nat \<Rightarrow> nat \<Rightarrow> bool" where
  "ahead m choice lots i j =
     (sells_first m choice (lots ! i) (lots ! j) \<or> \<not> sells_first m choice (lots ! j) (lots ! i) \<and> i < j)"

lemma flt_asym: "flt x y \<Longrightarrow> \<not> flt y x"
  by (meson flt_irrefl flt_trans)

lemma ahead_asym: "ahead m choice lots i j \<Longrightarrow> \<not> ahead m choice lots j i"
  by (auto simp: ahead_def sells_first_def split: lot_method.splits option.splits dest: flt_asym)

lemma insort_key_map: "insort_key f (g x) (map g xs) = map g (insort_key (f \<circ> g) x xs)"
  by (induction xs) auto

lemma sort_key_map: "sort_key f (map g xs) = map g (sort_key (f \<circ> g) xs)"
  by (induction xs) (simp_all add: insort_key_map del: o_apply)

text \<open>Sorting is stable: elements with equal keys keep their order.\<close>

definition tie_by :: "('a \<Rightarrow> 'b :: linorder) \<Rightarrow> ('a \<Rightarrow> 'a \<Rightarrow> bool) \<Rightarrow> 'a \<Rightarrow> 'a \<Rightarrow> bool" where
  "tie_by k R a b = (k a < k b \<or> k a = k b \<and> R a b)"

lemma sorted_insort_key:
  "sorted_wrt (tie_by k R) ys \<Longrightarrow> \<forall>y\<in>set ys. R x y \<Longrightarrow> sorted_wrt (tie_by k R) (insort_key k x ys)"
  by (induction ys) (auto simp: tie_by_def set_insort_key order_le_less dest: order_less_trans)

lemma sort_key_stable: "sorted_wrt R xs \<Longrightarrow> sorted_wrt (tie_by k R) (sort_key k xs)"
  by (induction xs) (auto intro: sorted_insort_key)

lemma sorted_desc_stable:
  assumes "sorted_wrt R xs"
  shows "sorted_wrt (\<lambda>a b. k b < k a \<or> k a = k b \<and> R a b) (sorted_desc k xs)"
proof -
  have "sorted_wrt (\<lambda>a b. R b a) (rev xs)" using assms by (simp add: sorted_wrt_rev)
  from sort_key_stable [OF this, of k] show ?thesis
    unfolding sorted_desc_def sorted_wrt_rev
    by (rule sorted_wrt_mono_rel [rotated]) (auto simp: tie_by_def)
qed

lemma sorted_desc_map: "sorted_desc f (map g xs) = map g (sorted_desc (f \<circ> g) xs)"
  by (simp add: sorted_desc_def rev_map sort_key_map)

lemma filter_positions: "filter P lots = map ((!) lots) (filter (\<lambda>i. P (lots ! i)) [0..<length lots])"
proof -
  have "filter P (map ((!) lots) [0..<length lots]) = map ((!) lots) (filter (P \<circ> (!) lots) [0..<length lots])"
    by (rule filter_map)
  then show ?thesis by (simp add: map_nth comp_def)
qed

lemma less_price: "x \<noteq> NaN \<Longrightarrow> y \<noteq> NaN \<Longrightarrow> (x < y) = flt x (y :: pyfloat)"
  by (simp add: less_pyfloat_def)

text \<open>The positions in the order the code sells them.\<close>

lemma lot_priority_ahead:
  assumes "lot_priority m lots choice = Inr order" "\<forall>l\<in>set lots. lt_price l \<noteq> NaN"
  obtains ps where "order = map ((!) lots) ps" "mset ps = mset [0..<length lots]" "sorted_wrt (ahead m choice lots) ps"
proof -
  let ?is = "[0..<length lots]"
  have lots: "lots = map ((!) lots) ?is" by (simp add: map_nth)
  have asc: "sorted_wrt (<) ?is" by simp
  have in_range: "set ps \<subseteq> {..<length lots}" if "mset ps = mset ?is" for ps
    using mset_eq_setD [OF that] by auto
  consider (spec) i where "m = SPEC_ID" "choice = Some i" | (lifo) "m = LIFO" | (hifo) "m = HIFO"
    | (fifo) "m = FIFO \<or> m = SPEC_ID \<and> choice = None"
    by (cases m; cases choice) auto
  then show thesis
  proof cases
    case fifo
    show thesis
    proof (rule that [of "sort_key (lt_time \<circ> (!) lots) ?is"])
      show "order = map ((!) lots) (sort_key (lt_time \<circ> (!) lots) ?is)"
        unfolding sort_key_map [symmetric] using assms(1) fifo by (auto simp: lot_priority_def map_nth split: option.splits)
      show "sorted_wrt (ahead m choice lots) (sort_key (lt_time \<circ> (!) lots) ?is)"
        by (rule sorted_wrt_mono_rel [OF _ sort_key_stable [OF asc]])
          (use fifo in \<open>auto simp: tie_by_def ahead_def sells_first_def split: option.splits\<close>)
    qed simp
  next
    case lifo
    show thesis
    proof (rule that [of "sorted_desc (lt_time \<circ> (!) lots) ?is"])
      show "order = map ((!) lots) (sorted_desc (lt_time \<circ> (!) lots) ?is)"
        unfolding sorted_desc_map [symmetric] using assms(1) lifo by (auto simp: lot_priority_def map_nth split: option.splits)
      show "sorted_wrt (ahead m choice lots) (sorted_desc (lt_time \<circ> (!) lots) ?is)"
        by (rule sorted_wrt_mono_rel [OF _ sorted_desc_stable [OF asc]])
          (use lifo in \<open>auto simp: ahead_def sells_first_def split: option.splits\<close>)
    qed (simp add: sorted_desc_def)
  next
    case hifo
    show thesis
    proof (rule that [of "sorted_desc (lt_price \<circ> (!) lots) ?is"])
      show "order = map ((!) lots) (sorted_desc (lt_price \<circ> (!) lots) ?is)"
        unfolding sorted_desc_map [symmetric] using assms(1) hifo by (auto simp: lot_priority_def map_nth split: option.splits)
      have perm: "mset (sorted_desc (lt_price \<circ> (!) lots) ?is) = mset ?is" by (simp add: sorted_desc_def)
      show "sorted_wrt (ahead m choice lots) (sorted_desc (lt_price \<circ> (!) lots) ?is)"
      proof (rule sorted_wrt_mono_rel [OF _ sorted_desc_stable [OF asc]])
        fix i j assume "i \<in> set (sorted_desc (lt_price \<circ> (!) lots) ?is)" "j \<in> set (sorted_desc (lt_price \<circ> (!) lots) ?is)"
          and o: "(lt_price \<circ> (!) lots) j < (lt_price \<circ> (!) lots) i \<or> (lt_price \<circ> (!) lots) i = (lt_price \<circ> (!) lots) j \<and> i < j"
        then have "lt_price (lots ! i) \<noteq> NaN" "lt_price (lots ! j) \<noteq> NaN" using in_range [OF perm] assms(2) by auto
        then show "ahead m choice lots i j" using o hifo
          by (auto simp: ahead_def sells_first_def less_price split: option.splits)
      qed
    qed (simp add: sorted_desc_def)
  next
    case spec
    let ?P = "\<lambda>j. lt_id (lots ! j) = i"
    show thesis
    proof (rule that [of "filter ?P ?is @ filter (\<lambda>j. \<not> ?P j) ?is"])
      show "order = map ((!) lots) (filter ?P ?is @ filter (\<lambda>j. \<not> ?P j) ?is)"
        using assms(1) spec unfolding map_append filter_positions [of "\<lambda>l. lt_id l = i", symmetric]
          filter_positions [of "\<lambda>l. lt_id l \<noteq> i", symmetric] by (simp add: lot_priority_def Let_def split: if_splits)
      show "sorted_wrt (ahead m choice lots) (filter ?P ?is @ filter (\<lambda>j. \<not> ?P j) ?is)"
        unfolding sorted_wrt_append using spec
        by (intro conjI sorted_wrt_mono_rel [OF _ sorted_wrt_filter [OF asc]])
          (auto simp: ahead_def sells_first_def)
      show "mset (filter ?P ?is @ filter (\<lambda>j. \<not> ?P j) ?is) = mset ?is"
        by (simp only: mset_append mset_filter multiset_partition [symmetric])
    qed
  qed
qed

lemma take_nonneg: "list_all ((<) 0) us \<Longrightarrow> (0 :: int) \<le> sum_list (take p us)"
proof (rule sum_list_nonneg)
  fix x assume "list_all ((<) 0) us" "x \<in> set (take p us)"
  then have "0 < x" unfolding list_all_iff by (blast dest: in_set_takeD)
  then show "0 \<le> x" by simp
qed

definition clip :: "int \<Rightarrow> int list \<Rightarrow> nat \<Rightarrow> int" where
  "clip q us p = max 0 (min (us ! p) (q - sum_list (take p us)))"

lemma clip_Cons: "0 < u \<Longrightarrow> 0 < q \<Longrightarrow> clip q (u # us) (Suc p) = clip (q - min q u) us p"
  if "list_all ((<) 0) us" "p < length us"
proof -
  assume u: "0 < u" "0 < q"
  have "0 \<le> sum_list (take p us)"
    using that(1) by (rule take_nonneg)
  then show ?thesis using u by (auto simp: clip_def min_def max_def)
qed

lemma takes_clip:
  "list_all ((<) 0) us \<Longrightarrow> 0 \<le> q \<Longrightarrow>
     (p < length (takes q us) \<longleftrightarrow> p < length us \<and> 0 < clip q us p)
   \<and> (p < length (takes q us) \<longrightarrow> takes q us ! p = clip q us p)"
proof (induction q us arbitrary: p rule: takes.induct)
  case (2 q u us)
  show ?case
  proof (cases "q \<le> 0")
    case True
    then have "clip q (u # us) p \<le> 0" 
    proof -
      have "0 \<le> sum_list (take p (u # us))"
        using "2.prems"(1) by (rule take_nonneg)
      then show ?thesis using True by (simp add: clip_def)
    qed
    then show ?thesis using True by simp
  next
    case False
    show ?thesis
    proof (cases p)
      case 0
      then show ?thesis using False "2.prems" by (auto simp: clip_def)
    next
      case (Suc r)
      have u: "0 < u" "list_all ((<) 0) us" "0 < q" using "2.prems"(1) False by simp_all
      then have "0 \<le> q - min q u" by simp
      note IH = "2.IH" [OF False u(2) this, of r]
      have t: "takes q (u # us) = min q u # takes (q - min q u) us" using False by simp
      show ?thesis
      proof (cases "r < length us")
        case True
        from clip_Cons [OF u(2) True u(1,3)] IH show ?thesis unfolding t Suc by simp
      next
        case False
        with IH show ?thesis unfolding t Suc by simp
      qed
    qed
  qed
qed simp

lemma leaves_clip:
  "list_all ((<) 0) us \<Longrightarrow> 0 \<le> q \<Longrightarrow> p < length us \<Longrightarrow>
     length (leaves q us) = length us \<and> leaves q us ! p = us ! p - clip q us p"
proof (induction q us arbitrary: p rule: leaves.induct)
  case (2 q u us)
  show ?case
  proof (cases "q \<le> 0")
    case True
    have "0 \<le> sum_list (take p (u # us))"
      using "2.prems"(1) by (rule take_nonneg)
    then show ?thesis using True by (auto simp: clip_def)
  next
    case False
    show ?thesis
    proof (cases p)
      case 0
      have "length (leaves (q - min q u) us) = length us"
        by (induction "q - min q u" us arbitrary: q u rule: leaves.induct) auto
      then show ?thesis using False "2.prems" 0 by (auto simp: clip_def)
    next
      case (Suc r)
      have u: "0 < u" "list_all ((<) 0) us" "0 < q" "r < length us" using "2.prems" Suc False by simp_all
      then have "0 \<le> q - min q u" by simp
      note IH = "2.IH" [OF False u(2) this u(4)]
      have t: "leaves q (u # us) = (u - min q u) # leaves (q - min q u) us" using False by simp
      from clip_Cons [OF u(2,4,1,3)] IH show ?thesis unfolding t Suc by simp
    qed
  qed
qed simp

section \<open>Lemmas: books\<close>

definition whole_book :: "lot_book \<Rightarrow> bool" where
  "whole_book b = list_all (\<lambda>l. whole_lot l (units l)) (lb_lots b)"

lemma sell_lot_id: "sell_lot s r k l = Inr (ev, l') \<Longrightarrow> lt_id l' = lt_id l"
  by (auto simp: sell_lot_def Let_def split: if_splits)

lemma sell_loop_ids: "map lt_id (fst (snd (snd (sell_loop s r k ls)))) = map lt_id ls"
proof (induction ls arbitrary: r k)
  case (Cons l ls)
  then show ?case by (auto simp: sell_lot_id split: sum.splits prod.splits) (metis fst_conv snd_conv)+
qed simp

lemma lot_priority_perm: "lot_priority m lots choice = Inr order \<Longrightarrow> mset order = mset lots"
  by (cases m; cases choice)
    (auto simp: lot_priority_def sorted_desc_def Let_def multiset_partition [symmetric] split: if_splits)

text \<open>Replacing each lot by its new version gives the new lots, in the book's order.\<close>

lemma refresh_lots_perm:
  assumes "distinct (map lt_id lots)" "mset (map lt_id new) = mset (map lt_id lots)"
  shows "mset (refresh_lots lots new) = mset new"
proof -
  define g where "g i = (case find (\<lambda>k. lt_id k = i) new of Some k \<Rightarrow> k | None \<Rightarrow> undefined)" for i
  have d: "distinct (map lt_id new)" using assms by (metis mset_eq_imp_distinct_iff)
  have g: "g (lt_id k) = k" if "k \<in> set new" for k
  proof -
    have "find (\<lambda>j. lt_id j = lt_id k) new \<noteq> None" using that unfolding find_None_iff by blast
    then obtain k' where f: "find (\<lambda>j. lt_id j = lt_id k) new = Some k'" by blast
    then have "k' \<in> set new" "lt_id k' = lt_id k" by (auto simp: find_Some_iff)
    then have "k' = k" using d that by (auto simp: distinct_map inj_on_def)
    then show ?thesis by (simp add: g_def f)
  qed
  have "refresh_lots lots new = map g (map lt_id lots)"
  proof -
    have "(case find (\<lambda>k. lt_id k = lt_id l) new of Some k \<Rightarrow> k | None \<Rightarrow> l) = g (lt_id l)"
      if "l \<in> set lots" for l
    proof -
      have "lt_id l \<in> set (map lt_id new)" using that assms(2) by (metis image_eqI list.set_map set_mset_mset)
      then have "find (\<lambda>k. lt_id k = lt_id l) new \<noteq> None" unfolding find_None_iff by auto
      then show ?thesis by (auto simp: g_def)
    qed
    then show ?thesis by (simp add: refresh_lots_def)
  qed
  then have "mset (refresh_lots lots new) = image_mset g (mset (map lt_id new))"
    using assms(2) by (metis mset_map)
  also have "\<dots> = mset (map g (map lt_id new))" by (simp only: mset_map)
  also have "map g (map lt_id new) = new" using g by (simp add: map_idI)
  finally show ?thesis .
qed

definition book_inv :: "string \<Rightarrow> account_tier \<Rightarrow> lot_book \<Rightarrow> bool" where
  "book_inv a t b = (distinct (map lt_id (lb_lots b))
     \<and> list_all (\<lambda>l. \<exists>k\<le>lb_counter b. lt_id l = lot_name a t k) (lb_lots b))"

definition calc_inv :: "calculator \<Rightarrow> bool" where
  "calc_inv c = list_all (\<lambda>((a, t), b). book_inv a t b) (cb_books c)"

lemma lot_name_inj: "lot_name a t m = lot_name a t n \<Longrightarrow> m = n"
  by (simp add: lot_name_def show_nat_inj)

lemma calc_inv_put: "calc_inv c \<Longrightarrow> book_inv a t b \<Longrightarrow> calc_inv (put_book a t b c)"
  by (auto simp: calc_inv_def put_book_def list_all_iff dest!: in_set_dset)

lemma calc_inv_events [simp]: "calc_inv (c\<lparr>cb_events := n\<rparr>) = calc_inv c"
  by (simp add: calc_inv_def)

lemma calc_inv_get: "calc_inv c \<Longrightarrow> dget (cb_books c) (a, t) = Some b \<Longrightarrow> book_inv a t b"
  by (drule map_of_SomeD) (auto simp: calc_inv_def list_all_iff)

lemma empty_book_inv: "book_inv a t \<lparr>lb_lots = [], lb_counter = 0\<rparr>"
  by (simp add: book_inv_def)

lemma book_of_inv: "calc_inv c \<Longrightarrow> book_inv a t (fst (book_of a t c)) \<and> calc_inv (snd (book_of a t c))"
  using calc_inv_get calc_inv_put [OF _ empty_book_inv]
  by (auto simp: book_of_def Let_def empty_book_inv put_book_def split: option.splits)

lemma add_buy_inv: "calc_inv c \<Longrightarrow> calc_inv (snd (add_buy a q p t f tier c))"
proof -
  assume c: "calc_inv c"
  obtain b c1 where b: "book_of a tier c = (b, c1)" by fastforce
  have inv: "book_inv a tier b" "calc_inv c1" using book_of_inv [OF c, of a tier] b by simp_all
  define l where "l = \<lparr>lt_id = lot_name a tier (Suc (lb_counter b)), lt_asset = a, lt_qty = q, lt_price = p,
                 lt_time = t, lt_fees = f\<rparr>"
  have "lt_id l \<noteq> lt_id k" if "k \<in> set (lb_lots b)" for k
    using inv(1) that lot_name_inj by (fastforce simp: book_inv_def list_all_iff l_def)
  moreover have "list_all (\<lambda>l. \<exists>k\<le>Suc (lb_counter b). lt_id l = lot_name a tier k) (lb_lots b)"
    using inv(1) by (auto simp: book_inv_def list_all_iff intro: le_SucI)
  ultimately have "book_inv a tier \<lparr>lb_lots = lb_lots b @ [l], lb_counter = Suc (lb_counter b)\<rparr>"
    using inv(1) by (auto simp: book_inv_def l_def image_iff)
  then show ?thesis using c inv calc_inv_put by (simp add: add_buy_def b Let_def l_def)
qed


lemma refreshed_ids:
  assumes "map lt_id new = map lt_id order" "mset order = mset lots" "distinct (map lt_id lots)"
  shows "mset (refresh_lots lots new) = mset new"
    "map lt_id (refresh_lots lots new) = map lt_id lots"
proof -
  show "mset (refresh_lots lots new) = mset new"
    using assms by (intro refresh_lots_perm) (metis mset_map)+
  have "lt_id (case find (\<lambda>k. lt_id k = lt_id l) new of Some k \<Rightarrow> k | None \<Rightarrow> l) = lt_id l" for l
    by (auto split: option.splits simp: find_Some_iff)
  then show "map lt_id (refresh_lots lots new) = map lt_id lots" by (simp add: refresh_lots_def)
qed

lemma book_inv_ids:
  "book_inv a t b \<Longrightarrow> map lt_id lots = map lt_id (lb_lots b) \<Longrightarrow> book_inv a t (b\<lparr>lb_lots := filter P lots\<rparr>)"
proof -
  assume b: "book_inv a t b" and e: "map lt_id lots = map lt_id (lb_lots b)"
  then have "\<exists>k\<le>lb_counter b. i = lot_name a t k" if "i \<in> set (map lt_id lots)" for i
    using that by (auto simp: book_inv_def list_all_iff)
  moreover have "distinct (map lt_id (filter P lots))"
    using b e by (simp add: book_inv_def distinct_map_filter)
  ultimately show "book_inv a t (b\<lparr>lb_lots := filter P lots\<rparr>)"
    by (simp add: book_inv_def list_all_iff)
qed

lemma process_sell_inv:
  assumes "calc_inv c"
  shows "calc_inv (snd (process_sell s choice c))"
proof -
  obtain b c1 where b: "book_of (sl_asset s) (sl_tier s) c = (b, c1)" by fastforce
  have inv: "book_inv (sl_asset s) (sl_tier s) b" "calc_inv c1"
    using book_of_inv [OF assms, of "sl_asset s" "sl_tier s"] b by simp_all
  show ?thesis
  proof (cases "lot_priority (cb_method c) (lb_lots b) choice")
    case (Inr order)
    obtain err evs new r n where loop: "sell_loop s (sl_qty s) (cb_events c) order = (err, evs, new, r, n)"
      by (metis prod_cases5)
    have "map lt_id new = map lt_id order" using sell_loop_ids [of s "sl_qty s" "cb_events c" order] loop by simp
    then have ids: "map lt_id (refresh_lots (lb_lots b) new) = map lt_id (lb_lots b)"
      using refreshed_ids lot_priority_perm [OF Inr] inv(1) by (auto simp: book_inv_def)
    have "calc_inv (put_book (sl_asset s) (sl_tier s) (b\<lparr>lb_lots := filter P (refresh_lots (lb_lots b) new)\<rparr>)
        (c1\<lparr>cb_events := n\<rparr>))" for P
      using inv ids by (intro calc_inv_put book_inv_ids) simp_all
    from this [of "\<lambda>_. True"] this [of "\<lambda>l. flt lot_eps (lt_qty l)"] show ?thesis
      using assms inv(2) Inr by (simp add: process_sell_def b loop Let_def split: option.split)
  qed (use assms inv(2) in \<open>simp add: process_sell_def b\<close>)
qed

datatype tax_event =
    Buy string pyfloat pyfloat int pyfloat account_tier
  | SellLots sale "string option"

definition tax_step :: "calculator \<Rightarrow> tax_event \<Rightarrow> calculator" where
  "tax_step c ev =
     (case ev of Buy a q p t f tier \<Rightarrow> snd (add_buy a q p t f tier c)
      | SellLots s choice \<Rightarrow> snd (process_sell s choice c))"

interpretation lots: machine tax_step calc_inv "\<lambda>_. True"
  by unfold_locales (auto simp: tax_step_def add_buy_inv process_sell_inv split: tax_event.split)

subsection \<open>A sale of whole units\<close>

lemma lot_eps_between: "flt (Fin 0) lot_eps" "flt lot_eps (Fin 1)" "flt (Fin 0) oversell_eps" "flt oversell_eps (Fin 1)"
  by code_simp+

lemma over_eps: "flt lot_eps (Fin (of_int n)) = (0 < n)" "flt oversell_eps (Fin (of_int n)) = (0 < n)"
proof -
  have "flt e (Fin (of_int n)) = (0 < n)" if "flt (Fin 0) e" "flt e (Fin 1)" for e
  proof (cases "0 < n")
    case True
    then have "fle (Fin 1) (Fin (of_int n))" by simp
    with that True show ?thesis using flt_fle_trans by blast
  next
    case False
    then have "fle (Fin (of_int n)) (Fin 0)" by simp
    with that False show ?thesis by (meson fle_flt_trans flt_irrefl flt_trans)
  qed
  then show "flt lot_eps (Fin (of_int n)) = (0 < n)" "flt oversell_eps (Fin (of_int n)) = (0 < n)"
    using lot_eps_between by simp_all
qed

lemma kept_units:
  "list_all ((\<le>) 0) ns \<Longrightarrow> sum_list (map float_units (filter (flt lot_eps) (qtys ns))) = sum_list ns"
  by (induction ns) (auto simp: over_eps float_units_def)

lemma units_of_qtys:
  assumes "mset lots = mset new" "map lt_qty new = qtys ns" "list_all ((\<le>) 0) ns"
  shows "sum_list (map units (filter (\<lambda>l. flt lot_eps (lt_qty l)) lots)) = sum_list ns"
proof -
  have "mset (map units (filter (\<lambda>l. flt lot_eps (lt_qty l)) lots))
      = mset (map units (filter (\<lambda>l. flt lot_eps (lt_qty l)) new))"
    using assms(1) by simp
  moreover have "map units (filter (\<lambda>l. flt lot_eps (lt_qty l)) new)
      = map float_units (filter (flt lot_eps) (map lt_qty new))"
    by (simp add: filter_map comp_def units_def [abs_def])
  ultimately show ?thesis using kept_units [OF assms(3)] assms(2) by (metis sum_mset_sum_list)
qed

lemma pos_units:
  "list_all (\<lambda>l. 0 < units l) ls \<Longrightarrow> 0 \<le> sum_list (map units ls) \<and> (sum_list (map units ls) = 0 \<longleftrightarrow> ls = [])"
  by (induction ls) auto

text \<open>What a sale of whole units does, enough lots or not.\<close>

lemma process_sell_whole:
  assumes inv: "calc_inv c" and b: "dget (cb_books c) (sl_asset s, sl_tier s) = Some b" "lb_lots b \<noteq> []"
    and whole: "whole_book b" and q: "sl_qty s = Fin (of_int q)" "0 < q" "q \<le> 2 ^ 53"
    and order: "lot_priority (cb_method c) (lb_lots b) choice = Inr order"
  obtains r c' b' evs new where "process_sell s choice c = (r, c')"
    "r = (if sum_list (map units (lb_lots b)) < q then Inl ValueError else Inr evs)"
    "map te_qty evs = qtys (takes q (map units order))"
    "dget (cb_books c') (sl_asset s, sl_tier s) = Some b'"
    "sum_list (map units (lb_lots b')) = max 0 (sum_list (map units (lb_lots b)) - q)"
    "list_all (\<lambda>l. 0 < units l) (lb_lots b')" "cb_events c' = cb_events c + length evs"
    "map told evs = map2 (taken s) order (takes q (map units order))"
    "lb_lots b' = filter (\<lambda>l. flt lot_eps (lt_qty l)) (refresh_lots (lb_lots b) new)"
    "map lt_qty new = qtys (leaves q (map units order))" "map lot_mark new = map lot_mark order"
proof -
  let ?ns = "map units order"
  have perm: "mset order = mset (lb_lots b)" using lot_priority_perm [OF order] .
  have total: "sum_list ?ns = sum_list (map units (lb_lots b))"
    using perm by (metis mset_map sum_mset_sum_list)
  have wo: "list_all (\<lambda>l. whole_lot l (units l)) order"
    using whole perm by (metis list_all_iff set_mset_mset whole_book_def)
  then have w2: "list_all2 whole_lot order ?ns" by (simp add: list_all2_map2 list.rel_map list_all_iff list_all2_same)
  have nn: "list_all ((\<le>) 0) ?ns" using wo by (auto simp: list_all_iff whole_lot_def)
  have id: "distinct (map lt_id (lb_lots b))" using calc_inv_get [OF inv b(1)] by (simp add: book_inv_def)
  from sell_loop_whole [OF w2 _ q(3) q(1,2), of "cb_events c"] q(2) obtain evs new where
    loop: "sell_loop s (Fin (of_int q)) (cb_events c) order
      = (None, evs, new, Fin (of_int (max 0 (q - sum_list ?ns))), cb_events c + length evs)"
    and evs: "map te_qty evs = qtys (takes q ?ns)" and new: "map lt_qty new = qtys (leaves q ?ns)"
    and marks: "map lot_mark new = map lot_mark order"
    and told: "map told evs = map2 (taken s) order (takes q ?ns)"
    by auto
  have "map fst (map lot_mark new) = map fst (map lot_mark order)" unfolding marks ..
  then have ids: "map lt_id new = map lt_id order" by (simp add: lot_mark_def comp_def)
  let ?lots = "filter (\<lambda>l. flt lot_eps (lt_qty l)) (refresh_lots (lb_lots b) new)"
  let ?c = "put_book (sl_asset s) (sl_tier s) (b\<lparr>lb_lots := ?lots\<rparr>) (c\<lparr>cb_events := cb_events c + length evs\<rparr>)"
  have "\<not> fle (sl_qty s) (Fin 0)" using q by simp
  then have run: "process_sell s choice c
      = (if sum_list ?ns < q then Inl ValueError else Inr evs, ?c)"
    using b order loop q(1) by (auto simp: process_sell_def book_of_def Let_def over_eps)
  have ref: "mset (refresh_lots (lb_lots b) new) = mset new" using refreshed_ids(1) [OF ids perm id] .
  have kept: "sum_list (map units ?lots) = max 0 (sum_list (map units (lb_lots b)) - q)"
    using units_of_qtys [OF ref new leaves_nonneg [OF nn]] leaves_sum [OF _ nn, of q] q(2) total by simp
  have "0 < units l" if "l \<in> set ?lots" for l
  proof -
    have "l \<in> set new" using that ref by (metis filter_is_subset set_mset_mset subsetD)
    then have "lt_qty l \<in> set (qtys (leaves q ?ns))" using new by (metis image_eqI list.set_map)
    then obtain n where "lt_qty l = Fin (of_int n)" by (auto simp: qtys_def)
    then show ?thesis using that by (simp add: over_eps units_def float_units_def)
  qed
  then have all: "list_all (\<lambda>l. 0 < units l) ?lots" by (simp add: list_all_iff)
  show thesis
    by (rule that [where b' = "b\<lparr>lb_lots := ?lots\<rparr>" and new = new, OF run _ evs])
      (use kept total all new marks told in \<open>simp_all add: put_book_def del: filter.simps\<close>)
qed

subsection \<open>The reference allocation\<close>

text \<open>
  What a sale of \<open>q\<close> units takes from the lot at a position of the book: whatever the lots ahead of it
  leave to be sold, up to its own size.
\<close>

definition sold :: "lot_method \<Rightarrow> string option \<Rightarrow> int \<Rightarrow> lot list \<Rightarrow> nat \<Rightarrow> int" where
  "sold m choice q lots i =
     max 0 (min (units (lots ! i))
       (q - sum_list (map (\<lambda>j. units (lots ! j)) (filter (\<lambda>j. ahead m choice lots j i) [0..<length lots]))))"

lemma sold_clip:
  assumes "mset ps = mset [0..<length lots]" "sorted_wrt (ahead m choice lots) ps" "p < length ps"
  shows "sold m choice q lots (ps ! p) = clip q (map units (map ((!) lots) ps)) p"
proof -
  let ?A = "filter (\<lambda>j. ahead m choice lots j (ps ! p)) [0..<length lots]"
  have d: "distinct ps" using mset_eq_imp_distinct_iff [OF assms(1)] by simp
  have "set ?A = set (take p ps)"
  proof
    show "set ?A \<subseteq> set (take p ps)"
    proof
      fix j assume j: "j \<in> set ?A"
      then have "j \<in> set ps" using mset_eq_setD [OF assms(1)] by simp
      then obtain r where r: "r < length ps" "j = ps ! r" by (metis in_set_conv_nth)
      have "\<not> p \<le> r"
      proof
        assume "p \<le> r"
        then have "p = r \<or> ahead m choice lots (ps ! p) (ps ! r)"
          using sorted_wrt_nth_less [OF assms(2)] r(1) by (metis le_neq_implies_less)
        then show False using j r ahead_asym [of m choice lots "ps ! p" "ps ! r"] ahead_asym [of m choice lots "ps ! p" "ps ! p"]
          by auto
      qed
      then show "j \<in> set (take p ps)" using r assms(3) by (auto simp: in_set_conv_nth intro!: exI [of _ r])
    qed
  next
    show "set (take p ps) \<subseteq> set ?A"
    proof
      fix j assume "j \<in> set (take p ps)"
      then obtain r where r: "r < p" "j = ps ! r" using assms(3) by (auto simp: in_set_conv_nth)
      then have "ahead m choice lots j (ps ! p)" using sorted_wrt_nth_less [OF assms(2) r(1) assms(3)] by simp
      moreover have "j \<in> set ps" using r assms(3) by simp
      ultimately show "j \<in> set ?A" using mset_eq_setD [OF assms(1)] by simp
    qed
  qed
  then have "sum_list (map (\<lambda>j. units (lots ! j)) ?A) = sum_list (map (\<lambda>j. units (lots ! j)) (take p ps))"
    using d by (simp only: sum_list_distinct_conv_sum_set distinct_filter distinct_upt distinct_take)
  then show ?thesis using assms(3) by (simp add: sold_def clip_def take_map comp_def)
qed

lemma refreshed_lot:
  assumes "mset ps = mset [0..<length lots]" "distinct (map lt_id lots)"
    "map lot_mark new = map lot_mark (map ((!) lots) ps)" "p < length ps"
  shows "refresh_lots lots new ! (ps ! p) = new ! p"
proof -
  have n: "ps ! p < length lots" using mset_eq_setD [OF assms(1)] assms(4) by (metis atLeast_upt lessThan_iff nth_mem)
  have len: "length new = length ps" using assms(3) by (metis length_map)
  have "map fst (map lot_mark new) = map fst (map lot_mark (map ((!) lots) ps))" unfolding assms(3) ..
  then have ids: "map lt_id new = map lt_id (map ((!) lots) ps)" by (simp add: lot_mark_def comp_def)
  have "mset (map lt_id new) = mset (map lt_id lots)"
    unfolding ids by (metis assms(1) map_nth mset_map)
  then have d: "distinct (map lt_id new)" using assms(2) by (metis mset_eq_imp_distinct_iff)
  have i: "lt_id (new ! r) = lt_id (lots ! (ps ! r))" if "r < length new" for r
    using arg_cong [OF ids, of "\<lambda>xs. xs ! r"] that len by simp
  have "find (\<lambda>k. lt_id k = lt_id (lots ! (ps ! p))) new = Some (new ! p)"
    unfolding find_Some_iff using assms(4) len i d
    by (intro exI [of _ p]) (auto simp: distinct_conv_nth dest: less_trans)
  then show ?thesis using n by (simp add: refresh_lots_def)
qed

text \<open>The positions that give something are the first ones of the selling order.\<close>

lemma taken_positions:
  assumes "mset ps = mset [0..<n]" "list_all ((<) 0) us" "0 \<le> q" "length us = length ps" "k = length (takes q us)"
    "\<And>p. p < length ps \<Longrightarrow> f (ps ! p) = clip q us p"
  shows "set (take k ps) = {i. i < n \<and> 0 < f i}"
proof -
  note t = takes_clip [OF assms(2,3)]
  have k: "p < k \<longleftrightarrow> p < length ps \<and> 0 < f (ps ! p)" for p
    using t [of p] assms(4-6) by auto
  have "i \<in> set (take k ps) \<longleftrightarrow> (\<exists>p<length ps. ps ! p = i \<and> p < k)" for i
    by (auto simp: in_set_conv_nth)
  moreover have "i < n \<longleftrightarrow> (\<exists>p<length ps. ps ! p = i)" for i
    using mset_eq_setD [OF assms(1)] by (metis atLeast_upt in_set_conv_nth lessThan_iff)
  ultimately show ?thesis using k by auto
qed

lemma events_of_takes:
  assumes "list_all ((<) 0) us" "0 \<le> q" "length us = length ps" "k = length (takes q us)"
    "\<And>p. p < length ps \<Longrightarrow> f (ps ! p) = clip q us p"
  shows "map2 g (map h ps) (takes q us) = map (\<lambda>i. g (h i) (f i)) (take k ps)"
proof (rule nth_equalityI)
  note t = takes_clip [OF assms(1,2)]
  have k: "k \<le> length ps" using t [of "length ps"] assms(3,4) by auto
  then show "length (map2 g (map h ps) (takes q us)) = length (map (\<lambda>i. g (h i) (f i)) (take k ps))"
    using assms(4) by simp
  fix p assume "p < length (map2 g (map h ps) (takes q us))"
  then have p: "p < length ps" "p < k" using assms(4) by simp_all
  then show "map2 g (map h ps) (takes q us) ! p = map (\<lambda>i. g (h i) (f i)) (take k ps) ! p"
    using t [of p] assms(4) assms(5) [OF p(1)] by simp
qed

text \<open>The lots that stay in the book.\<close>

lemma book_of_leaves:
  assumes "mset ps = mset [0..<length lots]" "distinct (map lt_id lots)" "list_all ((<) 0) us" "0 \<le> q"
    "map lt_qty new = qtys (leaves q us)" "map lot_mark new = map lot_mark (map ((!) lots) ps)"
    "us = map units (map ((!) lots) ps)" "\<And>p. p < length ps \<Longrightarrow> f (ps ! p) = clip q us p"
  shows "map (\<lambda>l. (units l, lot_mark l)) (filter (\<lambda>l. flt lot_eps (lt_qty l)) (refresh_lots lots new))
    = map (\<lambda>i. (units (lots ! i) - f i, lot_mark (lots ! i))) (filter (\<lambda>i. f i < units (lots ! i)) [0..<length lots])"
proof -
  let ?r = "refresh_lots lots new"
  have lot: "lt_qty (?r ! i) = Fin (of_int (units (lots ! i) - f i))" "lot_mark (?r ! i) = lot_mark (lots ! i)"
    if i: "i < length lots" for i
  proof -
    have "i \<in> set ps" using mset_eq_setD [OF assms(1)] i by simp
    then obtain p where p: "p < length ps" "ps ! p = i" by (metis in_set_conv_nth)
    have len: "length new = length ps" "length us = length ps" using assms(6,7) by (metis length_map)+
    have r: "?r ! i = new ! p" using refreshed_lot [OF assms(1,2,6) p(1)] p(2) by simp
    have "lot_mark (new ! p) = lot_mark (lots ! i)"
      using arg_cong [OF assms(6), of "\<lambda>xs. xs ! p"] p len by simp
    then show "lot_mark (?r ! i) = lot_mark (lots ! i)" by (simp only: r)
    have l: "length (leaves q us) = length us" "leaves q us ! p = us ! p - clip q us p"
      using leaves_clip [OF assms(3,4), of p] p(1) len by simp_all
    have "lt_qty (new ! p) = Fin (of_int (us ! p - clip q us p))"
      using arg_cong [OF assms(5), of "\<lambda>xs. xs ! p"] p(1) len l by (simp add: qtys_def)
    moreover have "us ! p = units (lots ! i)" using assms(7) p by simp
    ultimately show "lt_qty (?r ! i) = Fin (of_int (units (lots ! i) - f i))"
      using assms(8) [OF p(1)] p(2) by (simp only: r)
  qed
  have "?r = map ((!) ?r) [0..<length lots]"
    using map_nth [of ?r] by (simp add: refresh_lots_def)
  then have "filter (\<lambda>l. flt lot_eps (lt_qty l)) ?r
      = map ((!) ?r) (filter (\<lambda>i. flt lot_eps (lt_qty (?r ! i))) [0..<length lots])"
    by (metis (no_types, lifting) filter_map comp_apply filter_cong)
  also have "filter (\<lambda>i. flt lot_eps (lt_qty (?r ! i))) [0..<length lots] = filter (\<lambda>i. f i < units (lots ! i)) [0..<length lots]"
    by (rule filter_cong) (simp_all add: lot(1) over_eps(1) del: of_int_diff)
  finally show ?thesis
    using lot by (auto simp: units_def float_units_def)
qed

section \<open>Properties\<close>

definition demo_calc :: "lot_method \<Rightarrow> calculator" where
  "demo_calc m = foldl tax_step \<lparr>cb_method = m, cb_books = [], cb_events = 0\<rparr>
     [Buy ''BTC'' (Fin 3) (Fin 100) 0 (Fin 1) US, Buy ''BTC'' (Fin 5) (Fin 300) 7 (Fin 1) US]"

definition demo_sale :: "rat \<Rightarrow> sale" where
  "demo_sale q = \<lparr>sl_asset = ''BTC'', sl_qty = Fin q, sl_price = Fin 200, sl_time = 9, sl_fees = Fin 0,
     sl_tier = US, sl_instrument = CRYPTO_SPOT\<rparr>"

definition demo_lot :: "string \<Rightarrow> rat \<Rightarrow> rat \<Rightarrow> int \<Rightarrow> lot" where
  "demo_lot i n p t = \<lparr>lt_id = i, lt_asset = ''BTC'', lt_qty = Fin n, lt_price = Fin p, lt_time = t, lt_fees = Fin 1\<rparr>"

lemma demo_calc_inv: "calc_inv (demo_calc m)"
  unfolding demo_calc_def by (rule lots.run_inv) (simp_all add: calc_inv_def)

lemma demo_digits: "digit_of (Suc 0) = CHR ''1''" "digit_of (Suc (Suc 0)) = CHR ''2''"
  by code_simp+

lemma demo_book:
  "dget (cb_books (demo_calc m)) (''BTC'', US)
   = Some \<lparr>lb_lots = [demo_lot ''BTC-US-1'' 3 100 0, demo_lot ''BTC-US-2'' 5 300 7], lb_counter = 2\<rparr>"
  by (simp add: demo_calc_def tax_step_def add_buy_def book_of_def put_book_def Let_def demo_lot_def
      lot_name_def tier_name_def show_nat.simps demo_digits)

lemma demo_method [simp]: "cb_method (demo_calc m) = m" "cb_events (demo_calc m) = 0"
  by (simp_all add: demo_calc_def tax_step_def add_buy_def book_of_def put_book_def Let_def)

lemma demo_sale_simps [simp]:
  "sl_asset (demo_sale q) = ''BTC''" "sl_tier (demo_sale q) = US" "sl_qty (demo_sale q) = Fin q"
  by (simp_all add: demo_sale_def)

lemma demo_units [simp]:
  "units (demo_lot i 3 p t) = 3" "units (demo_lot i 5 p t) = 5" "lt_time (demo_lot i n p t) = t"
  "lt_price (demo_lot i n p t) = Fin p"
  by (simp_all add: units_def float_units_def demo_lot_def)

lemma demo_whole: "whole_book \<lparr>lb_lots = [demo_lot i 3 100 0, demo_lot j 5 300 7], lb_counter = 2\<rparr>"
  by (simp add: whole_book_def whole_lot_def) (simp add: demo_lot_def)

text \<open>
  C19. A sale of whole units sells each lot exactly when the method says: first in first out by the time
  of purchase, last in first out, highest price first, or the named lot before the others, lots the
  method does not tell apart in the order of the book.  Each lot gives what the lots ahead of it
  leave, up to its size.  There is one event for each lot that gives anything, in that order, with
  the lot's own quantity, cost and days held, and the book keeps, in its order, exactly the lots
  with units left, with their ids, prices and times.
\<close>

theorem sale_matches_reference:
  assumes "calc_inv c" "dget (cb_books c) (sl_asset s, sl_tier s) = Some b" "lb_lots b \<noteq> []" "whole_book b"
    "\<forall>l\<in>set (lb_lots b). lt_price l \<noteq> NaN"
    "\<forall>i. cb_method c = SPEC_ID \<and> choice = Some i \<longrightarrow> i \<in> lt_id ` set (lb_lots b)"
    "sl_qty s = Fin (of_int q)" "0 < q" "q \<le> 2 ^ 53" "q \<le> sum_list (map units (lb_lots b))"
  shows "\<exists>evs c' b' ns. process_sell s choice c = (Inr evs, c')
     \<and> dget (cb_books c') (sl_asset s, sl_tier s) = Some b'
     \<and> sorted_wrt (ahead (cb_method c) choice (lb_lots b)) ns \<and> distinct ns
     \<and> set ns = {i. i < length (lb_lots b) \<and> 0 < sold (cb_method c) choice q (lb_lots b) i}
     \<and> map told evs = map (\<lambda>i. taken s (lb_lots b ! i) (sold (cb_method c) choice q (lb_lots b) i)) ns
     \<and> map (\<lambda>l. (units l, lot_mark l)) (lb_lots b')
       = map (\<lambda>i. (units (lb_lots b ! i) - sold (cb_method c) choice q (lb_lots b) i, lot_mark (lb_lots b ! i)))
           (filter (\<lambda>i. sold (cb_method c) choice q (lb_lots b) i < units (lb_lots b ! i)) [0..<length (lb_lots b)])"
proof -
  let ?lots = "lb_lots b" and ?sold = "sold (cb_method c) choice q (lb_lots b)"
  have "\<exists>order. lot_priority (cb_method c) ?lots choice = Inr order"
    using assms(6) by (auto simp: lot_priority_def Let_def filter_empty_conv split: lot_method.split option.split)
  then obtain order where order: "lot_priority (cb_method c) ?lots choice = Inr order" ..
  then obtain ps where ps: "order = map ((!) ?lots) ps" "mset ps = mset [0..<length ?lots]"
    "sorted_wrt (ahead (cb_method c) choice ?lots) ps" by (rule lot_priority_ahead [OF _ assms(5)])
  obtain r c' b' evs new where run: "process_sell s choice c = (r, c')"
    "r = (if sum_list (map units ?lots) < q then Inl ValueError else Inr evs)"
    "map te_qty evs = qtys (takes q (map units order))" "dget (cb_books c') (sl_asset s, sl_tier s) = Some b'"
    "map told evs = map2 (taken s) order (takes q (map units order))"
    "lb_lots b' = filter (\<lambda>l. flt lot_eps (lt_qty l)) (refresh_lots ?lots new)"
    "map lt_qty new = qtys (leaves q (map units order))" "map lot_mark new = map lot_mark order"
    by (rule process_sell_whole [OF assms(1-4,7-9) order])
  have "list_all (\<lambda>l. 0 < units l) ?lots" using assms(4) by (auto simp: whole_book_def whole_lot_def list_all_iff)
  then have pos: "list_all ((<) 0) (map units order)" "0 \<le> q"
    using assms(8) mset_eq_setD [OF lot_priority_perm [OF order]] by (simp_all add: list_all_iff)
  have sp: "?sold (ps ! p) = clip q (map units order) p" if "p < length ps" for p
    unfolding ps(1) by (rule sold_clip [OF ps(2,3) that])
  have len: "length evs = length (takes q (map units order))"
    using arg_cong [OF run(3), of length] by (simp add: qtys_def)
  have "process_sell s choice c = (Inr evs, c')" using run(1,2) assms(10) by simp
  moreover note run(4)
  moreover have "sorted_wrt (ahead (cb_method c) choice ?lots) (take (length evs) ps)" by (rule sorted_wrt_take [OF ps(3)])
  moreover have "distinct (take (length evs) ps)" using mset_eq_imp_distinct_iff [OF ps(2)] by simp
  moreover have "set (take (length evs) ps) = {i. i < length ?lots \<and> 0 < ?sold i}"
    by (rule taken_positions [OF ps(2) pos]) (use len sp ps(1) in simp_all)
  moreover have "map told evs = map (\<lambda>i. taken s (?lots ! i) (?sold i)) (take (length evs) ps)"
    unfolding run(5) unfolding ps(1)
    by (rule events_of_takes) (use pos len sp ps(1) in simp_all)
  moreover have "map (\<lambda>l. (units l, lot_mark l)) (lb_lots b')
       = map (\<lambda>i. (units (?lots ! i) - ?sold i, lot_mark (?lots ! i))) (filter (\<lambda>i. ?sold i < units (?lots ! i)) [0..<length ?lots])"
  proof (unfold run(6), rule book_of_leaves [OF ps(2) _ pos(1,2) run(7)])
    show "distinct (map lt_id ?lots)" using calc_inv_get [OF assms(1,2)] by (simp add: book_inv_def)
  qed (use run(8) sp ps(1) in simp_all)
  ultimately show ?thesis by blast
qed

theorem sale_matches_reference_witness:
  "\<exists>evs c' b'. process_sell (demo_sale 6) None (demo_calc LIFO) = (Inr evs, c') \<and> map te_qty evs = [Fin 5, Fin 1]
     \<and> dget (cb_books c') (''BTC'', US) = Some b'
     \<and> map (\<lambda>l. (units l, lot_mark l)) (lb_lots b') = [(2, ''BTC-US-1'', Fin 100, 0)]"
proof -
  let ?ls = "[demo_lot ''BTC-US-1'' 3 100 0, demo_lot ''BTC-US-2'' 5 300 7]"
  have up: "[0..<2] = [0, Suc 0]" by (simp add: upt_rec)
  have a: "ahead LIFO None ?ls (Suc 0) 0" "\<not> ahead LIFO None ?ls 0 (Suc 0)" "\<not> ahead LIFO None ?ls i i" for i
    by (simp_all add: ahead_def sells_first_def)
  have s: "sold LIFO None 6 ?ls 0 = 1" "sold LIFO None 6 ?ls (Suc 0) = 5"
    by (simp_all add: sold_def a up)
  let ?b = "\<lparr>lb_lots = ?ls, lb_counter = 2\<rparr>"
  have b: "dget (cb_books (demo_calc LIFO)) (sl_asset (demo_sale 6), sl_tier (demo_sale 6)) = Some ?b" by (simp add: demo_book)
  have h: "lb_lots ?b \<noteq> []" "whole_book ?b" "\<forall>l\<in>set (lb_lots ?b). lt_price l \<noteq> NaN"
    "\<forall>i. cb_method (demo_calc LIFO) = SPEC_ID \<and> None = Some i \<longrightarrow> i \<in> lt_id ` set (lb_lots ?b)"
    "sl_qty (demo_sale 6) = Fin (of_int 6)" "0 < (6 :: int)" "6 \<le> (2 :: int) ^ 53" "6 \<le> sum_list (map units (lb_lots ?b))"
    by (simp_all add: demo_whole)
  obtain evs c' b' ns where r: "process_sell (demo_sale 6) None (demo_calc LIFO) = (Inr evs, c')"
    "dget (cb_books c') (''BTC'', US) = Some b'" "sorted_wrt (ahead LIFO None ?ls) ns" "distinct ns"
    "set ns = {i. i < length ?ls \<and> 0 < sold LIFO None 6 ?ls i}"
    "map told evs = map (\<lambda>i. taken (demo_sale 6) (?ls ! i) (sold LIFO None 6 ?ls i)) ns"
    "map (\<lambda>l. (units l, lot_mark l)) (lb_lots b')
       = map (\<lambda>i. (units (?ls ! i) - sold LIFO None 6 ?ls i, lot_mark (?ls ! i)))
           (filter (\<lambda>i. sold LIFO None 6 ?ls i < units (?ls ! i)) [0..<length ?ls])"
    using sale_matches_reference [OF demo_calc_inv b h]
    unfolding demo_method demo_sale_simps lot_book.select_convs by blast
  have "set ns = {0, Suc 0}" unfolding r(5) using s by (auto simp: less_Suc_eq)
  moreover from this have "length ns = 2" using distinct_card [OF r(4)] by simp
  then obtain x y where xy: "ns = [x, y]" by (auto simp: length_Suc_conv numeral_2_eq_2)
  ultimately have "ns = [Suc 0, 0]" using r(3) a by (auto simp: doubleton_eq_iff)
  then have "map told evs = [taken (demo_sale 6) (?ls ! Suc 0) 5, taken (demo_sale 6) (?ls ! 0) 1]" using r(6) s by simp
  then have "map fst (map told evs) = [Fin 5, Fin 1]" by (simp add: taken_def)
  then have "map te_qty evs = [Fin 5, Fin 1]" by (simp add: told_def comp_def)
  with r(1,2,7) s up show ?thesis by (simp add: lot_mark_def) (simp add: demo_lot_def)
qed

text \<open>
  C30. A sale of more whole units than the book holds is refused with a value error, but only after
  the loop: the book is left empty, and the event counter has counted the discarded events.
\<close>

theorem oversell_empties_book:
  assumes "calc_inv c" "dget (cb_books c) (sl_asset s, sl_tier s) = Some b" "lb_lots b \<noteq> []" "whole_book b"
    "sl_qty s = Fin (of_int q)" "q \<le> 2 ^ 53"
    "lot_priority (cb_method c) (lb_lots b) choice = Inr order" "sum_list (map units (lb_lots b)) < q"
  shows "\<exists>c' b'. process_sell s choice c = (Inl ValueError, c')
     \<and> dget (cb_books c') (sl_asset s, sl_tier s) = Some b' \<and> lb_lots b' = [] \<and> cb_events c < cb_events c'"
proof -
  have u: "list_all (\<lambda>l. 0 < units l) (lb_lots b)"
    using assms(4) by (simp add: whole_book_def whole_lot_def list_all_iff)
  then have "0 < q" using pos_units [of "lb_lots b"] assms(3,8) by linarith
  obtain r c' b' evs where run: "process_sell s choice c = (r, c')"
    "r = (if sum_list (map units (lb_lots b)) < q then Inl ValueError else Inr evs)"
    and q: "map te_qty evs = qtys (takes q (map units order))"
    and b': "dget (cb_books c') (sl_asset s, sl_tier s) = Some b'"
    and left: "sum_list (map units (lb_lots b')) = max 0 (sum_list (map units (lb_lots b)) - q)"
    and pos: "list_all (\<lambda>l. 0 < units l) (lb_lots b')" and n: "cb_events c' = cb_events c + length evs"
    using process_sell_whole [OF assms(1-5) \<open>0 < q\<close> assms(6,7)] by metis
  have "lb_lots b' = []" using left pos_units [OF pos] assms(8) by simp
  moreover have "order \<noteq> []" using lot_priority_perm [OF assms(7)] assms(3) by auto
  then have "evs \<noteq> []" using q \<open>0 < q\<close> by (cases order) auto
  ultimately show ?thesis using run b' n assms(8) by auto
qed

theorem oversell_empties_book_witness:
  "\<exists>c' b'. process_sell (demo_sale 9) None (demo_calc FIFO) = (Inl ValueError, c')
     \<and> dget (cb_books c') (''BTC'', US) = Some b' \<and> lb_lots b' = []"
proof -
  let ?l = "demo_lot ''BTC-US-1'' 3 100 0" and ?m = "demo_lot ''BTC-US-2'' 5 300 7"
  have "lot_priority FIFO [?l, ?m] None = Inr [?l, ?m]" by (simp add: lot_priority_def)
  then show ?thesis
    using oversell_empties_book [OF demo_calc_inv [of FIFO], where s = "demo_sale 9" and q = 9 and choice = None
          and order = "[?l, ?m]"]
    by (auto simp: demo_book demo_whole)
qed

end
