(* ===== verification/Section_1256.thy ===== *)
theory Section_1256
  imports Cost_Basis Whole
begin

text \<open>
  \<open>tax/section_1256_reporter.py\<close>: marking open futures to market at year end, the 60/40 split and
  the form summary.  Descriptions, which render quantities, are left out of the summary's lines.
\<close>

section \<open>Definitions\<close>

record open_future =
  of_symbol :: string
  of_qty :: pyfloat
  of_entry :: pyfloat
  of_time :: int
  of_tier :: account_tier

definition mtm_event ::
  "nat \<Rightarrow> open_future \<Rightarrow> pyfloat \<Rightarrow> int \<Rightarrow> pyexc + taxable_event" where
  "mtm_event i p price year_end =
     (let proceeds = fmul price (of_qty p); cost = fmul (of_entry p) (of_qty p);
          gain = fsub proceeds cost; cost2 = fround 2 cost
      in if flt cost2 (Fin 0) then Inl ValueError
         else Inr \<lparr>te_id = ''mtm-'' @ of_symbol p @ ''-'' @ show_nat i, te_time = year_end,
                   te_type = TRADE_CLOSE, te_asset = of_symbol p, te_qty = of_qty p, te_cost = cost2,
                   te_proceeds = fround 2 proceeds, te_gain = fround 2 gain,
                   te_holding = max ((year_end - of_time p) div day_us) 0, te_tier = of_tier p,
                   te_instrument = FUTURES_1256\<rparr>)"

fun mark_from :: "nat \<Rightarrow> open_future list \<Rightarrow> int \<Rightarrow> (string, pyfloat) dict \<Rightarrow> pyexc + taxable_event list" where
  "mark_from i [] year_end prices = Inr []"
| "mark_from i (p # ps) year_end prices =
     (case dget prices (of_symbol p) of
        None \<Rightarrow> mark_from (Suc i) ps year_end prices
      | Some price \<Rightarrow>
          rbind (mtm_event i p price year_end) (\<lambda>ev.
          rbind (mark_from (Suc i) ps year_end prices) (\<lambda>evs. Inr (ev # evs))))"

definition mark_to_market :: "open_future list \<Rightarrow> int \<Rightarrow> (string, pyfloat) dict \<Rightarrow> pyexc + taxable_event list" where
  "mark_to_market ps year_end prices = mark_from 0 ps year_end prices"

definition long_term_frac :: pyfloat where
  "long_term_frac = fl (60 / 100)"

definition short_term_frac :: pyfloat where
  "short_term_frac = fl (40 / 100)"

record split_6040 =
  long_60 :: pyfloat
  short_40 :: pyfloat
  split_total :: pyfloat

definition breakdown_60_40 :: "pyfloat \<Rightarrow> split_6040" where
  "breakdown_60_40 g =
     \<lparr>long_60 = fround 2 (fmul g long_term_frac), short_40 = fround 2 (fmul g short_term_frac),
      split_total = fround 2 g\<rparr>"

record form_6781 =
  line_1 :: "pyfloat list"
  line_2 :: pyfloat
  line_3 :: pyfloat
  line_8 :: pyfloat
  line_9 :: pyfloat
  n_contracts :: nat

definition form_summary :: "taxable_event list \<Rightarrow> form_6781" where
  "form_summary evs =
     (let cs = filter (\<lambda>ev. te_instrument ev = FUTURES_1256) evs;
          tot = pysum (map te_gain cs); b = breakdown_60_40 tot
      in \<lparr>line_1 = map (\<lambda>ev. fround 2 (te_gain ev)) cs, line_2 = fround 2 tot, line_3 = fround 2 tot,
          line_8 = short_40 b, line_9 = long_60 b, n_contracts = length cs\<rparr>)"

section \<open>Lemmas\<close>

lemma mark_from_Inr:
  "mark_from i ps t prices = Inr evs \<Longrightarrow>
   list_all (\<lambda>ev. te_instrument ev = FUTURES_1256 \<and> te_time ev = t) evs
   \<and> map te_asset evs = filter (\<lambda>k. dget prices k \<noteq> None) (map of_symbol ps)"
  by (induction ps arbitrary: i evs)
    (auto simp: mtm_event_def Let_def split: option.splits if_splits)

lemma mark_from_long:
  "list_all (\<lambda>p. nonneg (of_qty p) \<and> nonneg (of_entry p)) ps \<Longrightarrow> \<exists>evs. mark_from i ps t prices = Inr evs"
proof (induction ps arbitrary: i)
  case (Cons p ps)
  then have "nonneg (fround 2 (fmul (of_entry p) (of_qty p)))"
    by (intro nonneg_intros) auto
  then have "\<exists>ev. mtm_event i p price t = Inr ev" for price
    by (simp add: mtm_event_def nonneg_def Let_def)
  then obtain ev where "mtm_event i p price t = Inr (ev price)" for price by metis
  moreover obtain evs where "mark_from (Suc i) ps t prices = Inr evs" using Cons by auto
  ultimately show ?case by (simp split: option.split)
qed simp

lemma short_event_fails:
  assumes "of_entry p = Fin (of_int x)" "of_qty p = Fin (- of_int q)" "0 < x" "0 < q" "x * q \<le> 2 ^ 53"
  shows "mtm_event i p price t = Inl ValueError"
proof -
  have "fmul (of_entry p) (of_qty p) = Fin (of_int (- (x * q)))"
    using fl_whole [of "- (x * q)"] assms by simp
  moreover have "fround 2 (Fin (of_int (- (x * q)))) = Fin (of_int (- (x * q)))"
    by (rule whole_cents) (use assms in simp)
  moreover have "0 < x * q" using assms by simp
  ultimately show ?thesis by (simp add: mtm_event_def Let_def del: fround.simps fmul.simps of_int_minus of_int_mult)
qed

section \<open>Properties\<close>

text \<open>
  Marking to market fails on short positions: when a short of whole contracts at a whole entry
  price has a year-end price, the call raises a value error for the whole portfolio, because the
  event's cost basis would be negative.
\<close>

theorem short_futures_cannot_be_marked:
  assumes "p \<in> set ps" "dget prices (of_symbol p) \<noteq> None"
    "of_entry p = Fin (of_int x)" "of_qty p = Fin (- of_int q)" "0 < x" "0 < q" "x * q \<le> 2 ^ 53"
  shows "\<exists>e. mark_to_market ps t prices = Inl e"
proof -
  have "\<exists>e. mark_from i ps t prices = Inl e" for i
    using assms(1)
  proof (induction ps arbitrary: i)
    case (Cons a ps)
    show ?case
    proof (cases "a = p")
      case True
      then show ?thesis using assms(2) short_event_fails [OF assms(3-7)] by auto
    next
      case False
      then obtain e where "mark_from (Suc i) ps t prices = Inl e" using Cons by auto
      then show ?thesis by (cases "dget prices (of_symbol a)"; cases "mtm_event i a (the (dget prices (of_symbol a))) t") auto
    qed
  qed simp
  then show ?thesis by (simp add: mark_to_market_def)
qed

theorem short_futures_cannot_be_marked_witness:
  "\<exists>e. mark_to_market [\<lparr>of_symbol = ''MNQ'', of_qty = Fin (- 2), of_entry = Fin 20000, of_time = 0, of_tier = US\<rparr>]
         1 [(''MNQ'', Fin 19000)] = Inl e"
  using short_futures_cannot_be_marked [where x = 20000 and q = 2
      and p = "\<lparr>of_symbol = ''MNQ'', of_qty = Fin (- 2), of_entry = Fin 20000, of_time = 0, of_tier = US\<rparr>"]
  by simp

lemma long_futures_marked:
  assumes "list_all (\<lambda>p. nonneg (of_qty p) \<and> nonneg (of_entry p)) ps"
  shows "\<exists>evs. mark_to_market ps t prices = Inr evs \<and> n_contracts (form_summary evs) = length evs
     \<and> map te_asset evs = filter (\<lambda>k. dget prices k \<noteq> None) (map of_symbol ps)"
proof -
  obtain evs where e: "mark_from 0 ps t prices = Inr evs" using mark_from_long [OF assms] by blast
  from mark_from_Inr [OF e] have "filter (\<lambda>ev. te_instrument ev = FUTURES_1256) evs = evs"
    by (auto simp: list_all_iff filter_id_conv)
  with mark_from_Inr [OF e] e show ?thesis by (simp add: mark_to_market_def form_summary_def Let_def)
qed

end
