(* ===== verification/Venue_Router.thy ===== *)
theory Venue_Router
  imports Venue_Base
begin

text \<open>
  \<open>venues/router.py\<close> and \<open>venues/cme_mapping.py\<close>: which venue an order goes to, the translation of
  crypto perpetuals to listed futures for US persons, the circuit breaker of each venue, and the
  failover loop.  What a venue answers is an argument: a function of the number of the call, the
  venue and the request that gives an exception's text or a result.  So is the monotonic clock, a
  function of the number of the circuit operation that may read it.
\<close>

section \<open>Symbols\<close>

definition crypto_perp_to_cme_micro :: "(string, string) dict" where
  "crypto_perp_to_cme_micro =
     [(''BTCUSDT'', ''MBT''), (''ETHUSDT'', ''MET''), (''SOLUSDT'', ''SOL''), (''XRPUSDT'', ''XRP'')]"

definition crypto_perp_to_cme_full :: "(string, string) dict" where
  "crypto_perp_to_cme_full = [(''BTCUSDT'', ''BTC''), (''ETHUSDT'', ''ETH'')]"

definition to_cme :: "bool \<Rightarrow> string \<Rightarrow> string option" where
  "to_cme micro s =
     (let norm = upper (strip s)
      in if micro then dget crypto_perp_to_cme_micro norm
         else case dget crypto_perp_to_cme_full norm of
                Some x \<Rightarrow> Some x | None \<Rightarrow> dget crypto_perp_to_cme_micro norm)"

definition key_of_value :: "'v \<Rightarrow> ('k, 'v) dict \<Rightarrow> 'k option" where
  "key_of_value v d = map_option fst (find (\<lambda>(k, w). w = v) d)"

definition from_cme :: "string \<Rightarrow> string option" where
  "from_cme s =
     (let norm = upper (strip s)
      in case key_of_value norm crypto_perp_to_cme_micro of
           Some p \<Rightarrow> Some p | None \<Rightarrow> key_of_value norm crypto_perp_to_cme_full)"

definition is_crypto_perp :: "string \<Rightarrow> bool" where
  "is_crypto_perp s = (dget crypto_perp_to_cme_micro (upper (strip s)) \<noteq> None)"

definition month_letters :: string where
  "month_letters = ''FGHJKMNQUVXZ''"

definition is_month_suffix :: "string \<Rightarrow> bool" where
  "is_month_suffix s =
     (case s of c # ds \<Rightarrow> c \<in> set month_letters \<and> length ds \<in> {1, 2} \<and> list_all is_digit ds | [] \<Rightarrow> False)"

definition crypto_natives :: "string list" where
  "crypto_natives = [''ETHUSDT'', ''BTCUSDT'', ''SOLUSDT'', ''XRPUSDT'']"

definition router_futures_roots :: "string list" where
  "router_futures_roots = [''MNQ'', ''NQ'', ''ES'', ''MES'', ''RTY'']"

definition cme_crypto_futures :: "string list" where
  "cme_crypto_futures = [''MBT'', ''MET'', ''BTC'', ''ETH'', ''SOL'', ''XRP'']"

definition is_cme_code :: "string \<Rightarrow> string \<Rightarrow> bool" where
  "is_cme_code up code =
     (up = code \<or> starts_with up code \<and>
        (let suffix = drop (length code) up
         in suffix = [] \<or> hd suffix = CHR '' '' \<or> is_month_suffix suffix))"

definition is_futures :: "string \<Rightarrow> bool" where
  "is_futures s =
     (list_ex (starts_with (upper s)) router_futures_roots \<or> list_ex (is_cme_code (upper s)) cme_crypto_futures)"

definition is_crypto :: "string \<Rightarrow> bool" where
  "is_crypto s =
     (let up = upper s
      in up \<in> set crypto_natives \<or> contains ''/'' up \<or> contains ''USDT'' up \<or> contains ''USDC'' up)"

section \<open>Venues and their circuits\<close>

datatype adapter = Bybit | Okx | Tradovate | Ibkr | Tastytrade | Alpaca

definition venue_name :: "adapter \<Rightarrow> string" where
  "venue_name v =
     (case v of Bybit \<Rightarrow> ''bybit'' | Okx \<Rightarrow> ''okx'' | Tradovate \<Rightarrow> ''tradovate'' | Ibkr \<Rightarrow> ''ibkr''
      | Tastytrade \<Rightarrow> ''tastytrade'' | Alpaca \<Rightarrow> ''alpaca'')"

definition non_fcm_venues :: "string list" where
  "non_fcm_venues = [''bybit'', ''okx'', ''deribit'', ''hyperliquid'', ''bitget'', ''binance'']"

definition dormant_brokers :: "env \<Rightarrow> string list" where
  "dormant_brokers e =
     (if lower (strip (env_get e ''ETA_TRADOVATE_ENABLED'')) \<in> {''1'', ''true'', ''yes'', ''on'', ''y''}
      then [] else [''tradovate''])"

definition is_us_person :: "env \<Rightarrow> bool" where
  "is_us_person e =
     (lower (case e ''ETA_IS_US_PERSON'' of Some v \<Rightarrow> v | None \<Rightarrow> ''true'') \<in> {''1'', ''true'', ''yes'', ''y''})"

definition known_futures_venues :: "string list" where
  "known_futures_venues = [''tradovate'', ''ibkr'', ''tastytrade'']"

definition default_futures_venue :: string where
  "default_futures_venue = ''ibkr''"

definition resolve_preferred_futures_venue :: "env \<Rightarrow> string \<Rightarrow> pyexc + string" where
  "resolve_preferred_futures_venue e requested =
     (let norm = lower (strip requested)
      in if norm \<notin> set known_futures_venues then Inl ValueError
         else if norm \<in> set (dormant_brokers e) then Inr default_futures_venue else Inr norm)"

record circuit =
  cc_threshold :: nat
  cc_reset :: pyfloat
  cc_failures :: nat
  cc_opened :: "pyfloat option"

definition new_circuit :: circuit where
  "new_circuit = \<lparr>cc_threshold = 5, cc_reset = Fin 60, cc_failures = 0, cc_opened = None\<rparr>"

definition circuit_success :: "circuit \<Rightarrow> circuit" where
  "circuit_success c = c\<lparr>cc_failures := 0, cc_opened := None\<rparr>"

definition circuit_failure :: "pyfloat \<Rightarrow> circuit \<Rightarrow> circuit" where
  "circuit_failure now c =
     (let n = Suc (cc_failures c)
      in if cc_threshold c \<le> n then c\<lparr>cc_failures := n, cc_opened := Some now\<rparr> else c\<lparr>cc_failures := n\<rparr>)"

definition circuit_is_open :: "pyfloat \<Rightarrow> circuit \<Rightarrow> bool \<times> circuit" where
  "circuit_is_open now c =
     (case cc_opened c of
        None \<Rightarrow> (False, c)
      | Some t \<Rightarrow> if fle (cc_reset c) (fsub now t) then (False, circuit_success c) else (True, c))"

section \<open>The router\<close>

datatype failover_note =
    UsBlock string string | UsBlockHop string string | CircuitSkip string | RejectedAt string string
  | RaisedAt string string

record smart_router =
  sr_crypto :: string
  sr_futures :: string
  sr_log :: "failover_note list"
  sr_circuits :: "(string, circuit) dict"

definition new_router :: "env \<Rightarrow> string \<Rightarrow> string \<Rightarrow> pyexc + smart_router" where
  "new_router e crypto futures =
     (let c = lower (strip crypto)
      in if c \<notin> {''bybit'', ''okx''} then Inl ValueError
         else rbind (resolve_preferred_futures_venue e futures) (\<lambda>f.
           Inr \<lparr>sr_crypto = c, sr_futures = f, sr_log = [],
                sr_circuits = map (\<lambda>v. (venue_name v, new_circuit)) [Bybit, Okx, Tradovate, Ibkr, Tastytrade, Alpaca]\<rparr>))"

definition venue_aliases :: "(string, adapter) dict" where
  "venue_aliases = [(''tasty'', Tastytrade), (''tt'', Tastytrade), (''ib'', Ibkr),
                    (''interactivebrokers'', Ibkr), (''alp'', Alpaca)]"

definition venue_by_name :: "string \<Rightarrow> adapter option" where
  "venue_by_name name =
     (case find (\<lambda>v. venue_name v = name) [Bybit, Okx, Tradovate, Ibkr, Tastytrade, Alpaca] of
        Some v \<Rightarrow> Some v | None \<Rightarrow> dget venue_aliases (lower (strip name)))"

definition choose_venue :: "env \<Rightarrow> string \<Rightarrow> smart_router \<Rightarrow> (pyexc + adapter) \<times> smart_router" where
  "choose_venue e s r =
     (if is_futures s then
        (case resolve_preferred_futures_venue e (sr_futures r) of
           Inl x \<Rightarrow> (Inl x, r)
         | Inr p \<Rightarrow>
             (if p = ''ibkr'' then Inr Ibkr else if p = ''tastytrade'' then Inr Tastytrade
              else if p = ''tradovate'' then Inr Tradovate else Inl RuntimeError,
              r\<lparr>sr_futures := p\<rparr>))
      else if is_crypto s then (Inr (if sr_crypto r = ''okx'' then Okx else Bybit), r)
      else (Inr Bybit, r))"

definition fallback_for :: "adapter \<Rightarrow> adapter option" where
  "fallback_for v =
     (case v of Bybit \<Rightarrow> Some Okx | Tradovate \<Rightarrow> Some Ibkr | Okx \<Rightarrow> Some Bybit | Ibkr \<Rightarrow> Some Tastytrade
      | Tastytrade \<Rightarrow> Some Ibkr | Alpaca \<Rightarrow> None)"

definition translate_for_us :: "bool \<Rightarrow> order_request \<Rightarrow> order_request" where
  "translate_for_us us r =
     (if \<not> us \<or> \<not> is_crypto_perp (rq_symbol r) then r
      else case to_cme True (rq_symbol r) of None \<Rightarrow> r | Some s \<Rightarrow> r\<lparr>rq_symbol := s\<rparr>)"

type_synonym venue_answers = "nat \<Rightarrow> adapter \<Rightarrow> order_request \<Rightarrow> string + order_result"

text \<open>
  The state of the loop: the router, the calls placed so far (kept for the statements below), the
  circuit operations done, the last rejection with its venue and the last exception.
\<close>

record failover_state =
  fo_router :: smart_router
  fo_placed :: "adapter list"
  fo_reads :: nat
  fo_result :: "(order_result \<times> string) option"
  fo_exc :: "string option"

definition with_venue :: "string \<Rightarrow> order_result \<Rightarrow> order_result" where
  "with_venue name res = res\<lparr>or_raw := dset ''venue'' (JStr name) (or_raw res)\<rparr>"

definition put_circuit :: "string \<Rightarrow> circuit \<Rightarrow> failover_state \<Rightarrow> failover_state" where
  "put_circuit n c s =
     s\<lparr>fo_router := (fo_router s)\<lparr>sr_circuits := dset n c (sr_circuits (fo_router s))\<rparr>\<rparr>"

definition note_failover :: "failover_note \<Rightarrow> failover_state \<Rightarrow> failover_state" where
  "note_failover x s = s\<lparr>fo_router := (fo_router s)\<lparr>sr_log := sr_log (fo_router s) @ [x]\<rparr>\<rparr>"

definition check_circuit :: "(nat \<Rightarrow> pyfloat) \<Rightarrow> string \<Rightarrow> failover_state \<Rightarrow> bool \<times> failover_state" where
  "check_circuit clk n s =
     (case dget (sr_circuits (fo_router s)) n of
        None \<Rightarrow> (False, s)
      | Some c \<Rightarrow> (case circuit_is_open (clk (fo_reads s)) c of
                     (b, c') \<Rightarrow> (b, put_circuit n c' s\<lparr>fo_reads := Suc (fo_reads s)\<rparr>)))"

definition fail_circuit :: "(nat \<Rightarrow> pyfloat) \<Rightarrow> string \<Rightarrow> failover_state \<Rightarrow> failover_state" where
  "fail_circuit clk n s =
     (case dget (sr_circuits (fo_router s)) n of
        None \<Rightarrow> s
      | Some c \<Rightarrow> put_circuit n (circuit_failure (clk (fo_reads s)) c) s\<lparr>fo_reads := Suc (fo_reads s)\<rparr>)"

definition succeed_circuit :: "string \<Rightarrow> failover_state \<Rightarrow> failover_state" where
  "succeed_circuit n s =
     (case dget (sr_circuits (fo_router s)) n of None \<Rightarrow> s | Some c \<Rightarrow> put_circuit n (circuit_success c) s)"

text \<open>The loop; its first number counts the attempts left.\<close>

fun failover_loop ::
  "bool \<Rightarrow> venue_answers \<Rightarrow> (nat \<Rightarrow> pyfloat) \<Rightarrow> order_request \<Rightarrow> nat \<Rightarrow> adapter option \<Rightarrow> failover_state \<Rightarrow>
   order_result option \<times> failover_state" where
  "failover_loop us place clk req 0 v s = (None, s)"
| "failover_loop us place clk req (Suc n) None s = (None, s)"
| "failover_loop us place clk req (Suc n) (Some v) s =
     (let name = venue_name v; next = failover_loop us place clk req n (fallback_for v)
      in if us \<and> name \<in> set non_fcm_venues then next (note_failover (UsBlockHop name (rq_symbol req)) s)
         else case check_circuit clk name s of
           (True, s1) \<Rightarrow> next (note_failover (CircuitSkip name) s1)
         | (False, s1) \<Rightarrow>
             let s2 = s1\<lparr>fo_placed := fo_placed s1 @ [v]\<rparr>
             in case place (length (fo_placed s1)) v req of
                  Inl err \<Rightarrow> next (note_failover (RaisedAt name err) (fail_circuit clk name s2)\<lparr>fo_exc := Some err\<rparr>)
                | Inr res \<Rightarrow>
                    if or_status res = Rejected then
                      next (note_failover (RejectedAt name (or_id res)) (fail_circuit clk name s2)
                              \<lparr>fo_result := Some (with_venue name res, name)\<rparr>)
                    else (Some (with_venue name res), succeed_circuit name s2))"

datatype failover_error = UsPersonBlocked string | VenueRaised string | NoVenueAttempted | RouterPy pyexc

definition failover_start :: "smart_router \<Rightarrow> failover_state" where
  "failover_start r = \<lparr>fo_router = r, fo_placed = [], fo_reads = 0, fo_result = None, fo_exc = None\<rparr>"

definition place_with_failover ::
  "env \<Rightarrow> venue_answers \<Rightarrow> (nat \<Rightarrow> pyfloat) \<Rightarrow> order_request \<Rightarrow> nat \<Rightarrow> smart_router \<Rightarrow>
   (failover_error + order_result) \<times> failover_state" where
  "place_with_failover e place clk req0 max_attempts r =
     (let req = translate_for_us (is_us_person e) req0
      in case choose_venue e (rq_symbol req) r of
           (Inl x, r1) \<Rightarrow> (Inl (RouterPy x), failover_start r1)
         | (Inr primary, r1) \<Rightarrow>
             if is_us_person e \<and> venue_name primary \<in> set non_fcm_venues
             then (Inl (UsPersonBlocked (venue_name primary)),
                   note_failover (UsBlock (venue_name primary) (rq_symbol req)) (failover_start r1))
             else case failover_loop (is_us_person e) place clk req max_attempts (Some primary) (failover_start r1) of
               (Some res, s) \<Rightarrow> (Inr res, s)
             | (None, s) \<Rightarrow>
                 (case fo_result s of
                    Some (res, name) \<Rightarrow> (Inr (with_venue name res), s)
                  | None \<Rightarrow> (case fo_exc s of Some err \<Rightarrow> (Inl (VenueRaised err), s)
                             | None \<Rightarrow> (Inl NoVenueAttempted, s))))"

section \<open>Lemmas\<close>

lemma note_failover_placed [simp]: "fo_placed (note_failover x s) = fo_placed s"
  by (simp add: note_failover_def)

lemma put_circuit_placed [simp]: "fo_placed (put_circuit n c s) = fo_placed s"
  by (simp add: put_circuit_def)

lemma fail_circuit_placed [simp]: "fo_placed (fail_circuit clk n s) = fo_placed s"
  by (simp add: fail_circuit_def split: option.split)

lemma succeed_circuit_placed [simp]: "fo_placed (succeed_circuit n s) = fo_placed s"
  by (simp add: succeed_circuit_def split: option.split)

lemma check_circuit_placed: "check_circuit clk n s = (b, s') \<Longrightarrow> fo_placed s' = fo_placed s"
  by (auto simp: check_circuit_def split: option.splits prod.splits)

text \<open>The venues a call may reach.\<close>

definition reachable :: "bool \<Rightarrow> adapter \<Rightarrow> bool" where
  "reachable us v = (\<not> (us \<and> venue_name v \<in> set non_fcm_venues))"

definition accepted :: "venue_answers \<Rightarrow> order_request \<Rightarrow> nat \<Rightarrow> adapter \<Rightarrow> bool" where
  "accepted place req k v = (case place k v req of Inr res \<Rightarrow> or_status res \<noteq> Rejected | Inl _ \<Rightarrow> False)"

text \<open>One turn of the loop: no call, a call that is not accepted, or a call that is.\<close>

lemma failover_turn:
  obtains (skip) s' where "failover_loop us place clk req (Suc n) (Some v) s
      = failover_loop us place clk req n (fallback_for v) s'" "fo_placed s' = fo_placed s"
  | (hop) s' where "failover_loop us place clk req (Suc n) (Some v) s
      = failover_loop us place clk req n (fallback_for v) s'" "fo_placed s' = fo_placed s @ [v]"
      "\<not> accepted place req (length (fo_placed s)) v" "reachable us v"
  | (accept) s' res where "failover_loop us place clk req (Suc n) (Some v) s = (Some (with_venue (venue_name v) res), s')"
      "fo_placed s' = fo_placed s @ [v]" "place (length (fo_placed s)) v req = Inr res"
      "or_status res \<noteq> Rejected" "reachable us v"
proof (cases "us \<and> venue_name v \<in> set non_fcm_venues")
  case True
  then show thesis
    by (intro skip [of "note_failover (UsBlockHop (venue_name v) (rq_symbol req)) s"]) (auto simp: Let_def)
next
  case False
  obtain b s1 where c: "check_circuit clk (venue_name v) s = (b, s1)" by fastforce
  have p: "fo_placed s1 = fo_placed s" using check_circuit_placed [OF c] .
  have ok: "reachable us v" using False by (simp add: reachable_def)
  show thesis
  proof (cases b)
    case True
    then show ?thesis using False c p
      by (intro skip [of "note_failover (CircuitSkip (venue_name v)) s1"]) (auto simp: Let_def)
  next
    case notopen: False
    show ?thesis
    proof (cases "place (length (fo_placed s1)) v req")
      case (Inl err)
      then show ?thesis using False c p notopen ok by (intro hop) (auto simp: Let_def accepted_def)
    next
      case (Inr res)
      then show ?thesis
        using False c p notopen ok hop accept
        by (cases "or_status res = Rejected") (auto simp: Let_def accepted_def)
    qed
  qed
qed

text \<open>The positions among the calls whose answer accepted the order.\<close>

definition acceptances :: "venue_answers \<Rightarrow> order_request \<Rightarrow> adapter list \<Rightarrow> nat list" where
  "acceptances place req vs = filter (\<lambda>k. accepted place req k (vs ! k)) [0..<length vs]"

lemma acceptances_snoc:
  "acceptances place req (vs @ [v])
   = acceptances place req vs @ (if accepted place req (length vs) v then [length vs] else [])"
proof -
  have "filter (\<lambda>k. accepted place req k ((vs @ [v]) ! k)) [0..<length vs] = acceptances place req vs"
    unfolding acceptances_def by (rule filter_cong) (simp_all add: nth_append)
  then show ?thesis by (simp add: acceptances_def)
qed

lemma failover_loop_spec:
  assumes "acceptances place req (fo_placed s) = []"
    and "failover_loop us place clk req n v s = (r, s')"
  shows "\<exists>vs. fo_placed s' = fo_placed s @ vs \<and> length vs \<le> n \<and> list_all (reachable us) vs
    \<and> (case r of
         None \<Rightarrow> acceptances place req (fo_placed s') = []
       | Some x \<Rightarrow> vs \<noteq> [] \<and> acceptances place req (fo_placed s') = [length (fo_placed s') - 1]
           \<and> (\<exists>res. place (length (fo_placed s') - 1) (last vs) req = Inr res
                \<and> x = with_venue (venue_name (last vs)) res))"
  using assms
proof (induction n arbitrary: v s)
  case 0
  then show ?case by auto
next
  case (Suc n)
  show ?case
  proof (cases v)
    case None
    then show ?thesis using Suc.prems by auto
  next
    case (Some w)
    note run = Suc.prems(2) [unfolded Some]
    show ?thesis
    proof (rule failover_turn [of us place clk req n w s])
      fix s1
      assume t: "failover_loop us place clk req (Suc n) (Some w) s = failover_loop us place clk req n (fallback_for w) s1"
        "fo_placed s1 = fo_placed s"
      then obtain vs where "fo_placed s' = fo_placed s @ vs" "length vs \<le> n" "list_all (reachable us) vs"
        "case r of None \<Rightarrow> acceptances place req (fo_placed s') = []
         | Some x \<Rightarrow> vs \<noteq> [] \<and> acceptances place req (fo_placed s') = [length (fo_placed s') - 1]
           \<and> (\<exists>res. place (length (fo_placed s') - 1) (last vs) req = Inr res
                \<and> x = with_venue (venue_name (last vs)) res)"
        using Suc.IH [of s1 "fallback_for w"] Suc.prems(1) run by auto
      then show ?thesis by (intro exI [of _ vs]) simp
    next
      fix s1
      assume t: "failover_loop us place clk req (Suc n) (Some w) s = failover_loop us place clk req n (fallback_for w) s1"
        "fo_placed s1 = fo_placed s @ [w]" "\<not> accepted place req (length (fo_placed s)) w" "reachable us w"
      then have "acceptances place req (fo_placed s1) = []" using Suc.prems(1) by (simp add: acceptances_snoc)
      then obtain vs where "fo_placed s' = fo_placed s1 @ vs" "length vs \<le> n" "list_all (reachable us) vs"
        "case r of None \<Rightarrow> acceptances place req (fo_placed s') = []
         | Some x \<Rightarrow> vs \<noteq> [] \<and> acceptances place req (fo_placed s') = [length (fo_placed s') - 1]
           \<and> (\<exists>res. place (length (fo_placed s') - 1) (last vs) req = Inr res
                \<and> x = with_venue (venue_name (last vs)) res)"
        using Suc.IH [of s1 "fallback_for w"] t(1) run by auto
      then show ?thesis using t(2,4) by (intro exI [of _ "w # vs"]) (auto split: option.splits)
    next
      fix s1 res
      assume t: "failover_loop us place clk req (Suc n) (Some w) s = (Some (with_venue (venue_name w) res), s1)"
        "fo_placed s1 = fo_placed s @ [w]" "place (length (fo_placed s)) w req = Inr res"
        "or_status res \<noteq> Rejected" "reachable us w"
      then have "accepted place req (length (fo_placed s)) w" by (simp add: accepted_def)
      then show ?thesis using t run Suc.prems(1) by (intro exI [of _ "[w]"]) (auto simp: acceptances_snoc)
    qed
  qed
qed

lemma acceptances_Nil [simp]: "acceptances place req [] = []"
  by (simp add: acceptances_def)

lemma failover_start_placed [simp]: "fo_placed (failover_start r) = []"
  by (simp add: failover_start_def)

text \<open>A failover call either places nothing and raises, or is one run of the loop.\<close>

lemma place_cases:
  obtains (none) "\<exists>x. fst (place_with_failover e place clk req n r) = Inl x"
      "fo_placed (snd (place_with_failover e place clk req n r)) = []"
  | (loop) v r1 y where
      "failover_loop (is_us_person e) place clk (translate_for_us (is_us_person e) req) n (Some v) (failover_start r1)
        = (y, snd (place_with_failover e place clk req n r))"
      "\<And>res. y = Some res \<Longrightarrow> fst (place_with_failover e place clk req n r) = Inr res"
proof -
  let ?req = "translate_for_us (is_us_person e) req"
  obtain x r1 where cv: "choose_venue e (rq_symbol ?req) r = (x, r1)" by fastforce
  show thesis
  proof (cases x)
    case (Inl exc)
    then show ?thesis by (intro none) (simp_all add: place_with_failover_def Let_def cv)
  next
    case (Inr v)
    obtain y t where l: "failover_loop (is_us_person e) place clk ?req n (Some v) (failover_start r1) = (y, t)"
      by fastforce
    show ?thesis
    proof (cases "is_us_person e \<and> venue_name v \<in> set non_fcm_venues")
      case True
      then show ?thesis using Inr cv by (intro none) (auto simp: place_with_failover_def Let_def)
    next
      case False
      then have "place_with_failover e place clk req n r = (case y of Some res \<Rightarrow> (Inr res, t)
        | None \<Rightarrow> (case fo_result t of Some (res, name) \<Rightarrow> (Inr (with_venue name res), t)
            | None \<Rightarrow> (case fo_exc t of Some err \<Rightarrow> (Inl (VenueRaised err), t) | None \<Rightarrow> (Inl NoVenueAttempted, t))))"
        using Inr l cv by (auto simp: place_with_failover_def Let_def)
      then show ?thesis using l by (intro loop [of v r1 y]) (auto split: option.splits)
    qed
  qed
qed

section \<open>Properties\<close>

text \<open>
  C18. The failover loop is bounded and legal: whatever the venues answer and whatever the clock and
  the circuits say, a call for a US person never reaches a venue outside the regulated set, on the
  first attempt or any fallback, and places at most \<open>max_attempts\<close> orders.
\<close>

theorem us_person_never_offshore:
  "list_all (\<lambda>v. \<not> (is_us_person e \<and> venue_name v \<in> set non_fcm_venues))
     (fo_placed (snd (place_with_failover e place clk req n r)))
   \<and> length (fo_placed (snd (place_with_failover e place clk req n r))) \<le> n"
proof (rule place_cases [of e place clk req n r])
  fix v r1 y
  assume "failover_loop (is_us_person e) place clk (translate_for_us (is_us_person e) req) n (Some v) (failover_start r1)
      = (y, snd (place_with_failover e place clk req n r))"
  from failover_loop_spec [OF _ this] show ?thesis
    by (auto simp: reachable_def [abs_def] list_all_iff)
qed simp

text \<open>
  An order is accepted at most once: among all the calls one failover makes, at most the last
  was answered with a status other than rejected, and then that answer, tagged with its venue, is
  what the caller gets; so an accepted order is never sent on to another venue.
\<close>

theorem accepted_at_most_once:
  assumes "place_with_failover e place clk req n r = (out, s)"
  shows "acceptances place (translate_for_us (is_us_person e) req) (fo_placed s) = []
    \<or> (\<exists>res. acceptances place (translate_for_us (is_us_person e) req) (fo_placed s) = [length (fo_placed s) - 1]
         \<and> place (length (fo_placed s) - 1) (last (fo_placed s)) (translate_for_us (is_us_person e) req) = Inr res
         \<and> out = Inr (with_venue (venue_name (last (fo_placed s))) res))"
proof (rule place_cases [of e place clk req n r])
  fix v r1 y
  assume l: "failover_loop (is_us_person e) place clk (translate_for_us (is_us_person e) req) n (Some v) (failover_start r1)
      = (y, snd (place_with_failover e place clk req n r))"
    and res: "\<And>res. y = Some res \<Longrightarrow> fst (place_with_failover e place clk req n r) = Inr res"
  from failover_loop_spec [OF _ l] show ?thesis using res assms by (cases y) auto
qed (use assms in simp)

definition demo_request :: "string \<Rightarrow> order_request" where
  "demo_request s = \<lparr>rq_symbol = s, rq_side = Buy, rq_qty = Fin 1, rq_type = Market, rq_price = None,
     rq_reduce_only = False, rq_client_id = None, rq_stop = None, rq_target = None, rq_bot = None\<rparr>"

definition demo_answers :: venue_answers where
  "demo_answers k v req =
     (if v = Ibkr then Inl ''timeout''
      else Inr \<lparr>or_id = ''1'', or_status = Open, or_filled = Fin 0, or_avg = Fin 0, or_fees = Fin 0,
                or_latency = Fin 0, or_raw = []\<rparr>)"

definition demo_router :: smart_router where
  "demo_router = \<lparr>sr_crypto = ''bybit'', sr_futures = ''ibkr'', sr_log = [], sr_circuits = []\<rparr>"

lemma demo_failover:
  "fo_placed (snd (place_with_failover (\<lambda>_. None) demo_answers (\<lambda>_. Fin 0) (demo_request ''BTCUSDT'') 2 demo_router))
     = [Ibkr, Tastytrade]"
  by code_simp

theorem accepted_at_most_once_witness:
  "\<exists>out s. place_with_failover (\<lambda>_. None) demo_answers (\<lambda>_. Fin 0) (demo_request ''BTCUSDT'') 2 demo_router = (out, s)
     \<and> acceptances demo_answers (translate_for_us (is_us_person (\<lambda>_. None)) (demo_request ''BTCUSDT'')) (fo_placed s) = [1]
     \<and> (\<exists>res. out = Inr (with_venue ''tastytrade'' res))"
proof -
  obtain out s where r: "place_with_failover (\<lambda>_. None) demo_answers (\<lambda>_. Fin 0) (demo_request ''BTCUSDT'') 2 demo_router
      = (out, s)" by fastforce
  then have "fo_placed s = [Ibkr, Tastytrade]" using demo_failover by simp
  moreover from this have "acceptances demo_answers q (fo_placed s) \<noteq> []" for q
    by (simp add: acceptances_def accepted_def demo_answers_def upt_rec)
  ultimately show ?thesis using accepted_at_most_once [OF r] r by (auto simp: venue_name_def)
qed

section \<open>Corners\<close>

text \<open>The translation to listed micro contracts keeps the quantity, which was in coins.\<close>

lemma translation_keeps_quantity:
  "rq_symbol (translate_for_us True (demo_request ''BTCUSDT'')) = ''MBT''
   \<and> rq_qty (translate_for_us True (demo_request ''BTCUSDT'')) = rq_qty (demo_request ''BTCUSDT'')"
  by code_simp

text \<open>Any exception, a timeout after the order reached the venue included, sends the order on.\<close>

lemma timeout_is_sent_on:
  "fo_placed (snd (place_with_failover (\<lambda>_. None) demo_answers (\<lambda>_. Fin 0) (demo_request ''MNQ'') 2 demo_router))
     = [Ibkr, Tastytrade]"
  by code_simp

end
