(* ===== verification/Routing.thy ===== *)
theory Routing
  imports Venue_Router
begin

text \<open>
  The routing configuration of the broker router (\<open>scripts/broker_router.py\<close>): the classification of
  symbols, loading the YAML document, the venue and the fallback chain of an order, the symbol a
  venue expects, and the prop-firm account of a bot.  A YAML document is the value the parser
  returns; the text of a value that is not a string is an argument.
\<close>

section \<open>Symbols\<close>

definition futures_roots :: "string list" where
  "futures_roots =
     [''MNQ'', ''NQ'', ''ES'', ''MES'', ''RTY'', ''M2K'', ''MYM'', ''MBT'', ''MET'', ''NG'', ''CL'', ''GC'', ''MGC'',
      ''MCL'', ''ZN'', ''ZB'', ''6E'', ''M6E'']"

definition crypto_bases :: "string list" where
  "crypto_bases =
     [''BTC'', ''ETH'', ''SOL'', ''XRP'', ''AVAX'', ''LINK'', ''DOGE'', ''BCH'', ''LTC'', ''AAVE'', ''BAT'', ''CRV'',
      ''DOT'', ''GRT'', ''MKR'', ''PEPE'', ''SHIB'', ''SUSHI'', ''UNI'', ''XTZ'', ''YFI'', ''USDC'', ''USDT'']"

definition crypto_quotes :: "string list" where
  "crypto_quotes = [''USDT'', ''USDC'', ''USD'']"

definition all_digits :: "string \<Rightarrow> bool" where
  "all_digits s = (s \<noteq> [] \<and> list_all is_digit s)"

datatype asset_class = Crypto | Futures | Equity

definition class_name :: "asset_class \<Rightarrow> string" where
  "class_name k = (case k of Crypto \<Rightarrow> ''crypto'' | Futures \<Rightarrow> ''futures'' | Equity \<Rightarrow> ''equity'')"

definition is_root_form :: "string \<Rightarrow> string \<Rightarrow> bool" where
  "is_root_form raw r =
     (raw = r \<or> starts_with raw r \<and>
        (let suffix = drop (length r) raw in suffix = [] \<or> all_digits suffix \<or> is_month_suffix suffix))"

definition asset_class_for_symbol :: "string \<Rightarrow> asset_class" where
  "asset_class_for_symbol symbol =
     (let raw = lstrip_by (\<lambda>c. c = CHR ''/'') (upper (strip symbol))
      in if raw = [] then Equity
         else if list_ex (is_root_form raw) futures_roots then Futures
         else if contains ''/'' raw then Crypto
         else if list_ex (\<lambda>q. ends_with raw q \<and> length q < length raw
                            \<and> take (length raw - length q) raw \<in> set crypto_bases) crypto_quotes then Crypto
         else if raw \<in> set crypto_bases then Crypto else Equity)"

definition symbol_table :: "(string \<times> string, string) dict" where
  "symbol_table =
     [((''BTC'', ''ibkr''), ''BTCUSD''), ((''ETH'', ''ibkr''), ''ETHUSD''), ((''SOL'', ''ibkr''), ''SOLUSD''),
      ((''XRP'', ''ibkr''), ''XRPUSD''), ((''BTC'', ''tastytrade''), ''BTCUSDT''),
      ((''ETH'', ''tastytrade''), ''ETHUSDT''), ((''SOL'', ''tastytrade''), ''SOLUSDT''),
      ((''XRP'', ''tastytrade''), ''XRPUSDT''), ((''BTCUSDT'', ''bybit''), ''BTCUSDT''),
      ((''ETHUSDT'', ''bybit''), ''ETHUSDT''), ((''SOLUSDT'', ''bybit''), ''SOLUSDT''),
      ((''XRPUSDT'', ''bybit''), ''XRPUSDT'')]"

section \<open>Loading the configuration\<close>

datatype yaml =
    YNull | YBool bool | YInt int | YFloat pyfloat | YStr string | YList "yaml list" | YMap "(yaml \<times> yaml) list"

datatype yaml_file = NoYaml | BadYaml | Yaml yaml

fun yaml_truthy :: "yaml \<Rightarrow> bool" where
  "yaml_truthy YNull = False"
| "yaml_truthy (YBool b) = b"
| "yaml_truthy (YInt n) = (n \<noteq> 0)"
| "yaml_truthy (YFloat x) = float_truthy x"
| "yaml_truthy (YStr s) = (s \<noteq> [])"
| "yaml_truthy (YList xs) = (xs \<noteq> [])"
| "yaml_truthy (YMap m) = (m \<noteq> [])"

definition yget :: "(yaml \<times> yaml) list \<Rightarrow> string \<Rightarrow> yaml" where
  "yget m k = dget_or m (YStr k) YNull"

definition ytext :: "(yaml \<Rightarrow> string) \<Rightarrow> yaml \<Rightarrow> string" where
  "ytext show_yaml v = (case v of YStr s \<Rightarrow> s | _ \<Rightarrow> show_yaml v)"

definition clean :: "string \<Rightarrow> string" where
  "clean s = lower (strip s)"

record routing_config =
  rc_default :: string
  rc_overrides :: "(string, (string, string) dict) dict"
  rc_bots :: "(string, (string, string) dict) dict"
  rc_classes :: "(string, string) dict"
  rc_chains :: "(string, string list) dict"
  rc_accounts :: "(string, (string, string) dict) dict"
  rc_version :: int

definition permissive_config :: routing_config where
  "permissive_config =
     \<lparr>rc_default = ''ibkr'', rc_overrides = [], rc_bots = [], rc_classes = [], rc_chains = [], rc_accounts = [],
      rc_version = 1\<rparr>"

text \<open>\<open>raw.get(k) or {}\<close>, which must be a mapping.\<close>

definition yblock :: "(yaml \<times> yaml) list \<Rightarrow> string \<Rightarrow> pyexc + (yaml \<times> yaml) list" where
  "yblock m k = (if yaml_truthy (yget m k) then (case yget m k of YMap b \<Rightarrow> Inr b | _ \<Rightarrow> Inl ValueError) else Inr [])"

definition yaml_version :: "yaml \<Rightarrow> pyexc + int" where
  "yaml_version v =
     (case v of
        YInt n \<Rightarrow> Inr (if n = 0 then 1 else n)
      | YFloat x \<Rightarrow> (if \<not> float_truthy x then Inr 1
                    else case as_int (JFloat x) of Inl OverflowError \<Rightarrow> Inl OverflowError | Inl _ \<Rightarrow> Inr 1 | Inr n \<Rightarrow> Inr n)
      | YStr s \<Rightarrow> Inr (case parse_int s of Some n \<Rightarrow> n | None \<Rightarrow> 1)
      | _ \<Rightarrow> Inr 1)"

text \<open>The inner mappings, built entry by entry.\<close>

definition text_map :: "(yaml \<Rightarrow> string) \<Rightarrow> (string \<Rightarrow> string) \<Rightarrow> (string \<Rightarrow> string) \<Rightarrow> (yaml \<times> yaml) list \<Rightarrow> (string, string) dict" where
  "text_map show_yaml f g m =
     foldl (\<lambda>d (k, v). dset (f (ytext show_yaml k)) (g (ytext show_yaml v)) d) [] m"

fun load_maps ::
  "(yaml \<Rightarrow> string) \<Rightarrow> (string \<Rightarrow> string) \<Rightarrow> ((yaml \<times> yaml) list \<Rightarrow> (string, string) dict) \<Rightarrow> (yaml \<times> yaml) list \<Rightarrow>
   (string, (string, string) dict) dict \<Rightarrow> pyexc + (string, (string, string) dict) dict" where
  "load_maps show_yaml f g [] acc = Inr acc"
| "load_maps show_yaml f g ((k, YMap m) # rest) acc = load_maps show_yaml f g rest (dset (f (ytext show_yaml k)) (g m) acc)"
| "load_maps show_yaml f g ((k, _) # rest) acc = Inl ValueError"

fun load_classes :: "(yaml \<times> yaml) list \<Rightarrow> (string, string) dict \<Rightarrow> pyexc + (string, string) dict" where
  "load_classes [] acc = Inr acc"
| "load_classes ((YStr k, YStr v) # rest) acc = load_classes rest (dset (clean k) (clean v) acc)"
| "load_classes (_ # rest) acc = Inl ValueError"

definition is_text :: "yaml \<Rightarrow> bool" where
  "is_text v = (case v of YStr _ \<Rightarrow> True | _ \<Rightarrow> False)"

definition clean_chain :: "yaml list \<Rightarrow> string list" where
  "clean_chain vs = map (\<lambda>v. clean (ytext (\<lambda>_. []) v)) (filter (\<lambda>v. strip (ytext (\<lambda>_. []) v) \<noteq> []) vs)"

fun load_chains :: "(yaml \<times> yaml) list \<Rightarrow> (string, string list) dict \<Rightarrow> pyexc + (string, string list) dict" where
  "load_chains [] acc = Inr acc"
| "load_chains ((YStr k, YList vs) # rest) acc =
     (if list_all is_text vs then load_chains rest (dset (clean k) (clean_chain vs) acc) else Inl ValueError)"
| "load_chains (_ # rest) acc = Inl ValueError"

definition lowered_keys :: "string list" where
  "lowered_keys = [''venue'', ''env'', ''bot_policy'']"

definition clean_account :: "(yaml \<Rightarrow> string) \<Rightarrow> (yaml \<times> yaml) list \<Rightarrow> (string, string) dict" where
  "clean_account show_yaml m =
     map (\<lambda>(k, v). (k, if k \<in> set lowered_keys then lower v else v))
       (text_map show_yaml strip strip (filter (\<lambda>(k, v). k \<noteq> YNull \<and> v \<noteq> YNull) m))"

definition load_config :: "(yaml \<Rightarrow> string) \<Rightarrow> yaml_file \<Rightarrow> pyexc + routing_config" where
  "load_config show_yaml f =
     (case f of
        NoYaml \<Rightarrow> Inr permissive_config
      | BadYaml \<Rightarrow> Inl ValueError
      | Yaml (YMap raw) \<Rightarrow>
          rbind (yaml_version (yget raw ''version'')) (\<lambda>version.
          rbind (yblock raw ''default'') (\<lambda>default_block.
          rbind (yblock default_block ''symbol_overrides'') (\<lambda>overrides_raw.
          rbind (load_maps show_yaml id (text_map show_yaml clean id) overrides_raw []) (\<lambda>overrides.
          rbind (yblock raw ''bots'') (\<lambda>bots_raw.
          rbind (load_maps show_yaml id (text_map show_yaml id clean) bots_raw []) (\<lambda>bots.
          rbind (yblock raw ''defaults'') (\<lambda>defaults_raw.
          rbind (load_classes defaults_raw []) (\<lambda>classes.
          rbind (yblock raw ''failover'') (\<lambda>failover_raw.
          rbind (load_chains failover_raw []) (\<lambda>chains.
          rbind (yblock raw ''prop_accounts'') (\<lambda>accounts_raw.
          rbind (load_maps show_yaml clean (clean_account show_yaml) accounts_raw []) (\<lambda>accounts.
          let venue = yget default_block ''venue''
          in Inr \<lparr>rc_default = clean (if yaml_truthy venue then ytext show_yaml venue else ''ibkr''),
                  rc_overrides = overrides, rc_bots = bots, rc_classes = classes, rc_chains = chains,
                  rc_accounts = accounts, rc_version = version\<rparr>))))))))))))
      | Yaml _ \<Rightarrow> Inl ValueError)"

section \<open>Resolution\<close>

definition bot_setting :: "routing_config \<Rightarrow> string \<Rightarrow> string \<Rightarrow> string" where
  "bot_setting c b k = clean (dget_or (dget_or (rc_bots c) b []) k [])"

definition venue_for :: "env \<Rightarrow> routing_config \<Rightarrow> string \<Rightarrow> string option \<Rightarrow> string" where
  "venue_for e c b symbol =
     (let pin = bot_setting c b ''venue''
      in if pin \<noteq> [] then pin
         else case symbol of
           None \<Rightarrow> (if rc_default c \<noteq> [] then rc_default c else ''ibkr'')
         | Some s \<Rightarrow>
             let klass = class_name (asset_class_for_symbol s);
                 over = clean (env_get e (''ETA_VENUE_OVERRIDE_'' @ upper klass));
                 by_class = clean (dget_or (rc_classes c) klass [])
             in if over \<noteq> [] then over else if by_class \<noteq> [] then by_class
                else if rc_default c \<noteq> [] then clean (rc_default c) else ''ibkr'')"

fun extend_chain :: "string list \<Rightarrow> string list \<Rightarrow> string list" where
  "extend_chain ordered [] = ordered"
| "extend_chain ordered (v # vs) =
     (if clean v = [] \<or> clean v \<in> set ordered then extend_chain ordered vs
      else extend_chain (ordered @ [clean v]) vs)"

definition failover_chain :: "env \<Rightarrow> routing_config \<Rightarrow> string \<Rightarrow> string \<Rightarrow> string list" where
  "failover_chain e c b s =
     extend_chain [venue_for e c b (Some s)] (dget_or (rc_chains c) (class_name (asset_class_for_symbol s)) [])"

definition prop_account_for :: "routing_config \<Rightarrow> string \<Rightarrow> pyexc + (string, string) dict option" where
  "prop_account_for c b =
     (let alias = bot_setting c b ''account_alias''
      in if alias = [] then Inr None
         else case dget (rc_accounts c) alias of
           None \<Rightarrow> Inl ValueError
         | Some d \<Rightarrow> Inr (Some (foldl (\<lambda>d (k, v). dset k v d) [(''alias'', alias)] d)))"

definition collapses_to :: "string \<Rightarrow> string \<Rightarrow> bool" where
  "collapses_to up r =
     (up = r \<or> starts_with up r \<and>
        (let suffix = drop (length r) up
         in all_digits suffix \<or> 2 \<le> length suffix \<and> hd suffix \<in> set month_letters \<and> all_digits (tl suffix)))"

definition map_symbol :: "routing_config \<Rightarrow> string \<Rightarrow> string \<Rightarrow> pyexc + string" where
  "map_symbol c raw_symbol venue =
     (let up = upper (strip raw_symbol); v = (if clean venue = ''tastytrade'' then ''tasty'' else clean venue)
      in case dget (rc_overrides c) up of
           Some over \<Rightarrow> (case dget over v of Some mapped \<Rightarrow> Inr mapped | None \<Rightarrow> Inl ValueError)
         | None \<Rightarrow>
           (case find (collapses_to up) futures_roots of
              Some r \<Rightarrow> Inr r
            | None \<Rightarrow>
              (case dget symbol_table (up, if v = ''tasty'' then ''tastytrade'' else v) of
                 Some mapped \<Rightarrow> Inr mapped
               | None \<Rightarrow> if list_ex (ends_with up) [''USD'', ''USDT'', ''USDC''] then Inr up else Inl ValueError)))"

section \<open>Lemmas\<close>

subsection \<open>Cleaned names\<close>

lemma is_space_lower [simp]: "is_space (to_lower c) = is_space c"
  by (simp add: is_space_def to_lower_def code_of_def)

lemma to_lower_idem [simp]: "to_lower (to_lower c) = to_lower c"
  by (simp add: to_lower_def code_of_def)

lemma strip_lower: "strip (lower s) = lower (strip s)"
  by (simp add: strip_by_def lstrip_by_def rstrip_by_def lower_def dropWhile_map rev_map comp_def)

lemma dropWhile_head: "dropWhile p s = [] \<or> \<not> p (hd (dropWhile p s))"
  using hd_dropWhile [of p s] by blast

lemma rstrip_keeps_head: "rstrip_by p s = [] \<or> hd (rstrip_by p s) = hd s"
proof -
  obtain u where "rev s = u @ dropWhile p (rev s)" using takeWhile_dropWhile_id by metis
  then have "s = rstrip_by p s @ rev u" by (simp add: rstrip_by_def) (metis rev_append rev_rev_ident)
  then show ?thesis by (metis hd_append)
qed

lemma strip_idem [simp]: "strip (strip s) = strip s"
proof -
  have "dropWhile is_space (strip s) = strip s"
  proof (cases "strip s")
    case (Cons c cs)
    then have "hd (strip s) = hd (lstrip_by is_space s)" "lstrip_by is_space s \<noteq> []"
      using rstrip_keeps_head [of is_space "lstrip_by is_space s"] by (auto simp: strip_by_def rstrip_by_def)
    with dropWhile_head [of is_space s] have "\<not> is_space (hd (strip s))" by (simp only: lstrip_by_def simp_thms)
    with Cons show ?thesis by simp
  qed simp
  then show ?thesis by (simp add: strip_by_def lstrip_by_def rstrip_by_def)
qed

lemma clean_idem [simp]: "clean (clean s) = clean s"
  by (simp add: clean_def strip_lower) (simp add: lower_def)

lemma clean_Nil_iff: "clean s = [] \<longleftrightarrow> strip s = []"
  by (simp add: clean_def lower_def)

subsection \<open>What loading guarantees\<close>

definition clean_name :: "string \<Rightarrow> bool" where
  "clean_name s = (clean s = s)"

lemma clean_name_clean [simp]: "clean_name (clean s)"
  by (simp add: clean_name_def)

definition normal_config :: "routing_config \<Rightarrow> bool" where
  "normal_config c =
     (clean_name (rc_default c)
      \<and> list_all (\<lambda>(b, d). list_all (\<lambda>(k, v). clean_name v) d) (rc_bots c)
      \<and> list_all (\<lambda>(k, v). clean_name k \<and> clean_name v) (rc_classes c)
      \<and> list_all (\<lambda>(k, vs). clean_name k \<and> list_all (\<lambda>v. clean_name v \<and> v \<noteq> []) vs) (rc_chains c)
      \<and> list_all (\<lambda>(k, d). clean_name k) (rc_accounts c))"

lemma list_all_dset: "list_all P d \<Longrightarrow> P (k, v) \<Longrightarrow> list_all P (dset k v d)"
  by (induction d) (auto split: prod.splits)

lemma text_map_values: "(\<And>s. Q (g s)) \<Longrightarrow> list_all (\<lambda>(k, v). Q v) (text_map show_yaml f g m)"
proof -
  assume Q: "\<And>s. Q (g s)"
  have "list_all (\<lambda>(k, v). Q v) acc \<Longrightarrow>
    list_all (\<lambda>(k, v). Q v) (foldl (\<lambda>d (k, v). dset (f (ytext show_yaml k)) (g (ytext show_yaml v)) d) acc m)" for acc
  proof (induction m arbitrary: acc)
    case (Cons x m)
    then show ?case by (cases x) (simp add: Q list_all_dset)
  qed simp
  then show ?thesis by (simp add: text_map_def)
qed

lemma load_maps_all:
  "load_maps show_yaml f g m acc = Inr d \<Longrightarrow> list_all P acc \<Longrightarrow> (\<And>s x. P (f s, g x)) \<Longrightarrow> list_all P d"
  by (induction show_yaml f g m acc rule: load_maps.induct) (auto intro: list_all_dset)

lemma load_classes_all:
  "load_classes m acc = Inr d \<Longrightarrow> list_all P acc \<Longrightarrow> (\<And>k v. P (clean k, clean v)) \<Longrightarrow> list_all P d"
  by (induction m acc rule: load_classes.induct) (auto intro: list_all_dset)

lemma load_chains_all:
  "load_chains m acc = Inr d \<Longrightarrow> list_all P acc \<Longrightarrow> (\<And>k vs. P (clean k, clean_chain vs)) \<Longrightarrow> list_all P d"
  by (induction m acc rule: load_chains.induct) (auto intro: list_all_dset split: if_splits)

lemma clean_chain_all: "list_all (\<lambda>v. clean_name v \<and> v \<noteq> []) (clean_chain vs)"
  by (auto simp: clean_chain_def list_all_iff clean_Nil_iff)

lemma load_config_normal:
  assumes "load_config show_yaml f = Inr c"
  shows "normal_config c"
proof (cases "f = NoYaml")
  case True
  have "clean_name ''ibkr''" by code_simp
  with True assms show ?thesis by (auto simp: load_config_def permissive_config_def normal_config_def)
next
  case False
  with assms obtain raw bots_raw classes_raw chains_raw accounts_raw where
    "clean_name (rc_default c)"
    and bots: "load_maps show_yaml id (text_map show_yaml id clean) bots_raw [] = Inr (rc_bots c)"
    and classes: "load_classes classes_raw [] = Inr (rc_classes c)"
    and chains: "load_chains chains_raw [] = Inr (rc_chains c)"
    and accounts: "load_maps show_yaml clean (clean_account show_yaml) accounts_raw [] = Inr (rc_accounts c)"
    by (cases f) (auto simp: load_config_def Let_def split: yaml.splits)
  moreover have "list_all (\<lambda>(k, v). clean_name v) (text_map show_yaml id clean m)" for m
    by (rule text_map_values) simp
  ultimately show ?thesis unfolding normal_config_def
    by (auto intro!: load_maps_all [OF bots] load_classes_all [OF classes] load_chains_all [OF chains]
        load_maps_all [OF accounts] clean_chain_all)
qed

subsection \<open>Chains\<close>

lemma extend_chain_spec:
  "hd (extend_chain (x # ordered) vs) = x"
  "distinct ordered' \<Longrightarrow> distinct (extend_chain ordered' vs)"
  "set (extend_chain ordered' vs) = set ordered' \<union> {clean v | v. v \<in> set vs \<and> clean v \<noteq> []}"
proof -
  show "hd (extend_chain (x # ordered) vs) = x"
    by (induction vs arbitrary: ordered) auto
  show "distinct ordered' \<Longrightarrow> distinct (extend_chain ordered' vs)"
    by (induction vs arbitrary: ordered') auto
  show "set (extend_chain ordered' vs) = set ordered' \<union> {clean v | v. v \<in> set vs \<and> clean v \<noteq> []}"
    by (induction vs arbitrary: ordered') auto
qed

lemma venue_for_named: "clean_name (rc_default c) \<Longrightarrow> venue_for e c b s \<noteq> []"
  by (auto simp: venue_for_def clean_name_def Let_def split: option.splits)

lemma venue_for_clean: "clean_name (rc_default c) \<Longrightarrow> clean_name (venue_for e c b s)"
proof -
  have "clean ''ibkr'' = ''ibkr''" by code_simp
  then show "clean_name (rc_default c) \<Longrightarrow> clean_name (venue_for e c b s)"
    by (auto simp: venue_for_def bot_setting_def clean_name_def Let_def split: option.splits)
qed

subsection \<open>Futures symbols\<close>

lemma root_form_collapses:
  assumes "is_root_form up r"
  shows "collapses_to up r"
  using assms
  by (auto simp: is_root_form_def collapses_to_def is_month_suffix_def all_digits_def starts_with_def Let_def
      simp del: length_drop split: list.splits)

lemma find_some_in: "list_ex p xs \<Longrightarrow> \<exists>x\<in>set xs. find p xs = Some x"
  by (induction xs) auto

section \<open>Properties\<close>

text \<open>
  A loaded configuration is well formed: whatever the YAML document holds, either loading raises
  or every venue name in it (the default, the bots' settings, the class defaults, the chains) is
  stripped and lower case, so that later look-ups by name cannot miss for case or spacing.
\<close>

theorem loaded_config_normal:
  assumes "load_config show_yaml f = Inr c"
  shows "normal_config c"
  by (rule load_config_normal [OF assms])

text \<open>
  The venues an order may be tried at: the chain starts with the venue the order is routed to,
  names no venue twice, holds that venue and the configured fallbacks of the order's asset class and
  nothing else, and with a loaded configuration every name in it is a usable, cleaned venue name.
\<close>

theorem failover_chain_spec:
  assumes "load_config show_yaml f = Inr c"
  shows "hd (failover_chain e c b s) = venue_for e c b (Some s) \<and> distinct (failover_chain e c b s)
    \<and> set (failover_chain e c b s)
      = insert (venue_for e c b (Some s)) (set (dget_or (rc_chains c) (class_name (asset_class_for_symbol s)) []))
    \<and> (\<forall>v\<in>set (failover_chain e c b s). clean_name v \<and> v \<noteq> [])"
proof -
  let ?vs = "dget_or (rc_chains c) (class_name (asset_class_for_symbol s)) []"
  have n: "normal_config c" using assms by (rule load_config_normal)
  then have vs: "\<forall>v\<in>set ?vs. clean_name v \<and> v \<noteq> []"
  proof (cases "dget (rc_chains c) (class_name (asset_class_for_symbol s))")
    case (Some vs)
    from n map_of_SomeD [OF Some] show ?thesis by (auto simp: normal_config_def list_all_iff dget_or_def Some)
  qed (simp add: dget_or_def)
  have "{clean v | v. v \<in> set ?vs \<and> clean v \<noteq> []} = set ?vs"
    using vs by (force simp: clean_name_def)
  moreover have "clean_name (venue_for e c b (Some s)) \<and> venue_for e c b (Some s) \<noteq> []"
    using n by (simp add: normal_config_def venue_for_named venue_for_clean)
  ultimately show ?thesis using vs by (simp add: failover_chain_def extend_chain_spec)
qed

text \<open>
  The classifier and the symbol table agree on futures: a symbol the router classifies as a
  future (contract month or front-month digit included) is sent to every venue as one of the known
  roots, unless the configuration overrides it or it is written with a leading slash.
\<close>

theorem futures_map_to_roots:
  assumes "asset_class_for_symbol s = Futures" "dget (rc_overrides c) (upper (strip s)) = None"
    "\<not> starts_with (upper (strip s)) ''/''"
  shows "\<exists>r\<in>set futures_roots. map_symbol c s venue = Inr r"
proof -
  have "lstrip_by (\<lambda>c. c = CHR ''/'') (upper (strip s)) = upper (strip s)"
    using assms(3) by (cases "upper (strip s)") (auto simp: lstrip_by_def starts_with_def)
  then have "list_ex (is_root_form (upper (strip s))) futures_roots"
    using assms(1) by (auto simp: asset_class_for_symbol_def Let_def split: if_splits)
  then have "list_ex (collapses_to (upper (strip s))) futures_roots"
    using root_form_collapses by (auto simp: list_ex_iff)
  from find_some_in [OF this] assms(2) show ?thesis by (auto simp: map_symbol_def Let_def)
qed

definition demo_yaml :: yaml_file where
  "demo_yaml = Yaml (YMap
     [(YStr ''version'', YInt 2),
      (YStr ''defaults'', YMap [(YStr ''futures'', YStr '' IBKR '')]),
      (YStr ''failover'', YMap [(YStr ''futures'', YList [YStr ''ibkr'', YStr ''Tastytrade''])]),
      (YStr ''bots'', YMap [(YStr ''alpha'', YMap [(YStr ''account_alias'', YStr ''blusky'')])])])"

definition demo_routing :: routing_config where
  "demo_routing =
     \<lparr>rc_default = ''ibkr'', rc_overrides = [], rc_bots = [(''alpha'', [(''account_alias'', ''blusky'')])],
      rc_classes = [(''futures'', ''ibkr'')], rc_chains = [(''futures'', [''ibkr'', ''tastytrade''])],
      rc_accounts = [], rc_version = 2\<rparr>"

lemma demo_routing_loaded: "load_config (\<lambda>_. []) demo_yaml = Inr demo_routing"
  by code_simp

theorem loaded_config_normal_witness: "normal_config demo_routing"
  by (rule loaded_config_normal [OF demo_routing_loaded])

lemma mnq_is_futures: "asset_class_for_symbol ''MNQ'' = Futures" "asset_class_for_symbol ''MNQZ25'' = Futures"
  by code_simp+

theorem failover_chain_spec_witness:
  "failover_chain (\<lambda>_. None) demo_routing ''alpha'' ''MNQ'' = [''ibkr'', ''tastytrade'']
   \<and> distinct (failover_chain (\<lambda>_. None) demo_routing ''alpha'' ''MNQ'')"
proof -
  have "failover_chain (\<lambda>_. None) demo_routing ''alpha'' ''MNQ'' = [''ibkr'', ''tastytrade'']" by code_simp
  with failover_chain_spec [OF demo_routing_loaded, of "\<lambda>_. None" "''alpha''" "''MNQ''"] show ?thesis by blast
qed

theorem futures_map_to_roots_witness:
  "\<exists>r\<in>set futures_roots. map_symbol demo_routing ''MNQZ25'' ''tasty'' = Inr r"
proof (rule futures_map_to_roots [OF mnq_is_futures(2)])
  show "dget (rc_overrides demo_routing) (upper (strip ''MNQZ25'')) = None" by (simp add: demo_routing_def)
  show "\<not> starts_with (upper (strip ''MNQZ25'')) ''/''" by code_simp
qed

section \<open>Corners\<close>

text \<open>A leading slash is dropped by the classifier and kept by the symbol table.\<close>

lemma slash_symbol_unroutable:
  "asset_class_for_symbol ''/MNQ'' = Futures \<and> map_symbol demo_routing ''/MNQ'' ''ibkr'' = Inl ValueError"
  by code_simp

text \<open>
  A look-up asks for \<open>tasty\<close>, so an override written for \<open>tastytrade\<close> is never found; and the keys of
  the overrides are kept as written while look-ups are upper case.
\<close>

lemma override_spelling:
  "map_symbol (demo_routing\<lparr>rc_overrides := [(''BTC'', [(''tastytrade'', ''BTCUSDT'')])]\<rparr>) ''BTC'' ''tastytrade''
     = Inl ValueError
   \<and> map_symbol (demo_routing\<lparr>rc_overrides := [(''btc'', [(''ibkr'', ''MBT'')])]\<rparr>) ''btc'' ''ibkr'' = Inr ''BTCUSD''"
  by code_simp

end
