(* ===== verification/Pending_Order.thy ===== *)
theory Pending_Order
  imports Durable
begin

text \<open>
  The order files the supervisor drops for the broker router (\<open>scripts/broker_router.py\<close>): parsing
  one file, collapsing front-month symbols, and the sanity checks an order must pass before it may
  reach a broker.  The text of a JSON value that is not a string is an argument, and so is
  \<open>datetime.fromisoformat\<close>: it gives the time in microseconds, read as UTC when the text has no
  zone, or the exception the conversion raises.
\<close>

section \<open>The order\<close>

record pending_order =
  po_ts :: string
  po_signal :: string
  po_side :: string
  po_qty :: pyfloat
  po_symbol :: string
  po_limit :: pyfloat
  po_bot :: string
  po_stop :: "pyfloat option"
  po_target :: "pyfloat option"
  po_reduce :: bool

definition order_dict :: "pending_order \<Rightarrow> json" where
  "order_dict r =
     JObj [(''ts'', JStr (po_ts r)), (''signal_id'', JStr (po_signal r)), (''side'', JStr (po_side r)),
           (''qty'', JFloat (po_qty r)), (''symbol'', JStr (po_symbol r)), (''limit_price'', JFloat (po_limit r)),
           (''bot_id'', JStr (po_bot r)), (''stop_price'', jopt JFloat (po_stop r)),
           (''target_price'', jopt JFloat (po_target r)), (''reduce_only'', JBool (po_reduce r))]"

definition roots_to_normalize :: "string list" where
  "roots_to_normalize =
     [''MNQ'', ''MES'', ''MGC'', ''MCL'', ''M6E'', ''MYM'', ''MBT'', ''NQ'', ''ES'', ''GC'', ''CL'', ''6E'',
      ''SI'', ''NG'', ''ZB'', ''ZN'']"

definition one_digit_after :: "string \<Rightarrow> string \<Rightarrow> bool" where
  "one_digit_after s rt =
     (starts_with s rt \<and> (case drop (length rt) s of [c] \<Rightarrow> is_digit c | _ \<Rightarrow> False))"

definition normalize_futures_symbol :: "string \<Rightarrow> string" where
  "normalize_futures_symbol s =
     (if s = [] then s
      else case find (one_digit_after s) roots_to_normalize of Some rt \<Rightarrow> rt | None \<Rightarrow> s)"

section \<open>Parsing a file\<close>

definition order_suffix :: string where
  "order_suffix = ''.pending_order.json''"

definition required_fields :: "string list" where
  "required_fields = [''ts'', ''signal_id'', ''side'', ''qty'', ''symbol'', ''limit_price'']"

definition text_of :: "(json \<Rightarrow> string) \<Rightarrow> json \<Rightarrow> string" where
  "text_of show_json v = (case v of JStr s \<Rightarrow> s | _ \<Rightarrow> show_json v)"

text \<open>\<open>k in payload\<close> for whatever the JSON text was; numbers, booleans and null are not containers.\<close>

definition has_field :: "json \<Rightarrow> string \<Rightarrow> pyexc + bool" where
  "has_field j k =
     (case j of
        JObj d \<Rightarrow> Inr (dget d k \<noteq> None) | JList xs \<Rightarrow> Inr (JStr k \<in> set xs) | JStr s \<Rightarrow> Inr (contains k s)
      | _ \<Rightarrow> Inl TypeError)"

fun missing_field :: "json \<Rightarrow> string list \<Rightarrow> pyexc + bool" where
  "missing_field j [] = Inr False"
| "missing_field j (k # ks) =
     rbind (has_field j k) (\<lambda>b. rbind (missing_field j ks) (\<lambda>m. Inr (\<not> b \<or> m)))"

text \<open>The conversions: only \<open>TypeError\<close> and \<open>ValueError\<close> become \<open>ValueError\<close>.\<close>

definition to_float :: "json \<Rightarrow> pyexc + pyfloat" where
  "to_float v = (case as_float v of Inl OverflowError \<Rightarrow> Inl OverflowError | Inl _ \<Rightarrow> Inl ValueError | Inr x \<Rightarrow> Inr x)"

definition to_float_opt :: "json \<Rightarrow> pyexc + pyfloat option" where
  "to_float_opt v = (if v = JNull then Inr None else rbind (to_float v) (\<lambda>x. Inr (Some x)))"

definition parse_fields :: "(json \<Rightarrow> string) \<Rightarrow> string \<Rightarrow> (string \<times> json) list \<Rightarrow> pyexc + pending_order" where
  "parse_fields show_json bid d =
     (let side = upper (text_of show_json (jget d ''side'' JNull))
      in if side \<notin> {''BUY'', ''SELL''} then Inl ValueError
         else rbind (to_float (jget d ''qty'' JNull)) (\<lambda>qty.
              rbind (to_float (jget d ''limit_price'' JNull)) (\<lambda>limit.
              if fle qty (Fin 0) then Inl ValueError
              else rbind (to_float_opt (jget d ''stop_price'' JNull)) (\<lambda>stop.
                   rbind (to_float_opt (jget d ''target_price'' JNull)) (\<lambda>target.
                   Inr \<lparr>po_ts = text_of show_json (jget d ''ts'' JNull),
                        po_signal = text_of show_json (jget d ''signal_id'' JNull), po_side = side, po_qty = qty,
                        po_symbol = normalize_futures_symbol (text_of show_json (jget d ''symbol'' JNull)),
                        po_limit = limit, po_bot = bid, po_stop = stop, po_target = target,
                        po_reduce = as_bool (jget d ''reduce_only'' (JBool False))\<rparr>)))))"

definition bot_of_file :: "string \<Rightarrow> pyexc + string" where
  "bot_of_file name =
     (if \<not> ends_with name order_suffix then Inl ValueError
      else let bid = take (length name - length order_suffix) name
           in if bid = [] then Inl ValueError else Inr bid)"

definition parse_pending_file :: "(json \<Rightarrow> string) \<Rightarrow> string \<Rightarrow> jfile \<Rightarrow> pyexc + pending_order" where
  "parse_pending_file show_json name f =
     rbind (bot_of_file name) (\<lambda>bid.
       case f of
         Parsed j \<Rightarrow> rbind (missing_field j required_fields) (\<lambda>m.
           if m then Inl ValueError
           else case j of JObj d \<Rightarrow> parse_fields show_json bid d | _ \<Rightarrow> Inl TypeError)
       | _ \<Rightarrow> Inl ValueError)"

section \<open>Sanity\<close>

datatype sanity_denial =
    SmokeSignal | BadTimestamp | StaleOrder pyfloat | MissingBracket | NonPositiveBracket
  | BadBuyBracket | BadSellBracket | NonPositiveExit | ImplausiblePrice string

definition smoke_tokens :: "string list" where
  "smoke_tokens = [''smoke'', ''test'', ''dryrun'', ''dry_run'']"

definition max_order_age :: pyfloat where
  "max_order_age = Fin 900"

definition min_crypto_price :: "(string, pyfloat) dict" where
  "min_crypto_price =
     [(''BTC'', Fin 1000), (''BTCUSD'', Fin 1000), (''BTCUSDT'', Fin 1000),
      (''ETH'', Fin 100), (''ETHUSD'', Fin 100), (''ETHUSDT'', Fin 100),
      (''SOL'', Fin 1), (''SOLUSD'', Fin 1), (''SOLUSDT'', Fin 1),
      (''XRP'', fl (1 / 100)), (''XRPUSD'', fl (1 / 100)), (''XRPUSDT'', fl (1 / 100))]"

definition with_offset :: "string \<Rightarrow> string" where
  "with_offset ts = concat (map (\<lambda>c. if c = CHR ''Z'' then ''+00:00'' else [c]) ts)"

definition bracket_denial :: "pending_order \<Rightarrow> sanity_denial option" where
  "bracket_denial r =
     (if po_reduce r then (if fle (po_limit r) (Fin 0) then Some NonPositiveExit else None)
      else case (po_stop r, po_target r) of
        (Some stop, Some target) \<Rightarrow>
          (let entry = po_limit r
           in if fle entry (Fin 0) \<or> fle stop (Fin 0) \<or> fle target (Fin 0) then Some NonPositiveBracket
              else if po_side r = ''BUY'' \<and> \<not> (flt stop entry \<and> flt entry target) then Some BadBuyBracket
              else if po_side r = ''SELL'' \<and> \<not> (flt target entry \<and> flt entry stop) then Some BadSellBracket
              else None)
      | _ \<Rightarrow> Some MissingBracket)"

definition price_denial :: "pending_order \<Rightarrow> sanity_denial option" where
  "price_denial r =
     (let symbol = lstrip_by (\<lambda>c. c = CHR ''/'') (upper (strip (po_symbol r)))
      in case dget min_crypto_price symbol of
           Some m \<Rightarrow> if flt (po_limit r) m then Some (ImplausiblePrice symbol) else None
         | None \<Rightarrow> None)"

definition order_sanity :: "(string \<Rightarrow> pyexc + int) \<Rightarrow> int \<Rightarrow> pending_order \<Rightarrow> pyexc + sanity_denial option" where
  "order_sanity stamp now r =
     (if list_ex (\<lambda>t. contains t (lower (strip (po_signal r)))) smoke_tokens then Inr (Some SmokeSignal)
      else case stamp (with_offset (po_ts r)) of
        Inl ValueError \<Rightarrow> Inr (Some BadTimestamp)
      | Inl x \<Rightarrow> Inl x
      | Inr t \<Rightarrow>
          let age = fl (of_int (now - t) / 1000000)
          in if flt max_order_age age then Inr (Some (StaleOrder age))
             else Inr (case bracket_denial r of Some x \<Rightarrow> Some x | None \<Rightarrow> price_denial r))"

section \<open>Lemmas\<close>

lemma to_float_JFloat [simp]: "to_float (JFloat x) = Inr x"
  by (simp add: to_float_def)

lemma to_float_opt_jopt [simp]: "to_float_opt (jopt JFloat v) = Inr v"
  by (cases v) (simp_all add: to_float_opt_def jopt_def)

lemma ends_with_append [simp]: "ends_with (s @ t) t"
  by (simp add: ends_with_def)

lemma bot_of_file_append: "b \<noteq> [] \<Longrightarrow> bot_of_file (b @ order_suffix) = Inr b"
  by (simp add: bot_of_file_def)

text \<open>A symbol is normal when the router leaves it alone.\<close>

lemma root_is_normal: "r \<in> set roots_to_normalize \<Longrightarrow> normalize_futures_symbol r = r"
proof -
  have "list_all (\<lambda>r. normalize_futures_symbol r = r) roots_to_normalize" by code_simp
  then show "r \<in> set roots_to_normalize \<Longrightarrow> normalize_futures_symbol r = r" by (simp add: list_all_iff)
qed

lemma normalize_idem [simp]: "normalize_futures_symbol (normalize_futures_symbol s) = normalize_futures_symbol s"
proof (cases "find (one_digit_after s) roots_to_normalize")
  case None
  then show ?thesis by (simp add: normalize_futures_symbol_def)
next
  case (Some r)
  then have "r \<in> set roots_to_normalize" by (auto simp: find_Some_iff)
  moreover have "s \<noteq> []" using Some by (auto simp: find_Some_iff one_digit_after_def starts_with_def)
  ultimately show ?thesis using root_is_normal Some by (simp add: normalize_futures_symbol_def [of s])
qed

lemma parse_fields_facts:
  assumes "parse_fields show_json bid d = Inr r"
  shows "po_bot r = bid" "po_side r \<in> {''BUY'', ''SELL''}" "\<not> fle (po_qty r) (Fin 0)"
    "normalize_futures_symbol (po_symbol r) = po_symbol r"
  using assms by (auto simp: parse_fields_def Let_def split: if_splits)

text \<open>What parsing guarantees of an order.\<close>

definition parsed_order :: "string \<Rightarrow> pending_order \<Rightarrow> bool" where
  "parsed_order name r =
     (po_bot r \<noteq> [] \<and> name = po_bot r @ order_suffix \<and> po_side r \<in> {''BUY'', ''SELL''}
      \<and> \<not> fle (po_qty r) (Fin 0) \<and> normalize_futures_symbol (po_symbol r) = po_symbol r)"

lemma bot_of_fileD: "bot_of_file name = Inr b \<Longrightarrow> b \<noteq> [] \<and> name = b @ order_suffix"
  by (auto simp: bot_of_file_def ends_with_def Let_def split: if_splits)
    (metis append_take_drop_id)

lemma parse_pending_fileE:
  assumes "parse_pending_file show_json name f = Inr r"
  obtains b d where "bot_of_file name = Inr b" "f = Parsed (JObj d)" "parse_fields show_json b d = Inr r"
proof (cases f)
  case (Parsed j)
  with assms that show thesis by (cases j) (auto simp: parse_pending_file_def split: if_splits)
qed (use assms in \<open>auto simp: parse_pending_file_def\<close>)

lemma parse_pending_order: "parse_pending_file show_json name f = Inr r \<Longrightarrow> parsed_order name r"
  by (elim parse_pending_fileE) (auto simp: parsed_order_def dest: bot_of_fileD parse_fields_facts)

lemma missing_none:
  "(\<And>k. k \<in> set ks \<Longrightarrow> dget d k \<noteq> None) \<Longrightarrow> missing_field (JObj d) ks = Inr False"
  by (induction ks) (auto simp: has_field_def)

text \<open>The fields of an order that passed the bracket check.\<close>

lemma bracket_ok:
  assumes "bracket_denial r = None" "\<not> po_reduce r" "po_side r \<in> {''BUY'', ''SELL''}"
  obtains s e t where "po_stop r = Some s" "po_target r = Some t" "po_limit r = Fin e" "0 < e"
    "flt (Fin 0) s" "flt (Fin 0) t"
    "if po_side r = ''BUY'' then flt s (Fin e) \<and> flt (Fin e) t else flt t (Fin e) \<and> flt (Fin e) s"
proof -
  from assms(1,2) obtain s t where st: "po_stop r = Some s" "po_target r = Some t"
    by (auto simp: bracket_denial_def split: option.splits)
  with assms have pos: "\<not> fle (po_limit r) (Fin 0)" "\<not> fle s (Fin 0)" "\<not> fle t (Fin 0)"
    and ord: "if po_side r = ''BUY'' then flt s (po_limit r) \<and> flt (po_limit r) t
              else flt t (po_limit r) \<and> flt (po_limit r) s"
    by (auto simp: bracket_denial_def Let_def split: if_splits)
  then have nn: "s \<noteq> NaN" "t \<noteq> NaN" by (auto split: if_splits elim: flt.elims)
  from ord obtain e where e: "po_limit r = Fin e"
    by (cases "po_limit r"; cases s; cases t) (auto split: if_splits)
  show thesis by (rule that [OF st e]) (use pos ord nn e in \<open>simp_all add: not_fle split: if_splits\<close>)
qed

section \<open>Properties\<close>

text \<open>
  C32. An order written the way the supervisor writes it (\<open>to_dict\<close> into the file named after its bot)
  is the order the router parses, and everything the router parses is such an order: it names its
  bot, has a side, a quantity that is not zero or negative, and a normal symbol.
\<close>

theorem order_file_round_trip:
  "(parsed_order name r \<longrightarrow> parse_pending_file show_json name (Parsed (order_dict r)) = Inr r)
   \<and> (parse_pending_file show_json name f = Inr r \<longrightarrow> parsed_order name r)"
proof (intro conjI impI)
  assume r: "parsed_order name r"
  let ?d = "[(''ts'', JStr (po_ts r)), (''signal_id'', JStr (po_signal r)), (''side'', JStr (po_side r)),
           (''qty'', JFloat (po_qty r)), (''symbol'', JStr (po_symbol r)), (''limit_price'', JFloat (po_limit r)),
           (''bot_id'', JStr (po_bot r)), (''stop_price'', jopt JFloat (po_stop r)),
           (''target_price'', jopt JFloat (po_target r)), (''reduce_only'', JBool (po_reduce r))]"
  have m: "missing_field (JObj ?d) required_fields = Inr False"
    by (rule missing_none) (auto simp: required_fields_def)
  have u: "upper ''BUY'' = ''BUY''" "upper ''SELL'' = ''SELL''" by code_simp+
  have "parse_fields show_json (po_bot r) ?d = Inr r"
    using r u by (auto simp: parse_fields_def parsed_order_def jget_def dget_or_def text_of_def Let_def)
  then show "parse_pending_file show_json name (Parsed (order_dict r)) = Inr r"
    using r m by (simp add: parse_pending_file_def parsed_order_def order_dict_def bot_of_file_append)
qed (rule parse_pending_order)

text \<open>
  C16. No naked entry passes: an order the sanity check lets through is at most fifteen minutes old
  and carries no smoke token, and unless it is reduce-only it has a positive stop and a positive
  target strictly on either side of a finite, positive limit price, the stop on the losing side of
  its direction.  So the exit below the limit price is finite too; the one above it (the target of
  a BUY, the stop of a SELL) may be infinite, as \<open>infinite_exit_passes\<close> shows.
\<close>

theorem no_naked_entry:
  assumes "parse_pending_file show_json name f = Inr r" "order_sanity stamp now r = Inr None"
  shows "(\<exists>t. stamp (with_offset (po_ts r)) = Inr t \<and> now - t \<le> 900 * 1000000)
    \<and> (\<forall>w\<in>set smoke_tokens. \<not> contains w (lower (strip (po_signal r))))
    \<and> (po_reduce r \<or> (\<exists>s e t. po_stop r = Some s \<and> po_target r = Some t \<and> po_limit r = Fin e \<and> 0 < e
          \<and> flt (Fin 0) s \<and> flt (Fin 0) t
          \<and> (if po_side r = ''BUY'' then flt s (Fin e) \<and> flt (Fin e) t else flt t (Fin e) \<and> flt (Fin e) s)))"
proof -
  have side: "po_side r \<in> {''BUY'', ''SELL''}" using parse_pending_order [OF assms(1)] by (simp add: parsed_order_def)
  from assms(2) obtain t where smoke: "\<forall>w\<in>set smoke_tokens. \<not> contains w (lower (strip (po_signal r)))"
    and t: "stamp (with_offset (po_ts r)) = Inr t" and age: "\<not> flt max_order_age (fl (of_int (now - t) / 1000000))"
    and br: "bracket_denial r = None"
    by (auto simp: order_sanity_def Let_def list_ex_iff split: if_splits sum.splits pyexc.splits option.splits)
  have "now - t \<le> 900 * 1000000"
  proof (rule ccontr)
    assume "\<not> now - t \<le> 900 * 1000000"
    then have "(900 * 1000000 + 1 :: rat) \<le> of_int (now - t)" by (simp flip: of_int_add)
    then have "fle (fl ((900 * 1000000 + 1) / 1000000)) (fl (of_int (now - t) / 1000000))"
      by (intro fl_mono divide_right_mono) simp_all
    moreover have "flt max_order_age (fl ((900 * 1000000 + 1) / 1000000))" by code_simp
    ultimately show False using age by (blast intro: flt_fle_trans)
  qed
  moreover have "po_reduce r \<or> (\<exists>s e t. po_stop r = Some s \<and> po_target r = Some t \<and> po_limit r = Fin e \<and> 0 < e
          \<and> flt (Fin 0) s \<and> flt (Fin 0) t
          \<and> (if po_side r = ''BUY'' then flt s (Fin e) \<and> flt (Fin e) t else flt t (Fin e) \<and> flt (Fin e) s))"
  proof (cases "po_reduce r")
    case False
    from bracket_ok [OF br this side] show ?thesis by blast
  qed simp
  ultimately show ?thesis using t smoke by blast
qed

definition demo_pending :: pending_order where
  "demo_pending = \<lparr>po_ts = ''2026Z'', po_signal = ''s1'', po_side = ''BUY'', po_qty = Fin 1,
     po_symbol = ''MNQ'', po_limit = Fin 21000, po_bot = ''alpha'', po_stop = Some (Fin 20950),
     po_target = Some (Fin 21100), po_reduce = False\<rparr>"

lemma demo_order_parsed:
  "parse_pending_file (\<lambda>_. []) ''alpha.pending_order.json'' (Parsed (order_dict demo_pending)) = Inr demo_pending"
  by code_simp

theorem order_file_round_trip_witness:
  "parse_pending_file (\<lambda>_. []) ''alpha.pending_order.json'' (Parsed (order_dict demo_pending)) = Inr demo_pending
   \<and> parsed_order ''alpha.pending_order.json'' demo_pending"
  using order_file_round_trip [where name = "''alpha.pending_order.json''" and r = demo_pending and show_json = "\<lambda>_. []"
      and f = "Parsed (order_dict demo_pending)"] demo_order_parsed by simp

lemma demo_sanity:
  assumes "po_signal r = ''s1''" "stamp (with_offset (po_ts r)) = Inr t" "fl (of_int (now - t) / 1000000) = Fin a" "a \<le> 900"
  shows "order_sanity stamp now r = Inr (case bracket_denial r of Some x \<Rightarrow> Some x | None \<Rightarrow> price_denial r)"
proof -
  have "\<not> list_ex (\<lambda>t. contains t (lower (strip ''s1''))) smoke_tokens" by code_simp
  then show ?thesis using assms by (simp add: order_sanity_def max_order_age_def Let_def)
qed

lemma mnq_price: "po_symbol r = ''MNQ'' \<Longrightarrow> price_denial r = None"
proof -
  have "lstrip_by (\<lambda>c. c = CHR ''/'') (upper (strip ''MNQ'')) = ''MNQ''" by code_simp
  then show "po_symbol r = ''MNQ'' \<Longrightarrow> price_denial r = None" by (simp add: price_denial_def min_crypto_price_def)
qed

lemma demo_order_checks: "bracket_denial demo_pending = None" "price_denial demo_pending = None"
  "bracket_denial (demo_pending\<lparr>po_qty := NaN\<rparr>) = None" "price_denial (demo_pending\<lparr>po_qty := NaN\<rparr>) = None"
  "bracket_denial (demo_pending\<lparr>po_reduce := True, po_limit := NaN\<rparr>) = None"
  "price_denial (demo_pending\<lparr>po_reduce := True, po_limit := NaN\<rparr>) = None"
  by (simp_all add: mnq_price demo_pending_def bracket_denial_def)

theorem no_naked_entry_witness:
  "\<exists>s e t. po_stop demo_pending = Some s \<and> po_limit demo_pending = Fin e \<and> po_target demo_pending = Some t
     \<and> flt s (Fin e) \<and> flt (Fin e) t"
proof -
  have "order_sanity (\<lambda>_. Inr 0) 1000000 demo_pending = Inr None"
    using demo_sanity [of demo_pending "\<lambda>_. Inr 0" 0 1000000 1] by (simp add: demo_order_checks) (simp add: demo_pending_def)
  from no_naked_entry [OF demo_order_parsed this] show ?thesis by (auto simp: demo_pending_def)
qed

section \<open>Corners\<close>

text \<open>A quantity that is not a number passes both checks; so does a reduce-only limit price.\<close>

lemma nan_quantity_passes:
  "parsed_order ''alpha.pending_order.json'' (demo_pending\<lparr>po_qty := NaN\<rparr>)
   \<and> order_sanity (\<lambda>_. Inr 0) 0 (demo_pending\<lparr>po_qty := NaN\<rparr>) = Inr None
   \<and> order_sanity (\<lambda>_. Inr 0) 0 (demo_pending\<lparr>po_reduce := True, po_limit := NaN\<rparr>) = Inr None"
proof -
  have "parsed_order ''alpha.pending_order.json'' (demo_pending\<lparr>po_qty := NaN\<rparr>)"
    using parse_pending_order [OF demo_order_parsed] by (simp add: parsed_order_def)
  moreover have "po_signal demo_pending = ''s1''" by (simp add: demo_pending_def)
  ultimately show ?thesis by (simp add: demo_sanity [where t = 0 and a = 0] demo_order_checks)
qed

text \<open>So does a bracket whose upper exit is infinite: that exit can never be reached.\<close>

lemma infinite_exit_passes:
  "order_sanity (\<lambda>_. Inr 0) 0 (demo_pending\<lparr>po_target := Some PInf\<rparr>) = Inr None
   \<and> order_sanity (\<lambda>_. Inr 0) 0 (demo_pending\<lparr>po_side := ''SELL'', po_stop := Some PInf, po_target := Some (Fin 20950)\<rparr>) = Inr None"
proof -
  have "bracket_denial (demo_pending\<lparr>po_target := Some PInf\<rparr>) = None"
    "bracket_denial (demo_pending\<lparr>po_side := ''SELL'', po_stop := Some PInf, po_target := Some (Fin 20950)\<rparr>) = None"
    by (simp_all add: demo_pending_def bracket_denial_def fle_def feq_def)
  moreover have "price_denial (demo_pending\<lparr>po_target := Some PInf\<rparr>) = None"
    "price_denial (demo_pending\<lparr>po_side := ''SELL'', po_stop := Some PInf, po_target := Some (Fin 20950)\<rparr>) = None"
    by (simp_all add: mnq_price demo_pending_def)
  moreover have "po_signal demo_pending = ''s1''" by (simp add: demo_pending_def)
  ultimately show ?thesis by (simp add: demo_sanity [where t = 0 and a = 0])
qed

text \<open>Any non-empty text in \<open>reduce_only\<close>, the word false included, lifts the bracket requirement.\<close>

lemma text_false_is_reduce_only:
  "map_option po_reduce (case parse_pending_file (\<lambda>_. []) ''a.pending_order.json''
     (Parsed (JObj [(''ts'', JStr ''t''), (''signal_id'', JStr ''s''), (''side'', JStr ''BUY''), (''qty'', JInt 1),
        (''symbol'', JStr ''MNQ''), (''limit_price'', JInt 5), (''reduce_only'', JStr ''false'')])) of
     Inr r \<Rightarrow> Some r | Inl _ \<Rightarrow> None) = Some True"
  by code_simp

text \<open>A time stamp in the future is never stale.\<close>

lemma future_order_passes: "order_sanity (\<lambda>_. Inr 2000000) 0 demo_pending = Inr None"
  using demo_sanity [of demo_pending "\<lambda>_. Inr 2000000" 2000000 0 "-2"]
  by (simp add: demo_order_checks) (simp add: demo_pending_def)

end
