(* ===== verification/Prop_Risk.thy ===== *)
theory Prop_Risk
  imports Pending_Order Whole
begin

text \<open>
  The pre-trade check of prop-firm accounts (\<open>scripts/prop_risk_governor.py\<close>) over the contract
  table (\<open>feeds/instrument_specs.py\<close>): the worst case of a bracket in dollars must fit in what is left
  of the daily loss limit and of the trailing drawdown, less a liquidation buffer and the risk of
  the positions already open.
\<close>

section \<open>Contracts\<close>

record instrument_spec =
  is_symbol :: string
  is_tick_size :: pyfloat
  is_point_value :: pyfloat
  is_commission :: pyfloat
  is_half_spread :: pyfloat
  is_base_slip :: pyfloat
  is_overnight_mult :: pyfloat
  is_fast_bar_mult :: pyfloat
  is_thin_mult :: pyfloat
  is_perpetual :: bool

definition tick_value_usd :: "instrument_spec \<Rightarrow> pyfloat" where
  "tick_value_usd i = fmul (is_tick_size i) (is_point_value i)"

definition instrument ::
  "string \<Rightarrow> rat \<Rightarrow> rat \<Rightarrow> rat \<Rightarrow> rat \<Rightarrow> rat \<Rightarrow> rat \<Rightarrow> bool \<Rightarrow> string \<times> instrument_spec" where
  "instrument s tick pv comm spread slip overnight perp =
     (s, \<lparr>is_symbol = s, is_tick_size = fl tick, is_point_value = fl pv, is_commission = fl comm,
          is_half_spread = fl spread, is_base_slip = fl slip, is_overnight_mult = fl overnight,
          is_fast_bar_mult = fl (3 / 2), is_thin_mult = fl (13 / 10), is_perpetual = perp\<rparr>)"

definition spec_rows :: "(string \<times> rat \<times> rat \<times> rat \<times> rat \<times> rat \<times> rat \<times> bool) list" where
  "spec_rows =
     [(''MNQ'', 1 / 4, 2, 7 / 5, 1 / 2, 2, 2, False),
      (''MNQ1'', 1 / 4, 2, 7 / 5, 1 / 2, 2, 2, False),
      (''NQ'', 1 / 4, 20, 4, 1 / 2, 3 / 2, 2, False),
      (''NQ1'', 1 / 4, 20, 4, 1 / 2, 3 / 2, 2, False),
      (''ES'', 1 / 4, 50, 4, 1 / 2, 1, 2, False),
      (''ES1'', 1 / 4, 50, 4, 1 / 2, 1, 2, False),
      (''MES'', 1 / 4, 5, 7 / 5, 1 / 2, 3 / 2, 2, False),
      (''RTY'', 1 / 10, 50, 4, 1 / 2, 2, 2, False),
      (''M2K'', 1 / 10, 5, 7 / 5, 1 / 2, 2, 2, False),
      (''GC'', 1 / 10, 100, 4, 1, 2, 2, False),
      (''MGC'', 1 / 10, 10, 7 / 5, 1, 2, 2, False),
      (''CL'', 1 / 100, 1000, 9 / 2, 1, 2, 2, False),
      (''MCL'', 1 / 100, 100, 7 / 5, 1, 2, 2, False),
      (''NG'', 1 / 1000, 10000, 9 / 2, 1, 3, 2, False),
      (''6E'', 1 / 20000, 125000, 4, 1, 3 / 2, 2, False),
      (''M6E'', 1 / 10000, 12500, 7 / 5, 1, 3 / 2, 2, False),
      (''ZN'', 1 / 64, 1000, 4, 1, 1, 2, False),
      (''BTC'', 5, 5, 11, 2, 2, 6 / 5, False),
      (''MBT'', 5, 1 / 10, 5 / 2, 2, 2, 6 / 5, False),
      (''ETH'', 1 / 2, 50, 11, 2, 2, 6 / 5, False),
      (''MET'', 1 / 2, 1 / 10, 5 / 2, 2, 2, 6 / 5, False),
      (''BTC-PERP'', 1 / 100, 1, 0, 2, 3, 1, True),
      (''ETH-PERP'', 1 / 100, 1, 0, 2, 3, 1, True),
      (''SOL'', 1 / 100, 1, 0, 2, 3, 1, False),
      (''XRP'', 1 / 10000, 1, 0, 2, 3, 1, False),
      (''GC1'', 1 / 10, 100, 4, 1, 2, 2, False),
      (''CL1'', 1 / 100, 1000, 9 / 2, 1, 2, 2, False),
      (''NG1'', 1 / 1000, 10000, 9 / 2, 1, 3, 2, False),
      (''6E1'', 1 / 20000, 125000, 4, 1, 3 / 2, 2, False),
      (''ZN1'', 1 / 64, 1000, 4, 1, 1, 2, False),
      (''M2K1'', 1 / 10, 5, 7 / 5, 1 / 2, 2, 2, False),
      (''YM1'', 1, 5, 4, 1 / 2, 2, 2, False),
      (''MYM'', 1, 1 / 2, 7 / 5, 1 / 2, 2, 2, False),
      (''MYM1'', 1, 1 / 2, 7 / 5, 1 / 2, 2, 2, False)]"

definition specs :: "(string, instrument_spec) dict" where
  "specs = map (\<lambda>(s, tick, pv, comm, spread, slip, overnight, perp). instrument s tick pv comm spread slip overnight perp) spec_rows"

definition strip_front_month :: "string \<Rightarrow> string" where
  "strip_front_month s =
     (let u = upper s
      in if ends_with u ''1'' \<and> dget specs (butlast u) \<noteq> None then butlast u else u)"

definition get_spec :: "string \<Rightarrow> instrument_spec" where
  "get_spec symbol =
     (let s = upper symbol
      in case dget specs s of Some i \<Rightarrow> i
         | None \<Rightarrow>
           (case dget specs (s @ ''1'') of Some i \<Rightarrow> i
            | None \<Rightarrow>
              (let t = strip_front_month s
               in case (if t = s then None else dget specs t) of Some i \<Rightarrow> i
                  | None \<Rightarrow> snd (instrument s (1 / 4) 1 4 2 3 2 False))))"

text \<open>For evaluation a contract's numbers are rounded when its row is found.\<close>

definition find_spec :: "string \<Rightarrow> instrument_spec option" where
  "find_spec s = dget specs s"

lemma find_spec_code [code]:
  "find_spec s =
     map_option (\<lambda>(tick, pv, comm, spread, slip, overnight, perp). snd (instrument s tick pv comm spread slip overnight perp))
       (dget spec_rows s)"
proof -
  have "dget (map (\<lambda>(s, tick, pv, comm, spread, slip, overnight, perp). instrument s tick pv comm spread slip overnight perp) rs) s
    = map_option (\<lambda>(tick, pv, comm, spread, slip, overnight, perp). snd (instrument s tick pv comm spread slip overnight perp))
        (dget rs s)" for rs
    by (induction rs) (auto simp: instrument_def)
  then show ?thesis by (simp only: find_spec_def specs_def)
qed

lemma strip_front_month_code [code]:
  "strip_front_month s =
     (let u = upper s
      in if ends_with u ''1'' \<and> find_spec (butlast u) \<noteq> None then butlast u else u)"
  by (simp only: strip_front_month_def find_spec_def)

lemma get_spec_code [code]:
  "get_spec symbol =
     (let s = upper symbol
      in case find_spec s of Some i \<Rightarrow> i
         | None \<Rightarrow>
           (case find_spec (s @ ''1'') of Some i \<Rightarrow> i
            | None \<Rightarrow>
              (let t = strip_front_month s
               in case (if t = s then None else find_spec t) of Some i \<Rightarrow> i
                  | None \<Rightarrow> snd (instrument s (1 / 4) 1 4 2 3 2 False))))"
  by (simp only: get_spec_def find_spec_def)

definition spot_crypto_roots :: "string list" where
  "spot_crypto_roots = [''BTC'', ''ETH'', ''SOL'', ''XRP'', ''AVAX'', ''LINK'', ''DOGE'']"

definition drop_quote :: "string \<Rightarrow> string \<Rightarrow> string" where
  "drop_quote suffix r =
     (if ends_with r suffix \<and> length suffix < length r then take (length r - length suffix) r else r)"

definition effective_point_value :: "string \<Rightarrow> string \<Rightarrow> pyfloat" where
  "effective_point_value route symbol =
     (let r = drop_quote ''USD'' (drop_quote ''USDT'' (rstrip_by is_digit (lstrip_by (\<lambda>c. c = CHR ''/'') (upper symbol))))
      in if route \<in> {''auto'', ''spot''} \<and> r \<in> set spot_crypto_roots then Fin 1
         else let pv = is_point_value (get_spec symbol) in if flt (Fin 0) pv then pv else Fin 1)"

section \<open>The account's rule\<close>

record prop_rule =
  pr_alias :: string
  pr_start :: pyfloat
  pr_equity :: pyfloat
  pr_peak :: pyfloat
  pr_drawdown :: pyfloat
  pr_daily_limit :: pyfloat
  pr_daily_used :: pyfloat
  pr_buffer :: pyfloat
  pr_max_order :: "pyfloat option"
  pr_open_risk :: pyfloat
  pr_daily_profit :: pyfloat
  pr_profit_cap :: "pyfloat option"
  pr_cons_buffer :: pyfloat

definition trailing_floor_usd :: "prop_rule \<Rightarrow> pyfloat" where
  "trailing_floor_usd r =
     pymin (pr_start r) (pymax (fsub (pr_start r) (pr_drawdown r)) (fsub (pr_peak r) (pr_drawdown r)))"

definition daily_room_usd :: "prop_rule \<Rightarrow> pyfloat" where
  "daily_room_usd r = fsub (fsub (pr_daily_limit r) (pr_daily_used r)) (pr_buffer r)"

definition trailing_room_usd :: "prop_rule \<Rightarrow> pyfloat" where
  "trailing_room_usd r = fsub (fsub (pr_equity r) (trailing_floor_usd r)) (pr_buffer r)"

definition usable_entry_room_usd :: "prop_rule \<Rightarrow> pyfloat" where
  "usable_entry_room_usd r =
     (let room = pymin (daily_room_usd r) (trailing_room_usd r)
      in fsub (case pr_max_order r of None \<Rightarrow> room | Some m \<Rightarrow> pymin room m) (pr_open_risk r))"

definition consistency_room_usd :: "prop_rule \<Rightarrow> pyfloat option" where
  "consistency_room_usd r =
     map_option (\<lambda>cap. fsub (fsub cap (pr_daily_profit r)) (pr_cons_buffer r)) (pr_profit_cap r)"

type_synonym account = "(string, string) dict"

definition text_at :: "account \<Rightarrow> string \<Rightarrow> string" where
  "text_at d k = dget_or d k []"

definition env_field_name :: "string \<Rightarrow> string" where
  "env_field_name k = (if ends_with k ''_usd'' then take (length k - 4) k @ ''_env'' else k @ ''_env'')"

definition resolve_float :: "env \<Rightarrow> account \<Rightarrow> string \<Rightarrow> pyfloat option" where
  "resolve_float e d k =
     (let named = text_at d (env_field_name k);
          var = strip (if named \<noteq> [] then named else text_at d (k @ ''_env''));
          raw = strip (if var \<noteq> [] then env_get e var else text_at d k)
      in if raw = [] then None else parse_float raw)"

definition consistency_profit_cap :: "env \<Rightarrow> account \<Rightarrow> pyfloat option" where
  "consistency_profit_cap e d =
     (case resolve_float e d ''consistency_profit_cap_usd'' of
        Some cap \<Rightarrow> Some cap
      | None \<Rightarrow>
        (case (resolve_float e d ''target_profit_usd'', resolve_float e d ''consistency_max_day_profit_pct_of_target'') of
           (Some t, Some pct) \<Rightarrow>
             (let frac = (if flt (Fin 1) pct then the (fdiv pct (Fin 100)) else pct)
              in if fle t (Fin 0) \<or> fle frac (Fin 0) then None else Some (fround 2 (fmul t frac)))
         | _ \<Rightarrow> None))"

definition or_zero :: "pyfloat option \<Rightarrow> pyfloat" where
  "or_zero v = (case v of None \<Rightarrow> Fin 0 | Some x \<Rightarrow> x)"

datatype rule_error = MissingFields "string list" | NonFiniteValue | NonPositiveEquity | NonPositiveLimit

text \<open>The fields that must resolve, sorted; the peak only when the account configures it.\<close>

definition required_account_fields :: "string list" where
  "required_account_fields =
     [''current_equity_usd'', ''daily_loss_limit_usd'', ''peak_equity_usd'', ''starting_balance_usd'',
      ''trailing_drawdown_usd'']"

definition peak_configured :: "account \<Rightarrow> bool" where
  "peak_configured d =
     list_ex (\<lambda>k. dget d k \<noteq> None) [''peak_equity_usd'', ''peak_equity_env'', ''peak_equity_usd_env'']"

definition missing_account_fields :: "env \<Rightarrow> account \<Rightarrow> string list" where
  "missing_account_fields e d =
     filter (\<lambda>k. resolve_float e d k = None \<and> (k \<noteq> ''peak_equity_usd'' \<or> peak_configured d)) required_account_fields"

text \<open>The values as the account and the environment give them, before they are checked and clamped.\<close>

definition raw_rule :: "env \<Rightarrow> account \<Rightarrow> prop_rule" where
  "raw_rule e d =
     (let get = resolve_float e d; start = or_zero (get ''starting_balance_usd'');
          equity = or_zero (get ''current_equity_usd''); pnl = or_zero (get ''daily_realized_pnl_usd'')
      in \<lparr>pr_alias = (if text_at d ''alias'' = [] then ''prop_account'' else text_at d ''alias''),
          pr_start = start, pr_equity = equity,
          pr_peak = (case get ''peak_equity_usd'' of Some p \<Rightarrow> p | None \<Rightarrow> pymax start equity),
          pr_drawdown = or_zero (get ''trailing_drawdown_usd''), pr_daily_limit = or_zero (get ''daily_loss_limit_usd''),
          pr_daily_used = (case get ''daily_loss_used_usd'' of Some u \<Rightarrow> u | None \<Rightarrow> pymax (Fin 0) (fneg pnl)),
          pr_buffer = (case get ''liquidation_buffer_usd'' of Some b \<Rightarrow> b | None \<Rightarrow> Fin 250),
          pr_max_order = get ''max_order_risk_usd'', pr_open_risk = or_zero (get ''open_risk_usd''),
          pr_daily_profit = (case get ''daily_profit_usd'' of Some p \<Rightarrow> p | None \<Rightarrow> pymax (Fin 0) pnl),
          pr_profit_cap = consistency_profit_cap e d, pr_cons_buffer = or_zero (get ''consistency_buffer_usd'')\<rparr>)"

definition check_rule :: "prop_rule \<Rightarrow> rule_error + prop_rule" where
  "check_rule r =
     (if \<not> list_all is_fin [pr_start r, pr_equity r, pr_peak r, pr_drawdown r, pr_daily_limit r, pr_daily_used r,
           pr_buffer r, pr_open_risk r, pr_daily_profit r, pr_cons_buffer r]
      then Inl NonFiniteValue
      else if fle (pr_start r) (Fin 0) \<or> fle (pr_equity r) (Fin 0) then Inl NonPositiveEquity
      else if fle (pr_drawdown r) (Fin 0) \<or> fle (pr_daily_limit r) (Fin 0) then Inl NonPositiveLimit
      else Inr (r\<lparr>pr_daily_used := pymax (Fin 0) (pr_daily_used r), pr_open_risk := pymax (Fin 0) (pr_open_risk r),
                  pr_daily_profit := pymax (Fin 0) (pr_daily_profit r),
                  pr_cons_buffer := pymax (Fin 0) (pr_cons_buffer r)\<rparr>))"

definition rule_from_account :: "env \<Rightarrow> account \<Rightarrow> rule_error + prop_rule" where
  "rule_from_account e d =
     (if missing_account_fields e d \<noteq> [] then Inl (MissingFields (missing_account_fields e d))
      else check_rule (raw_rule e d))"

section \<open>The verdict on an order\<close>

text \<open>The roots, longest first.\<close>

definition prop_futures_roots :: "string list" where
  "prop_futures_roots =
     [''MNQ'', ''MES'', ''RTY'', ''M2K'', ''MYM'', ''MGC'', ''MCL'', ''M6E'', ''BTC'', ''MBT'', ''ETH'', ''MET'',
      ''NQ'', ''ES'', ''YM'', ''GC'', ''CL'', ''NG'', ''6E'', ''ZN'']"

definition month_codes :: string where
  "month_codes = ''FGHJKMNQUVXZ''"

definition is_upper_alnum :: "char \<Rightarrow> bool" where
  "is_upper_alnum c = (is_digit c \<or> 65 \<le> code_of c \<and> code_of c \<le> 90)"

fun find_root :: "string \<Rightarrow> string list \<Rightarrow> string option" where
  "find_root s [] = None"
| "find_root s (r # rs) =
     (if s = r \<or> s = r @ ''1'' then Some r
      else if \<not> starts_with s r then find_root s rs
      else case drop (length r) s of
             [] \<Rightarrow> Some r
           | c # cs \<Rightarrow> (if c # cs \<in> {''USD'', ''USDT''} then None
                        else if c \<in> set month_codes \<and> list_ex is_digit (c # cs) then Some r
                        else find_root s rs))"

definition futures_root :: "string \<Rightarrow> string option" where
  "futures_root symbol =
     (let compact = filter is_upper_alnum (upper symbol)
      in if compact = [] then None else find_root compact prop_futures_roots)"

definition positive_finite :: "pyfloat \<Rightarrow> bool" where
  "positive_finite x = (is_fin x \<and> flt (Fin 0) x)"

definition estimate_bracket_risk :: "string \<Rightarrow> pyfloat \<Rightarrow> pyfloat \<Rightarrow> pyfloat \<Rightarrow> pyfloat option" where
  "estimate_bracket_risk symbol qty entry stop =
     (case futures_root symbol of
        None \<Rightarrow> None
      | Some r \<Rightarrow>
          let q = fabs qty; pv = effective_point_value ''futures'' r
          in if \<not> list_all positive_finite [q, entry, stop, pv] then None
             else Some (fround 2 (fmul (fmul (fabs (fsub entry stop)) q) pv)))"

definition rule_context :: "prop_rule \<Rightarrow> pyfloat \<Rightarrow> (string \<times> json) list" where
  "rule_context r risk =
     (let money = \<lambda>x. JFloat (fround 2 x)
      in [(''alias'', JStr (pr_alias r)), (''risk_usd'', money risk), (''starting_balance_usd'', money (pr_start r)),
          (''current_equity_usd'', money (pr_equity r)), (''peak_equity_usd'', money (pr_peak r)),
          (''trailing_floor_usd'', money (trailing_floor_usd r)), (''daily_room_usd'', money (daily_room_usd r)),
          (''trailing_room_usd'', money (trailing_room_usd r)), (''max_order_risk_usd'', jopt money (pr_max_order r)),
          (''open_risk_usd'', money (pr_open_risk r)), (''usable_entry_room_usd'', money (usable_entry_room_usd r)),
          (''liquidation_buffer_usd'', money (pr_buffer r)), (''daily_profit_usd'', money (pr_daily_profit r)),
          (''consistency_profit_cap_usd'', jopt money (pr_profit_cap r)),
          (''consistency_buffer_usd'', money (pr_cons_buffer r)),
          (''consistency_room_usd'', jopt money (consistency_room_usd r))])"

datatype prop_reason =
    ReduceOnlyExit | PropMissingStop | RuleIncomplete rule_error | UnknownContract "pyfloat option"
  | ProfitCapReached | ExceedsHeadroom | WithinHeadroom

record prop_verdict =
  pv_allow :: bool
  pv_reason :: prop_reason
  pv_context :: "(string \<times> json) list"

definition refuse :: "prop_reason \<Rightarrow> (string \<times> json) list \<Rightarrow> prop_verdict" where
  "refuse why ctx = \<lparr>pv_allow = False, pv_reason = why, pv_context = ctx\<rparr>"

definition admit :: "prop_reason \<Rightarrow> (string \<times> json) list \<Rightarrow> prop_verdict" where
  "admit why ctx = \<lparr>pv_allow = True, pv_reason = why, pv_context = ctx\<rparr>"

definition missing_names :: "rule_error \<Rightarrow> string list" where
  "missing_names x =
     (case x of MissingFields ks \<Rightarrow> ks | NonFiniteValue \<Rightarrow> [''non_finite_prop_risk_value'']
      | NonPositiveEquity \<Rightarrow> [''non_positive_prop_equity''] | NonPositiveLimit \<Rightarrow> [''non_positive_prop_limit''])"

definition judge_risk :: "prop_rule \<Rightarrow> pyfloat \<Rightarrow> prop_verdict" where
  "judge_risk r risk =
     (if (case consistency_room_usd r of Some c \<Rightarrow> fle c (Fin 0) | None \<Rightarrow> False)
      then refuse ProfitCapReached (rule_context r risk)
      else if flt (usable_entry_room_usd r) risk then refuse ExceedsHeadroom (rule_context r risk)
      else admit WithinHeadroom (rule_context r risk))"

definition evaluate_prop_order :: "env \<Rightarrow> account \<Rightarrow> pending_order \<Rightarrow> prop_verdict" where
  "evaluate_prop_order e d r =
     (if po_reduce r then admit ReduceOnlyExit [(''bot_id'', JStr (po_bot r)), (''risk_usd'', JFloat (Fin 0))]
      else case po_stop r of
        None \<Rightarrow> refuse PropMissingStop [(''symbol'', JStr (po_symbol r)), (''risk_usd'', JNull)]
      | Some stop \<Rightarrow>
          (case rule_from_account e d of
             Inl x \<Rightarrow> refuse (RuleIncomplete x)
                       [(''alias'', JStr (text_at d ''alias'')),
                        (''missing_fields'', JList (map JStr (missing_names x)))]
           | Inr rule \<Rightarrow>
               (let risk = estimate_bracket_risk (po_symbol r) (po_qty r) (po_limit r) stop;
                    unknown = refuse (UnknownContract risk)
                      [(''alias'', JStr (pr_alias rule)), (''symbol'', JStr (po_symbol r)), (''risk_usd'', jopt JFloat risk)]
                in case risk of
                     None \<Rightarrow> unknown
                   | Some x \<Rightarrow> if fle x (Fin 0) then unknown else judge_risk rule x)))"

definition prop_order_risk_denial :: "env \<Rightarrow> account \<Rightarrow> pending_order \<Rightarrow> prop_verdict option" where
  "prop_order_risk_denial e d r =
     (let v = evaluate_prop_order e d r in if pv_allow v then None else Some v)"

section \<open>Lemmas\<close>

text \<open>Every root the governor knows has its own line in the table, never the fallback multiplier.\<close>

lemma fst_instrument [simp]: "fst (instrument s a b c x y z p) = s"
  by (simp add: instrument_def)

definition spec_names :: "string list" where
  "spec_names = [''MNQ'', ''MNQ1'', ''NQ'', ''NQ1'', ''ES'', ''ES1'', ''MES'', ''RTY'', ''M2K'', ''GC'', ''MGC'', ''CL'',
     ''MCL'', ''NG'', ''6E'', ''M6E'', ''ZN'', ''BTC'', ''MBT'', ''ETH'', ''MET'', ''BTC-PERP'', ''ETH-PERP'', ''SOL'',
     ''XRP'', ''GC1'', ''CL1'', ''NG1'', ''6E1'', ''ZN1'', ''M2K1'', ''YM1'', ''MYM'', ''MYM1'']"

lemma roots_have_specs:
  "list_all (\<lambda>r. dget specs r \<noteq> None \<or> dget specs (r @ ''1'') \<noteq> None) prop_futures_roots"
proof -
  have n: "map fst specs = spec_names" by (simp add: specs_def spec_rows_def spec_names_def)
  have "list_all (\<lambda>r. r \<in> set spec_names \<or> r @ ''1'' \<in> set spec_names) prop_futures_roots" by code_simp
  then show ?thesis by (simp add: map_of_eq_None_iff flip: n)
qed

lemma find_root_in: "find_root s rs = Some r \<Longrightarrow> r \<in> set rs"
  by (induction rs) (auto split: if_splits list.splits)

text \<open>A rule built from an account holds finite values.\<close>

lemma pymax_fin [simp]: "is_fin a \<Longrightarrow> is_fin b \<Longrightarrow> is_fin (pymax a b)"
  by (simp add: pymax_def)

lemma fin_positive: "is_fin x \<Longrightarrow> \<not> fle x (Fin 0) \<Longrightarrow> flt (Fin 0) x"
  by (auto elim!: is_fin_E)

lemma rule_fin:
  assumes "rule_from_account e d = Inr r"
  shows "list_all is_fin [pr_start r, pr_equity r, pr_peak r, pr_drawdown r, pr_daily_limit r, pr_daily_used r,
           pr_buffer r, pr_open_risk r]"
    and "list_all (flt (Fin 0)) [pr_start r, pr_equity r, pr_drawdown r, pr_daily_limit r]"
  using assms by (auto simp: rule_from_account_def check_rule_def intro: fin_positive split: if_splits)

lemma fround_NaN [simp]: "fround n x = NaN \<longleftrightarrow> x = NaN"
  by (cases x) simp_all

lemma estimate_not_NaN:
  assumes "estimate_bracket_risk s q en st = Some x"
  shows "x \<noteq> NaN"
proof -
  from assms obtain a p where v: "is_fin en" "is_fin st" "fabs q = Fin a" "0 < a" and p: "0 < p"
    and x: "x = fround 2 (fmul (fmul (fabs (fsub en st)) (fabs q)) (Fin p))"
    by (auto simp: estimate_bracket_risk_def positive_finite_def Let_def split: option.splits if_splits elim!: is_fin_E)
  have pos: "fle (Fin 0) y \<Longrightarrow> 0 < z \<Longrightarrow> fle (Fin 0) (fmul y (Fin z))" for y z
    by (cases y) (auto simp: finf_def intro!: fl_ge)
  have "fsub en st \<noteq> NaN" using v by (auto elim!: is_fin_E)
  then have "fle (Fin 0) (fmul (fmul (fabs (fsub en st)) (fabs q)) (Fin p))"
    unfolding v(3) using v(4) p by (intro pos fabs_nonneg)
  then show ?thesis unfolding x by auto
qed

text \<open>A rule in whole dollars.\<close>

definition whole_rule :: "prop_rule \<Rightarrow> bool" where
  "whole_rule r =
     (list_all whole [pr_start r, pr_equity r, pr_peak r, pr_drawdown r, pr_daily_limit r, pr_daily_used r,
                      pr_buffer r, pr_open_risk r]
      \<and> (case pr_max_order r of Some m \<Rightarrow> whole m | None \<Rightarrow> True))"

text \<open>The rooms of a whole-dollar rule, in exact arithmetic.\<close>

lemma whole_rooms:
  assumes "whole_rule r"
  obtains st eq pk dd lim us bf op where
    "pr_start r = Fin (of_int st)" "pr_equity r = Fin (of_int eq)" "pr_peak r = Fin (of_int pk)"
    "pr_drawdown r = Fin (of_int dd)" "pr_daily_limit r = Fin (of_int lim)" "pr_daily_used r = Fin (of_int us)"
    "pr_buffer r = Fin (of_int bf)" "pr_open_risk r = Fin (of_int op)" "\<bar>op\<bar> \<le> 2 ^ 45"
    "trailing_floor_usd r = Fin (of_int (min st (max (st - dd) (pk - dd))))"
    "daily_room_usd r = Fin (of_int (lim - us - bf))"
    "trailing_room_usd r = Fin (of_int (eq - min st (max (st - dd) (pk - dd)) - bf))"
    "\<bar>min (lim - us - bf) (eq - min st (max (st - dd) (pk - dd)) - bf)\<bar> \<le> 2 ^ 48"
proof -
  from assms have w: "whole (pr_start r)" "whole (pr_equity r)" "whole (pr_peak r)" "whole (pr_drawdown r)"
    "whole (pr_daily_limit r)" "whole (pr_daily_used r)" "whole (pr_buffer r)" "whole (pr_open_risk r)"
    by (simp_all add: whole_rule_def)
  obtain st where st: "pr_start r = Fin (of_int st)" "\<bar>st\<bar> \<le> 2 ^ 45" using w(1) by (rule wholeE)
  obtain eq where eq: "pr_equity r = Fin (of_int eq)" "\<bar>eq\<bar> \<le> 2 ^ 45" using w(2) by (rule wholeE)
  obtain pk where pk: "pr_peak r = Fin (of_int pk)" "\<bar>pk\<bar> \<le> 2 ^ 45" using w(3) by (rule wholeE)
  obtain dd where dd: "pr_drawdown r = Fin (of_int dd)" "\<bar>dd\<bar> \<le> 2 ^ 45" using w(4) by (rule wholeE)
  obtain lim where lim: "pr_daily_limit r = Fin (of_int lim)" "\<bar>lim\<bar> \<le> 2 ^ 45" using w(5) by (rule wholeE)
  obtain us where us: "pr_daily_used r = Fin (of_int us)" "\<bar>us\<bar> \<le> 2 ^ 45" using w(6) by (rule wholeE)
  obtain bf where bf: "pr_buffer r = Fin (of_int bf)" "\<bar>bf\<bar> \<le> 2 ^ 45" using w(7) by (rule wholeE)
  obtain op where op: "pr_open_risk r = Fin (of_int op)" "\<bar>op\<bar> \<le> 2 ^ 45" using w(8) by (rule wholeE)
  have floor: "trailing_floor_usd r = Fin (of_int (min st (max (st - dd) (pk - dd))))"
    using st dd pk by (simp add: trailing_floor_usd_def fsub_whole pymin_whole pymax_whole del: fsub_Fin_simp of_int_diff)
  have daily: "daily_room_usd r = Fin (of_int (lim - us - bf))"
    using lim us bf by (simp add: daily_room_usd_def fsub_whole del: fsub_Fin_simp of_int_diff)
  have trail: "trailing_room_usd r = Fin (of_int (eq - min st (max (st - dd) (pk - dd)) - bf))"
    unfolding trailing_room_usd_def floor using eq bf st dd pk
    by (simp add: fsub_whole min_def max_def del: fsub_Fin_simp of_int_diff)
  have "\<bar>min (lim - us - bf) (eq - min st (max (st - dd) (pk - dd)) - bf)\<bar> \<le> 2 ^ 48"
  proof -
    have bound: "\<bar>min a b\<bar> \<le> k" "\<bar>max a b\<bar> \<le> k" if "\<bar>a\<bar> \<le> k" "\<bar>b\<bar> \<le> k" for a b k :: int
      using that by (auto simp: min_def max_def)
    have room: "\<bar>eq - m - bf\<bar> \<le> 2 ^ 48" if "\<bar>m\<bar> \<le> 2 ^ 46" for m
      using that eq(2) bf(2) by simp
    have "\<bar>min st (max (st - dd) (pk - dd))\<bar> \<le> 2 ^ 46"
      using st(2) pk(2) dd(2) by (intro bound; simp)
    then have "\<bar>eq - min st (max (st - dd) (pk - dd)) - bf\<bar> \<le> 2 ^ 48" by (rule room)
    moreover have "\<bar>lim - us - bf\<bar> \<le> 2 ^ 48" using lim(2) us(2) bf(2) by simp
    ultimately show ?thesis by (intro bound)
  qed
  with that st eq pk dd lim us bf op floor daily trail show thesis by blast
qed

text \<open>An admitted entry passed every check on the way.\<close>

lemma admitted_entry:
  assumes "pv_allow (evaluate_prop_order e d r)" "\<not> po_reduce r"
  obtains rule stop x where "po_stop r = Some stop" "rule_from_account e d = Inr rule"
    "estimate_bracket_risk (po_symbol r) (po_qty r) (po_limit r) stop = Some x" "\<not> fle x (Fin 0)"
    "\<not> flt (usable_entry_room_usd rule) x"
  using assms
  by (auto simp: evaluate_prop_order_def judge_risk_def refuse_def Let_def split: option.splits sum.splits if_splits)

text \<open>
  The specification: the account survives the loss of \<open>q\<close> dollars on top of the open risk.
\<close>

fun dollars :: "pyfloat \<Rightarrow> rat" where
  "dollars (Fin q) = q"
| "dollars _ = 0"

definition loss_fits :: "prop_rule \<Rightarrow> rat \<Rightarrow> bool" where
  "loss_fits r q =
     (let start = dollars (pr_start r); drawdown = dollars (pr_drawdown r); peak = dollars (pr_peak r);
          floor_usd = min start (max (start - drawdown) (peak - drawdown)); lost = q + dollars (pr_open_risk r)
      in floor_usd + dollars (pr_buffer r) \<le> dollars (pr_equity r) - lost
         \<and> dollars (pr_daily_used r) + lost \<le> dollars (pr_daily_limit r) - dollars (pr_buffer r)
         \<and> (case pr_max_order r of Some m \<Rightarrow> lost \<le> dollars m | None \<Rightarrow> True))"

lemma of_int_min_max: "(of_int (min a b) :: rat) = min (of_int a) (of_int b)"
  "(of_int (max a b) :: rat) = max (of_int a) (of_int b)"
  by (simp_all add: min_def max_def)

lemma abs_min: "\<bar>a\<bar> \<le> k \<Longrightarrow> \<bar>b\<bar> \<le> k \<Longrightarrow> \<bar>min a b\<bar> \<le> (k :: int)"
  by (simp add: min_def)

lemma room_bounds:
  assumes w: "whole_rule r" and a: "\<not> flt (usable_entry_room_usd r) x" "\<not> fle x (Fin 0)" "x \<noteq> NaN"
  shows "is_fin x \<and> loss_fits r (dollars x)"
proof (rule whole_rooms [OF w])
  fix st eq pk dd lim us bf op :: int
  let ?a = "lim - us - bf" and ?b = "eq - min st (max (st - dd) (pk - dd)) - bf"
  assume v: "pr_start r = Fin (of_int st)" "pr_equity r = Fin (of_int eq)" "pr_peak r = Fin (of_int pk)"
      "pr_drawdown r = Fin (of_int dd)" "pr_daily_limit r = Fin (of_int lim)" "pr_daily_used r = Fin (of_int us)"
      "pr_buffer r = Fin (of_int bf)" "pr_open_risk r = Fin (of_int op)" "\<bar>op\<bar> \<le> 2 ^ 45"
    and f: "daily_room_usd r = Fin (of_int ?a)" "trailing_room_usd r = Fin (of_int ?b)" "\<bar>min ?a ?b\<bar> \<le> 2 ^ 48"
  obtain c where c: "(case pr_max_order r of None \<Rightarrow> Fin (of_int (min ?a ?b)) | Some m \<Rightarrow> pymin (Fin (of_int (min ?a ?b))) m)
      = Fin (of_int c)" "\<bar>c\<bar> \<le> 2 ^ 48" "c \<le> min ?a ?b"
      "case pr_max_order r of Some m \<Rightarrow> of_int c \<le> dollars m | None \<Rightarrow> True"
  proof (cases "pr_max_order r")
    case None
    show thesis by (rule that [of "min ?a ?b"]) (use f(3) in \<open>simp_all only: None option.case order_refl\<close>)
  next
    case (Some m)
    with w obtain n where n: "m = Fin (of_int n)" "\<bar>n\<bar> \<le> 2 ^ 45" by (auto simp: whole_rule_def elim: wholeE)
    let ?n = "min (min ?a ?b) n"
    have "\<bar>n\<bar> \<le> 2 ^ 48" using n(2) by (rule order_trans) simp
    with f(3) have "\<bar>?n\<bar> \<le> 2 ^ 48" by (rule abs_min)
    moreover have "?n \<le> min ?a ?b" "?n \<le> n" by linarith+
    ultimately show thesis using Some n by (intro that [of ?n]) (simp_all only: option.case dollars.simps pymin_whole of_int_le_iff)
  qed
  have "usable_entry_room_usd r = Fin (of_int (c - op))"
    unfolding usable_entry_room_usd_def Let_def f pymin_whole c(1) v(8) using c(2) v(9) by (intro fsub_whole) simp
  with a obtain q where q: "x = Fin q" "0 < q" "q + of_int op \<le> of_int c" by (cases x) auto
  have "(of_int c :: rat) \<le> of_int ?a" "(of_int c :: rat) \<le> of_int ?b" using c(3) by (simp_all only: of_int_le_iff)
  with q(3) have "q + of_int op \<le> of_int ?a" "q + of_int op \<le> of_int ?b" by linarith+
  then show ?thesis using q c(4) v by (auto simp: loss_fits_def of_int_min_max Let_def split: option.splits)
qed

section \<open>Properties\<close>

text \<open>
  C13. An admitted entry cannot cost the account.  Whenever the governor lets an order through that
  is not reduce-only, the account's rule was complete and finite, the worst case of the bracket is
  a positive number of dollars, and (for whole-dollar rules, where it is exact) losing it and every
  open risk leaves equity at least the liquidation buffer above the trailing floor, keeps the day
  within its loss limit less the buffer, and stays within the configured maximum per order.
\<close>

theorem admitted_entry_fits:
  assumes "prop_order_risk_denial e d r = None" "\<not> po_reduce r"
  shows "\<exists>rule stop x. rule_from_account e d = Inr rule \<and> po_stop r = Some stop
    \<and> estimate_bracket_risk (po_symbol r) (po_qty r) (po_limit r) stop = Some x
    \<and> flt (Fin 0) (pr_equity rule) \<and> flt (Fin 0) (pr_daily_limit rule) \<and> flt (Fin 0) x
    \<and> (whole_rule rule \<longrightarrow> is_fin x \<and> loss_fits rule (dollars x))"
proof -
  from assms(1) have "pv_allow (evaluate_prop_order e d r)"
    by (simp add: prop_order_risk_denial_def Let_def split: if_splits)
  from admitted_entry [OF this assms(2)] obtain rule stop x where
    a: "po_stop r = Some stop" "rule_from_account e d = Inr rule"
      "estimate_bracket_risk (po_symbol r) (po_qty r) (po_limit r) stop = Some x"
    and x: "\<not> fle x (Fin 0)" "\<not> flt (usable_entry_room_usd rule) x" by metis
  note nan = estimate_not_NaN [OF a(3)]
  have pos: "flt (Fin 0) (pr_equity rule)" "flt (Fin 0) (pr_daily_limit rule)" "flt (Fin 0) x"
    using rule_fin(2) [OF a(2)] x(1) nan by (simp_all add: not_fle)
  have "is_fin x \<and> loss_fits rule (dollars x)" if w: "whole_rule rule"
    using room_bounds [OF w x(2,1) nan] .
  with a pos show ?thesis by (intro exI [of _ rule] exI [of _ stop] exI [of _ x]) simp
qed

definition demo_account :: account where
  "demo_account =
     [(''alias'', ''blusky''), (''starting_balance_usd'', ''50000''), (''current_equity_env'', ''EQUITY''),
      (''trailing_drawdown_usd'', ''2000''), (''daily_loss_limit_usd'', ''500''),
      (''liquidation_buffer_usd'', ''300''), (''max_order_risk_usd'', ''100'')]"

definition demo_prop_env :: env where
  "demo_prop_env k = (if k = ''EQUITY'' then Some ''50100'' else None)"

definition demo_rule :: prop_rule where
  "demo_rule = \<lparr>pr_alias = ''blusky'', pr_start = Fin 50000, pr_equity = Fin 50100, pr_peak = Fin 50100,
     pr_drawdown = Fin 2000, pr_daily_limit = Fin 500, pr_daily_used = Fin 0, pr_buffer = Fin 300,
     pr_max_order = Some (Fin 100), pr_open_risk = Fin 0, pr_daily_profit = Fin 0, pr_profit_cap = None,
     pr_cons_buffer = Fin 0\<rparr>"

lemma demo_rule_ok: "rule_from_account demo_prop_env demo_account = Inr demo_rule"
  by code_simp

lemma mnq_point_value: "effective_point_value ''futures'' ''MNQ'' = Fin 2"
proof -
  have "upper ''MNQ'' = ''MNQ''" by code_simp
  then show ?thesis by (simp add: effective_point_value_def get_spec_def specs_def spec_rows_def instrument_def Let_def)
qed

definition demo_entry :: pending_order where
  "demo_entry = demo_pending\<lparr>po_stop := Some (Fin 20975)\<rparr>"

lemma demo_risk: "estimate_bracket_risk (po_symbol demo_entry) (po_qty demo_entry) (po_limit demo_entry) (Fin 20975) = Some (Fin 50)"
proof -
  have "futures_root (po_symbol demo_entry) = Some ''MNQ''" by code_simp
  moreover have "fround 2 (fmul (fmul (fabs (fsub (Fin 21000) (Fin 20975))) (Fin 1)) (Fin 2)) = Fin 50" by code_simp
  ultimately show ?thesis
    by (simp add: estimate_bracket_risk_def mnq_point_value demo_entry_def demo_pending_def positive_finite_def Let_def)
qed

lemma demo_admitted: "prop_order_risk_denial demo_prop_env demo_account demo_entry = None"
proof -
  have "pv_allow (judge_risk demo_rule (Fin 50))" by code_simp
  moreover have "po_stop demo_entry = Some (Fin 20975)" "\<not> po_reduce demo_entry"
    by (simp_all add: demo_entry_def demo_pending_def)
  ultimately show ?thesis
    by (simp add: prop_order_risk_denial_def evaluate_prop_order_def demo_rule_ok demo_risk Let_def)
qed

theorem admitted_entry_fits_witness:
  "whole_rule demo_rule \<and> loss_fits demo_rule 50
   \<and> prop_order_risk_denial demo_prop_env demo_account demo_entry = None"
proof -
  have n: "\<not> po_reduce demo_entry" by (simp add: demo_entry_def demo_pending_def)
  have w: "whole_rule demo_rule" by code_simp
  from admitted_entry_fits [OF demo_admitted n] obtain rule stop x where
    "rule_from_account demo_prop_env demo_account = Inr rule" "po_stop demo_entry = Some stop"
    "estimate_bracket_risk (po_symbol demo_entry) (po_qty demo_entry) (po_limit demo_entry) stop = Some x"
    "whole_rule rule \<longrightarrow> is_fin x \<and> loss_fits rule (dollars x)" by blast
  moreover from this(2) have "stop = Fin 20975" by (simp add: demo_entry_def)
  ultimately have "loss_fits demo_rule 50" using w by (auto simp: demo_rule_ok demo_risk)
  with w demo_admitted show ?thesis by simp
qed

section \<open>Corners\<close>

text \<open>
  The required values fail closed; the optional ones do not.  With the environment variable of the
  day's loss unset the day counts as unused, and a maximum order risk or a profit cap that is not a
  number is no limit at all.
\<close>

lemma unset_daily_loss_counts_as_zero:
  "map_option pr_daily_used (case rule_from_account demo_prop_env ((''daily_loss_used_env'', ''DAY_LOSS'') # demo_account) of
     Inr r \<Rightarrow> Some r | Inl _ \<Rightarrow> None) = Some (Fin 0)"
  by code_simp

lemma nan_limits_are_ignored:
  "usable_entry_room_usd (r\<lparr>pr_max_order := Some NaN\<rparr>) = usable_entry_room_usd (r\<lparr>pr_max_order := None\<rparr>)
   \<and> pv_allow (judge_risk (r\<lparr>pr_profit_cap := Some NaN\<rparr>) x) = pv_allow (judge_risk (r\<lparr>pr_profit_cap := None\<rparr>) x)"
proof -
  have "fsub NaN y = NaN" for y by (cases y) (simp_all add: fsub_def)
  then show ?thesis
    by (simp add: usable_entry_room_usd_def daily_room_usd_def trailing_room_usd_def trailing_floor_usd_def pymin_def
        judge_risk_def consistency_room_usd_def refuse_def admit_def Let_def)
qed

end
