(* ===== verification/Order_Hold.thy ===== *)
theory Order_Hold
  imports Durable
begin

text \<open>
  \<open>scripts/runtime_order_hold.py\<close>: the operator's switch that keeps new orders from being routed,
  read from the environment or from a file, for everything or for one venue or asset class.
\<close>

section \<open>The hold\<close>

record order_hold =
  oh_active :: bool
  oh_reason :: string
  oh_source :: string
  oh_scope :: string
  oh_payload :: json

definition known_scopes :: "string list" where
  "known_scopes = [''all'', ''ibkr'', ''futures'', ''crypto'', ''alpaca'', ''tastytrade'']"

definition scope_rules :: "(string, (string \<times> string) list) dict" where
  "scope_rules =
     [(''all'', [(''*'', ''*'')]), (''ibkr'', [(''ibkr'', ''*'')]), (''futures'', [(''*'', ''futures'')]),
      (''crypto'', [(''*'', ''crypto'')]), (''alpaca'', [(''alpaca'', ''*'')]),
      (''tastytrade'', [(''tastytrade'', ''*'')])]"

definition normalise_scope :: "json \<Rightarrow> string" where
  "normalise_scope raw =
     (case raw of
        JStr s \<Rightarrow> let c = lower (strip s)
                  in if c = [] then ''all'' else if c \<in> set known_scopes then c else ''all''
      | _ \<Rightarrow> ''all'')"

definition wildcard :: "string option \<Rightarrow> string" where
  "wildcard v =
     (let s = (case v of Some x \<Rightarrow> if x = [] then ''*'' else x | None \<Rightarrow> ''*''); n = lower (strip s)
      in if n = [] then ''*'' else n)"

definition scope_blocks :: "string \<Rightarrow> string option \<Rightarrow> string option \<Rightarrow> bool" where
  "scope_blocks scope venue asset_class =
     (let v = wildcard venue; k = wildcard asset_class
      in list_ex (\<lambda>(rv, rk). (rv = ''*'' \<or> rv = v \<or> v = ''*'') \<and> (rk = ''*'' \<or> rk = k \<or> k = ''*''))
           (dget_or scope_rules scope (dget_or scope_rules ''all'' [])))"

definition hold_blocks :: "order_hold \<Rightarrow> string option \<Rightarrow> string option \<Rightarrow> bool" where
  "hold_blocks h venue asset_class = (oh_active h \<and> scope_blocks (oh_scope h) venue asset_class)"

definition hold_truthy :: "string list" where
  "hold_truthy = [''1'', ''true'', ''yes'', ''on'', ''hold'', ''held'']"

text \<open>\<open>err\<close> is the name of the exception reading a damaged file raises.\<close>

definition hold_value :: "(string \<times> json) list \<Rightarrow> bool" where
  "hold_value d =
     (case dget d ''active'' of
        Some v \<Rightarrow> as_bool v
      | None \<Rightarrow> (case dget d ''hold'' of Some v \<Rightarrow> as_bool v | None \<Rightarrow> True))"

definition load_hold :: "(json \<Rightarrow> string) \<Rightarrow> string \<Rightarrow> env \<Rightarrow> jfile \<Rightarrow> order_hold" where
  "load_hold show_json err e f =
     (let ev = lower (strip (env_get e ''ETA_ORDER_ENTRY_HOLD''));
          why = strip (env_get e ''ETA_ORDER_ENTRY_HOLD_REASON'')
      in if ev \<in> set hold_truthy then
           \<lparr>oh_active = True, oh_reason = if why = [] then ''env_hold'' else why,
            oh_source = ''ETA_ORDER_ENTRY_HOLD'', oh_scope = ''all'',
            oh_payload = JObj [(''ETA_ORDER_ENTRY_HOLD'', JStr ev)]\<rparr>
         else case f of
           Missing \<Rightarrow> \<lparr>oh_active = False, oh_reason = [], oh_source = ''none'', oh_scope = ''all'',
                      oh_payload = JObj []\<rparr>
         | Garbled \<Rightarrow> \<lparr>oh_active = True, oh_reason = ''malformed_hold_file:'' @ err,
                      oh_source = ''file_error'', oh_scope = ''all'', oh_payload = JObj [(''error'', JStr err)]\<rparr>
         | Parsed (JObj d) \<Rightarrow>
             \<lparr>oh_active = hold_value d,
              oh_reason = or_text show_json (jget d ''reason'' JNull) (if hold_value d then ''file_hold'' else []),
              oh_source = ''file'', oh_scope = normalise_scope (jget d ''scope'' JNull), oh_payload = JObj d\<rparr>
         | Parsed j \<Rightarrow> \<lparr>oh_active = True, oh_reason = ''malformed_hold_file:not_object'',
                       oh_source = ''file_error'', oh_scope = ''all'', oh_payload = JObj [(''raw'', j)]\<rparr>)"

definition order_entry_is_held :: "(json \<Rightarrow> string) \<Rightarrow> string \<Rightarrow> env \<Rightarrow> jfile \<Rightarrow> bool" where
  "order_entry_is_held show_json err e f = oh_active (load_hold show_json err e f)"

definition hold_blocks_venue ::
  "(json \<Rightarrow> string) \<Rightarrow> string \<Rightarrow> env \<Rightarrow> jfile \<Rightarrow> string option \<Rightarrow> string option \<Rightarrow> bool" where
  "hold_blocks_venue show_json err e f venue asset_class =
     hold_blocks (load_hold show_json err e f) venue asset_class"

definition write_hold :: "bool \<Rightarrow> string \<Rightarrow> string \<Rightarrow> string \<Rightarrow> jfile" where
  "write_hold active reason scope now =
     Parsed (JObj [(''active'', JBool active), (''reason'', JStr reason),
                   (''scope'', JStr (normalise_scope (JStr scope))), (''set_at_utc'', JStr now), (''ts'', JStr now)])"

section \<open>Lemmas\<close>

text \<open>
  What a hold means, stated over the environment and the file alone.  \<open>cleared\<close>: there is no
  file, or it is an object whose \<open>active\<close> (in older files, without \<open>active\<close>, whose
  \<open>hold\<close>) is false.  \<open>covers\<close>: everything, unless the file is an object whose
  \<open>scope\<close> spells a venue or an asset class; then the orders of that venue or class and those
  that do not name theirs (\<open>may_be\<close>).
\<close>

definition cleared :: "jfile \<Rightarrow> bool" where
  "cleared f =
     (case f of
        Missing \<Rightarrow> True
      | Parsed (JObj d) \<Rightarrow>
          map_option as_bool (dget d ''active'') = Some False
          \<or> dget d ''active'' = None \<and> map_option as_bool (dget d ''hold'') = Some False
      | _ \<Rightarrow> False)"

definition held_by_env :: "env \<Rightarrow> bool" where
  "held_by_env e =
     (case e ''ETA_ORDER_ENTRY_HOLD'' of
        Some v \<Rightarrow> lower (strip v) \<in> {''1'', ''true'', ''yes'', ''on'', ''hold'', ''held''}
      | None \<Rightarrow> False)"

definition may_be :: "string option \<Rightarrow> string \<Rightarrow> bool" where
  "may_be v x = (case v of Some t \<Rightarrow> lower (strip t) \<in> {x, [], ''*''} | None \<Rightarrow> True)"

definition covers :: "jfile \<Rightarrow> string option \<Rightarrow> string option \<Rightarrow> bool" where
  "covers f venue asset_class =
     (case f of
        Parsed (JObj d) \<Rightarrow>
          (case dget d ''scope'' of
             Some (JStr s) \<Rightarrow>
               (if lower (strip s) \<in> {''ibkr'', ''alpaca'', ''tastytrade''}
                then may_be venue (lower (strip s))
                else if lower (strip s) \<in> {''futures'', ''crypto''}
                then may_be asset_class (lower (strip s)) else True)
           | _ \<Rightarrow> True)
      | _ \<Rightarrow> True)"

definition file_scope :: "jfile \<Rightarrow> string" where
  "file_scope f = (case f of Parsed (JObj d) \<Rightarrow> normalise_scope (jget d ''scope'' JNull) | _ \<Rightarrow> ''all'')"

lemma held_by_env_value:
  "held_by_env e = (lower (strip (env_get e ''ETA_ORDER_ENTRY_HOLD'')) \<in> set hold_truthy)"
proof -
  have "lower (strip []) \<notin> set hold_truthy" by code_simp
  then show ?thesis
    by (cases "e ''ETA_ORDER_ENTRY_HOLD''") (simp_all add: held_by_env_def env_get_def hold_truthy_def)
qed

lemma cleared_object: "cleared (Parsed (JObj d)) = (\<not> hold_value d)"
  by (simp add: cleared_def hold_value_def split: option.split)

lemma load_hold_active: "oh_active (load_hold show_json err e f) = (held_by_env e \<or> \<not> cleared f)"
proof (cases f)
  case (Parsed j)
  then show ?thesis
    by (cases j) (simp_all add: load_hold_def cleared_object held_by_env_value Let_def, simp_all add: cleared_def)
qed (simp_all add: load_hold_def cleared_def held_by_env_value Let_def)

lemma load_hold_scope: "oh_scope (load_hold show_json err e f) = (if held_by_env e then ''all'' else file_scope f)"
  by (simp add: load_hold_def file_scope_def held_by_env_value Let_def split: jfile.split json.split)

lemma normalise_scope_known: "normalise_scope v \<in> set known_scopes"
  by (auto simp: normalise_scope_def known_scopes_def Let_def split: json.split)

lemma all_blocks: "scope_blocks ''all'' v k"
  by (simp add: scope_blocks_def scope_rules_def dget_or_def Let_def)

lemma unknown_scope_blocks: "scope \<notin> set known_scopes \<Longrightarrow> scope_blocks scope v k"
  by (simp add: known_scopes_def scope_blocks_def scope_rules_def dget_or_def Let_def)

lemma known_scope_fixed: "s \<in> set known_scopes \<Longrightarrow> normalise_scope (JStr s) = s"
proof -
  have "list_all (\<lambda>s. normalise_scope (JStr s) = s) known_scopes" by code_simp
  then show "s \<in> set known_scopes \<Longrightarrow> normalise_scope (JStr s) = s" by (simp add: list_all_iff)
qed

lemma write_hold_fields:
  "cleared (write_hold act reason scope now) = (\<not> act)"
  "file_scope (write_hold act reason scope now) = normalise_scope (JStr scope)"
  using known_scope_fixed [OF normalise_scope_known]
  by (simp_all add: cleared_def file_scope_def write_hold_def jget_def dget_or_def)

lemma venue_scope_blocks:
  "s \<in> {''ibkr'', ''alpaca'', ''tastytrade''} \<Longrightarrow> scope_blocks s v k = (wildcard v \<in> {s, ''*''})"
  by (elim insertE) (auto simp: scope_blocks_def scope_rules_def dget_or_def Let_def)

lemma class_scope_blocks:
  "s \<in> {''futures'', ''crypto''} \<Longrightarrow> scope_blocks s v k = (wildcard k \<in> {s, ''*''})"
  by (elim insertE) (auto simp: scope_blocks_def scope_rules_def dget_or_def Let_def)

lemma wildcard_may_be: "x \<noteq> [] \<Longrightarrow> (wildcard v \<in> {x, ''*''}) = may_be v x"
proof -
  have "lower (strip ''*'') = ''*''" "lower (strip []) = []" by code_simp+
  then show "x \<noteq> [] \<Longrightarrow> ?thesis"
    by (auto simp: wildcard_def may_be_def Let_def split: option.split)
qed

lemma normalise_scope_str:
  "normalise_scope (JStr s) = (if lower (strip s) \<in> set known_scopes then lower (strip s) else ''all'')"
  by (simp add: normalise_scope_def Let_def known_scopes_def)

lemma scope_covers: "scope_blocks (file_scope f) venue asset_class = covers f venue asset_class"
proof (cases "\<exists>d s. f = Parsed (JObj d) \<and> dget d ''scope'' = Some (JStr s)")
  case True
  then obtain d s where f: "f = Parsed (JObj d)" "dget d ''scope'' = Some (JStr s)" by blast
  then have "file_scope f = normalise_scope (JStr s)" by (simp add: file_scope_def jget_def dget_or_def)
  then have sc: "file_scope f = (if lower (strip s) \<in> set known_scopes then lower (strip s) else ''all'')"
    by (simp only: normalise_scope_str)
  consider "lower (strip s) \<in> {''ibkr'', ''alpaca'', ''tastytrade''}" | "lower (strip s) \<in> {''futures'', ''crypto''}"
    | "lower (strip s) \<notin> {''ibkr'', ''alpaca'', ''tastytrade'', ''futures'', ''crypto''}" by blast
  then show ?thesis
  proof cases
    case 1
    then have "file_scope f = lower (strip s)" and e: "lower (strip s) \<noteq> []" by (auto simp: sc known_scopes_def)
    then show ?thesis using 1 venue_scope_blocks [OF 1] wildcard_may_be [OF e, of venue]
      by (simp only: covers_def f jfile.case json.case option.case if_True)
  next
    case 2
    then have "file_scope f = lower (strip s)" and e: "lower (strip s) \<noteq> []"
      and n: "lower (strip s) \<notin> {''ibkr'', ''alpaca'', ''tastytrade''}" by (auto simp: sc known_scopes_def)
    then show ?thesis using 2 class_scope_blocks [OF 2] wildcard_may_be [OF e, of asset_class]
      by (simp only: covers_def f jfile.case json.case option.case if_True if_False)
  next
    case 3
    then have "file_scope f = ''all''" by (auto simp: sc known_scopes_def)
    then show ?thesis using 3 by (simp add: covers_def f all_blocks)
  qed
next
  case False
  then have "covers f venue asset_class" "file_scope f = ''all''"
    by (auto simp: covers_def file_scope_def jget_def dget_or_def normalise_scope_def
        split: jfile.split json.split option.split)
  then show ?thesis by (simp add: all_blocks)
qed

section \<open>Properties\<close>

text \<open>
  C31. The hold fails closed: an order is let through only when the environment does not spell a
  hold and either there is no file, or the file is an object whose \<open>active\<close> (without it, whose
  \<open>hold\<close>) is false, or its \<open>scope\<close> spells a venue or asset class and the order names
  another one.  So a file that does not parse, a value that is not an object, an object without a
  verdict and a scope that is missing, not a string or misspelt all hold every order.
\<close>

theorem hold_fails_closed:
  "hold_blocks_venue show_json err e f venue asset_class
     = (held_by_env e \<or> \<not> cleared f \<and> covers f venue asset_class)"
proof (cases "held_by_env e")
  case True
  then show ?thesis by (simp add: hold_blocks_venue_def hold_blocks_def load_hold_active load_hold_scope all_blocks)
next
  case False
  then show ?thesis
    by (simp add: hold_blocks_venue_def hold_blocks_def load_hold_active load_hold_scope scope_covers)
qed

text \<open>
  What the operator writes is what every process reads: after any write, a process without an
  environment hold is held exactly when the write was active, and when the scope names a venue
  (in any case and spacing) it blocks exactly the orders of that venue or of an unknown venue.
\<close>

theorem hold_write_read:
  assumes "\<not> held_by_env e" "normalise_scope (JStr scope) \<in> {''ibkr'', ''alpaca'', ''tastytrade''}"
  shows "order_entry_is_held show_json err e (write_hold act reason scope now) = act
    \<and> hold_blocks_venue show_json err e (write_hold act reason scope now) venue asset_class
      = (act \<and> wildcard venue \<in> {normalise_scope (JStr scope), ''*''})"
  using assms venue_scope_blocks [OF assms(2)]
  by (simp only: order_entry_is_held_def hold_blocks_venue_def hold_blocks_def load_hold_active
      load_hold_scope write_hold_fields if_False simp_thms)

theorem hold_write_read_witness:
  "hold_blocks_venue (\<lambda>_. []) [] (\<lambda>_. None) (write_hold True ''maintenance'' ''IBKR'' []) (Some ''ibkr'') None
   \<and> \<not> hold_blocks_venue (\<lambda>_. []) [] (\<lambda>_. None) (write_hold True ''maintenance'' ''IBKR'' []) (Some ''alpaca'') None"
proof -
  have e: "\<not> held_by_env (\<lambda>_. None)" by code_simp
  have s: "normalise_scope (JStr ''IBKR'') = ''ibkr''" "wildcard (Some ''ibkr'') = ''ibkr''"
    "wildcard (Some ''alpaca'') = ''alpaca''" by code_simp+
  have m: "normalise_scope (JStr ''IBKR'') \<in> {''ibkr'', ''alpaca'', ''tastytrade''}" by (simp add: s)
  show ?thesis using hold_write_read [OF e m] by (simp add: s)
qed

end
