(* ===== verification/Broker_Router.thy ===== *)
theory Broker_Router
  imports Routing Prop_Risk Order_Hold "HOL-Library.List_Lexorder" "HOL-Library.Char_ord"
begin

text \<open>
  \<open>scripts/broker_router.py\<close>: the loop that takes order files from the supervisor's directory, checks
  them, sends them to a venue and files them away.  The directories are maps from file names to
  contents; the side files (retry counters, block and result records, gate state) are part of the
  state.  Everything the loop learns from outside (the clock, the operator's hold, whether a file
  operation succeeds, the gates, the positions, what a venue answers) is a function of the number of
  the operation, so that every interleaving of failures is a value of these functions.
\<close>

section \<open>Settings\<close>

definition env_int :: "env \<Rightarrow> string \<Rightarrow> int \<Rightarrow> int" where
  "env_int e k d =
     (let s = strip (env_get e k) in if s = [] then d else case parse_int s of Some n \<Rightarrow> n | None \<Rightarrow> d)"

definition env_float_or :: "env \<Rightarrow> string \<Rightarrow> pyfloat \<Rightarrow> pyfloat" where
  "env_float_or e k d =
     (let s = strip (env_get e k) in if s = [] then d else case parse_float s of Some x \<Rightarrow> x | None \<Rightarrow> d)"

definition env_is_1 :: "env \<Rightarrow> string \<Rightarrow> bool" where
  "env_is_1 e k = (strip (env_get e k) = ''1'')"

definition resolve_interval :: "env \<Rightarrow> pyfloat option \<Rightarrow> pyfloat" where
  "resolve_interval e v =
     (case v of Some x \<Rightarrow> x
      | None \<Rightarrow> let s = env_get e ''ETA_BROKER_ROUTER_INTERVAL_S''
                in if s = [] then Fin 5 else case parse_float s of Some x \<Rightarrow> x | None \<Rightarrow> Fin 5)"

definition resolve_dry_run :: "env \<Rightarrow> bool \<Rightarrow> bool" where
  "resolve_dry_run e v = (v \<or> strip (env_get e ''ETA_BROKER_ROUTER_DRY_RUN'') \<in> {''1'', ''true'', ''yes''})"

definition resolve_max_retries :: "env \<Rightarrow> int option \<Rightarrow> int" where
  "resolve_max_retries e v =
     (case v of Some n \<Rightarrow> n
      | None \<Rightarrow> let s = env_get e ''ETA_BROKER_ROUTER_MAX_RETRIES''
                in if s = [] then 3 else case parse_int s of Some n \<Rightarrow> n | None \<Rightarrow> 3)"

section \<open>State\<close>

datatype place = Pending | Processing | Blocked | Archive string | Quarantine | FailedOrders

datatype gate_source = BuiltInChain | OverrideChain

datatype intent =
    QuarantinedOrder | GateImportFailed | BlockedOrder | DormantBroker | ProcessingError | DryRunOrder
  | FailedOrder | RejectedRetry | ExecutedOrder | RoutingError

record gate_result =
  gr_gate :: string
  gr_allow :: bool
  gr_reason :: string

record heat_state =
  ht_current :: pyfloat
  ht_budget :: pyfloat
  ht_utilization :: pyfloat
  ht_max_concurrent :: int
  ht_positions :: "(string, int) dict"

record heartbeat =
  hb_held :: bool
  hb_counts :: "(string, int) dict"
  hb_circuits :: "(string, string) dict"

record broker =
  br_interval :: pyfloat
  br_dry_run :: bool
  br_max_retries :: int
  br_gates :: gate_source
  br_config :: routing_config
  br_router :: smart_router
  br_files :: "place \<Rightarrow> (string, jfile) dict"
  br_meta :: "(string, jfile) dict"
  br_failed_meta :: "(string, jfile) dict"
  br_blocks :: "(string, string) dict"
  br_results :: "(string, string \<times> order_result) dict"
  br_pre_trade :: "(bool \<times> string \<times> string) option"
  br_heat :: "heat_state option"
  br_heartbeat :: "heartbeat option"
  br_retry_counts :: "(string, int) dict"
  br_counts :: "(string, int) dict"
  br_events :: "(string \<times> string) list"
  br_journal :: "(intent \<times> string) list"
  br_prop_cache :: "string list"
  br_stopped :: bool
  br_ops :: nat
  br_submits :: "string list"

definition counters :: "string list" where
  "counters = [''parsed'', ''blocked'', ''submitted'', ''filled'', ''rejected'', ''failed'', ''quarantined'', ''held'']"

definition new_broker ::
  "smart_router \<Rightarrow> routing_config \<Rightarrow> gate_source \<Rightarrow> pyfloat \<Rightarrow> bool \<Rightarrow> int \<Rightarrow> (place \<Rightarrow> (string, jfile) dict) \<Rightarrow>
   (string, jfile) dict \<Rightarrow> broker" where
  "new_broker r c gates interval dry retries files meta =
     \<lparr>br_interval = pymax (Fin (1 / 2)) interval, br_dry_run = dry, br_max_retries = max 1 retries, br_gates = gates,
      br_config = c, br_router = r, br_files = files, br_meta = meta, br_failed_meta = [], br_blocks = [],
      br_results = [], br_pre_trade = None, br_heat = None, br_heartbeat = None, br_retry_counts = [],
      br_counts = map (\<lambda>k. (k, 0)) counters, br_events = [], br_journal = [], br_prop_cache = [],
      br_stopped = False, br_ops = 0, br_submits = []\<rparr>"

text \<open>A venue as the loop holds it: an adapter of the smart router, or a prop account's own.\<close>

datatype venue = Std adapter | PropTradovate string

definition name_of_venue :: "venue \<Rightarrow> string" where
  "name_of_venue v = (case v of Std a \<Rightarrow> venue_name a | PropTradovate _ \<Rightarrow> ''tradovate'')"

text \<open>An exception of a venue: its text, and whether its class is one of the network errors.\<close>

record venue_exc =
  vx_network :: bool
  vx_text :: string

datatype io_outcome = IoOk | IoFailed | IoPartial

datatype gate_answer = GateNotImplemented | GateRaises string | GateResults "gate_result list"

datatype positions_answer = NotImplemented | PositionsError | Positions "(string, pyfloat list) dict"

record world =
  wd_env :: env
  wd_show :: "json \<Rightarrow> string"
  wd_secret :: "string \<Rightarrow> string"
  wd_stamp :: "string \<Rightarrow> pyexc + bool \<times> int"
  wd_iso :: "int \<Rightarrow> string"
  wd_day :: "int \<Rightarrow> string"
  wd_now :: "nat \<Rightarrow> int"
  wd_mono :: "nat \<Rightarrow> pyfloat"
  wd_hold :: "nat \<Rightarrow> order_hold"
  wd_ready :: "nat \<Rightarrow> jfile"
  wd_positions :: "nat \<Rightarrow> positions_answer"
  wd_import_error :: "nat \<Rightarrow> string option"
  wd_gate :: "nat \<Rightarrow> (string, int) dict \<Rightarrow> string \<Rightarrow> int \<Rightarrow> gate_answer"
  wd_io :: "nat \<Rightarrow> io_outcome"
  wd_answer :: "nat \<Rightarrow> venue \<Rightarrow> order_request \<Rightarrow> venue_exc + order_result"
  wd_stop :: "nat \<Rightarrow> bool"

section \<open>Small effects\<close>

definition bump :: "broker \<Rightarrow> broker" where
  "bump s = s\<lparr>br_ops := Suc (br_ops s)\<rparr>"

definition count_up :: "string \<Rightarrow> broker \<Rightarrow> broker" where
  "count_up k s = s\<lparr>br_counts := dset k (dget_or (br_counts s) k 0 + 1) (br_counts s)\<rparr>"

definition record_event :: "string \<Rightarrow> string \<Rightarrow> broker \<Rightarrow> broker" where
  "record_event fname kind s =
     (let evs = br_events s @ [(fname, kind)] in s\<lparr>br_events := drop (length evs - 32) evs\<rparr>)"

definition safe_journal :: "world \<Rightarrow> intent \<Rightarrow> string \<Rightarrow> broker \<Rightarrow> broker" where
  "safe_journal w i link s =
     (if wd_io w (br_ops s) = IoOk then (bump s)\<lparr>br_journal := br_journal s @ [(i, link)]\<rparr> else bump s)"

definition atomic_move :: "world \<Rightarrow> place \<Rightarrow> place \<Rightarrow> string \<Rightarrow> broker \<Rightarrow> bool \<times> broker" where
  "atomic_move w src dst name s =
     (case (wd_io w (br_ops s), dget (br_files s src) name) of
        (IoOk, Some f) \<Rightarrow>
          (True, (bump s)\<lparr>br_files := (\<lambda>p. if p = dst then dset name f (br_files s p)
                                          else if p = src then ddel name (br_files s p) else br_files s p)\<rparr>)
      | _ \<Rightarrow> (False, bump s))"

text \<open>A failed write may leave the old file or a truncated one.\<close>

definition write_sidecar :: "world \<Rightarrow> string \<Rightarrow> json \<Rightarrow> broker \<Rightarrow> (string, jfile) dict \<Rightarrow> (string, jfile) dict" where
  "write_sidecar w name j s d =
     (case wd_io w (br_ops s) of IoOk \<Rightarrow> dset name (Parsed j) d | IoPartial \<Rightarrow> dset name Garbled d | IoFailed \<Rightarrow> d)"

definition clear_retry_meta :: "world \<Rightarrow> string \<Rightarrow> broker \<Rightarrow> broker" where
  "clear_retry_meta w name s =
     (if wd_io w (br_ops s) = IoOk then (bump s)\<lparr>br_meta := ddel name (br_meta s)\<rparr> else bump s)"

definition order_entry_hold :: "world \<Rightarrow> broker \<Rightarrow> order_hold" where
  "order_entry_hold w s = wd_hold w (br_ops s)"

subsection \<open>Retry counters\<close>

record retry_meta =
  rm_attempts :: int
  rm_ts :: string
  rm_reason :: string

definition empty_meta :: retry_meta where
  "empty_meta = \<lparr>rm_attempts = 0, rm_ts = [], rm_reason = []\<rparr>"

definition meta_json :: "retry_meta \<Rightarrow> json" where
  "meta_json m =
     JObj [(''attempts'', JInt (rm_attempts m)), (''last_attempt_ts'', JStr (rm_ts m)),
           (''last_reject_reason'', JStr (rm_reason m))]"

definition attempts_of :: "(string \<times> json) list \<Rightarrow> pyexc + int" where
  "attempts_of d = (let v = jget d ''attempts'' (JInt 0) in if as_bool v then as_int v else Inr 0)"

definition load_retry_meta :: "world \<Rightarrow> string \<Rightarrow> broker \<Rightarrow> pyexc + retry_meta" where
  "load_retry_meta w name s =
     (case dget (br_meta s) name of
        Some (Parsed (JObj d)) \<Rightarrow>
          rbind (attempts_of d) (\<lambda>n.
            Inr \<lparr>rm_attempts = n, rm_ts = or_text (wd_show w) (jget d ''last_attempt_ts'' (JStr [])) [],
                 rm_reason = or_text (wd_show w) (jget d ''last_reject_reason'' (JStr [])) []\<rparr>)
      | Some (Parsed _) \<Rightarrow> Inl AttributeError
      | _ \<Rightarrow> Inr empty_meta)"

definition save_retry_meta :: "world \<Rightarrow> string \<Rightarrow> retry_meta \<Rightarrow> broker \<Rightarrow> broker" where
  "save_retry_meta w name m s = (bump s)\<lparr>br_meta := write_sidecar w name (meta_json m) s (br_meta s)\<rparr>"

definition backoff_cap :: pyfloat where
  "backoff_cap = Fin 300"

definition should_backoff :: "world \<Rightarrow> retry_meta \<Rightarrow> broker \<Rightarrow> pyexc + bool" where
  "should_backoff w m s =
     (if rm_attempts m \<le> 0 \<or> rm_ts m = [] then Inr False
      else case wd_stamp w (rm_ts m) of
        Inl ValueError \<Rightarrow> Inr False
      | Inl TypeError \<Rightarrow> Inr False
      | Inl x \<Rightarrow> Inl x
      | Inr (aware, t) \<Rightarrow>
          if \<not> aware then Inl TypeError
          else if 1024 \<le> rm_attempts m then Inl OverflowError
          else Inr (flt (fl (of_int (wd_now w (br_ops s) - t) / 1000000))
                     (pymin backoff_cap (fmul (br_interval s) (fint (2 ^ nat (rm_attempts m)))))))"

definition move_to_failed_with_meta :: "world \<Rightarrow> string \<Rightarrow> retry_meta \<Rightarrow> broker \<Rightarrow> broker" where
  "move_to_failed_with_meta w name m s =
     (let s1 = snd (atomic_move w Processing FailedOrders name s)
      in clear_retry_meta w name
           ((bump s1)\<lparr>br_failed_meta := write_sidecar w name (meta_json m) s1 (br_failed_meta s1)\<rparr>))"

text \<open>Filing an order away: nothing moves in a dry run.\<close>

definition file_away :: "world \<Rightarrow> place \<Rightarrow> place \<Rightarrow> string \<Rightarrow> broker \<Rightarrow> broker" where
  "file_away w from dst name s =
     (if br_dry_run s then s else clear_retry_meta w name (snd (atomic_move w from dst name s)))"

definition refuse_file :: "world \<Rightarrow> string \<Rightarrow> string \<Rightarrow> place \<Rightarrow> intent \<Rightarrow> place \<Rightarrow> string \<Rightarrow> broker \<Rightarrow> broker" where
  "refuse_file w counter kind dst i from name s =
     safe_journal w i name (file_away w from dst name (record_event name kind (count_up counter s)))"

definition handle_processing_error :: "world \<Rightarrow> place \<Rightarrow> string \<Rightarrow> broker \<Rightarrow> broker" where
  "handle_processing_error w = refuse_file w ''failed'' ''processing_error'' FailedOrders ProcessingError"

definition handle_routing_error :: "world \<Rightarrow> place \<Rightarrow> string \<Rightarrow> broker \<Rightarrow> broker" where
  "handle_routing_error w = refuse_file w ''failed'' ''routing_error'' FailedOrders RoutingError"

definition handle_unsupported :: "world \<Rightarrow> place \<Rightarrow> string \<Rightarrow> broker \<Rightarrow> broker" where
  "handle_unsupported w = refuse_file w ''quarantined'' ''quarantined'' Quarantine QuarantinedOrder"

definition handle_dormant_broker :: "world \<Rightarrow> place \<Rightarrow> string \<Rightarrow> broker \<Rightarrow> broker" where
  "handle_dormant_broker w = refuse_file w ''failed'' ''broker_dormant'' FailedOrders DormantBroker"

definition handle_unparsable :: "world \<Rightarrow> place \<Rightarrow> string \<Rightarrow> broker \<Rightarrow> broker" where
  "handle_unparsable w = refuse_file w ''quarantined'' ''quarantined'' Quarantine QuarantinedOrder"

definition handle_blocked :: "world \<Rightarrow> pending_order \<Rightarrow> place \<Rightarrow> string \<Rightarrow> string \<Rightarrow> broker \<Rightarrow> broker" where
  "handle_blocked w r from name gate s =
     (let s1 = record_event name ''blocked'' (count_up ''blocked'' s);
          s2 = (if br_dry_run s then s1
                else (bump s1)\<lparr>br_blocks := (if wd_io w (br_ops s1) = IoOk then dset (po_signal r) gate (br_blocks s1)
                                             else br_blocks s1)\<rparr>)
      in safe_journal w (if gate = ''gate_chain_import_failed'' then GateImportFailed else BlockedOrder) (po_signal r)
           (file_away w from Blocked name s2))"

section \<open>Gates\<close>

datatype readiness_refusal = SnapshotMissing | SnapshotUnreadable | RowsMissing | BotMissing | NotLiveApproved | NotPaperApproved

definition readiness_denial :: "world \<Rightarrow> pending_order \<Rightarrow> broker \<Rightarrow> readiness_refusal option" where
  "readiness_denial w r s =
     (if \<not> env_is_1 (wd_env w) ''ETA_BROKER_ROUTER_ENFORCE_READINESS'' then None
      else case wd_ready w (br_ops s) of
        Missing \<Rightarrow> Some SnapshotMissing
      | Garbled \<Rightarrow> Some SnapshotUnreadable
      | Parsed j \<Rightarrow>
          (case (case j of JObj d \<Rightarrow> jget d ''rows'' JNull | _ \<Rightarrow> JNull) of
             JList rows \<Rightarrow>
               (case find (\<lambda>row. case row of JObj d \<Rightarrow> or_text (wd_show w) (jget d ''bot_id'' JNull) [] = po_bot r | _ \<Rightarrow> False)
                       rows of
                  Some (JObj d) \<Rightarrow>
                    (if env_is_1 (wd_env w) ''ETA_LIVE_MONEY''
                     then if as_bool (jget d ''can_live_trade'' JNull) then None else Some NotLiveApproved
                     else if as_bool (jget d ''can_paper_trade'' JNull) then None else Some NotPaperApproved)
                | _ \<Rightarrow> Some BotMissing)
           | _ \<Rightarrow> Some RowsMissing))"

definition flag_is :: "env \<Rightarrow> string \<Rightarrow> bool" where
  "flag_is e k = (e k = Some ''1'')"

text \<open>\<open>int(round(x))\<close>.\<close>

definition int_round :: "pyfloat \<Rightarrow> pyexc + int" where
  "int_round x = (case x of Fin q \<Rightarrow> Inr (rne q) | NaN \<Rightarrow> Inl ValueError | _ \<Rightarrow> Inl OverflowError)"

datatype pos_error = PosNotImplemented | PosOther

fun net_positions :: "(string, pyfloat list) dict \<Rightarrow> (string, int) dict \<Rightarrow> pos_error + (string, int) dict" where
  "net_positions [] acc = Inr acc"
| "net_positions ((k, qs) # rest) acc =
     (if flt (Fin 0) (fabs (pysum qs))
      then case int_round (pysum qs) of Inl _ \<Rightarrow> Inl PosOther | Inr n \<Rightarrow> net_positions rest (dset k n acc)
      else net_positions rest acc)"

definition collect_open_positions :: "world \<Rightarrow> broker \<Rightarrow> pos_error + (string, int) dict" where
  "collect_open_positions w s =
     (if flag_is (wd_env w) ''ETA_RECONCILE_DISABLED'' then Inr []
      else case wd_positions w (br_ops s) of
        NotImplemented \<Rightarrow>
          (if flag_is (wd_env w) ''ETA_RECONCILE_ALLOW_EMPTY_STATE'' then Inr [] else Inl PosNotImplemented)
      | PositionsError \<Rightarrow> Inr []
      | Positions agg \<Rightarrow> net_positions agg [])"

definition gate_qty :: "pyfloat \<Rightarrow> pyexc + int" where
  "gate_qty q = rbind (int_round q) (\<lambda>n. Inr (if n = 0 then 1 else n))"

definition heat_snapshot :: "env \<Rightarrow> (string, int) dict \<Rightarrow> heat_state" where
  "heat_snapshot e positions =
     (let nonzero = filter (\<lambda>(k, n). n \<noteq> 0) positions;
          max_concurrent = max 1 (env_int e ''ETA_BROKER_ROUTER_GATE_MAX_CONCURRENT'' 8);
          budget = pymax (fl (1 / 100)) (env_float_or e ''ETA_BROKER_ROUTER_GATE_BUDGET'' (Fin 1));
          heat = pymin (Fin 1) (fl (of_nat (length nonzero) / of_int max_concurrent))
      in \<lparr>ht_current = fround 4 heat, ht_budget = budget,
          ht_utilization = fround 1 (fmul (the (fdiv heat budget)) (Fin 100)),
          ht_max_concurrent = max_concurrent, ht_positions = nonzero\<rparr>)"

definition sync_gate_state :: "world \<Rightarrow> order_hold \<Rightarrow> (string, int) dict \<Rightarrow> broker \<Rightarrow> broker" where
  "sync_gate_state w hold positions s =
     (let why = (if oh_reason hold \<noteq> [] then oh_reason hold
                 else if oh_active hold then ''operator_hold'' else ''router_clear'');
          s1 = (if wd_io w (br_ops s) = IoOk
                then (bump s)\<lparr>br_pre_trade := Some (oh_active hold, why, oh_scope hold)\<rparr> else bump s)
      in if wd_io w (br_ops s1) = IoOk then (bump s1)\<lparr>br_heat := Some (heat_snapshot (wd_env w) positions)\<rparr> else bump s1)"

definition chain_error :: "string \<Rightarrow> gate_result list" where
  "chain_error msg = [\<lparr>gr_gate = ''chain_error'', gr_allow = False, gr_reason = msg\<rparr>]"

text \<open>None is an exception that escapes: the order becomes a routing error.\<close>

definition run_gate_chain :: "world \<Rightarrow> (string, int) dict \<Rightarrow> pending_order \<Rightarrow> broker \<Rightarrow> gate_answer" where
  "run_gate_chain w positions r s =
     (case gate_qty (po_qty r) of
        Inl _ \<Rightarrow> GateRaises ''quantity''
      | Inr n \<Rightarrow> wd_gate w (br_ops s) positions (po_symbol r) n)"

definition evaluate_gates :: "world \<Rightarrow> pending_order \<Rightarrow> broker \<Rightarrow> gate_result list option \<times> broker" where
  "evaluate_gates w r s =
     (case br_gates s of
        OverrideChain \<Rightarrow>
          (case collect_open_positions w s of
             Inl PosNotImplemented \<Rightarrow> (None, bump s)
           | Inl PosOther \<Rightarrow> (Some (chain_error ''positions''), bump s)
           | Inr positions \<Rightarrow>
               (case run_gate_chain w positions r s of
                  GateNotImplemented \<Rightarrow> (None, bump s)
                | GateRaises msg \<Rightarrow> (Some (chain_error msg), bump s)
                | GateResults rs \<Rightarrow> (Some rs, bump s)))
      | BuiltInChain \<Rightarrow>
          (case wd_import_error w (br_ops s) of
             Some msg \<Rightarrow>
               (if env_is_1 (wd_env w) ''ETA_GATE_BOOTSTRAP''
                then (Some [\<lparr>gr_gate = ''import_error_bootstrap'', gr_allow = True, gr_reason = msg\<rparr>], bump s)
                else (Some [\<lparr>gr_gate = ''gate_chain_import_failed'', gr_allow = False, gr_reason = msg\<rparr>], bump s))
           | None \<Rightarrow>
               (case collect_open_positions w s of
                  Inl _ \<Rightarrow> (None, bump s)
                | Inr positions \<Rightarrow>
                    (let s1 = sync_gate_state w (order_entry_hold w s) positions (bump s)
                     in case run_gate_chain w positions r s1 of
                          GateResults rs \<Rightarrow> (Some rs, bump s1)
                        | GateNotImplemented \<Rightarrow> (Some (chain_error ''not implemented''), bump s1)
                        | GateRaises msg \<Rightarrow> (Some (chain_error msg), bump s1)))))"

section \<open>Venues\<close>

definition resolve_venue_adapter :: "string \<Rightarrow> venue option" where
  "resolve_venue_adapter name = map_option Std (venue_by_name name)"

definition secret_value :: "world \<Rightarrow> string \<Rightarrow> string" where
  "secret_value w k = (let v = strip (env_get (wd_env w) k) in if v \<noteq> [] then v else strip (wd_secret w k))"

definition tradovate_creds :: "string list" where
  "tradovate_creds =
     [''TRADOVATE_USERNAME'', ''TRADOVATE_PASSWORD'', ''TRADOVATE_APP_ID'', ''TRADOVATE_APP_SECRET'', ''TRADOVATE_CID'']"

definition resolve_prop_account_venue :: "world \<Rightarrow> account \<Rightarrow> broker \<Rightarrow> (pyexc + venue) \<times> broker" where
  "resolve_prop_account_venue w acct s =
     (let alias = clean (text_at acct ''alias''); id_env = strip (text_at acct ''account_id_env'');
          prefix = strip (text_at acct ''creds_env_prefix'')
      in if alias = [] \<or> clean (text_at acct ''venue'') \<noteq> ''tradovate'' then (Inl ValueError, s)
         else if alias \<in> set (br_prop_cache s) then (Inr (PropTradovate alias), s)
         else if id_env = [] \<or> secret_value w id_env = []
           \<or> list_ex (\<lambda>k. secret_value w (prefix @ k) = []) tradovate_creds then (Inl ValueError, s)
         else (Inr (PropTradovate alias), s\<lparr>br_prop_cache := alias # br_prop_cache s\<rparr>))"

definition transient_tokens :: "string list" where
  "transient_tokens =
     [''timeout'', ''timed out'', ''connection'', ''connectionerror'', ''network'', ''unreachable'', ''reset by peer'',
      ''temporarily'', ''503'', ''502'', ''504'', ''gateway'']"

definition is_transient_failure :: "venue_exc \<Rightarrow> bool" where
  "is_transient_failure x = (vx_network x \<or> list_ex (\<lambda>t. contains t (lower (vx_text x))) transient_tokens)"

definition set_circuit :: "string \<Rightarrow> circuit \<Rightarrow> broker \<Rightarrow> broker" where
  "set_circuit n c s = s\<lparr>br_router := (br_router s)\<lparr>sr_circuits := dset n c (sr_circuits (br_router s))\<rparr>\<rparr>"

definition venue_circuit :: "string \<Rightarrow> broker \<Rightarrow> circuit option" where
  "venue_circuit n s = dget (sr_circuits (br_router s)) n"

definition ask_circuit :: "world \<Rightarrow> string \<Rightarrow> broker \<Rightarrow> bool \<times> broker" where
  "ask_circuit w n s =
     (case venue_circuit n s of
        None \<Rightarrow> (False, s)
      | Some c \<Rightarrow> (case circuit_is_open (wd_mono w (br_ops s)) c of (b, c') \<Rightarrow> (b, bump (set_circuit n c' s))))"

definition mark_success :: "string \<Rightarrow> broker \<Rightarrow> broker" where
  "mark_success n s = (case venue_circuit n s of None \<Rightarrow> s | Some c \<Rightarrow> set_circuit n (circuit_success c) s)"

definition mark_failure :: "world \<Rightarrow> string \<Rightarrow> broker \<Rightarrow> broker" where
  "mark_failure w n s =
     (case venue_circuit n s of
        None \<Rightarrow> s
      | Some c \<Rightarrow> bump (set_circuit n (circuit_failure (wd_mono w (br_ops s)) c) s))"

text \<open>What placing an order ended in; the list of calls made is kept for the statements below.\<close>

datatype placing = Placed order_result venue | PlacingRaised venue_exc | ChainExhausted

record call =
  cl_venue :: venue
  cl_request :: order_request
  cl_answer :: "venue_exc + order_result"

definition chain_end :: "venue_exc option \<Rightarrow> placing" where
  "chain_end lx = (case lx of Some x \<Rightarrow> PlacingRaised x | None \<Rightarrow> ChainExhausted)"

definition next_chain_venue :: "string list \<Rightarrow> venue option" where
  "next_chain_venue rest = (case rest of [] \<Rightarrow> None | n # _ \<Rightarrow> resolve_venue_adapter n)"

text \<open>The loop over the chain; the list is what is left of it, its head the place of the current venue.\<close>

fun chain_loop ::
  "world \<Rightarrow> order_request \<Rightarrow> string list \<Rightarrow> venue option \<Rightarrow> venue_exc option \<Rightarrow> call list \<Rightarrow> broker \<Rightarrow>
   placing \<times> call list \<times> broker" where
  "chain_loop w req [] v lx calls s = (chain_end lx, calls, s)"
| "chain_loop w req (_ # rest) None lx calls s = (chain_end lx, calls, s)"
| "chain_loop w req (_ # rest) (Some v) lx calls s =
     (let n = name_of_venue v
      in case ask_circuit w n s of
           (True, s1) \<Rightarrow> chain_loop w req rest (next_chain_venue rest) lx calls s1
         | (False, s1) \<Rightarrow>
             let answer = wd_answer w (br_ops s1) v req; s2 = bump s1;
                 calls' = calls @ [\<lparr>cl_venue = v, cl_request = req, cl_answer = answer\<rparr>]
             in case answer of
                  Inr res \<Rightarrow> (Placed res v, calls', mark_success n s2)
                | Inl x \<Rightarrow>
                    (let s3 = mark_failure w n s2
                     in if \<not> is_transient_failure x then (PlacingRaised x, calls', s3)
                        else chain_loop w req rest (next_chain_venue rest) (Some x) calls' s3))"

definition place_with_failover_chain ::
  "world \<Rightarrow> pending_order \<Rightarrow> venue \<Rightarrow> order_request \<Rightarrow> broker \<Rightarrow> placing \<times> call list \<times> broker" where
  "place_with_failover_chain w r primary req s =
     chain_loop w req (failover_chain (wd_env w) (br_config s) (po_bot r) (po_symbol r)) (Some primary) None [] s"

fun poll_circuits :: "world \<Rightarrow> string list \<Rightarrow> broker \<Rightarrow> (string, string) dict \<Rightarrow> (string, string) dict \<times> broker" where
  "poll_circuits w [] s out = (out, s)"
| "poll_circuits w (n # ns) s out =
     (case ask_circuit w n s of (b, s1) \<Rightarrow>
        let label = (if b then ''open''
                     else case venue_circuit n s1 of
                       Some c \<Rightarrow> if 0 < cc_failures c then ''half-open'' else ''closed'' | None \<Rightarrow> ''closed'')
        in poll_circuits w ns s1 (dset n label out))"

definition emit_heartbeat :: "world \<Rightarrow> order_hold \<Rightarrow> broker \<Rightarrow> broker" where
  "emit_heartbeat w hold s =
     (case poll_circuits w (map fst (sr_circuits (br_router s))) s [] of (circuits, s1) \<Rightarrow>
        if wd_io w (br_ops s1) = IoOk
        then (bump s1)\<lparr>br_heartbeat :=
               Some \<lparr>hb_held = oh_active hold, hb_counts = br_counts s1, hb_circuits = circuits\<rparr>\<rparr>
        else bump s1)"

section \<open>One order\<close>

definition request_of :: "string \<Rightarrow> pending_order \<Rightarrow> order_request" where
  "request_of venue_symbol r =
     \<lparr>rq_symbol = venue_symbol, rq_side = (if po_side r = ''BUY'' then Buy else Sell), rq_qty = po_qty r,
      rq_type = Limit, rq_price = Some (po_limit r), rq_reduce_only = po_reduce r, rq_client_id = Some (po_signal r),
      rq_stop = po_stop r, rq_target = po_target r, rq_bot = Some (po_bot r)\<rparr>"

definition record_fill :: "world \<Rightarrow> pending_order \<Rightarrow> venue \<Rightarrow> order_result \<Rightarrow> broker \<Rightarrow> broker" where
  "record_fill w r v res s =
     (if wd_io w (br_ops s) = IoOk
      then (bump s)\<lparr>br_results := dset (po_signal r) (name_of_venue v, res) (br_results s)\<rparr> else bump s)"

definition set_retry_count :: "string \<Rightarrow> int \<Rightarrow> broker \<Rightarrow> broker" where
  "set_retry_count k n s = s\<lparr>br_retry_counts := dset k n (br_retry_counts s)\<rparr>"

definition drop_retry_count :: "string \<Rightarrow> broker \<Rightarrow> broker" where
  "drop_retry_count k s = s\<lparr>br_retry_counts := ddel k (br_retry_counts s)\<rparr>"

definition finalize_rejected :: "world \<Rightarrow> pending_order \<Rightarrow> string \<Rightarrow> retry_meta \<Rightarrow> order_result \<Rightarrow> broker \<Rightarrow> broker" where
  "finalize_rejected w r name meta res s =
     (let n = rm_attempts meta + 1; s1 = count_up ''rejected'' s;
          new_meta = \<lparr>rm_attempts = n, rm_ts = wd_iso w (wd_now w (br_ops s1)), rm_reason = or_id res\<rparr>;
          s2 = set_retry_count (po_signal r) n (bump s1)
      in if br_max_retries s2 \<le> n
         then drop_retry_count (po_signal r) (safe_journal w FailedOrder (po_signal r)
                (move_to_failed_with_meta w name new_meta (record_event name ''failed'' (count_up ''failed'' s2))))
         else safe_journal w RejectedRetry (po_signal r)
                (record_event name ''rejected_retry'' (save_retry_meta w name new_meta s2)))"

text \<open>
  The dated archive directory is made first, and its failure is an exception that escapes: the executed
  file and its retry counter stay in the queue.
\<close>

definition finalize_executed :: "world \<Rightarrow> pending_order \<Rightarrow> string \<Rightarrow> broker \<Rightarrow> broker" where
  "finalize_executed w r name s =
     (let s1 = drop_retry_count (po_signal r) (record_event name ''executed'' (count_up ''filled'' s));
          dated = Archive (wd_day w (wd_now w (br_ops s1))); s2 = bump s1
      in if wd_io w (br_ops s2) \<noteq> IoOk then bump s2
         else safe_journal w ExecutedOrder (po_signal r) (file_away w Processing dated name (bump s2)))"

definition start_submission :: "string \<Rightarrow> broker \<Rightarrow> broker" where
  "start_submission name s = (count_up ''submitted'' s)\<lparr>br_submits := br_submits s @ [name]\<rparr>"

definition submit_and_finalize ::
  "world \<Rightarrow> pending_order \<Rightarrow> string \<Rightarrow> venue \<Rightarrow> order_request \<Rightarrow> retry_meta \<Rightarrow> broker \<Rightarrow> call list \<times> broker" where
  "submit_and_finalize w r name v req meta s =
     (case place_with_failover_chain w r v req (start_submission name s) of
        (Placed res v', calls, s1) \<Rightarrow>
          (calls, (if or_status res = Rejected then finalize_rejected w r name meta res else finalize_executed w r name)
                    (record_fill w r v' res s1))
      | (_, calls, s1) \<Rightarrow> (calls, handle_routing_error w Processing name s1))"

definition file_at :: "place \<Rightarrow> string \<Rightarrow> broker \<Rightarrow> jfile" where
  "file_at p name s = (case dget (br_files s p) name of Some f \<Rightarrow> f | None \<Rightarrow> Missing)"

definition plain_stamp :: "world \<Rightarrow> string \<Rightarrow> pyexc + int" where
  "plain_stamp w ts = rbind (wd_stamp w ts) (\<lambda>(aware, t). Inr t)"

text \<open>
  The checks on a parsed order, in the code's order.  The request model refuses a quantity that is
  not above zero (NaN included) with an exception that escapes.  \<open>Inl\<close> is a state in which the order has been
  dealt with (refused and filed away, or left where it is by an exception that escapes).
\<close>

definition check_order :: "world \<Rightarrow> pending_order \<Rightarrow> place \<Rightarrow> string \<Rightarrow> broker \<Rightarrow> broker + broker" where
  "check_order w r from name s =
     (case order_sanity (plain_stamp w) (wd_now w (br_ops s)) r of
        Inl x \<Rightarrow> Inl (bump s)
      | Inr (Some denial) \<Rightarrow> Inl (handle_blocked w r from name ''pending_order_sanity'' (bump s))
      | Inr None \<Rightarrow>
          (let s1 = bump s
           in case readiness_denial w r s1 of
                Some denial \<Rightarrow> Inl (handle_blocked w r from name ''strategy_readiness'' (bump s1))
              | None \<Rightarrow>
                  (case evaluate_gates w r (bump s1) of
                     (None, s2) \<Rightarrow> Inl (handle_routing_error w from name s2)
                   | (Some results, s2) \<Rightarrow>
                       (case find (\<lambda>g. \<not> gr_allow g) results of
                          Some g \<Rightarrow> Inl (handle_blocked w r from name (gr_gate g) s2)
                        | None \<Rightarrow> Inr s2))))"

definition pick_venue ::
  "world \<Rightarrow> pending_order \<Rightarrow> string \<Rightarrow> account option \<Rightarrow> broker \<Rightarrow> venue option \<times> broker" where
  "pick_venue w r target acct s =
     (case acct of
        Some d \<Rightarrow> (case resolve_prop_account_venue w d s of (Inl x, s1) \<Rightarrow> (None, s1) | (Inr v, s1) \<Rightarrow> (Some v, s1))
      | None \<Rightarrow>
          (case resolve_venue_adapter target of
             Some v \<Rightarrow> (Some v, s)
           | None \<Rightarrow>
               (case choose_venue (wd_env w) (po_symbol r) (br_router s) of
                  (Inl x, r1) \<Rightarrow> (None, s\<lparr>br_router := r1\<rparr>)
                | (Inr a, r1) \<Rightarrow> (Some (Std a), s\<lparr>br_router := r1\<rparr>))))"

definition route_pending ::
  "world \<Rightarrow> pending_order \<Rightarrow> place \<Rightarrow> string \<Rightarrow> broker \<Rightarrow> broker + (venue \<times> order_request \<times> broker)" where
  "route_pending w r from name s =
     (let c = br_config s; target = venue_for (wd_env w) c (po_bot r) (Some (po_symbol r))
      in case rbind (map_symbol c (po_symbol r) target) (\<lambda>vsym. rbind (prop_account_for c (po_bot r)) (\<lambda>acct. Inr (vsym, acct))) of
           Inl x \<Rightarrow> Inl (handle_unsupported w from name s)
         | Inr (vsym, acct) \<Rightarrow>
             if (case acct of Some d \<Rightarrow> prop_order_risk_denial (wd_env w) d r \<noteq> None | None \<Rightarrow> False)
             then Inl (handle_blocked w r from name ''prop_risk_governor'' s)
             else if target \<in> set (dormant_brokers (wd_env w)) then Inl (handle_dormant_broker w from name s)
             else case pick_venue w r target acct s of
               (None, s1) \<Rightarrow> Inl (handle_routing_error w from name s1)
             | (Some v, s1) \<Rightarrow>
                 if flt (Fin 0) (po_qty r) then Inr (v, request_of vsym r, s1) else Inl s1)"

definition run_lifecycle :: "world \<Rightarrow> place \<Rightarrow> string \<Rightarrow> retry_meta \<Rightarrow> broker \<Rightarrow> call list \<times> broker" where
  "run_lifecycle w from name meta s =
     (case parse_pending_file (wd_show w) name (file_at from name s) of
        Inl ValueError \<Rightarrow> ([], handle_unparsable w from name s)
      | Inl x \<Rightarrow> ([], handle_processing_error w from name s)
      | Inr r \<Rightarrow>
          (case check_order w r from name (count_up ''parsed'' s) of
             Inl s1 \<Rightarrow> ([], s1)
           | Inr s1 \<Rightarrow>
               (case route_pending w r from name s1 of
                  Inl s2 \<Rightarrow> ([], s2)
                | Inr (v, req, s2) \<Rightarrow>
                    (if br_dry_run s2 then ([], safe_journal w DryRunOrder (po_signal r) s2)
                     else submit_and_finalize w r name v req meta s2))))"

section \<open>The loop\<close>

definition hold_blocks_file :: "world \<Rightarrow> place \<Rightarrow> string \<Rightarrow> broker \<Rightarrow> bool \<times> broker" where
  "hold_blocks_file w p name s =
     (let hold = order_entry_hold w s; s1 = bump s;
          blocks = oh_active hold \<and>
            (oh_scope hold = ''all'' \<or>
             (case parse_pending_file (wd_show w) name (file_at p name s) of
                Inl x \<Rightarrow> False
              | Inr r \<Rightarrow> hold_blocks hold (Some (venue_for (wd_env w) (br_config s) (po_bot r) (Some (po_symbol r))))
                          (Some (class_name (asset_class_for_symbol (po_symbol r))))))
      in if blocks then (True, record_event name ''order_entry_hold'' (count_up ''held'' s1)) else (False, s1))"

definition process_pending_file :: "world \<Rightarrow> string \<Rightarrow> broker \<Rightarrow> call list \<times> broker" where
  "process_pending_file w name s =
     (case hold_blocks_file w Pending name s of
        (True, s1) \<Rightarrow> ([], s1)
      | (False, s1) \<Rightarrow>
          (if br_dry_run s1 then run_lifecycle w Pending name empty_meta s1
           else case atomic_move w Pending Processing name s1 of
                  (False, s2) \<Rightarrow> ([], s2)
                | (True, s2) \<Rightarrow> run_lifecycle w Processing name empty_meta s2))"

definition process_retry_file :: "world \<Rightarrow> string \<Rightarrow> broker \<Rightarrow> call list \<times> broker" where
  "process_retry_file w name s =
     (case load_retry_meta w name s of
        Inl x \<Rightarrow> ([], s)
      | Inr meta \<Rightarrow>
          (if br_max_retries s \<le> rm_attempts meta
           then ([], move_to_failed_with_meta w name meta (record_event name ''failed'' (count_up ''failed'' s)))
           else case should_backoff w meta s of
                  Inl x \<Rightarrow> ([], bump s)
                | Inr True \<Rightarrow> ([], bump s)
                | Inr False \<Rightarrow>
                    (case hold_blocks_file w Processing name (bump s) of
                       (True, s1) \<Rightarrow> ([], s1)
                     | (False, s1) \<Rightarrow> run_lifecycle w Processing name meta s1)))"

fun each_file :: "world \<Rightarrow> (string \<Rightarrow> broker \<Rightarrow> call list \<times> broker) \<Rightarrow> string list \<Rightarrow> broker \<Rightarrow> call list \<times> broker" where
  "each_file w f [] s = ([], s)"
| "each_file w f (n # ns) s =
     (if br_stopped s \<or> wd_stop w (br_ops s) then ([], s\<lparr>br_stopped := True\<rparr>)
      else case f n s of (calls, s1) \<Rightarrow> (case each_file w f ns s1 of (rest, s2) \<Rightarrow> (calls @ rest, s2)))"

definition order_files :: "world \<Rightarrow> place \<Rightarrow> broker \<Rightarrow> string list" where
  "order_files w p s =
     (if wd_io w (br_ops s) = IoOk then sort (filter (\<lambda>n. ends_with n order_suffix) (map fst (br_files s p))) else [])"

definition router_tick :: "world \<Rightarrow> broker \<Rightarrow> call list \<times> broker" where
  "router_tick w s =
     (let hold = order_entry_hold w s; s0 = bump s
      in if oh_active hold \<and> oh_scope hold = ''all''
         then ([], emit_heartbeat w hold (record_event ''runtime'' ''order_entry_hold'' (count_up ''held'' s0)))
         else
           let s1 = emit_heartbeat w hold s0
           in case each_file w (process_pending_file w) (order_files w Pending s1) (bump s1) of
                (calls, s2) \<Rightarrow>
                  (case (if br_dry_run s2 then ([], s2)
                         else each_file w (process_retry_file w) (order_files w Processing s2) (bump s2)) of
                     (rest, s3) \<Rightarrow> (calls @ rest, emit_heartbeat w hold s3)))"

text \<open>The router and the supervisor, which drops order files: a run is a sequence of events.\<close>

datatype event = Tick world | Drop string jfile

definition broker_step :: "broker \<Rightarrow> event \<Rightarrow> broker" where
  "broker_step s ev =
     (case ev of
        Tick w \<Rightarrow> snd (router_tick w s)
      | Drop name f \<Rightarrow> s\<lparr>br_files := (br_files s)(Pending := dset name f (br_files s Pending))\<rparr>)"

section \<open>Lemmas: the checks\<close>

text \<open>
  What an order has passed when it is sent, stated over the state \<open>s\<close> the tick starts in and the number of
  the operation at which the outside was asked: the hold at \<open>j\<close>, the clock at \<open>k\<close>, the readiness
  snapshot at \<open>k + 1\<close>, positions and gates from \<open>k + 2\<close> on.
\<close>

definition ready_at :: "world \<Rightarrow> pending_order \<Rightarrow> nat \<Rightarrow> bool" where
  "ready_at w r n =
     (env_is_1 (wd_env w) ''ETA_BROKER_ROUTER_ENFORCE_READINESS'' \<longrightarrow>
        (\<exists>d rows row. wd_ready w n = Parsed (JObj d) \<and> jget d ''rows'' JNull = JList rows
           \<and> find (\<lambda>x. case x of JObj d \<Rightarrow> or_text (wd_show w) (jget d ''bot_id'' JNull) [] = po_bot r | _ \<Rightarrow> False) rows
               = Some (JObj row)
           \<and> as_bool (jget row (if env_is_1 (wd_env w) ''ETA_LIVE_MONEY'' then ''can_live_trade'' else ''can_paper_trade'') JNull)))"

text \<open>
  Every gate asked at \<open>m\<close>, about the positions collected at \<open>n\<close>, allows the order.  The built-in chain may be
  missing only when the operator has set the bootstrap flag.
\<close>

definition all_allow :: "world \<Rightarrow> broker \<Rightarrow> pending_order \<Rightarrow> nat \<Rightarrow> nat \<Rightarrow> bool" where
  "all_allow w s r n m =
     (\<exists>positions qty gs. collect_open_positions w (s\<lparr>br_ops := n\<rparr>) = Inr positions \<and> gate_qty (po_qty r) = Inr qty
        \<and> wd_gate w m positions (po_symbol r) qty = GateResults gs \<and> list_all gr_allow gs)"

definition gates_allow :: "world \<Rightarrow> broker \<Rightarrow> pending_order \<Rightarrow> nat \<Rightarrow> bool" where
  "gates_allow w s r n =
     (case br_gates s of
        OverrideChain \<Rightarrow> all_allow w s r n n
      | BuiltInChain \<Rightarrow>
          (case wd_import_error w n of
             Some _ \<Rightarrow> env_is_1 (wd_env w) ''ETA_GATE_BOOTSTRAP''
           | None \<Rightarrow> all_allow w s r n (n + 3)))"

definition cleared_order :: "world \<Rightarrow> broker \<Rightarrow> string \<Rightarrow> pending_order \<Rightarrow> nat \<Rightarrow> nat \<Rightarrow> order_request \<Rightarrow> bool" where
  "cleared_order w s name r j k req =
     (let c = br_config s; target = venue_for (wd_env w) c (po_bot r) (Some (po_symbol r))
      in \<not> br_dry_run s
         \<and> (\<exists>p\<in>{Pending, Processing}. parse_pending_file (wd_show w) name (file_at p name s) = Inr r)
         \<and> \<not> hold_blocks (wd_hold w j) (Some target) (Some (class_name (asset_class_for_symbol (po_symbol r))))
         \<and> order_sanity (plain_stamp w) (wd_now w k) r = Inr None
         \<and> ready_at w r (k + 1)
         \<and> gates_allow w s r (k + 2)
         \<and> target \<notin> set (dormant_brokers (wd_env w))
         \<and> (case prop_account_for c (po_bot r) of
              Inr None \<Rightarrow> True | Inr (Some d) \<Rightarrow> prop_order_risk_denial (wd_env w) d r = None | Inl _ \<Rightarrow> False)
         \<and> (case map_symbol c (po_symbol r) target of Inr vsym \<Rightarrow> req = request_of vsym r | Inl _ \<Rightarrow> False))"

lemma small_effects [simp]:
  "br_ops (count_up k s) = br_ops s" "br_dry_run (count_up k s) = br_dry_run s" "br_config (count_up k s) = br_config s"
  "br_files (count_up k s) = br_files s" "br_meta (count_up k s) = br_meta s" "br_submits (count_up k s) = br_submits s"
  "br_max_retries (count_up k s) = br_max_retries s"
  "br_dry_run (bump s) = br_dry_run s" "br_config (bump s) = br_config s" "br_files (bump s) = br_files s"
  "br_meta (bump s) = br_meta s" "br_submits (bump s) = br_submits s" "br_max_retries (bump s) = br_max_retries s"
  "br_ops (bump s) = Suc (br_ops s)"
  "br_dry_run (record_event f k s) = br_dry_run s" "br_config (record_event f k s) = br_config s"
  "br_files (record_event f k s) = br_files s" "br_meta (record_event f k s) = br_meta s"
  "br_submits (record_event f k s) = br_submits s" "br_max_retries (record_event f k s) = br_max_retries s"
  "br_dry_run (safe_journal w i l s) = br_dry_run s" "br_config (safe_journal w i l s) = br_config s"
  "br_files (safe_journal w i l s) = br_files s" "br_meta (safe_journal w i l s) = br_meta s"
  "br_submits (safe_journal w i l s) = br_submits s" "br_max_retries (safe_journal w i l s) = br_max_retries s"
  by (simp_all add: count_up_def bump_def record_event_def safe_journal_def Let_def)

text \<open>The parts of the state that gates, circuits and heartbeats leave alone.\<close>

definition same_orders :: "broker \<Rightarrow> broker \<Rightarrow> bool" where
  "same_orders s t =
     (br_files t = br_files s \<and> br_meta t = br_meta s \<and> br_submits t = br_submits s \<and> br_dry_run t = br_dry_run s
      \<and> br_config t = br_config s \<and> br_max_retries t = br_max_retries s)"

lemma same_orders_refl [simp]: "same_orders s s"
  by (simp add: same_orders_def)

lemma same_orders_trans: "same_orders s t \<Longrightarrow> same_orders t u \<Longrightarrow> same_orders s u"
  by (simp add: same_orders_def)

lemma same_orders_effects [simp]:
  "same_orders s (bump s)" "same_orders s (count_up k s)" "same_orders s (record_event f k s)"
  "same_orders s (safe_journal w i l s)" "same_orders s (set_circuit n c s)" "same_orders s (mark_success n s)"
  by (simp_all add: same_orders_def set_circuit_def mark_success_def split: option.split)

lemma same_orders_mark_failure [simp]: "same_orders s (mark_failure w n s)"
  by (simp add: mark_failure_def same_orders_def set_circuit_def split: option.split)

lemma same_orders_ask: "ask_circuit w n s = (b, t) \<Longrightarrow> same_orders s t"
  by (auto simp: ask_circuit_def same_orders_def set_circuit_def split: option.splits prod.splits)

lemma same_orders_poll: "poll_circuits w ns s out = (d, t) \<Longrightarrow> same_orders s t"
proof (induction ns arbitrary: s out)
  case (Cons n ns)
  obtain b s1 where a: "ask_circuit w n s = (b, s1)" by fastforce
  with Cons.prems have "\<exists>out'. poll_circuits w ns s1 out' = (d, t)" by (auto simp: Let_def)
  then show ?case using same_orders_ask [OF a] Cons.IH by (blast intro: same_orders_trans)
qed simp

lemma same_orders_heartbeat [simp]: "same_orders s (emit_heartbeat w h s)"
proof -
  obtain d t where p: "poll_circuits w (map fst (sr_circuits (br_router s))) s [] = (d, t)" by fastforce
  from same_orders_poll [OF p] show ?thesis by (simp add: emit_heartbeat_def p same_orders_def)
qed

lemma same_orders_bump_iff [simp]: "same_orders s (bump t) = same_orders s t"
  by (simp add: same_orders_def)

lemma same_orders_sync [simp]: "same_orders s (sync_gate_state w h ps t) = same_orders s t"
  by (simp add: sync_gate_state_def same_orders_def Let_def)

lemma same_orders_gates: "evaluate_gates w r s = (g, t) \<Longrightarrow> same_orders s t"
  by (auto simp: evaluate_gates_def Let_def split: gate_source.splits sum.splits pos_error.splits gate_answer.splits
      option.splits if_splits)

lemma check_order_passed:
  assumes "check_order w r from name s = Inr t"
  shows "order_sanity (plain_stamp w) (wd_now w (br_ops s)) r = Inr None \<and> readiness_denial w r (bump s) = None
    \<and> (\<exists>gs. evaluate_gates w r (bump (bump s)) = (Some gs, t) \<and> list_all gr_allow gs) \<and> same_orders s t"
proof -
  from assms obtain gs where g: "order_sanity (plain_stamp w) (wd_now w (br_ops s)) r = Inr None"
    "readiness_denial w r (bump s) = None" "evaluate_gates w r (bump (bump s)) = (Some gs, t)"
    "find (\<lambda>g. \<not> gr_allow g) gs = None"
    by (auto simp: check_order_def Let_def split: sum.splits option.splits prod.splits)
  from same_orders_gates [OF g(3)] have "same_orders s t" by (simp add: same_orders_def)
  with g show ?thesis by (auto simp: find_None_iff list_all_iff)
qed

lemma pick_venue_same: "pick_venue w r target acct s = (v, t) \<Longrightarrow> same_orders s t"
  by (auto simp: pick_venue_def resolve_prop_account_venue_def same_orders_def Let_def
      split: option.splits sum.splits prod.splits if_splits)

lemma route_pending_passed:
  assumes "route_pending w r from name s = Inr (v, req, t)"
  shows "venue_for (wd_env w) (br_config s) (po_bot r) (Some (po_symbol r)) \<notin> set (dormant_brokers (wd_env w))
    \<and> (case prop_account_for (br_config s) (po_bot r) of
         Inr None \<Rightarrow> True | Inr (Some d) \<Rightarrow> prop_order_risk_denial (wd_env w) d r = None | Inl _ \<Rightarrow> False)
    \<and> (case map_symbol (br_config s) (po_symbol r) (venue_for (wd_env w) (br_config s) (po_bot r) (Some (po_symbol r))) of
         Inr vsym \<Rightarrow> req = request_of vsym r | Inl _ \<Rightarrow> False) \<and> same_orders s t"
proof -
  let ?target = "venue_for (wd_env w) (br_config s) (po_bot r) (Some (po_symbol r))"
  from assms obtain vsym acct where m: "map_symbol (br_config s) (po_symbol r) ?target = Inr vsym"
    "prop_account_for (br_config s) (po_bot r) = Inr acct" "?target \<notin> set (dormant_brokers (wd_env w))"
    "case acct of Some d \<Rightarrow> prop_order_risk_denial (wd_env w) d r = None | None \<Rightarrow> True"
    "pick_venue w r ?target acct s = (Some v, t)" "req = request_of vsym r"
    by (cases "map_symbol (br_config s) (po_symbol r) ?target"; cases "prop_account_for (br_config s) (po_bot r)")
      (auto simp: route_pending_def Let_def split: option.splits prod.splits if_splits)
  with pick_venue_same [OF m(5)] show ?thesis by (auto split: option.splits)
qed

subsection \<open>What a tick leaves alone\<close>

text \<open>
  \<open>t\<close> comes after \<open>s\<close> in a tick: settings and configuration are the same, operations have been counted, and a
  queued file is gone or has the content it had, at its place or, when it was moved, in \<open>Pending\<close>.
\<close>

definition continues :: "broker \<Rightarrow> broker \<Rightarrow> bool" where
  "continues s t =
     (br_config t = br_config s \<and> br_dry_run t = br_dry_run s \<and> br_gates t = br_gates s \<and> br_ops s \<le> br_ops t
      \<and> (\<forall>n. file_at Pending n t \<in> {Missing, file_at Pending n s}
            \<and> file_at Processing n t \<in> {Missing, file_at Pending n s, file_at Processing n s}))"

named_theorems tick_frame

lemma continues_refl [tick_frame]: "continues s s"
  by (simp add: continues_def)

lemma continues_trans: "continues s t \<Longrightarrow> continues t u \<Longrightarrow> continues s u"
proof -
  assume a: "continues s t" and b: "continues t u"
  have "file_at Pending n u \<in> {Missing, file_at Pending n s}
      \<and> file_at Processing n u \<in> {Missing, file_at Pending n s, file_at Processing n s}" for n
    using a [unfolded continues_def] b [unfolded continues_def] by (elim conjE allE [of _ n]) auto
  then show ?thesis using a b by (simp add: continues_def)
qed

lemma continues_alike:
  "continues s t \<Longrightarrow> br_config u = br_config t \<Longrightarrow> br_dry_run u = br_dry_run t \<Longrightarrow> br_gates u = br_gates t \<Longrightarrow>
   br_files u = br_files t \<Longrightarrow> br_ops t \<le> br_ops u \<Longrightarrow> continues s u"
  by (simp add: continues_def file_at_def)

lemma continues_small [tick_frame]:
  assumes "continues s t"
  shows "continues s (bump t)" "continues s (count_up k t)" "continues s (record_event f k t)"
    "continues s (safe_journal w i l t)" "continues s (clear_retry_meta w n t)" "continues s (save_retry_meta w n m t)"
    "continues s (set_retry_count k v t)" "continues s (drop_retry_count k t)" "continues s (record_fill w r ve res t)"
    "continues s (start_submission n t)" "continues s (set_circuit n ci t)" "continues s (mark_success n t)"
    "continues s (mark_failure w n t)" "continues s (sync_gate_state w h ps t)"
  by (rule continues_alike [OF assms];
    simp add: bump_def count_up_def record_event_def safe_journal_def clear_retry_meta_def save_retry_meta_def
      set_retry_count_def drop_retry_count_def record_fill_def start_submission_def set_circuit_def mark_success_def
      mark_failure_def sync_gate_state_def Let_def split: option.split)+

lemma continues_ask: "ask_circuit w n s = (b, t) \<Longrightarrow> continues u s \<Longrightarrow> continues u t"
  by (auto simp: ask_circuit_def continues_small split: option.splits prod.splits)

lemma continues_poll: "poll_circuits w ns s out = (d, t) \<Longrightarrow> continues u s \<Longrightarrow> continues u t"
proof (induction ns arbitrary: s out)
  case (Cons n ns)
  obtain b s1 where a: "ask_circuit w n s = (b, s1)" by fastforce
  with Cons.prems have "\<exists>out'. poll_circuits w ns s1 out' = (d, t)" by (auto simp: Let_def)
  then show ?case using continues_ask [OF a Cons.prems(2)] Cons.IH by blast
qed simp

lemma continues_heartbeat [tick_frame]: "continues u s \<Longrightarrow> continues u (emit_heartbeat w h s)"
proof -
  assume u: "continues u s"
  obtain d t where p: "poll_circuits w (map fst (sr_circuits (br_router s))) s [] = (d, t)" by fastforce
  from continues_poll [OF p u] have "continues u t" .
  then show ?thesis unfolding emit_heartbeat_def p prod.case
    by (rule continues_alike) (simp_all add: bump_def)
qed

lemma continues_move [tick_frame]:
  assumes "continues s t" "dst \<noteq> Pending" "dst = Processing \<Longrightarrow> src = Pending"
  shows "continues s (snd (atomic_move w src dst name t))"
proof (cases "wd_io w (br_ops t) = IoOk \<and> dget (br_files t src) name \<noteq> None")
  case False
  then have "snd (atomic_move w src dst name t) = bump t"
    by (auto simp: atomic_move_def split: io_outcome.split option.split)
  then show ?thesis using assms(1) by (simp add: tick_frame)
next
  case True
  then obtain f where f: "dget (br_files t src) name = Some f" "wd_io w (br_ops t) = IoOk" by blast
  define u where "u = snd (atomic_move w src dst name t)"
  have u: "u = (bump t)\<lparr>br_files := (\<lambda>p. if p = dst then dset name f (br_files t p)
      else if p = src then ddel name (br_files t p) else br_files t p)\<rparr>"
    unfolding u_def using f by (simp add: atomic_move_def)
  have "file_at Pending n u \<in> {Missing, file_at Pending n t}
      \<and> file_at Processing n u \<in> {Missing, file_at Pending n t, file_at Processing n t}" for n
    using f assms(2,3) by (auto simp: u file_at_def)
  then have "continues t u" by (simp add: continues_def u bump_def)
  then show ?thesis using continues_trans [OF assms(1)] unfolding u_def by blast
qed

definition final_place :: "place \<Rightarrow> bool" where
  "final_place p = (p \<noteq> Pending \<and> p \<noteq> Processing)"

lemma final_places [simp]:
  "final_place Blocked" "final_place (Archive d)" "final_place Quarantine" "final_place FailedOrders"
  by (simp_all add: final_place_def)

lemma continues_file_away [tick_frame]:
  "continues s t \<Longrightarrow> final_place dst \<Longrightarrow> continues s (file_away w from dst name t)"
  by (auto simp: file_away_def final_place_def intro!: tick_frame)

lemma continues_refuse [tick_frame]:
  "continues s t \<Longrightarrow> final_place dst \<Longrightarrow> continues s (refuse_file w k kind dst i from name t)"
  by (simp add: refuse_file_def tick_frame)

lemma continues_handlers [tick_frame]:
  assumes "continues s t"
  shows "continues s (handle_processing_error w from name t)" "continues s (handle_routing_error w from name t)"
    "continues s (handle_unsupported w from name t)" "continues s (handle_dormant_broker w from name t)"
    "continues s (handle_unparsable w from name t)" "continues s (handle_blocked w r from name g t)"
    "continues s (move_to_failed_with_meta w name m t)"
proof -
  show "continues s (handle_processing_error w from name t)" "continues s (handle_routing_error w from name t)"
    "continues s (handle_unsupported w from name t)" "continues s (handle_dormant_broker w from name t)"
    "continues s (handle_unparsable w from name t)"
    using assms by (simp_all add: handle_processing_error_def handle_routing_error_def handle_unsupported_def
        handle_dormant_broker_def handle_unparsable_def tick_frame)
  have blocks: "continues s (u\<lparr>br_blocks := x\<rparr>)" if "continues s u" for u x by (rule continues_alike [OF that]) simp_all
  show "continues s (handle_blocked w r from name g t)"
    unfolding handle_blocked_def Let_def
    by (rule continues_small(4), rule continues_file_away) (auto intro: blocks simp: continues_small assms)
  have meta: "continues s (u\<lparr>br_failed_meta := x\<rparr>)" if "continues s u" for u x by (rule continues_alike [OF that]) simp_all
  show "continues s (move_to_failed_with_meta w name m t)"
    unfolding move_to_failed_with_meta_def Let_def
    by (rule continues_small(5), rule meta, rule continues_small(1), rule continues_move) (simp_all add: assms)
qed

lemma continues_finalize [tick_frame]:
  assumes "continues s t"
  shows "continues s (finalize_rejected w r name m res t)" "continues s (finalize_executed w r name t)"
  using assms by (simp_all add: finalize_rejected_def finalize_executed_def Let_def tick_frame)

lemma continues_gates: "evaluate_gates w r t = (g, u) \<Longrightarrow> continues s t \<Longrightarrow> continues s u"
  by (auto simp: evaluate_gates_def Let_def tick_frame split: gate_source.splits sum.splits pos_error.splits
      gate_answer.splits option.splits if_splits)

lemma continues_check:
  assumes "check_order w r from name t = x" "continues s t"
  shows "case x of Inl u \<Rightarrow> continues s u | Inr u \<Rightarrow> continues s u"
proof -
  obtain g u where g: "evaluate_gates w r (bump (bump t)) = (g, u)" by fastforce
  have "continues s u" by (rule continues_gates [OF g]) (simp add: tick_frame assms(2))
  then show ?thesis using assms(2) unfolding assms(1) [symmetric] check_order_def g Let_def
    by (auto simp: tick_frame split: sum.splits option.splits)
qed

lemma continues_pick: "pick_venue w r target acct t = (v, u) \<Longrightarrow> continues s t \<Longrightarrow> continues s u"
  by (erule continues_alike)
    (auto simp: pick_venue_def resolve_prop_account_venue_def Let_def split: option.splits sum.splits prod.splits if_splits)

section \<open>Lemmas: the chain\<close>

text \<open>What a run of the chain has done when it ends.\<close>

definition answered :: "call \<Rightarrow> bool" where
  "answered c = (case cl_answer c of Inr _ \<Rightarrow> True | Inl x \<Rightarrow> \<not> is_transient_failure x)"

lemma next_reach:
  assumes "Some u = next_chain_venue rest \<or> (\<exists>n\<in>set (tl rest). resolve_venue_adapter n = Some u)"
  shows "\<exists>n\<in>set rest. resolve_venue_adapter n = Some u"
  using assms by (cases rest) (auto simp: next_chain_venue_def)

definition chain_post :: "order_request \<Rightarrow> string list \<Rightarrow> venue option \<Rightarrow> broker \<Rightarrow> placing \<Rightarrow> call list \<Rightarrow> broker \<Rightarrow> bool" where
  "chain_post req ns v s p new t =
     (length new \<le> length ns \<and> same_orders s t
      \<and> (\<forall>c\<in>set new. cl_request c = req \<and> (Some (cl_venue c) = v \<or> (\<exists>n\<in>set (tl ns). resolve_venue_adapter n = Some (cl_venue c))))
      \<and> (\<forall>c\<in>set (butlast new). \<not> answered c)
      \<and> (\<forall>res u. p = Placed res u \<longrightarrow> new \<noteq> [] \<and> cl_venue (last new) = u \<and> cl_answer (last new) = Inr res))"

lemma chain_post_end: "(\<forall>res u. p \<noteq> Placed res u) \<Longrightarrow> chain_post req ns v s p [] s"
  by (simp add: chain_post_def)

lemma chain_end_not_placed: "chain_end x \<noteq> Placed res u"
  by (simp add: chain_end_def split: option.split)

lemma chain_post_skip:
  assumes "chain_post req rest (next_chain_venue rest) s1 p new t" "same_orders s s1"
  shows "chain_post req (m # rest) v s p new t"
proof -
  have "\<forall>c\<in>set new. cl_request c = req \<and> (\<exists>n\<in>set rest. resolve_venue_adapter n = Some (cl_venue c))"
    using assms(1) next_reach unfolding chain_post_def by blast
  moreover have "same_orders s t" using assms by (auto simp: chain_post_def intro: same_orders_trans)
  ultimately show ?thesis using assms(1) by (auto simp: chain_post_def)
qed

lemma chain_post_call:
  assumes "chain_post req (m # rest) (Some v) s p new t" "cl_venue c = v" "cl_request c = req" "\<not> answered c"
    "length new \<le> length rest"
  shows "chain_post req (m # rest) (Some v) s p (c # new) t"
  using assms unfolding chain_post_def by auto

lemma chain_post_last:
  assumes "cl_venue c = v" "cl_request c = req" "same_orders s t" "\<forall>res u. p = Placed res u \<longrightarrow> u = v \<and> cl_answer c = Inr res"
  shows "chain_post req (m # rest) (Some v) s p [c] t"
  using assms unfolding chain_post_def by auto

lemma chain_loop_spec:
  "chain_loop w req ns v lx calls s = (p, calls', t) \<Longrightarrow> \<exists>new. calls' = calls @ new \<and> chain_post req ns v s p new t"
proof (induction w req ns v lx calls s arbitrary: p calls' t rule: chain_loop.induct)
  case (1 w req v lx calls s)
  then show ?case using chain_end_not_placed by (auto intro!: chain_post_end)
next
  case (2 w req m rest lx calls s)
  then show ?case using chain_end_not_placed by (auto intro!: chain_post_end)
next
  case (3 w req m rest v lx calls s)
  obtain b s1 where a: "ask_circuit w (name_of_venue v) s = (b, s1)" by fastforce
  have so: "same_orders s s1" using same_orders_ask [OF a] .
  show ?case
  proof (cases b)
    case True
    with a have a': "ask_circuit w (name_of_venue v) s = (True, s1)" by simp
    with "3.prems" have "chain_loop w req rest (next_chain_venue rest) lx calls s1 = (p, calls', t)" by (simp add: Let_def)
    from "3.IH"(1) [OF refl a' [symmetric] refl this] so show ?thesis by (blast intro: chain_post_skip)
  next
    case False
    with a have a': "ask_circuit w (name_of_venue v) s = (False, s1)" by simp
    let ?c = "\<lparr>cl_venue = v, cl_request = req, cl_answer = wd_answer w (br_ops s1) v req\<rparr>"
    let ?s3 = "mark_failure w (name_of_venue v) (bump s1)"
    have so2: "same_orders s (mark_success (name_of_venue v) (bump s1))" "same_orders s ?s3"
      using so by (meson same_orders_effects same_orders_mark_failure same_orders_trans)+
    show ?thesis
    proof (cases "\<exists>x. wd_answer w (br_ops s1) v req = Inl x \<and> is_transient_failure x")
      case True
      then obtain x where x: "wd_answer w (br_ops s1) v req = Inl x" "is_transient_failure x" by blast
      have run: "chain_loop w req rest (next_chain_venue rest) (Some x) (calls @ [?c]) ?s3 = (p, calls', t)"
        using "3.prems" a False x by (simp add: Let_def)
      have nn: "\<not> \<not> is_transient_failure x" using x(2) by simp
      from "3.IH"(2) [OF refl a' [symmetric] refl refl refl refl x(1) refl nn run] obtain new where
        new: "calls' = (calls @ [?c]) @ new" "chain_post req rest (next_chain_venue rest) ?s3 p new t" by blast
      have "chain_post req (m # rest) (Some v) s p (?c # new) t"
        using new(2) x by (intro chain_post_call chain_post_skip [OF new(2) so2(2)]) (simp_all add: answered_def chain_post_def)
      then show ?thesis using new(1) by (intro exI [of _ "?c # new"]) simp
    next
      case False
      then have "calls' = calls @ [?c] \<and> same_orders s t \<and> (\<forall>res u. p = Placed res u \<longrightarrow> u = v \<and> cl_answer ?c = Inr res)"
        using "3.prems" a \<open>\<not> b\<close> so2 by (auto simp: Let_def split: sum.splits if_splits)
      then show ?thesis by (intro exI [of _ "[?c]"] conjI chain_post_last) auto
    qed
  qed
qed

lemma place_chain_post:
  assumes "place_with_failover_chain w r v req s = (p, calls, t)"
  shows "chain_post req (failover_chain (wd_env w) (br_config s) (po_bot r) (po_symbol r)) (Some v) s p calls t"
  using chain_loop_spec [OF assms [unfolded place_with_failover_chain_def]] by simp

section \<open>Lemmas: what is sent\<close>

lemma submit_calls:
  assumes "submit_and_finalize w r name v req meta s = (calls, t)"
  shows "\<exists>p u. place_with_failover_chain w r v req (start_submission name s) = (p, calls, u)"
  using assms by (auto simp: submit_and_finalize_def split: prod.splits placing.splits)

lemma collect_at: "br_ops t = n \<Longrightarrow> collect_open_positions w t = collect_open_positions w (s\<lparr>br_ops := n\<rparr>)"
  by (simp add: collect_open_positions_def)

lemma gate_chain_passed:
  assumes "evaluate_gates w r t = (Some gs, u)" "list_all gr_allow gs" "br_gates t = br_gates s"
  shows "gates_allow w s r (br_ops t)"
  using assms unfolding gates_allow_def all_allow_def collect_at [OF refl, of w t s, symmetric]
  by (auto simp: eval_nat_numeral evaluate_gates_def run_gate_chain_def chain_error_def sync_gate_state_def Let_def
      split: gate_source.splits sum.splits pos_error.splits gate_answer.splits option.splits if_splits)

lemma readiness_passed:
  assumes "readiness_denial w r t = None"
  shows "ready_at w r (br_ops t)"
proof (cases "env_is_1 (wd_env w) ''ETA_BROKER_ROUTER_ENFORCE_READINESS''")
  case True
  with assms obtain d rows row where "wd_ready w (br_ops t) = Parsed (JObj d)" "jget d ''rows'' JNull = JList rows"
    "find (\<lambda>row. case row of JObj d \<Rightarrow> or_text (wd_show w) (jget d ''bot_id'' JNull) [] = po_bot r | _ \<Rightarrow> False) rows
       = Some (JObj row)"
    "as_bool (jget row (if env_is_1 (wd_env w) ''ETA_LIVE_MONEY'' then ''can_live_trade'' else ''can_paper_trade'') JNull)"
    by (auto simp: readiness_denial_def split: jfile.splits json.splits option.splits if_splits)
  then show ?thesis
    unfolding ready_at_def by blast
qed (simp add: ready_at_def)

lemma continued_file:
  assumes "continues s u" "q \<in> {Pending, Processing}" "parse_pending_file sh name (file_at q name u) = Inr r"
  shows "\<exists>p\<in>{Pending, Processing}. parse_pending_file sh name (file_at p name s) = Inr r"
proof -
  have "file_at q name u \<in> {Missing, file_at Pending name s, file_at Processing name s}"
    using assms(1,2) unfolding continues_def by blast
  moreover have "file_at q name u \<noteq> Missing" using assms(3) by (auto simp: parse_pending_file_def)
  ultimately show ?thesis using assms(3) by auto
qed

definition order_venue :: "world \<Rightarrow> broker \<Rightarrow> pending_order \<Rightarrow> string" where
  "order_venue w s r = venue_for (wd_env w) (br_config s) (po_bot r) (Some (po_symbol r))"

definition order_class :: "pending_order \<Rightarrow> string" where
  "order_class r = class_name (asset_class_for_symbol (po_symbol r))"

text \<open>A lifecycle that calls a venue has found, over the tick's first state, all that the order needs but the hold.\<close>

lemma lifecycle_cleared:
  assumes l: "run_lifecycle w q name meta u = (calls, t)" and c: "c \<in> set calls"
    and s: "continues s u" and q: "q \<in> {Pending, Processing}"
  shows "\<exists>r. parse_pending_file (wd_show w) name (file_at q name u) = Inr r
    \<and> (\<forall>j. \<not> hold_blocks (wd_hold w j) (Some (order_venue w s r)) (Some (order_class r)) \<longrightarrow>
          cleared_order w s name r j (br_ops u) (cl_request c))"
proof -
  from l c obtain r s1 v req s2 where r: "parse_pending_file (wd_show w) name (file_at q name u) = Inr r"
    and ck: "check_order w r q name (count_up ''parsed'' u) = Inr s1"
    and rt: "route_pending w r q name s1 = Inr (v, req, s2)" and dry: "\<not> br_dry_run s2"
    and sub: "submit_and_finalize w r name v req meta s2 = (calls, t)"
    by (auto simp: run_lifecycle_def split: sum.splits pyexc.splits prod.splits if_splits)
  have req: "cl_request c = req" using submit_calls [OF sub] c place_chain_post by (fastforce simp: chain_post_def)
  note ok = check_order_passed [OF ck]
  note rd = conjunct1 [OF conjunct2 [OF ok]]
  from ok obtain gs where gs: "evaluate_gates w r (bump (bump (count_up ''parsed'' u))) = (Some gs, s1)" "list_all gr_allow gs"
    by blast
  have "br_gates (bump (bump (count_up ''parsed'' u))) = br_gates s"
    using s by (simp add: bump_def count_up_def continues_def)
  from gate_chain_passed [OF gs this] have "gates_allow w s r (br_ops u + 2)" by simp
  moreover have "ready_at w r (br_ops u + 1)" using readiness_passed [OF rd] by simp
  moreover have "br_config s1 = br_config s" "\<not> br_dry_run s"
    using ok route_pending_passed [OF rt] s dry by (simp_all add: same_orders_def continues_def)
  ultimately have "cleared_order w s name r j (br_ops u) req"
    if "\<not> hold_blocks (wd_hold w j) (Some (order_venue w s r)) (Some (order_class r))" for j
    using that ok route_pending_passed [OF rt] continued_file [OF s q r]
    unfolding cleared_order_def order_venue_def order_class_def Let_def by simp
  with r req show ?thesis by blast
qed

lemma hold_passed:
  assumes "hold_blocks_file w p name u = (False, t)" "parse_pending_file (wd_show w) name (file_at p name u) = Inr r"
    "continues s u"
  shows "\<not> hold_blocks (wd_hold w (br_ops u)) (Some (order_venue w s r)) (Some (order_class r))"
  using assms
  by (auto simp: hold_blocks_file_def order_entry_hold_def order_venue_def order_class_def hold_blocks_def Let_def continues_def
      split: if_splits)

lemma hold_open: "hold_blocks_file w p name u = (False, t) \<Longrightarrow> t = bump u"
  by (auto simp: hold_blocks_file_def Let_def split: if_splits)

lemma moved_file:
  assumes "atomic_move w Pending Processing name s = (True, t)"
  shows "file_at Processing name t = file_at Pending name s" "br_ops t = Suc (br_ops s)"
  using assms by (auto simp: atomic_move_def file_at_def split: io_outcome.splits option.splits)

text \<open>One file of a tick that began in \<open>s\<close>: its calls come from a lifecycle after an open hold.\<close>

definition sent_by :: "world \<Rightarrow> broker \<Rightarrow> broker \<Rightarrow> call \<Rightarrow> bool" where
  "sent_by w s u c =
     (\<exists>name r j q meta. c \<in> set (fst (run_lifecycle w q name meta u)) \<and> continues s u \<and> br_ops s < j \<and> j < br_ops u
        \<and> br_ops u \<le> j + 2 \<and> cleared_order w s name r j (br_ops u) (cl_request c))"

lemma pending_sent:
  assumes p: "process_pending_file w name a = (calls, t)" and c: "c \<in> set calls" and s: "continues s a" "br_ops s < br_ops a"
  shows "\<exists>u. sent_by w s u c"
proof -
  obtain b s1 where "hold_blocks_file w Pending name a = (b, s1)" by fastforce
  moreover then have "\<not> b" using p c by (cases b) (auto simp: process_pending_file_def)
  ultimately have h: "hold_blocks_file w Pending name a = (False, s1)" by simp
  have s1: "continues s s1" "br_ops s1 = Suc (br_ops a)"
    unfolding hold_open [OF h] using s(1) by (simp_all add: continues_small)
  show ?thesis
  proof (cases "br_dry_run s1")
    case True
    with p h have l: "run_lifecycle w Pending name empty_meta s1 = (calls, t)" by (simp add: process_pending_file_def)
    obtain r where r: "parse_pending_file (wd_show w) name (file_at Pending name s1) = Inr r"
      and ok: "\<forall>j. \<not> hold_blocks (wd_hold w j) (Some (order_venue w s r)) (Some (order_class r)) \<longrightarrow>
        cleared_order w s name r j (br_ops s1) (cl_request c)"
      using lifecycle_cleared [OF l c s1(1)] by auto
    have "file_at Pending name s1 = file_at Pending name a" unfolding hold_open [OF h] by (simp add: file_at_def)
    with r have "parse_pending_file (wd_show w) name (file_at Pending name a) = Inr r" by simp
    from hold_passed [OF h this s(1)] ok have "cleared_order w s name r (br_ops a) (br_ops s1) (cl_request c)" by blast
    then have "sent_by w s s1 c" unfolding sent_by_def using c l s1 s(2)
      by (intro exI [of _ name] exI [of _ r] exI [of _ "br_ops a"] exI [of _ Pending] exI [of _ empty_meta]) simp
    then show ?thesis ..
  next
    case False
    then obtain s2 where m: "atomic_move w Pending Processing name s1 = (True, s2)"
      and l: "run_lifecycle w Processing name empty_meta s2 = (calls, t)"
      using p c h by (auto simp: process_pending_file_def split: prod.splits bool.splits)
    have s2: "continues s s2" using continues_move [OF s1(1), of Processing Pending w name] m by simp
    obtain r where r: "parse_pending_file (wd_show w) name (file_at Processing name s2) = Inr r"
      and ok: "\<forall>j. \<not> hold_blocks (wd_hold w j) (Some (order_venue w s r)) (Some (order_class r)) \<longrightarrow>
        cleared_order w s name r j (br_ops s2) (cl_request c)"
      using lifecycle_cleared [OF l c s2] by auto
    have "file_at Processing name s2 = file_at Pending name a"
      unfolding moved_file(1) [OF m] unfolding hold_open [OF h] by (simp add: file_at_def)
    with r have "parse_pending_file (wd_show w) name (file_at Pending name a) = Inr r" by simp
    from hold_passed [OF h this s(1)] ok have "cleared_order w s name r (br_ops a) (br_ops s2) (cl_request c)" by blast
    then have "sent_by w s s2 c" unfolding sent_by_def using c l s2 s(2) moved_file(2) [OF m] s1(2)
      by (intro exI [of _ name] exI [of _ r] exI [of _ "br_ops a"] exI [of _ Processing] exI [of _ empty_meta]) simp
    then show ?thesis ..
  qed
qed

lemma retry_sent:
  assumes p: "process_retry_file w name a = (calls, t)" and c: "c \<in> set calls" and s: "continues s a" "br_ops s < br_ops a"
  shows "\<exists>u. sent_by w s u c"
proof -
  from p c obtain meta s1 where h: "hold_blocks_file w Processing name (bump a) = (False, s1)"
    and l: "run_lifecycle w Processing name meta s1 = (calls, t)"
    by (auto simp: process_retry_file_def split: sum.splits if_splits bool.splits prod.splits)
  have b: "continues s (bump a)" using s(1) by (simp add: continues_small)
  have s1: "continues s s1" "br_ops s1 = br_ops a + 2"
    unfolding hold_open [OF h] using b by (simp_all add: continues_small)
  obtain r where r: "parse_pending_file (wd_show w) name (file_at Processing name s1) = Inr r"
    and ok: "\<forall>j. \<not> hold_blocks (wd_hold w j) (Some (order_venue w s r)) (Some (order_class r)) \<longrightarrow>
      cleared_order w s name r j (br_ops s1) (cl_request c)"
    using lifecycle_cleared [OF l c s1(1)] by auto
  have "file_at Processing name s1 = file_at Processing name (bump a)" unfolding hold_open [OF h] by (simp add: file_at_def)
  with r have "parse_pending_file (wd_show w) name (file_at Processing name (bump a)) = Inr r" by simp
  from hold_passed [OF h this b] ok have "cleared_order w s name r (br_ops (bump a)) (br_ops s1) (cl_request c)" by blast
  then have "sent_by w s s1 c" unfolding sent_by_def using c l s1 s(2)
    by (intro exI [of _ name] exI [of _ r] exI [of _ "br_ops (bump a)"] exI [of _ Processing] exI [of _ meta]) simp
  then show ?thesis ..
qed

lemma continues_route:
  assumes "route_pending w r q name t = x" "continues s t"
  shows "case x of Inl u \<Rightarrow> continues s u | Inr (v, req, u) \<Rightarrow> continues s u"
proof -
  let ?target = "venue_for (wd_env w) (br_config t) (po_bot r) (Some (po_symbol r))"
  have pick: "continues s (snd (pick_venue w r ?target acct t))" for acct
    using continues_pick [OF prod.collapse [symmetric] assms(2)] .
  show ?thesis unfolding assms(1) [symmetric] route_pending_def Let_def
    using assms(2) pick
    by (auto simp: continues_handlers split: sum.splits option.splits prod.splits) (metis continues_handlers(2) snd_conv)+
qed

lemma continues_chain: "chain_loop w req ns v lx calls t = (p, calls', u) \<Longrightarrow> continues s t \<Longrightarrow> continues s u"
proof (induction w req ns v lx calls t arbitrary: p calls' u rule: chain_loop.induct)
  case (3 w req m rest v lx calls t)
  obtain b s1 where a: "ask_circuit w (name_of_venue v) t = (b, s1)" by fastforce
  have s1: "continues s s1" using continues_ask [OF a "3.prems"(2)] .
  show ?case
  proof (cases b)
    case True
    with a have a': "ask_circuit w (name_of_venue v) t = (True, s1)" by simp
    with "3.prems"(1) have "chain_loop w req rest (next_chain_venue rest) lx calls s1 = (p, calls', u)" by (simp add: Let_def)
    from "3.IH"(1) [OF refl a' [symmetric] refl this s1] show ?thesis .
  next
    case False
    with a have a': "ask_circuit w (name_of_venue v) t = (False, s1)" by simp
    have s3: "continues s (mark_failure w (name_of_venue v) (bump s1))" using s1 by (simp add: continues_small)
    show ?thesis
    proof (cases "\<exists>x. wd_answer w (br_ops s1) v req = Inl x \<and> is_transient_failure x")
      case True
      then obtain x where x: "wd_answer w (br_ops s1) v req = Inl x" "is_transient_failure x" by blast
      have run: "chain_loop w req rest (next_chain_venue rest) (Some x)
          (calls @ [\<lparr>cl_venue = v, cl_request = req, cl_answer = wd_answer w (br_ops s1) v req\<rparr>])
          (mark_failure w (name_of_venue v) (bump s1)) = (p, calls', u)"
        using "3.prems"(1) a False x by (simp add: Let_def)
      have nn: "\<not> \<not> is_transient_failure x" using x(2) by simp
      from "3.IH"(2) [OF refl a' [symmetric] refl refl refl refl x(1) refl nn run s3] show ?thesis .
    next
      case False
      then show ?thesis using "3.prems"(1) a \<open>\<not> b\<close> s1 s3 by (auto simp: Let_def continues_small split: sum.splits if_splits)
    qed
  qed
qed simp_all

lemma continues_submit: "continues s t \<Longrightarrow> continues s (snd (submit_and_finalize w r name v req meta t))"
proof -
  assume t: "continues s t"
  obtain p calls u where p: "place_with_failover_chain w r v req (start_submission name t) = (p, calls, u)"
    by (metis prod_cases3)
  have u: "continues s u"
    using continues_chain [OF p [unfolded place_with_failover_chain_def]] t by (simp add: continues_small)
  show ?thesis
    by (simp add: submit_and_finalize_def p u continues_small continues_finalize continues_handlers split: placing.split)
qed

lemma continues_lifecycle: "continues s t \<Longrightarrow> continues s (snd (run_lifecycle w q name meta t))"
proof -
  assume t: "continues s t"
  show ?thesis
  proof (cases "parse_pending_file (wd_show w) name (file_at q name t)")
    case (Inl x)
    with t show ?thesis by (simp add: run_lifecycle_def continues_handlers split: pyexc.split)
  next
    case r: (Inr r)
    have p: "continues s (count_up ''parsed'' t)" using t by (simp add: continues_small)
    note ck = continues_check [OF refl p, of w r q name]
    show ?thesis
    proof (cases "check_order w r q name (count_up ''parsed'' t)")
      case (Inl x)
      with ck r show ?thesis by (simp add: run_lifecycle_def)
    next
      case (Inr s1)
      with ck have s1: "continues s s1" by simp
      from continues_route [OF refl s1, of w r q name] r Inr show ?thesis
        by (auto simp: run_lifecycle_def continues_small continues_submit split: sum.splits)
    qed
  qed
qed

lemma continues_hold: "hold_blocks_file w p name t = (b, u) \<Longrightarrow> continues s t \<Longrightarrow> continues s u"
  by (auto simp: hold_blocks_file_def Let_def continues_small split: if_splits)

lemma continues_pending: "continues s t \<Longrightarrow> continues s (snd (process_pending_file w name t))"
proof -
  assume t: "continues s t"
  obtain b s1 where h: "hold_blocks_file w Pending name t = (b, s1)" by fastforce
  have s1: "continues s s1" using continues_hold [OF h t] .
  obtain d s2 where m: "atomic_move w Pending Processing name s1 = (d, s2)" by fastforce
  have s2: "continues s s2" using continues_move [OF s1, of Processing Pending w name] m by simp
  show ?thesis by (cases b; cases d) (simp_all add: process_pending_file_def h m s1 s2 continues_lifecycle)
qed

lemma continues_retry: "continues s t \<Longrightarrow> continues s (snd (process_retry_file w name t))"
proof -
  assume t: "continues s t"
  have b: "continues s (bump t)" using t by (simp add: continues_small)
  obtain d s1 where h: "hold_blocks_file w Processing name (bump t) = (d, s1)" by fastforce
  have s1: "continues s s1" using continues_hold [OF h b] .
  show ?thesis
    by (cases d) (simp_all add: process_retry_file_def h s1 b t continues_lifecycle continues_handlers continues_small
        split: sum.split bool.split)
qed

lemma each_file_sent:
  assumes f: "\<And>s n a. continues s a \<Longrightarrow> continues s (snd (f n a))"
    and sent: "\<And>n a. continues s a \<Longrightarrow> br_ops s < br_ops a \<Longrightarrow> c \<in> set (fst (f n a)) \<Longrightarrow> \<exists>u. sent_by w s u c"
  shows "each_file w f ns a = (calls, t) \<Longrightarrow> continues s a \<Longrightarrow> br_ops s < br_ops a \<Longrightarrow>
    continues s t \<and> (c \<in> set calls \<longrightarrow> (\<exists>u. sent_by w s u c))"
proof (induction ns arbitrary: a calls t)
  case (Cons n ns)
  show ?case
  proof (cases "br_stopped a \<or> wd_stop w (br_ops a)")
    case True
    with Cons.prems show ?thesis by (auto intro: continues_alike)
  next
    case False
    obtain d b where d: "f n a = (d, b)" by fastforce
    obtain e v where e: "each_file w f ns b = (e, v)" by fastforce
    have ct: "calls = d @ e" "t = v" using Cons.prems(1) False d e by simp_all
    have b: "continues s b" using f [OF Cons.prems(2), of n] d by simp
    have "br_ops a \<le> br_ops b" using f [OF continues_refl, of a n] d by (simp add: continues_def)
    with Cons.prems(3) have ops: "br_ops s < br_ops b" by simp
    note rest = Cons.IH [OF e b ops]
    have "\<exists>u. sent_by w s u c" if "c \<in> set d" using sent [OF Cons.prems(2,3), of n] d that by simp
    with rest show ?thesis unfolding ct set_append by blast
  qed
qed simp

section \<open>Properties\<close>

text \<open>
  C1. Nothing reaches a venue except past every check.  Each call a tick makes belongs to the lifecycle of one order
  file, begun at operation \<open>k\<close> in a state \<open>u\<close> of the tick, with a hold read at \<open>j\<close> just before.  All checks
  are stated over the state \<open>s\<close> the tick started in: the router is not in dry-run mode; the file's content at
  the start parses to the order; the hold did not block its venue or class; its sanity and readiness
  checks found nothing; every gate allowed it (the built-in chain may be missing only under the bootstrap
  flag); its venue is not dormant; its prop-firm account, if it has one, had room for its risk; and
  the request is the one made from the order.  Under a hold on everything a tick makes no call at all.
\<close>

theorem sent_only_past_checks:
  assumes "c \<in> set (fst (router_tick w s))"
  shows "(\<exists>name r j q meta u. c \<in> set (fst (run_lifecycle w q name meta u)) \<and> continues s u
       \<and> br_ops s < j \<and> j < br_ops u \<and> br_ops u \<le> j + 2 \<and> cleared_order w s name r j (br_ops u) (cl_request c))
    \<and> \<not> (oh_active (wd_hold w (br_ops s)) \<and> oh_scope (wd_hold w (br_ops s)) = ''all'')"
proof -
  let ?hold = "order_entry_hold w s" and ?s1 = "emit_heartbeat w (order_entry_hold w s) (bump s)"
  have act: "\<not> (oh_active ?hold \<and> oh_scope ?hold = ''all'')" using assms by (auto simp: router_tick_def Let_def)
  obtain c2 s2 where p: "each_file w (process_pending_file w) (order_files w Pending ?s1) (bump ?s1) = (c2, s2)" by fastforce
  obtain c3 s3 where q: "each_file w (process_retry_file w) (order_files w Processing s2) (bump s2) = (c3, s3)" by fastforce
  have cs: "c \<in> set c2 \<or> c \<in> set c3"
    using assms act p q by (auto simp: router_tick_def Let_def split: if_splits)
  have "continues (bump s) ?s1" by (intro continues_heartbeat continues_refl)
  then have "br_ops s < br_ops (bump ?s1)" by (simp add: continues_def)
  moreover have "continues s (bump ?s1)" by (simp add: continues_small continues_heartbeat continues_refl)
  ultimately have s1: "continues s (bump ?s1)" "br_ops s < br_ops (bump ?s1)" by simp_all
  have pend: "continues s s2 \<and> (c \<in> set c2 \<longrightarrow> (\<exists>u. sent_by w s u c))"
    by (rule each_file_sent [OF _ _ p s1], erule continues_pending)
      (rule pending_sent [OF prod.collapse [symmetric]], assumption+)
  have "continues s (bump s2)" using pend by (simp add: continues_small)
  moreover have "br_ops s < br_ops (bump s2)" using pend by (simp add: continues_def less_Suc_eq_le)
  ultimately have s2: "continues s (bump s2)" "br_ops s < br_ops (bump s2)" by simp_all
  have retry: "continues s s3 \<and> (c \<in> set c3 \<longrightarrow> (\<exists>u. sent_by w s u c))"
    by (rule each_file_sent [OF _ _ q s2], erule continues_retry)
      (rule retry_sent [OF prod.collapse [symmetric]], assumption+)
  from cs pend retry have "\<exists>u. sent_by w s u c" by blast
  with act show ?thesis unfolding sent_by_def order_entry_hold_def by blast
qed


definition demo_accept :: order_result where
  "demo_accept = \<lparr>or_id = ''o1'', or_status = Filled, or_filled = Fin 1, or_avg = Fin 21000, or_fees = Fin 0,
     or_latency = Fin 1, or_raw = []\<rparr>"

definition demo_timeout :: venue_exc where
  "demo_timeout = \<lparr>vx_network = True, vx_text = []\<rparr>"

definition demo_name :: string where
  "demo_name = ''alpha.pending_order.json''"

text \<open>A world in which IBKR times out and every other venue fills the order.\<close>

definition demo_router_world :: world where
  "demo_router_world =
     \<lparr>wd_env = (\<lambda>_. None), wd_show = (\<lambda>_. []), wd_secret = (\<lambda>_. []), wd_stamp = (\<lambda>_. Inr (True, 0)), wd_iso = (\<lambda>_. []),
      wd_day = (\<lambda>_. ''2026-01-05''), wd_now = (\<lambda>_. 1000000), wd_mono = (\<lambda>_. Fin 0),
      wd_hold = (\<lambda>_. \<lparr>oh_active = True, oh_reason = [], oh_source = [], oh_scope = ''tastytrade'', oh_payload = JNull\<rparr>),
      wd_ready = (\<lambda>_. Missing), wd_positions = (\<lambda>_. Positions []), wd_import_error = (\<lambda>_. None),
      wd_gate = (\<lambda>_ _ _ _. GateResults []), wd_io = (\<lambda>_. IoOk),
      wd_answer = (\<lambda>_ v _. if v = Std Ibkr then Inl demo_timeout else Inr demo_accept), wd_stop = (\<lambda>_. False)\<rparr>"

definition demo_broker :: broker where
  "demo_broker = new_broker \<lparr>sr_crypto = ''bybit'', sr_futures = ''ibkr'', sr_log = [], sr_circuits = []\<rparr>
     (demo_routing\<lparr>rc_bots := []\<rparr>) OverrideChain (Fin 5) False 3
     (\<lambda>p. if p = Pending then [(demo_name, Parsed (order_dict demo_pending))] else []) []"

text \<open>The hold on Tastytrade does not stop the order from reaching it on failover.\<close>

lemma demo_tick: "map cl_venue (fst (router_tick demo_router_world demo_broker)) = [Std Ibkr, Std Tastytrade]"
  by code_simp

theorem sent_only_past_checks_witness:
  "\<exists>c name r j k. c \<in> set (fst (router_tick demo_router_world demo_broker)) \<and> cl_venue c = Std Tastytrade
     \<and> cleared_order demo_router_world demo_broker name r j k (cl_request c)"
proof -
  have "Std Tastytrade \<in> set (map cl_venue (fst (router_tick demo_router_world demo_broker)))" by (simp only: demo_tick) simp
  then obtain c where c: "c \<in> set (fst (router_tick demo_router_world demo_broker))" "cl_venue c = Std Tastytrade" by auto
  with sent_only_past_checks [OF c(1)] show ?thesis by blast
qed

definition demo_chain_broker :: "string list \<Rightarrow> broker" where
  "demo_chain_broker chain = demo_broker\<lparr>br_config := demo_routing\<lparr>rc_bots := [], rc_chains := [(''futures'', chain)]\<rparr>\<rparr>"

definition demo_place :: "string list \<Rightarrow> placing \<times> call list \<times> broker" where
  "demo_place chain =
     place_with_failover_chain demo_router_world demo_pending (Std Ibkr) (request_of ''MNQ'' demo_pending) (demo_chain_broker chain)"


section \<open>Corners\<close>

text \<open>
  A later venue of the chain is not checked again: a US person's order reaches an offshore exchange
  and a dormant broker when the chain names them.
\<close>

lemma chain_reaches_offshore:
  "is_us_person (wd_env demo_router_world) \<and> venue_name Bybit \<in> set non_fcm_venues
   \<and> map cl_venue (fst (snd (demo_place [''ibkr'', ''bybit'']))) = [Std Ibkr, Std Bybit]"
  by code_simp

lemma chain_reaches_dormant:
  "''tradovate'' \<in> set (dormant_brokers (wd_env demo_router_world))
   \<and> map cl_venue (fst (snd (demo_place [''ibkr'', ''tradovate'']))) = [Std Ibkr, Std Tradovate]"
  by code_simp

text \<open>A hold on Tastytrade does not block a route that names the venue by its alias.\<close>

lemma hold_misses_alias:
  "resolve_venue_adapter ''tasty'' = resolve_venue_adapter ''tastytrade''
   \<and> scope_blocks ''tastytrade'' (Some ''tastytrade'') None \<and> \<not> scope_blocks ''tastytrade'' (Some ''tasty'') None"
  by code_simp

text \<open>
  An executed order whose archive directory cannot be made stays in the queue, to be sent again; one
  whose move fails stays too, with its counter cleared.
\<close>

lemma executed_order_stays:
  assumes "wd_io w (Suc (br_ops s)) \<noteq> IoOk"
  shows "br_files (finalize_executed w r name s) = br_files s \<and> br_meta (finalize_executed w r name s) = br_meta s"
  using assms by (simp add: finalize_executed_def drop_retry_count_def Let_def record_event_def)

text \<open>A rejection whose counter cannot be written is not counted: the next try has the old number of attempts.\<close>

lemma uncounted_attempt:
  assumes "wd_io w (Suc (br_ops s)) = IoFailed" "rm_attempts meta + 1 < br_max_retries s"
  shows "br_meta (finalize_rejected w r name meta res s) = br_meta s \<and> br_files (finalize_rejected w r name meta res s) = br_files s"
  using assms by (simp add: finalize_rejected_def set_retry_count_def save_retry_meta_def write_sidecar_def Let_def)

text \<open>A new order of a bot takes the place of the one that waits for its retry.\<close>

lemma new_order_replaces_retry:
  assumes "wd_io w (br_ops s) = IoOk" "dget (br_files s Pending) name = Some new"
  shows "file_at Processing name (snd (atomic_move w Pending Processing name s)) = new"
  using assms by (simp add: atomic_move_def file_at_def)

end
