(* ===== verification/Broker_Retries.thy ===== *)
theory Broker_Retries
  imports Broker_Router
begin

text \<open>
  How often the broker router may submit one order file.  Each file carries a budget: the attempts its
  retry counter leaves it.  A lifecycle either leaves the queue, ends in an exception that changes
  nothing, or spends one attempt; ticks of the loop and files dropped by the supervisor are steps of a
  metered machine, whose interface bounds what any run of steps can use.
\<close>

section \<open>Lemmas: what one lifecycle does to the files\<close>

definition io_works :: "world \<Rightarrow> bool" where
  "io_works w = (\<forall>n. wd_io w n = IoOk)"

text \<open>Other files, the supervisor's directory and the settings are left alone.\<close>

definition frame :: "string \<Rightarrow> broker \<Rightarrow> broker \<Rightarrow> bool" where
  "frame name s t =
     (br_dry_run t = br_dry_run s \<and> br_max_retries t = br_max_retries s \<and> br_files t Pending = br_files s Pending
      \<and> (\<forall>g. g \<noteq> name \<longrightarrow> dget (br_files t Processing) g = dget (br_files s Processing) g
                       \<and> dget (br_meta t) g = dget (br_meta s) g))"

definition left_queue :: "string \<Rightarrow> broker \<Rightarrow> broker \<Rightarrow> bool" where
  "left_queue name s t =
     (frame name s t \<and> dget (br_files t Processing) name = None \<and> dget (br_meta t) name = None)"

lemma frame_refl [simp]: "frame name s s"
  by (simp add: frame_def)

lemma frame_trans: "frame name s t \<Longrightarrow> frame name t u \<Longrightarrow> frame name s u"
  by (simp add: frame_def)

lemma same_orders_frame: "same_orders s t \<Longrightarrow> frame name s t"
  by (simp add: frame_def same_orders_def)

lemma left_queue_same:
  "same_orders s s1 \<Longrightarrow> left_queue name s1 t1 \<Longrightarrow> same_orders t1 t \<Longrightarrow> left_queue name s t"
  by (simp add: left_queue_def frame_def same_orders_def)

lemma move_out:
  assumes "io_works w" "dst \<notin> {Pending, Processing}" "atomic_move w Processing dst name s = (b, t)"
  shows "frame name s t \<and> dget (br_files t Processing) name = None \<and> br_meta t = br_meta s \<and> br_submits t = br_submits s"
  using assms
  by (cases "dget (br_files s Processing) name") (auto simp: atomic_move_def io_works_def frame_def)

lemma clear_meta_left:
  assumes "io_works w" "frame name s t" "dget (br_files t Processing) name = None"
  shows "left_queue name s (clear_retry_meta w name t) \<and> br_submits (clear_retry_meta w name t) = br_submits t"
  using assms by (simp add: clear_retry_meta_def io_works_def left_queue_def frame_def)

lemma file_away_left:
  assumes "io_works w" "\<not> br_dry_run s" "dst \<notin> {Pending, Processing}"
  shows "left_queue name s (file_away w Processing dst name s) \<and> br_submits (file_away w Processing dst name s) = br_submits s"
proof -
  obtain b t where m: "atomic_move w Processing dst name s = (b, t)" by fastforce
  from move_out [OF assms(1,3) m] clear_meta_left [OF assms(1)] assms(2) m show ?thesis
    by (metis file_away_def snd_conv)
qed

lemma move_to_failed_left:
  assumes "io_works w"
  shows "left_queue name s (move_to_failed_with_meta w name m s)
    \<and> br_submits (move_to_failed_with_meta w name m s) = br_submits s"
proof -
  obtain b t where mv: "atomic_move w Processing FailedOrders name s = (b, t)" by fastforce
  let ?t = "(bump t)\<lparr>br_failed_meta := write_sidecar w name (meta_json m) t (br_failed_meta t)\<rparr>"
  have "frame name s ?t" "dget (br_files ?t Processing) name = None" "br_submits ?t = br_submits s"
    using move_out [OF assms _ mv] by (auto simp: frame_def)
  with clear_meta_left [OF assms this(1,2)] show ?thesis by (simp add: move_to_failed_with_meta_def mv)
qed

text \<open>How a lifecycle of a file that was tried \<open>n\<close> times can end.\<close>

definition lifecycle_end :: "string \<Rightarrow> int \<Rightarrow> broker \<Rightarrow> broker \<Rightarrow> bool" where
  "lifecycle_end name n s t =
     (left_queue name s t \<and> br_submits t \<in> {br_submits s, br_submits s @ [name]}
      \<or> same_orders s t
      \<or> frame name s t \<and> br_files t = br_files s \<and> br_submits t = br_submits s @ [name] \<and> n + 1 < br_max_retries s
        \<and> (\<exists>m. dget (br_meta t) name = Some (Parsed (meta_json m)) \<and> rm_attempts m = n + 1))"

lemma lifecycle_end_before:
  assumes so: "same_orders s s1" and e: "lifecycle_end name n s1 t"
  shows "lifecycle_end name n s t"
proof -
  have eqs: "br_submits s1 = br_submits s" "br_files s1 = br_files s" "br_max_retries s1 = br_max_retries s"
    using so by (simp_all add: same_orders_def)
  have "left_queue name s1 t \<Longrightarrow> left_queue name s t" using left_queue_same [OF so] by simp
  moreover have "same_orders s1 t \<Longrightarrow> same_orders s t" using so by (rule same_orders_trans)
  moreover have "frame name s1 t \<Longrightarrow> frame name s t" using frame_trans [OF same_orders_frame [OF so]] .
  ultimately show ?thesis using e unfolding lifecycle_end_def eqs by blast
qed

lemma refuse_file_end:
  assumes "io_works w" "br_dry_run s \<or> from = Processing" "dst \<notin> {Pending, Processing}"
  shows "lifecycle_end name n s (refuse_file w counter kind dst i from name s)"
proof (cases "br_dry_run s")
  case True
  then show ?thesis by (simp add: lifecycle_end_def refuse_file_def file_away_def same_orders_def)
next
  case False
  let ?s = "record_event name kind (count_up counter s)"
  have f: "left_queue name ?s (file_away w Processing dst name ?s)"
      "br_submits (file_away w Processing dst name ?s) = br_submits s"
    using file_away_left [OF assms(1) _ assms(3), of ?s name] False by simp_all
  have "left_queue name s (refuse_file w counter kind dst i Processing name s)"
    unfolding refuse_file_def by (rule left_queue_same [OF _ f(1)]) (simp_all add: same_orders_def)
  with False assms(2) f(2) show ?thesis by (simp add: lifecycle_end_def refuse_file_def)
qed

lemma handlers_end:
  assumes "io_works w" "br_dry_run s \<or> from = Processing"
  shows "lifecycle_end name n s (handle_processing_error w from name s)"
    "lifecycle_end name n s (handle_routing_error w from name s)"
    "lifecycle_end name n s (handle_unsupported w from name s)"
    "lifecycle_end name n s (handle_dormant_broker w from name s)"
    "lifecycle_end name n s (handle_unparsable w from name s)"
  using refuse_file_end [OF assms]
  by (simp_all add: handle_processing_error_def handle_routing_error_def handle_unsupported_def
      handle_dormant_broker_def handle_unparsable_def)

lemma handle_blocked_end:
  assumes "io_works w" "br_dry_run s \<or> from = Processing"
  shows "lifecycle_end name n s (handle_blocked w r from name gate s)"
proof (cases "br_dry_run s")
  case True
  then show ?thesis by (simp add: lifecycle_end_def handle_blocked_def file_away_def same_orders_def Let_def)
next
  case False
  define s2 where "s2 = (let s1 = record_event name ''blocked'' (count_up ''blocked'' s)
    in (bump s1)\<lparr>br_blocks := (if wd_io w (br_ops s1) = IoOk then dset (po_signal r) gate (br_blocks s1) else br_blocks s1)\<rparr>)"
  have so: "same_orders s s2" by (simp add: s2_def same_orders_def Let_def)
  then have f: "left_queue name s2 (file_away w Processing Blocked name s2)"
      "br_submits (file_away w Processing Blocked name s2) = br_submits s"
    using file_away_left [OF assms(1), of s2 Blocked name] False by (simp_all add: same_orders_def)
  have "left_queue name s (handle_blocked w r Processing name gate s)"
    using False unfolding handle_blocked_def Let_def
    by (auto simp: s2_def [unfolded Let_def, symmetric] intro: left_queue_same [OF so f(1)])
  moreover have "br_submits (handle_blocked w r Processing name gate s) = br_submits s"
    using False f(2) by (simp add: handle_blocked_def s2_def Let_def)
  ultimately show ?thesis using False assms(2) by (simp add: lifecycle_end_def)
qed

lemma left_queue_before: "frame name s s1 \<Longrightarrow> left_queue name s1 t \<Longrightarrow> left_queue name s t"
  by (auto simp: left_queue_def intro: frame_trans)

lemma refuse_file_left:
  assumes "io_works w" "\<not> br_dry_run s" "dst \<notin> {Pending, Processing}"
  shows "left_queue name s (refuse_file w counter kind dst i Processing name s)
    \<and> br_submits (refuse_file w counter kind dst i Processing name s) = br_submits s"
proof -
  let ?s = "record_event name kind (count_up counter s)"
  have f: "left_queue name ?s (file_away w Processing dst name ?s)"
      "br_submits (file_away w Processing dst name ?s) = br_submits s"
    using file_away_left [OF assms(1) _ assms(3), of ?s name] assms(2) by simp_all
  have "left_queue name s (refuse_file w counter kind dst i Processing name s)"
    unfolding refuse_file_def by (rule left_queue_same [OF _ f(1)]) (simp_all add: same_orders_def)
  with f(2) show ?thesis by (simp add: refuse_file_def)
qed

lemma save_meta_frame:
  "io_works w \<Longrightarrow> frame name s (save_retry_meta w name m s) \<and> br_files (save_retry_meta w name m s) = br_files s
     \<and> br_submits (save_retry_meta w name m s) = br_submits s
     \<and> dget (br_meta (save_retry_meta w name m s)) name = Some (Parsed (meta_json m))"
  by (simp add: save_retry_meta_def write_sidecar_def io_works_def frame_def)

text \<open>A submission either takes the file out of the queue or writes one more attempt.\<close>

lemma same_orders_bookkeeping [simp]:
  "same_orders s (set_retry_count k n t) = same_orders s t" "same_orders s (drop_retry_count k t) = same_orders s t"
  "same_orders s (record_fill w r v res t) = same_orders s t" "same_orders s (count_up k t) = same_orders s t"
  "same_orders s (record_event f e t) = same_orders s t" "same_orders s (safe_journal w i l t) = same_orders s t"
  by (simp_all add: same_orders_def set_retry_count_def drop_retry_count_def record_fill_def)

lemma executed_end:
  assumes io: "io_works w" and dry: "\<not> br_dry_run s"
  shows "left_queue name s (finalize_executed w r name s) \<and> br_submits (finalize_executed w r name s) = br_submits s"
proof -
  define s1 where "s1 = drop_retry_count (po_signal r) (record_event name ''executed'' (count_up ''filled'' s))"
  define dated where "dated = Archive (wd_day w (wd_now w (br_ops s1)))"
  define u where "u = file_away w Processing dated name (bump (bump s1))"
  have so: "same_orders s (bump (bump s1))" by (simp add: s1_def)
  then have "\<not> br_dry_run (bump (bump s1))" using dry by (simp add: same_orders_def)
  from file_away_left [OF io this, of dated name]
  have "left_queue name (bump (bump s1)) u" "br_submits u = br_submits (bump (bump s1))" by (simp_all add: u_def dated_def)
  moreover have "finalize_executed w r name s = safe_journal w ExecutedOrder (po_signal r) u"
    using io by (simp add: finalize_executed_def s1_def [symmetric] dated_def u_def Let_def io_works_def)
  ultimately show ?thesis using so by (auto simp: same_orders_def intro: left_queue_same [OF so])
qed

lemma rejected_end:
  assumes io: "io_works w"
  shows "left_queue name s (finalize_rejected w r name meta res s)
      \<and> br_submits (finalize_rejected w r name meta res s) = br_submits s
    \<or> frame name s (finalize_rejected w r name meta res s) \<and> br_files (finalize_rejected w r name meta res s) = br_files s
      \<and> br_submits (finalize_rejected w r name meta res s) = br_submits s \<and> rm_attempts meta + 1 < br_max_retries s
      \<and> (\<exists>m. dget (br_meta (finalize_rejected w r name meta res s)) name = Some (Parsed (meta_json m))
             \<and> rm_attempts m = rm_attempts meta + 1)"
proof -
  define n where "n = rm_attempts meta + 1"
  define s2 where "s2 = set_retry_count (po_signal r) n (bump (count_up ''rejected'' s))"
  define m where "m = \<lparr>rm_attempts = n, rm_ts = wd_iso w (wd_now w (br_ops (count_up ''rejected'' s))), rm_reason = or_id res\<rparr>"
  define u where "u = move_to_failed_with_meta w name m (record_event name ''failed'' (count_up ''failed'' s2))"
  have so: "same_orders s s2" "same_orders s (record_event name ''failed'' (count_up ''failed'' s2))" by (simp_all add: s2_def)
  have f: "finalize_rejected w r name meta res s = (if br_max_retries s2 \<le> n
      then drop_retry_count (po_signal r) (safe_journal w FailedOrder (po_signal r) u)
      else safe_journal w RejectedRetry (po_signal r) (record_event name ''rejected_retry'' (save_retry_meta w name m s2)))"
    unfolding finalize_rejected_def Let_def n_def s2_def m_def u_def ..
  show ?thesis
  proof (cases "br_max_retries s2 \<le> n")
    case True
    have l: "left_queue name (record_event name ''failed'' (count_up ''failed'' s2)) u"
      "br_submits u = br_submits (record_event name ''failed'' (count_up ''failed'' s2))"
      using move_to_failed_left [OF io] by (simp_all add: u_def)
    have "left_queue name s (drop_retry_count (po_signal r) (safe_journal w FailedOrder (po_signal r) u))"
      by (rule left_queue_same [OF so(2) l(1)]) simp
    moreover have "br_submits u = br_submits s" using l(2) so(2) by (simp add: same_orders_def)
    ultimately show ?thesis using True by (simp add: f drop_retry_count_def)
  next
    case False
    from save_meta_frame [OF io, of name s2 m] so(1) False
    have "frame name s (save_retry_meta w name m s2)" "br_files (save_retry_meta w name m s2) = br_files s"
      "br_submits (save_retry_meta w name m s2) = br_submits s" "n < br_max_retries s"
      "dget (br_meta (save_retry_meta w name m s2)) name = Some (Parsed (meta_json m))"
      by (auto simp: same_orders_def intro: frame_trans [OF same_orders_frame [OF so(1)]])
    with False show ?thesis by (auto simp: f frame_def m_def n_def)
  qed
qed

lemma submit_end:
  assumes io: "io_works w" and dry: "\<not> br_dry_run s"
    and sub: "submit_and_finalize w r name v req meta s = (calls, t)"
  shows "lifecycle_end name (rm_attempts meta) s t"
proof -
  let ?s = "start_submission name s"
  have st: "frame name s ?s" "br_submits ?s = br_submits s @ [name]" "br_files ?s = br_files s"
    "br_max_retries ?s = br_max_retries s" "\<not> br_dry_run ?s"
    using dry by (simp_all add: start_submission_def frame_def)
  obtain p calls' s1 where pl: "place_with_failover_chain w r v req ?s = (p, calls', s1)" by (metis prod_cases3)
  then have so: "same_orders ?s s1" using place_chain_post by (auto simp: chain_post_def)
  define s2 where "s2 = (case p of Placed res v' \<Rightarrow> record_fill w r v' res s1 | _ \<Rightarrow> s1)"
  have so2: "same_orders ?s s2" using so by (simp add: s2_def split: placing.split)
  then have d2: "\<not> br_dry_run s2" and fr: "frame name s s2"
    using st(5) frame_trans [OF st(1) same_orders_frame [OF so2]] by (simp_all add: same_orders_def)
  have "left_queue name s2 t \<and> br_submits t = br_submits s2
    \<or> frame name s2 t \<and> br_files t = br_files s2 \<and> br_submits t = br_submits s2 \<and> rm_attempts meta + 1 < br_max_retries s2
      \<and> (\<exists>m. dget (br_meta t) name = Some (Parsed (meta_json m)) \<and> rm_attempts m = rm_attempts meta + 1)"
  proof (cases p)
    case (Placed res v')
    then have "t = (if or_status res = Rejected then finalize_rejected w r name meta res s2 else finalize_executed w r name s2)"
      using sub pl by (auto simp: submit_and_finalize_def s2_def)
    with executed_end [OF io d2, of name r] rejected_end [OF io, of name s2 r meta res] show ?thesis
      by (cases "or_status res = Rejected") simp_all
  qed (use sub pl refuse_file_left [OF io d2] in \<open>auto simp: submit_and_finalize_def s2_def handle_routing_error_def\<close>)
  moreover have "br_submits s2 = br_submits s @ [name]" "br_files s2 = br_files s" "br_max_retries s2 = br_max_retries s"
    using so2 st by (simp_all add: same_orders_def)
  ultimately show ?thesis unfolding lifecycle_end_def
    using left_queue_before [OF fr] frame_trans [OF fr] by auto
qed

lemma same_orders_end: "same_orders s t \<Longrightarrow> lifecycle_end name n s t"
  by (simp add: lifecycle_end_def)

lemma same_orders_left [simp]:
  "same_orders (bump s) t = same_orders s t" "same_orders (count_up k s) t = same_orders s t"
  by (simp_all add: same_orders_def)

text \<open>The refusals, started from any state with the same orders.\<close>

lemma refusals_end:
  assumes io: "io_works w" and d: "br_dry_run s \<or> from = Processing" and so: "same_orders s s1"
  shows "lifecycle_end name n s (handle_blocked w r from name g s1)"
    "lifecycle_end name n s (handle_routing_error w from name s1)"
    "lifecycle_end name n s (handle_unsupported w from name s1)"
    "lifecycle_end name n s (handle_dormant_broker w from name s1)"
proof -
  have d1: "br_dry_run s1 \<or> from = Processing" using d so by (simp add: same_orders_def)
  note h = handlers_end [OF io d1] handle_blocked_end [OF io d1]
  show "lifecycle_end name n s (handle_blocked w r from name g s1)"
    "lifecycle_end name n s (handle_routing_error w from name s1)"
    "lifecycle_end name n s (handle_unsupported w from name s1)"
    "lifecycle_end name n s (handle_dormant_broker w from name s1)"
    using so by (intro lifecycle_end_before [OF so] h)+
qed

lemma check_order_end:
  assumes io: "io_works w" and d: "br_dry_run s \<or> from = Processing" and c: "check_order w r from name s = Inl t"
  shows "lifecycle_end name n s t"
  using c by (auto simp: check_order_def Let_def intro!: refusals_end [OF io d] intro: same_orders_end dest!: same_orders_gates
      split: sum.splits option.splits prod.splits)

lemma route_pending_end:
  assumes io: "io_works w" and d: "br_dry_run s \<or> from = Processing" and c: "route_pending w r from name s = Inl t"
  shows "lifecycle_end name n s t"
  using c by (auto simp: route_pending_def Let_def intro!: refusals_end [OF io d] intro: same_orders_end dest!: pick_venue_same
      split: sum.splits option.splits prod.splits if_splits)

lemma run_lifecycle_end:
  assumes io: "io_works w" and d: "br_dry_run s \<or> from = Processing" and l: "run_lifecycle w from name meta s = (calls, t)"
  shows "lifecycle_end name (rm_attempts meta) s t"
proof (cases "parse_pending_file (wd_show w) name (file_at from name s)")
  case (Inl x)
  with l have "t \<in> {handle_unparsable w from name s, handle_processing_error w from name s}"
    by (auto simp: run_lifecycle_def split: pyexc.splits)
  with handlers_end [OF io d] show ?thesis by auto
next
  case (Inr r)
  let ?s = "count_up ''parsed'' s"
  show ?thesis
  proof (cases "check_order w r from name ?s")
    case (Inl s1)
    with l Inr have "t = s1" by (simp add: run_lifecycle_def)
    with check_order_end [OF io _ Inl] d show ?thesis by (auto intro: lifecycle_end_before [of s ?s])
  next
    case passed: (Inr s1)
    then have so1: "same_orders s s1" using check_order_passed by (fastforce simp: same_orders_def)
    then have d1: "br_dry_run s1 \<or> from = Processing" using d by (simp add: same_orders_def)
    show ?thesis
    proof (cases "route_pending w r from name s1")
      case (Inl s2)
      with l Inr passed have "t = s2" by (simp add: run_lifecycle_def)
      with route_pending_end [OF io d1 Inl] so1 show ?thesis by (auto intro: lifecycle_end_before)
    next
      case routed: (Inr y)
      obtain v req s2 where y: "y = (v, req, s2)" by (cases y)
      have so2: "same_orders s s2" using route_pending_passed routed [unfolded y] so1 by (blast intro: same_orders_trans)
      show ?thesis
      proof (cases "br_dry_run s2")
        case True
        with l Inr passed routed y have "t = safe_journal w DryRunOrder (po_signal r) s2" by (simp add: run_lifecycle_def)
        with so2 show ?thesis by (simp add: same_orders_end)
      next
        case False
        with l Inr passed routed y have "submit_and_finalize w r name v req meta s2 = (calls, t)" by (simp add: run_lifecycle_def)
        from lifecycle_end_before [OF so2 submit_end [OF io False this]] show ?thesis .
      qed
    qed
  qed
qed

text \<open>A file that is not there is never submitted.\<close>

lemma missing_not_submitted:
  assumes io: "io_works w" and d: "br_dry_run s \<or> from = Processing"
    and l: "run_lifecycle w from name meta s = (calls, t)" and m: "dget (br_files s from) name = None"
  shows "br_submits t = br_submits s"
proof -
  have "parse_pending_file sj name Missing = Inl ValueError" for sj
    by (simp add: parse_pending_file_def bot_of_file_def Let_def)
  then have t: "t = handle_unparsable w from name s" using l m by (simp add: run_lifecycle_def file_at_def)
  show ?thesis
  proof (cases "br_dry_run s")
    case True
    then show ?thesis by (simp add: t handle_unparsable_def refuse_file_def file_away_def)
  next
    case False
    with d refuse_file_left [OF io False] show ?thesis by (simp add: t handle_unparsable_def)
  qed
qed

section \<open>Budgets\<close>

text \<open>
  A metered machine: every step may use up resources, but no more than the budget falls by plus what
  the step is granted.
\<close>

locale metered = machine +
  fixes used :: "'a \<Rightarrow> nat" and budget :: "'a \<Rightarrow> nat" and grant :: "'b \<Rightarrow> nat"
  assumes spend: "inv s \<Longrightarrow> ok e \<Longrightarrow> used (step s e) + budget (step s e) \<le> used s + budget s + grant e"
begin

lemma run_spend:
  "inv s \<Longrightarrow> list_all ok es \<Longrightarrow>
   used (foldl step s es) + budget (foldl step s es) \<le> used s + budget s + sum_list (map grant es)"
proof (induction es arbitrary: s)
  case (Cons e es)
  then have "used (step s e) + budget (step s e) \<le> used s + budget s + grant e" by (simp add: spend)
  with Cons.IH [of "step s e"] Cons.prems show ?case by (simp add: inv_step)
qed simp

end

text \<open>The attempts a file has behind it, as its retry counter tells, and what it has left.\<close>

definition tried :: "string \<Rightarrow> broker \<Rightarrow> pyexc + int" where
  "tried name s =
     (case dget (br_meta s) name of
        Some (Parsed (JObj d)) \<Rightarrow> attempts_of d | Some (Parsed _) \<Rightarrow> Inl AttributeError | _ \<Rightarrow> Inr 0)"

definition file_submits :: "string \<Rightarrow> broker \<Rightarrow> nat" where
  "file_submits name s = length (filter ((=) name) (br_submits s))"

definition waiting :: "string \<Rightarrow> broker \<Rightarrow> nat" where
  "waiting name s = (if dget (br_files s Pending) name = None then 0 else nat (br_max_retries s))"

definition queued :: "string \<Rightarrow> broker \<Rightarrow> nat" where
  "queued name s =
     (if dget (br_files s Processing) name = None then 0
      else case tried name s of Inr n \<Rightarrow> nat (br_max_retries s - n) | Inl _ \<Rightarrow> 0)"

definition attempts_left :: "string \<Rightarrow> broker \<Rightarrow> nat" where
  "attempts_left name s = waiting name s + queued name s"

definition retry_inv :: "int \<Rightarrow> string \<Rightarrow> broker \<Rightarrow> bool" where
  "retry_inv m name s =
     (\<not> br_dry_run s \<and> br_max_retries s = m \<and> (case tried name s of Inr n \<Rightarrow> 0 \<le> n | Inl _ \<Rightarrow> True))"

lemma tried_meta_json: "dget (br_meta s) name = Some (Parsed (meta_json m)) \<Longrightarrow> tried name s = Inr (rm_attempts m)"
  by (simp add: tried_def meta_json_def attempts_of_def jget_def dget_or_def Let_def)

lemma loaded_tried: "load_retry_meta w name s = Inr m \<Longrightarrow> tried name s = Inr (rm_attempts m)"
  by (auto simp: load_retry_meta_def tried_def empty_meta_def split: option.splits jfile.splits json.splits)

text \<open>Nothing about a file depends on more than its own entries.\<close>

definition same_file :: "string \<Rightarrow> broker \<Rightarrow> broker \<Rightarrow> bool" where
  "same_file name s t =
     (br_dry_run t = br_dry_run s \<and> br_max_retries t = br_max_retries s
      \<and> dget (br_files t Pending) name = dget (br_files s Pending) name
      \<and> dget (br_files t Processing) name = dget (br_files s Processing) name
      \<and> dget (br_meta t) name = dget (br_meta s) name \<and> file_submits name t = file_submits name s)"

lemma same_file_measures:
  assumes "same_file name s t"
  shows "retry_inv m name t = retry_inv m name s" "file_submits name t = file_submits name s"
    "waiting name t = waiting name s" "queued name t = queued name s"
proof -
  have "tried name t = tried name s" using assms by (simp add: same_file_def tried_def)
  then show "retry_inv m name t = retry_inv m name s" "file_submits name t = file_submits name s"
    "waiting name t = waiting name s" "queued name t = queued name s"
    using assms by (simp_all add: same_file_def retry_inv_def waiting_def queued_def split: sum.split)
qed

lemma same_orders_file: "same_orders s t \<Longrightarrow> same_file name s t"
  by (simp add: same_orders_def same_file_def file_submits_def)

lemma other_file: "lifecycle_end g n s t \<Longrightarrow> g \<noteq> name \<Longrightarrow> same_file name s t"
  by (auto simp: lifecycle_end_def left_queue_def frame_def same_orders_def same_file_def file_submits_def)

text \<open>A lifecycle of the file itself uses at most what its counter left.\<close>

lemma own_file:
  assumes e: "lifecycle_end name n s t" and n: "0 \<le> n" "n < m" and i: "retry_inv m name s"
    and present: "dget (br_files s Processing) name = None \<Longrightarrow> br_submits t = br_submits s"
  shows "retry_inv m name t \<and> file_submits name t + attempts_left name t
    \<le> file_submits name s + waiting name s + max (nat (m - n)) (queued name s)"
proof -
  from e consider (left) "left_queue name s t" "br_submits t \<in> {br_submits s, br_submits s @ [name]}"
    | (same) "same_orders s t"
    | (retry) m' where "frame name s t" "br_files t = br_files s" "br_submits t = br_submits s @ [name]"
        "dget (br_meta t) name = Some (Parsed (meta_json m'))" "rm_attempts m' = n + 1"
    unfolding lifecycle_end_def by blast
  then show ?thesis
  proof cases
    case left
    then have "retry_inv m name t" "queued name t = 0" "waiting name t = waiting name s"
      using i by (auto simp: left_queue_def frame_def retry_inv_def tried_def queued_def waiting_def)
    moreover have "file_submits name t \<le> Suc (file_submits name s)" using left(2) by (auto simp: file_submits_def)
    ultimately show ?thesis using n by (simp add: attempts_left_def)
  next
    case same
    note f = same_file_measures [OF same_orders_file [OF same]]
    show ?thesis using i f(1) [where m = m] f(2-4) by (simp add: attempts_left_def)
  next
    case retry
    then have t: "tried name t = Inr (n + 1)" using tried_meta_json by simp
    then have "retry_inv m name t" "queued name t \<le> nat (m - (n + 1))" "waiting name t = waiting name s"
      "file_submits name t = Suc (file_submits name s)"
      using retry i n by (auto simp: frame_def retry_inv_def queued_def waiting_def file_submits_def)
    then show ?thesis using n by (simp add: attempts_left_def)
  qed
qed

section \<open>The loop keeps within the budget\<close>

text \<open>A step keeps a file's account: the invariant holds after it, and no attempt is used twice.\<close>

definition in_budget :: "int \<Rightarrow> string \<Rightarrow> broker \<Rightarrow> broker \<Rightarrow> bool" where
  "in_budget m name s t =
     (retry_inv m name t \<and> file_submits name t + attempts_left name t \<le> file_submits name s + attempts_left name s)"

lemma in_budget_trans: "in_budget m name s t \<Longrightarrow> in_budget m name t u \<Longrightarrow> in_budget m name s u"
  by (simp add: in_budget_def)

lemma in_budget_same_file: "retry_inv m name s \<Longrightarrow> same_file name s t \<Longrightarrow> in_budget m name s t"
  using same_file_measures [of name s t] by (simp add: in_budget_def attempts_left_def)

lemma in_budget_before: "same_file name s s1 \<Longrightarrow> in_budget m name s1 t \<Longrightarrow> in_budget m name s t"
  using same_file_measures [of name s s1] by (simp add: in_budget_def attempts_left_def)

lemma hold_same: "hold_blocks_file w p name s = (b, t) \<Longrightarrow> same_orders s t"
  by (auto simp: hold_blocks_file_def Let_def split: if_splits)

lemma retry_within:
  assumes io: "io_works w" and i: "retry_inv m name s" and r: "process_retry_file w g s = (calls, t)"
  shows "in_budget m name s t"
proof (cases "load_retry_meta w g s")
  case (Inl x)
  with r i show ?thesis by (simp add: process_retry_file_def in_budget_def)
next
  case (Inr meta)
  show ?thesis
  proof (cases "br_max_retries s \<le> rm_attempts meta")
    case True
    let ?s = "record_event g ''failed'' (count_up ''failed'' s)"
    have "t = move_to_failed_with_meta w g meta ?s" using r Inr True by (simp add: process_retry_file_def)
    with move_to_failed_left [OF io, of g ?s meta] have l: "left_queue g s t" "br_submits t = br_submits s"
      by (auto simp: left_queue_def frame_def)
    show ?thesis
    proof (cases "g = name")
      case True
      with l i show ?thesis
        by (auto simp: in_budget_def retry_inv_def left_queue_def frame_def tried_def file_submits_def attempts_left_def
            queued_def waiting_def)
    next
      case False
      with l have "same_file name s t" by (auto simp: left_queue_def frame_def same_file_def file_submits_def)
      with i show ?thesis by (rule in_budget_same_file)
    qed
  next
    case False
    consider (skip) "same_orders s t"
      | (life) s1 where "same_orders s s1" "run_lifecycle w Processing g meta s1 = (calls, t)"
      using r Inr False
      by (auto simp: process_retry_file_def split: sum.splits bool.splits prod.splits dest!: hold_same)
    then show ?thesis
    proof cases
      case skip
      with i show ?thesis by (blast intro: in_budget_same_file same_orders_file)
    next
      case life
      have e: "lifecycle_end g (rm_attempts meta) s1 t"
        using run_lifecycle_end [OF io _ life(2)] by simp
      have b: "same_file name s s1" using life(1) by (rule same_orders_file)
      have i1: "retry_inv m name s1" using i same_file_measures(1) [OF b] by simp
      show ?thesis
      proof (cases "g = name")
        case True
        have tr: "tried name s = Inr (rm_attempts meta)" using loaded_tried [OF Inr] True by simp
        then have n: "0 \<le> rm_attempts meta" "rm_attempts meta < m" using i False by (simp_all add: retry_inv_def)
        have pr: "br_submits t = br_submits s1" if "dget (br_files s1 Processing) name = None"
          using missing_not_submitted [OF io _ life(2)] that True by simp
        have tr1: "tried name s1 = Inr (rm_attempts meta)" using tr b by (simp add: same_file_def tried_def)
        show ?thesis
        proof (cases "dget (br_files s1 Processing) name = None")
          case absent: True
          then have "br_submits t = br_submits s1" by (rule pr)
          with e True i1 absent have "in_budget m name s1 t"
            by (auto simp: lifecycle_end_def left_queue_def frame_def same_orders_def in_budget_def retry_inv_def tried_def
                file_submits_def attempts_left_def queued_def waiting_def)
          with b show ?thesis by (rule in_budget_before)
        next
          case False
          then have "queued name s1 = nat (m - rm_attempts meta)" using tr1 i1 by (auto simp: queued_def retry_inv_def)
          with own_file [OF e [unfolded True] n i1 pr] have "in_budget m name s1 t" by (simp add: in_budget_def attempts_left_def)
          with b show ?thesis by (rule in_budget_before)
        qed
      next
        case False
        from in_budget_same_file [OF i1 other_file [OF e False]] b show ?thesis by (blast intro: in_budget_before)
      qed
    qed
  qed
qed

lemma move_in:
  assumes io: "io_works w" and m: "atomic_move w Pending Processing g s = (True, t)"
  shows "g \<noteq> name \<Longrightarrow> same_file name s t"
    and "dget (br_files s Pending) g \<noteq> None" "dget (br_files t Pending) g = None" "br_meta t = br_meta s"
      "br_submits t = br_submits s" "br_max_retries t = br_max_retries s" "br_dry_run t = br_dry_run s"
  using m by (auto simp: atomic_move_def same_file_def file_submits_def split: io_outcome.splits option.splits)

lemma pending_within:
  assumes io: "io_works w" and i: "retry_inv m name s" and m: "0 < m" and p: "process_pending_file w g s = (calls, t)"
  shows "in_budget m name s t"
proof -
  obtain b s1 where h: "hold_blocks_file w Pending g s = (b, s1)" by fastforce
  note so = hold_same [OF h]
  have i1: "retry_inv m name s1" using i same_file_measures(1) [OF same_orders_file [OF so]] by simp
  have "in_budget m name s1 t"
  proof (cases "b \<or> (\<exists>s2. atomic_move w Pending Processing g s1 = (False, s2))")
    case True
    then have "same_orders s1 t" using p h i1
      by (cases b) (auto simp: process_pending_file_def atomic_move_def retry_inv_def split: io_outcome.splits option.splits)
    with i1 show ?thesis by (blast intro: in_budget_same_file same_orders_file)
  next
    case False
    then obtain s2 where mv: "atomic_move w Pending Processing g s1 = (True, s2)" by (metis (full_types) surj_pair)
    have l: "run_lifecycle w Processing g empty_meta s2 = (calls, t)"
      using p h False mv i1 by (simp add: process_pending_file_def retry_inv_def split: if_splits)
    have e: "lifecycle_end g 0 s2 t" using run_lifecycle_end [OF io _ l] by (simp add: empty_meta_def)
    show ?thesis
    proof (cases "g = name")
      case True
      note mi = move_in(2-) [OF io mv, unfolded True]
      have tr: "tried name s2 = tried name s1" using mi by (simp add: tried_def)
      have i2: "retry_inv m name s2" using i1 mi tr by (simp add: retry_inv_def)
      have "br_submits t = br_submits s2" if "dget (br_files s2 Processing) name = None"
        using missing_not_submitted [OF io _ l] that True by simp
      from own_file [OF e [unfolded True] _ m i2 this]
      have o: "retry_inv m name t" "file_submits name t + attempts_left name t
          \<le> file_submits name s2 + waiting name s2 + max (nat m) (queued name s2)" by simp_all
      moreover have "queued name s2 \<le> nat m" using i2 by (auto simp: queued_def retry_inv_def split: sum.splits)
      moreover have "waiting name s2 = 0" "waiting name s1 = nat m" "file_submits name s2 = file_submits name s1"
        using mi i1 by (auto simp: waiting_def file_submits_def retry_inv_def)
      ultimately show ?thesis by (simp add: in_budget_def attempts_left_def)
    next
      case False
      note f = move_in(1) [OF io mv False]
      have "retry_inv m name s2" using i1 same_file_measures(1) [OF f] by simp
      from in_budget_same_file [OF this other_file [OF e False]] f show ?thesis by (blast intro: in_budget_before)
    qed
  qed
  with same_orders_file [OF so] show ?thesis by (blast intro: in_budget_before)
qed

lemma each_file_in_budget:
  assumes "\<And>g s calls t. retry_inv m name s \<Longrightarrow> f g s = (calls, t) \<Longrightarrow> in_budget m name s t"
    and "retry_inv m name s" "each_file w f ns s = (calls, t)"
  shows "in_budget m name s t"
  using assms(2,3)
proof (induction ns arbitrary: s calls t)
  case Nil
  then show ?case by (simp add: in_budget_def)
next
  case (Cons n ns)
  show ?case
  proof (cases "br_stopped s \<or> wd_stop w (br_ops s)")
    case True
    with Cons.prems have "same_orders s t" by (auto simp: same_orders_def)
    with Cons.prems(1) show ?thesis by (blast intro: in_budget_same_file same_orders_file)
  next
    case False
    obtain c1 s1 where f: "f n s = (c1, s1)" by fastforce
    obtain c2 s2 where r: "each_file w f ns s1 = (c2, s2)" by fastforce
    have b: "in_budget m name s s1" using assms(1) [OF Cons.prems(1) f] .
    then have "in_budget m name s1 s2" using Cons.IH [OF _ r] by (simp add: in_budget_def)
    with b False f r Cons.prems(2) show ?thesis by (auto intro: in_budget_trans)
  qed
qed

lemma tick_in_budget:
  assumes io: "io_works w" and m: "0 < m" and i: "retry_inv m name s"
  shows "in_budget m name s (snd (router_tick w s))"
proof -
  let ?hold = "order_entry_hold w s"
  have same: "in_budget m name s t" if "same_orders s t" for t
    using i that by (blast intro: in_budget_same_file same_orders_file)
  show ?thesis
  proof (cases "oh_active ?hold \<and> oh_scope ?hold = ''all''")
    case True
    have "same_orders s (emit_heartbeat w ?hold (record_event ''runtime'' ''order_entry_hold'' (count_up ''held'' (bump s))))"
      by (rule same_orders_trans [OF _ same_orders_heartbeat]) simp
    with True same show ?thesis by (simp add: router_tick_def Let_def)
  next
    case False
    let ?s1 = "emit_heartbeat w ?hold (bump s)"
    obtain c2 s2 where p: "each_file w (process_pending_file w) (order_files w Pending ?s1) (bump ?s1) = (c2, s2)" by fastforce
    obtain c3 s3 where q: "each_file w (process_retry_file w) (order_files w Processing s2) (bump s2) = (c3, s3)" by fastforce
    have "same_orders s (bump ?s1)" using same_orders_trans [OF _ same_orders_heartbeat] by simp
    then have b1: "in_budget m name s (bump ?s1)" by (rule same)
    then have i1: "retry_inv m name (bump ?s1)" by (simp add: in_budget_def)
    have b2: "in_budget m name (bump ?s1) s2"
      by (rule each_file_in_budget [OF pending_within [OF io _ m] i1 p]) auto
    then have i2: "retry_inv m name s2" by (simp add: in_budget_def)
    have b3: "in_budget m name s2 (bump s2)" by (rule in_budget_same_file [OF i2 same_orders_file]) simp
    then have i3: "retry_inv m name (bump s2)" by (simp add: in_budget_def)
    have b4: "in_budget m name (bump s2) s3"
      by (rule each_file_in_budget [OF retry_within [OF io] i3 q]) auto
    have b5: "in_budget m name s3 (emit_heartbeat w ?hold s3)"
      using b4 by (intro in_budget_same_file same_orders_file same_orders_heartbeat) (simp add: in_budget_def)
    have "snd (router_tick w s) = emit_heartbeat w ?hold s3"
      using False p q i2 by (auto simp: router_tick_def Let_def retry_inv_def)
    with b1 b2 b3 b4 b5 show ?thesis by (metis in_budget_trans)
  qed
qed

definition works :: "event \<Rightarrow> bool" where
  "works ev = (case ev of Tick w \<Rightarrow> io_works w | Drop _ _ \<Rightarrow> True)"

definition drops :: "string \<Rightarrow> event \<Rightarrow> bool" where
  "drops name ev = (case ev of Drop g _ \<Rightarrow> g = name | Tick _ \<Rightarrow> False)"

lemma drop_spends:
  assumes "retry_inv m name s"
  shows "retry_inv m name (broker_step s (Drop g f))
    \<and> file_submits name (broker_step s (Drop g f)) + attempts_left name (broker_step s (Drop g f))
      \<le> file_submits name s + attempts_left name s + (if g = name then nat m else 0)"
  using assms
  by (auto simp: broker_step_def retry_inv_def tried_def file_submits_def attempts_left_def waiting_def queued_def
      split: sum.splits)

interpretation retries: metered broker_step "\<lambda>s. 0 < m \<and> retry_inv m name s" works "file_submits name" "attempts_left name"
  "\<lambda>ev. if drops name ev then nat m else 0" for m name
proof unfold_locales
  fix s ev
  assume "0 < m \<and> retry_inv m name s" "works ev"
  then have "0 < m \<and> retry_inv m name (broker_step s ev)
    \<and> file_submits name (broker_step s ev) + attempts_left name (broker_step s ev)
      \<le> file_submits name s + attempts_left name s + (if drops name ev then nat m else 0)"
    using tick_in_budget drop_spends
    by (cases ev) (fastforce simp: works_def drops_def broker_step_def in_budget_def)+
  then show "0 < m \<and> retry_inv m name (broker_step s ev)"
    "file_submits name (broker_step s ev) + attempts_left name (broker_step s ev)
      \<le> file_submits name s + attempts_left name s + (if drops name ev then nat m else 0)" by simp_all
qed

section \<open>Properties\<close>

text \<open>
  C2. Retries are bounded: in any run of the loop and the supervisor in which file operations
  succeed, whatever the venues, gates, holds and clocks do, a file of a given name is submitted at
  most as often as its retry counter leaves it plus the retry limit once for every time the
  supervisor drops a file of that name; so one dropped order reaches the venues at most
  \<open>max_retries\<close> times.
\<close>

theorem submissions_bounded:
  assumes "retry_inv m name s" "0 < m" "list_all works es"
  shows "file_submits name (foldl broker_step s es)
    \<le> file_submits name s + attempts_left name s + nat m * length (filter (drops name) es)"
proof -
  have "sum_list (map (\<lambda>ev. if drops name ev then nat m else 0) es) = nat m * length (filter (drops name) es)"
    by (induction es) simp_all
  with retries.run_spend [of m name s es] assms show ?thesis by simp
qed

lemma demo_budget: "retry_inv 3 demo_name demo_broker \<and> file_submits demo_name demo_broker = 0 \<and> attempts_left demo_name demo_broker = 3"
  by (simp add: retry_inv_def tried_def file_submits_def attempts_left_def waiting_def queued_def demo_broker_def new_broker_def)

theorem submissions_bounded_witness:
  "file_submits demo_name (foldl broker_step demo_broker [Tick demo_router_world, Drop demo_name Garbled, Tick demo_router_world]) \<le> 6"
proof -
  have "list_all works [Tick demo_router_world, Drop demo_name Garbled, Tick demo_router_world]"
    by (simp add: works_def io_works_def demo_router_world_def)
  from submissions_bounded [OF _ _ this, of 3 demo_name demo_broker] demo_budget show ?thesis
    by (simp add: drops_def)
qed

end
