(* ===== verification/Two_Factor.thy ===== *)
theory Two_Factor
  imports Decimal "HOL-Library.Word"
begin

unbundle bit_operations_syntax

text \<open>
  \<open>core/two_factor.py\<close>: one-time codes (RFC 4226 and 6238) and the gate in front of the operations on
  the cold wallet.  Bytes are 8-bit words.  HMAC-SHA1 is an argument; what is used of it is that a
  digest has twenty bytes.  A reading of the clock is a rational number of seconds: below \<open>2 ^ 53\<close>
  the division of floats by the step is exact.
\<close>

section \<open>Base 32\<close>

type_synonym u8 = "8 word"

type_synonym hmac = "u8 list \<Rightarrow> u8 list \<Rightarrow> u8 list"

text \<open>Numbers in a base, most significant digit first.\<close>

definition value_in :: "nat \<Rightarrow> nat list \<Rightarrow> nat" where
  "value_in b ds = foldl (\<lambda>n d. b * n + d) 0 ds"

fun digits_in :: "nat \<Rightarrow> nat \<Rightarrow> nat \<Rightarrow> nat list" where
  "digits_in b 0 n = []"
| "digits_in b (Suc k) n = digits_in b k (n div b) @ [n mod b]"

definition b32_char :: "nat \<Rightarrow> char" where
  "b32_char n = (if n < 26 then char_of (65 + n) else char_of (24 + n))"

definition b32_value :: "char \<Rightarrow> nat option" where
  "b32_value c =
     (if 65 \<le> code_of c \<and> code_of c \<le> 90 then Some (code_of c - 65)
      else if 50 \<le> code_of c \<and> code_of c \<le> 55 then Some (code_of c - 24) else None)"

datatype totp_error = BadBase32 | CounterRange | DigestTooShort

fun b32_values :: "string \<Rightarrow> totp_error + nat list" where
  "b32_values [] = Inr []"
| "b32_values (c # cs) =
     (case b32_value c of None \<Rightarrow> Inl BadBase32 | Some v \<Rightarrow> rbind (b32_values cs) (\<lambda>vs. Inr (v # vs)))"

definition bytes_of :: "nat \<Rightarrow> u8 list" where
  "bytes_of n = map of_nat (digits_in 256 5 n)"

text \<open>
  \<open>base64.b32decode\<close>: groups of eight characters are five bytes; of the last group as many as its padding
  leaves.
\<close>

fun decode_groups :: "nat \<Rightarrow> string \<Rightarrow> totp_error + u8 list" where
  "decode_groups pad [] = Inr []"
| "decode_groups pad (c # cs) =
     rbind (b32_values (take 8 (c # cs))) (\<lambda>vs.
       if length (c # cs) \<le> 8
       then Inr (take ((43 - 5 * pad) div 8) (bytes_of (value_in 32 vs * 32 ^ pad)))
       else rbind (decode_groups pad (drop 8 (c # cs))) (\<lambda>bs. Inr (bytes_of (value_in 32 vs) @ bs)))"

definition is_pad :: "char \<Rightarrow> bool" where
  "is_pad c = (c = CHR ''='')"

definition b32decode :: "string \<Rightarrow> totp_error + u8 list" where
  "b32decode s =
     (let t = rstrip_by is_pad s; pad = length s - length t
      in if length s mod 8 \<noteq> 0 \<or> pad \<notin> {0, 1, 3, 4, 6} then Inl BadBase32 else decode_groups pad t)"

definition b32decode_padded :: "string \<Rightarrow> totp_error + u8 list" where
  "b32decode_padded s =
     (let t = upper (filter (\<lambda>c. c \<noteq> CHR '' '') (strip s))
      in b32decode (t @ replicate (nat (- int (length t) mod 8)) (CHR ''='')))"

text \<open>\<open>base64.b32encode\<close> without its padding, as the secret generator uses it on its random bytes.\<close>

fun generate_base32_secret :: "u8 list \<Rightarrow> string" where
  "generate_base32_secret [] = []"
| "generate_base32_secret (b # bs) =
     (let group = take 5 (b # bs); zeros = 5 - length group
      in take (8 - [0, 1, 3, 4, 6] ! zeros)
           (map b32_char (digits_in 32 8 (value_in 256 (map unat group @ replicate zeros 0))))
         @ generate_base32_secret (drop 5 (b # bs)))"

section \<open>One-time codes\<close>

text \<open>\<open>struct.pack(">Q", counter)\<close>.\<close>

definition pack_counter :: "int \<Rightarrow> totp_error + u8 list" where
  "pack_counter c =
     (if 0 \<le> c \<and> c < 2 ^ 64 then Inr (map of_nat (digits_in 256 8 (nat c))) else Inl CounterRange)"

definition truncate_digest :: "u8 list \<Rightarrow> totp_error + int" where
  "truncate_digest d =
     (if d = [] then Inl DigestTooShort
      else let k = nat (uint (last d) AND 15)
           in if length d \<le> k + 3 then Inl DigestTooShort
              else Inr (push_bit 24 (uint (d ! k) AND 127) OR push_bit 16 (uint (d ! (k + 1)) AND 255)
                        OR push_bit 8 (uint (d ! (k + 2)) AND 255) OR (uint (d ! (k + 3)) AND 255)))"

definition hotp :: "hmac \<Rightarrow> u8 list \<Rightarrow> int \<Rightarrow> nat \<Rightarrow> totp_error + string" where
  "hotp mac secret counter digits =
     rbind (pack_counter counter) (\<lambda>message.
       rbind (truncate_digest (mac secret message)) (\<lambda>n.
         Inr (zfill digits (show_nat (nat (n mod 10 ^ digits))))))"

definition time_counter :: "nat \<Rightarrow> rat \<Rightarrow> int" where
  "time_counter step now = \<lfloor>now / of_nat step\<rfloor>"

definition totp_step :: nat where
  "totp_step = 30"

definition totp_digits :: nat where
  "totp_digits = 6"

definition compute_totp :: "hmac \<Rightarrow> string \<Rightarrow> rat \<Rightarrow> nat \<Rightarrow> nat \<Rightarrow> totp_error + string" where
  "compute_totp mac secret now step digits =
     rbind (b32decode_padded secret) (\<lambda>key. hotp mac key (time_counter step now) digits)"

fun verify_loop :: "hmac \<Rightarrow> u8 list \<Rightarrow> string \<Rightarrow> nat \<Rightarrow> int list \<Rightarrow> totp_error + bool" where
  "verify_loop mac key code digits [] = Inr False"
| "verify_loop mac key code digits (c # cs) =
     (if c < 0 then verify_loop mac key code digits cs
      else rbind (hotp mac key c digits) (\<lambda>candidate.
             if candidate = code then Inr True else verify_loop mac key code digits cs))"

definition counters_around :: "nat \<Rightarrow> int \<Rightarrow> int list" where
  "counters_around window c = map (\<lambda>k. c - int window + int k) [0..<2 * window + 1]"

definition verify_totp :: "hmac \<Rightarrow> string \<Rightarrow> string \<Rightarrow> rat \<Rightarrow> nat \<Rightarrow> nat \<Rightarrow> nat \<Rightarrow> totp_error + bool" where
  "verify_totp mac secret code0 now window step digits =
     (let code = strip code0
      in if length code \<noteq> digits \<or> code = [] \<or> \<not> list_all is_digit code then Inr False
         else rbind (b32decode_padded secret) (\<lambda>key.
                verify_loop mac key code digits (counters_around window (time_counter step now))))"

section \<open>The gate\<close>

record totp_secret =
  ts_ref :: string
  ts_issuer :: string
  ts_account :: string

record hardware_key =
  hk_kid :: string
  hk_aaguid :: string
  hk_verification :: bool
  hk_nickname :: string
  hk_registered :: rat

datatype copy_policy = TotpOnly | HardwareOnly | TotpOrHardware | Both

record security_registry =
  sg_totp :: "totp_secret option"
  sg_keys :: "hardware_key list"
  sg_policy :: copy_policy
  sg_gated :: bool

definition cold_wallet_ops :: "string list" where
  "cold_wallet_ops =
     [''withdraw_cold'', ''stake_withdraw'', ''cross_wallet_transfer'', ''promote_strategy_to_live'',
      ''register_new_api_key'', ''disable_kill_switch'']"

definition is_cold_wallet_op :: "string \<Rightarrow> bool" where
  "is_cold_wallet_op op = (op \<in> set cold_wallet_ops)"

datatype gate_error = TwoFactorRequired | TwoFactorFailed | Escaped totp_error

text \<open>The secret store is absent, or answers a reference with a text or nothing.\<close>

type_synonym resolver = "(string \<Rightarrow> string option) option"

definition resolve_totp_secret :: "resolver \<Rightarrow> string \<Rightarrow> string option" where
  "resolve_totp_secret res ref = (case res of None \<Rightarrow> None | Some get \<Rightarrow> get ref)"

definition totp_claim :: "hmac \<Rightarrow> security_registry \<Rightarrow> resolver \<Rightarrow> string option \<Rightarrow> rat \<Rightarrow> totp_error + bool" where
  "totp_claim mac reg res code now =
     (case (code, sg_totp reg) of
        (Some c, Some t) \<Rightarrow>
          (case resolve_totp_secret res (ts_ref t) of
             Some secret \<Rightarrow> if secret = [] then Inr False else verify_totp mac secret c now 1 totp_step totp_digits
           | None \<Rightarrow> Inr False)
      | _ \<Rightarrow> Inr False)"

definition hardware_claim :: "security_registry \<Rightarrow> string option \<Rightarrow> bool" where
  "hardware_claim reg kid = (case kid of None \<Rightarrow> False | Some k \<Rightarrow> k \<in> set (map hk_kid (sg_keys reg)))"

fun policy_verdict :: "copy_policy \<Rightarrow> bool \<Rightarrow> bool \<Rightarrow> bool" where
  "policy_verdict TotpOnly t h = t"
| "policy_verdict HardwareOnly t h = h"
| "policy_verdict TotpOrHardware t h = (t \<or> h)"
| "policy_verdict Both t h = (t \<and> h)"

definition gate_cold_wallet_op ::
  "hmac \<Rightarrow> string \<Rightarrow> security_registry \<Rightarrow> string option \<Rightarrow> string option \<Rightarrow> resolver \<Rightarrow> rat \<Rightarrow> gate_error + bool" where
  "gate_cold_wallet_op mac op reg code kid res now =
     (if \<not> is_cold_wallet_op op then Inr True
      else if \<not> sg_gated reg then Inr True
      else case totp_claim mac reg res code now of
        Inl x \<Rightarrow> Inl (Escaped x)
      | Inr totp_ok \<Rightarrow>
          if \<not> policy_verdict (sg_policy reg) (code \<noteq> None) (kid \<noteq> None) then Inl TwoFactorRequired
          else if \<not> policy_verdict (sg_policy reg) totp_ok (hardware_claim reg kid) then Inl TwoFactorFailed
          else Inr True)"

section \<open>Lemmas: digits\<close>

lemma value_in_snoc [simp]: "value_in b (ds @ [d]) = b * value_in b ds + d" "value_in b [] = 0"
  by (simp_all add: value_in_def)

lemma value_in_zeros: "value_in b (ds @ replicate k 0) = value_in b ds * b ^ k"
proof (induction k)
  case (Suc k)
  have "ds @ replicate (Suc k) 0 = (ds @ replicate k 0) @ [0]" by (simp add: replicate_append_same)
  then show ?case using Suc by (simp only: value_in_snoc) (simp add: mult.left_commute)
qed simp

lemma length_digits_in [simp]: "length (digits_in b k n) = k"
  by (induction k arbitrary: n) simp_all

lemma digits_in_numeral: "digits_in b (numeral k) n = digits_in b (pred_numeral k) (n div b) @ [n mod b]"
  by (simp add: numeral_eq_Suc)

lemma digits_in_bound: "0 < b \<Longrightarrow> d \<in> set (digits_in b k n) \<Longrightarrow> d < b"
  by (induction k arbitrary: n) auto

lemma value_digits: "0 < b \<Longrightarrow> n < b ^ k \<Longrightarrow> value_in b (digits_in b k n) = n"
proof (induction k arbitrary: n)
  case (Suc k)
  then have "n div b < b ^ k" by (simp add: less_mult_imp_div_less mult.commute)
  with Suc show ?case by simp
qed simp

lemma value_in_bound: "list_all (\<lambda>d. d < b) ds \<Longrightarrow> value_in b ds < b ^ length ds"
proof (induction ds rule: rev_induct)
  case (snoc d ds)
  then have "Suc (value_in b ds) \<le> b ^ length ds" "d < b" by simp_all
  then have "b * Suc (value_in b ds) \<le> b * b ^ length ds" by (rule_tac mult_le_mono2) simp
  with \<open>d < b\<close> show ?case by simp
qed simp

lemma digits_value: "list_all (\<lambda>d. d < b) ds \<Longrightarrow> digits_in b (length ds) (value_in b ds) = ds"
proof (induction ds rule: rev_induct)
  case (snoc d ds)
  then have "d < b" by simp
  then have "(b * value_in b ds + d) div b = value_in b ds" "(b * value_in b ds + d) mod b = d" by simp_all
  with snoc show ?case by simp
qed simp

text \<open>Trailing zeros of a number are the trailing zeros of its digits.\<close>

lemma digits_in_append: "digits_in b (j + k) n = digits_in b j (n div b ^ k) @ digits_in b k n"
proof (induction k arbitrary: n)
  case (Suc k)
  have "digits_in b (j + Suc k) n = digits_in b (j + k) (n div b) @ [n mod b]" by simp
  also have "\<dots> = digits_in b j (n div b div b ^ k) @ digits_in b k (n div b) @ [n mod b]" by (simp add: Suc)
  finally show ?case by (simp add: div_mult2_eq)
qed simp

lemma take_digits: "0 < b \<Longrightarrow> take j (digits_in b (j + k) n) = digits_in b j (n div b ^ k)"
  by (simp add: digits_in_append)

section \<open>Lemmas: base 32\<close>

lemma b32_value_char: "n < 32 \<Longrightarrow> b32_value (b32_char n) = Some n"
  by (auto simp: b32_value_def b32_char_def code_of_def)

lemma b32_char_code: "n < 32 \<Longrightarrow> code_of (b32_char n) = (if n < 26 then 65 + n else 24 + n)"
  by (simp add: b32_char_def code_of_def)

lemma b32_char_plain:
  assumes "n < 32"
  shows "to_upper (b32_char n) = b32_char n" "\<not> is_space (b32_char n)" "b32_char n \<noteq> CHR '' ''" "\<not> is_pad (b32_char n)"
proof -
  have c: "code_of (b32_char n) \<in> {50..55} \<union> {65..90}" using b32_char_code [OF assms] assms by auto
  then show "to_upper (b32_char n) = b32_char n" "\<not> is_space (b32_char n)" by (auto simp: to_upper_def is_space_def)
  show "b32_char n \<noteq> CHR '' ''" "\<not> is_pad (b32_char n)" using c by (auto simp: is_pad_def code_of_def)
qed

lemma b32_values_chars: "list_all (\<lambda>n. n < 32) ns \<Longrightarrow> b32_values (map b32_char ns) = Inr ns"
  by (induction ns) (simp_all add: b32_value_char)

text \<open>The padding a byte string's encoding leaves out, and the encoding of its first group.\<close>

definition pad_of :: "nat \<Rightarrow> nat" where
  "pad_of n = [0, 6, 4, 3, 1] ! (n mod 5)"

definition encode_group :: "u8 list \<Rightarrow> string" where
  "encode_group g =
     take (8 - [0, 1, 3, 4, 6] ! (5 - length g))
       (map b32_char (digits_in 32 8 (value_in 256 (map unat g @ replicate (5 - length g) 0))))"

lemma generate_group: "bs \<noteq> [] \<Longrightarrow> generate_base32_secret bs = encode_group (take 5 bs) @ generate_base32_secret (drop 5 bs)"
  by (cases bs) (simp_all add: encode_group_def Let_def)

lemma unat_u8: "unat (b :: u8) < 256"
  using unsigned_less [where w = b and 'a = nat] by simp

lemma upto_five: "(n :: nat) \<noteq> 0 \<Longrightarrow> n \<le> 5 \<Longrightarrow> n \<in> {1, 2, 3, 4, 5}"
  by simp arith

lemma of_nat_unat_u8: "map of_nat (map unat g) = (g :: u8 list)"
  by (induction g) simp_all

lemma group_round_trip:
  fixes g :: "u8 list"
  assumes g: "g \<noteq> []" "length g \<le> 5"
  defines "p \<equiv> pad_of (length g)"
  shows "\<exists>vs. b32_values (encode_group g) = Inr vs \<and> length (encode_group g) = 8 - p
    \<and> take ((43 - 5 * p) div 8) (bytes_of (value_in 32 vs * 32 ^ p)) = g \<and> list_all (\<lambda>c. \<exists>n<32. c = b32_char n) (encode_group g)"
proof -
  let ?z = "5 - length g"
  let ?N = "value_in 256 (map unat g @ replicate ?z 0)"
  have "length g \<in> {1, 2, 3, 4, 5}" using g by (intro upto_five) simp_all
  then have "[0, 1, 3, 4, 6] ! ?z = p \<and> p \<le> 6 \<and> 5 * p \<le> 8 * ?z \<and> (43 - 5 * p) div 8 = length g"
    by (elim insertE emptyE; simp add: p_def pad_of_def)
  then have pz: "[0, 1, 3, 4, 6] ! ?z = p" "p \<le> 6" "5 * p \<le> 8 * ?z" "(43 - 5 * p) div 8 = length g" by blast+
  have bytes: "list_all (\<lambda>d. d < 256) (map unat g @ replicate ?z 0)" by (auto simp: list_all_iff unat_u8)
  from value_in_bound [OF this] g(2) have N: "?N < 256 ^ 5" by simp
  have "256 ^ ?z = (2 :: nat) ^ (8 * ?z)" by (simp add: power_mult)
  moreover have "(32 :: nat) ^ p = 2 ^ (5 * p)" by (simp add: power_mult)
  ultimately have "(32 :: nat) ^ p dvd 256 ^ ?z" using pz(3) by (simp add: le_imp_power_dvd)
  then have dvd: "32 ^ p dvd ?N" unfolding value_in_zeros by (rule dvd_mult)
  let ?ds = "digits_in 32 (8 - p) (?N div 32 ^ p)"
  have "encode_group g = map b32_char (take (8 - p) (digits_in 32 (8 - p + p) ?N))"
    using pz(1,2) by (simp add: encode_group_def take_map)
  then have e: "encode_group g = map b32_char ?ds" by (simp add: take_digits)
  have small: "list_all (\<lambda>n. n < 32) ?ds" using digits_in_bound [of 32] by (auto simp: list_all_iff)
  have "?N div 32 ^ p < 32 ^ (8 - p)"
  proof (rule less_mult_imp_div_less)
    have "(32 :: nat) ^ (8 - p) * 32 ^ p = 32 ^ 8" using pz(2) by (simp flip: power_add)
    then show "?N < 32 ^ (8 - p) * 32 ^ p" using N by simp
  qed
  then have "value_in 32 ?ds * 32 ^ p = ?N" using dvd by (simp add: value_digits)
  moreover have "bytes_of ?N = g @ replicate ?z 0"
    using digits_value [OF bytes] g(2) by (simp add: bytes_of_def of_nat_unat_u8 [unfolded map_map])
  ultimately have "take ((43 - 5 * p) div 8) (bytes_of (value_in 32 ?ds * 32 ^ p)) = g" using pz(4) by simp
  then show ?thesis using e b32_values_chars [OF small] small by (auto simp: list_all_iff)
qed

lemma encode_group_ne: "g \<noteq> [] \<Longrightarrow> length g \<le> 5 \<Longrightarrow> encode_group g \<noteq> []"
proof -
  assume g: "g \<noteq> []" "length g \<le> 5"
  then have "length g \<in> {1, 2, 3, 4, 5}" by (intro upto_five) simp_all
  then have "pad_of (length g) < 8" by (elim insertE emptyE; simp add: pad_of_def)
  then show ?thesis using group_round_trip [OF g] by force
qed

lemma decode_generated:
  "length (generate_base32_secret bs) + pad_of (length bs) = 8 * ((length bs + 4) div 5)
   \<and> decode_groups (pad_of (length bs)) (generate_base32_secret bs) = Inr bs
   \<and> list_all (\<lambda>c. \<exists>n<32. c = b32_char n) (generate_base32_secret bs)"
proof (induction "length bs" arbitrary: bs rule: less_induct)
  case less
  show ?case
  proof (cases "bs = []")
    case False
    let ?g = "take 5 bs" and ?r = "drop 5 bs"
    obtain vs where vs: "b32_values (encode_group ?g) = Inr vs" "length (encode_group ?g) = 8 - pad_of (length ?g)"
      "take ((43 - 5 * pad_of (length ?g)) div 8) (bytes_of (value_in 32 vs * 32 ^ pad_of (length ?g))) = ?g"
      "list_all (\<lambda>c. \<exists>n<32. c = b32_char n) (encode_group ?g)"
      using group_round_trip [of ?g] False by auto
    note g = generate_group [OF False]
    have ne: "encode_group ?g \<noteq> []" using encode_group_ne [of ?g] False by simp
    show ?thesis
    proof (cases "length bs \<le> 5")
      case True
      then have gb: "generate_base32_secret bs = encode_group bs" and "length bs \<in> {1, 2, 3, 4, 5}"
        using g False upto_five [of "length bs"] by simp_all
      from this(2) have "8 - pad_of (length bs) + pad_of (length bs) = 8 * ((length bs + 4) div 5)"
        by (elim insertE emptyE; simp add: pad_of_def)
      then show ?thesis using gb vs ne True
        by (cases "encode_group bs") simp_all
    next
      case long: False
      have rne: "?r \<noteq> []" "length ?g = 5" "length ?r < length bs" using long by auto
      note IH = less [OF rne(3)]
      have full: "length (encode_group ?g) = 8" "pad_of (length ?g) = 0" using vs(2) rne(2) by (simp_all add: pad_of_def)
      have "length ?r mod 5 = length bs mod 5" using long by (simp add: le_mod_geq)
      then have pr: "pad_of (length ?r) = pad_of (length bs)" by (simp add: pad_of_def)
      have "generate_base32_secret ?r \<noteq> []"
        using generate_group [OF rne(1)] encode_group_ne [of "take 5 ?r"] rne(1) by simp
      moreover have "bytes_of (value_in 32 vs) = ?g"
        using vs(3) full(2) by (simp add: bytes_of_def)
      ultimately have "decode_groups (pad_of (length bs)) (encode_group ?g @ generate_base32_secret ?r) = Inr (?g @ ?r)"
        using IH vs(1) full(1) ne pr by (cases "encode_group ?g") auto
      moreover have "8 + 8 * ((length ?r + 4) div 5) = 8 * ((length bs + 4) div 5)"
      proof -
        from long have "length bs + 4 = (length ?r + 4) + 5" by simp
        then show ?thesis by (simp only: div_add_self2) simp
      qed
      ultimately show ?thesis using IH vs(4) full(1) pr by (simp add: g)
    qed
  qed (simp add: pad_of_def)
qed

text \<open>Adding the padding and taking it off again.\<close>

lemma dropWhile_none: "(\<And>x. x \<in> set xs \<Longrightarrow> \<not> p x) \<Longrightarrow> dropWhile p xs = xs"
  by (cases xs) auto

lemma rstrip_pads: "list_all (\<lambda>c. \<not> is_pad c) t \<Longrightarrow> rstrip_by is_pad (t @ replicate k (CHR ''='')) = t"
proof -
  assume t: "list_all (\<lambda>c. \<not> is_pad c) t"
  have "dropWhile is_pad (replicate k (CHR ''='') @ rev t) = rev t"
  proof (induction k)
    case 0
    have "dropWhile is_pad (rev t) = rev t" by (rule dropWhile_none) (use t in \<open>auto simp: list_all_iff\<close>)
    then show ?case by simp
  qed (simp add: is_pad_def)
  then show ?thesis by (simp add: rstrip_by_def)
qed

lemma plain_text:
  assumes "list_all (\<lambda>c. \<exists>n<32. c = b32_char n) t"
  shows "upper (filter (\<lambda>c. c \<noteq> CHR '' '') (strip t)) = t" "list_all (\<lambda>c. \<not> is_pad c) t"
proof -
  have p: "to_upper c = c" "\<not> is_space c" "c \<noteq> CHR '' ''" "\<not> is_pad c" if "c \<in> set t" for c
  proof -
    obtain n where n: "n < 32" "c = b32_char n" using assms \<open>c \<in> set t\<close> by (auto simp: list_all_iff)
    from b32_char_plain [OF n(1)] n(2)
    show "to_upper c = c" "\<not> is_space c" "c \<noteq> CHR '' ''" "\<not> is_pad c" by simp_all
  qed
  show "list_all (\<lambda>c. \<not> is_pad c) t" using p(4) by (simp add: list_all_iff)
  have "dropWhile is_space t = t" "dropWhile is_space (rev t) = rev t"
    by (rule dropWhile_none; use p(2) in auto)+
  then have "strip t = t" by (simp add: strip_by_def lstrip_by_def rstrip_by_def)
  moreover have "filter (\<lambda>c. c \<noteq> CHR '' '') t = t" using p(3) by (simp add: filter_id_conv)
  moreover have "map to_upper t = t" using p(1) by (simp add: map_idI)
  ultimately show "upper (filter (\<lambda>c. c \<noteq> CHR '' '') (strip t)) = t" by (simp add: upper_def)
qed

lemma pad_of_neg: "n + pad_of k = 8 * m \<Longrightarrow> nat (- int n mod 8) = pad_of k"
proof -
  assume h: "n + pad_of k = 8 * m"
  have small: "pad_of k < 8" using mod_less_divisor [of 5 k] by (auto simp: pad_of_def nth_Cons split: nat.splits)
  from h have "- int n = int (pad_of k) + 8 * (- int m)" by simp
  then have "- int n mod 8 = int (pad_of k) mod 8" by (simp only: mod_mult_self2)
  with small show ?thesis by simp
qed

lemma pad_of_in: "pad_of k \<in> {0, 1, 3, 4, 6}"
  using mod_less_divisor [of 5 k] by (auto simp: pad_of_def nth_Cons split: nat.splits)

section \<open>Lemmas: codes\<close>

lemma or_below: "0 \<le> x \<Longrightarrow> 0 \<le> y \<Longrightarrow> x < 2 ^ n \<Longrightarrow> y < 2 ^ n \<Longrightarrow> 0 \<le> (x OR y) \<and> x OR y < (2 ^ n :: int)"
  by (simp add: OR_upper)

lemma and_mask_below: "0 \<le> (x AND 127 :: int) \<and> x AND 127 < 128" "0 \<le> (x AND 255 :: int) \<and> x AND 255 < 256"
  "0 \<le> (x AND 15 :: int) \<and> x AND 15 < 16"
proof -
  have "(127 :: int) = mask 7" "(255 :: int) = mask 8" "(15 :: int) = mask 4" by (simp_all add: mask_eq_exp_minus_1)
  then show "0 \<le> (x AND 127) \<and> x AND 127 < 128" "0 \<le> (x AND 255) \<and> x AND 255 < 256" "0 \<le> (x AND 15) \<and> x AND 15 < 16"
    by (simp_all flip: take_bit_eq_mask)
qed

text \<open>Twenty bytes are enough for every offset, and the four bytes read give a number of 31 bits.\<close>

lemma truncated:
  assumes "length d = 20"
  shows "\<exists>n. truncate_digest d = Inr n \<and> 0 \<le> n \<and> n < 2 ^ 31"
proof -
  define k where "k = nat (uint (last d) AND 15)"
  have "uint (last d) AND 15 < 16" using and_mask_below(3) by blast
  then have k: "k \<le> 15" unfolding k_def by linarith
  let ?a = "push_bit 24 (uint (d ! k) AND 127)" and ?b = "push_bit 16 (uint (d ! (k + 1)) AND 255)"
    and ?c = "push_bit 8 (uint (d ! (k + 2)) AND 255)" and ?e = "uint (d ! (k + 3)) AND 255"
  have parts: "0 \<le> ?a" "?a < 2 ^ 31" "0 \<le> ?b" "?b < 2 ^ 31" "0 \<le> ?c" "?c < 2 ^ 31" "0 \<le> ?e" "?e < 2 ^ 31"
    using and_mask_below(1) [of "uint (d ! k)"] and_mask_below(2) [of "uint (d ! (k + 1))"]
      and_mask_below(2) [of "uint (d ! (k + 2))"] and_mask_below(2) [of "uint (d ! (k + 3))"]
    by (simp_all add: push_bit_eq_mult)
  note ce = or_below [OF parts(5,7,6,8)]
  note bce = or_below [OF parts(3) ce [THEN conjunct1] parts(4) ce [THEN conjunct2]]
  have "0 \<le> (?a OR ?b OR ?c OR ?e) \<and> (?a OR ?b OR ?c OR ?e) < 2 ^ 31"
    by (rule or_below [OF parts(1) bce [THEN conjunct1] parts(2) bce [THEN conjunct2]])
  moreover have "truncate_digest d = Inr (?a OR ?b OR ?c OR ?e)"
    using assms k by (auto simp: truncate_digest_def Let_def k_def)
  ultimately show ?thesis by blast
qed

lemma code_shape:
  assumes "0 \<le> n" "0 < digits"
  shows "length (zfill digits (show_nat (nat (n mod 10 ^ digits)))) = digits \<and> list_all is_digit (zfill digits (show_nat (nat (n mod 10 ^ digits))))"
proof -
  have "nat (n mod 10 ^ digits) < 10 ^ digits" by (simp add: nat_less_iff)
  from length_show_nat [OF this assms(2)] show_nat_digits show ?thesis
    by (auto simp: zfill_def list_all_iff is_digit_def code_of_def)
qed

lemma hotp_code:
  assumes "\<And>k m. length (mac k m) = 20" "0 \<le> c" "c < 2 ^ 64" "0 < digits"
  shows "\<exists>code. hotp mac key c digits = Inr code \<and> length code = digits \<and> list_all is_digit code"
proof -
  from assms(2,3) obtain m where m: "pack_counter c = Inr m" by (simp add: pack_counter_def)
  from truncated [OF assms(1)] obtain n where n: "truncate_digest (mac key m) = Inr n" "0 \<le> n" by blast
  from code_shape [OF n(2) assms(4)] show ?thesis by (simp add: hotp_def m n(1))
qed

text \<open>The loop answers for the first counter that is not negative and whose code is the one given.\<close>

lemma verify_loop_spec:
  assumes "\<And>c. c \<in> set cs \<Longrightarrow> 0 \<le> c \<Longrightarrow> \<exists>x. hotp mac key c digits = Inr x"
  shows "verify_loop mac key code digits cs = Inr (\<exists>c\<in>set cs. 0 \<le> c \<and> hotp mac key c digits = Inr code)"
  using assms
proof (induction cs)
  case (Cons c cs)
  then show ?case by (cases "c < 0") (fastforce simp: not_less)+
qed simp

lemma counters_around_set: "set (counters_around window c) = {c - int window..c + int window}"
proof
  show "{c - int window..c + int window} \<subseteq> set (counters_around window c)"
  proof
    fix x
    assume x: "x \<in> {c - int window..c + int window}"
    define k where "k = nat (x - c + int window)"
    have k: "c - int window + int k = x" "k \<in> set [0..<2 * window + 1]" using x by (auto simp: k_def)
    from imageI [OF k(2), of "\<lambda>k. c - int window + int k"] show "x \<in> set (counters_around window c)"
      unfolding counters_around_def set_map k(1) .
  qed
qed (auto simp: counters_around_def)

definition known_mac :: "hmac \<Rightarrow> bool" where
  "known_mac mac = (\<forall>k m. length (mac k m) = 20)"

text \<open>The codes that pass at a time: those of its step and of the steps before and after, from step zero on.\<close>

definition live_codes :: "hmac \<Rightarrow> u8 list \<Rightarrow> rat \<Rightarrow> string set" where
  "live_codes mac key now =
     {code. \<exists>c. 0 \<le> c \<and> \<bar>c - time_counter totp_step now\<bar> \<le> 1 \<and> hotp mac key c totp_digits = Inr code}"

lemma verify_live:
  assumes mac: "known_mac mac" and now: "0 \<le> now" "now < 2 ^ 64"
    and key: "b32decode_padded secret = Inr key"
  shows "verify_totp mac secret code now 1 totp_step totp_digits = Inr (strip code \<in> live_codes mac key now)"
proof -
  have "now / 30 < 2 ^ 64 - 2" using now(2) by simp
  then have c: "time_counter totp_step now < 2 ^ 64 - 2" by (simp add: time_counter_def totp_step_def floor_less_iff)
  have hot: "\<exists>x. hotp mac key c totp_digits = Inr x \<and> length x = totp_digits \<and> list_all is_digit x"
    if "c \<in> set (counters_around 1 (time_counter totp_step now))" "0 \<le> c" for c
    using hotp_code [of mac c totp_digits key] that c mac by (auto simp: counters_around_set known_mac_def totp_digits_def)
  have "verify_loop mac key x totp_digits (counters_around 1 (time_counter totp_step now)) = Inr (x \<in> live_codes mac key now)" for x
  proof -
    have "(\<exists>c\<in>set (counters_around 1 (time_counter totp_step now)). 0 \<le> c \<and> hotp mac key c totp_digits = Inr x)
        = (x \<in> live_codes mac key now)"
      unfolding counters_around_set live_codes_def by (auto simp: abs_le_iff intro: bexI)
    with verify_loop_spec [of "counters_around 1 (time_counter totp_step now)" mac key totp_digits x] hot show ?thesis by auto
  qed
  moreover have "length x = totp_digits \<and> x \<noteq> [] \<and> list_all is_digit x" if "x \<in> live_codes mac key now" for x
  proof -
    from that obtain d where d: "0 \<le> d" "\<bar>d - time_counter totp_step now\<bar> \<le> 1" "hotp mac key d totp_digits = Inr x"
      by (auto simp: live_codes_def)
    then have "d \<in> set (counters_around 1 (time_counter totp_step now))" by (auto simp: counters_around_set)
    from hot [OF this d(1)] d(3) show ?thesis by (auto simp: totp_digits_def)
  qed
  ultimately show ?thesis using key by (auto simp: verify_totp_def Let_def)
qed

lemma strip_digits: "list_all is_digit s \<Longrightarrow> strip s = s"
proof -
  assume "list_all is_digit s"
  then have "\<not> is_space c" if "c \<in> set s" for c
    using that by (auto simp: list_all_iff is_digit_def is_space_def)
  then have "dropWhile is_space s = s" "dropWhile is_space (rev s) = rev s" by (rule dropWhile_none; auto)+
  then show ?thesis by (simp add: strip_by_def lstrip_by_def rstrip_by_def)
qed

section \<open>Properties\<close>

text \<open>
  C34. The secret an operator enrols is the secret the gate verifies with: decoding the text the
  generator makes of any bytes, with the padding it left out put back, gives those bytes.
\<close>

theorem secret_round_trip: "b32decode_padded (generate_base32_secret bs) = Inr bs"
proof -
  let ?t = "generate_base32_secret bs"
  note g = decode_generated [of bs]
  have pad: "nat (- int (length ?t) mod 8) = pad_of (length bs)" by (rule pad_of_neg [OF g [THEN conjunct1]])
  from plain_text [of ?t] g have t: "upper (filter (\<lambda>c. c \<noteq> CHR '' '') (strip ?t)) = ?t" "list_all (\<lambda>c. \<not> is_pad c) ?t"
    by blast+
  let ?p = "replicate (pad_of (length bs)) (CHR ''='')"
  have len: "length (?t @ ?p) mod 8 = 0" "length (?t @ ?p) - length ?t = pad_of (length bs)"
    by (use g in simp) (simp only: length_append length_replicate diff_add_inverse)
  have d: "decode_groups (pad_of (length bs)) ?t = Inr bs" using g by blast
  show ?thesis
    unfolding b32decode_padded_def t(1) Let_def pad b32decode_def rstrip_pads [OF t(2)] len
    using pad_of_in [of "length bs"] d by simp
qed

text \<open>
  C33. The gate lets a cold-wallet operation through only on the factors its policy names: when it
  returns, a policy that asks for a one-time code has one of a live step under the secret the
  registry refers to, a policy that asks for a hardware key has a registered key id, and every policy has at
  least one of the two; in all other cases it raises.
\<close>

theorem cold_wallet_op_needs_factors:
  assumes "known_mac mac" "0 \<le> now" "now < 2 ^ 64" "is_cold_wallet_op op" "sg_gated reg"
    and passed: "gate_cold_wallet_op mac op reg code kid res now = Inr b"
  defines "has_code \<equiv> (\<exists>c t secret key. code = Some c \<and> sg_totp reg = Some t
      \<and> resolve_totp_secret res (ts_ref t) = Some secret \<and> b32decode_padded secret = Inr key
      \<and> strip c \<in> live_codes mac key now)"
    and "has_key \<equiv> (\<exists>k\<in>set (sg_keys reg). kid = Some (hk_kid k))"
  shows "(sg_policy reg \<in> {TotpOnly, Both} \<longrightarrow> has_code) \<and> (sg_policy reg \<in> {HardwareOnly, Both} \<longrightarrow> has_key)
    \<and> (has_code \<or> has_key)"
proof -
  from assms obtain ok where ok: "totp_claim mac reg res code now = Inr ok"
    and v: "policy_verdict (sg_policy reg) ok (hardware_claim reg kid)"
    by (auto simp: gate_cold_wallet_op_def split: sum.splits if_splits)
  have "ok \<Longrightarrow> has_code"
  proof -
    assume "ok"
    with ok obtain c t secret where c: "code = Some c" "sg_totp reg = Some t" "resolve_totp_secret res (ts_ref t) = Some secret"
      "verify_totp mac secret c now 1 totp_step totp_digits = Inr True"
      by (auto simp: totp_claim_def split: option.splits if_splits)
    from c(4) obtain key where key: "b32decode_padded secret = Inr key"
      by (auto simp: verify_totp_def Let_def split: if_splits)
    with c verify_live [OF assms(1-3) key, of c] show has_code unfolding has_code_def by auto
  qed
  moreover have "hardware_claim reg kid \<Longrightarrow> has_key"
    by (auto simp: hardware_claim_def has_key_def split: option.splits)
  ultimately show ?thesis using v by (cases "sg_policy reg") auto
qed

text \<open>
  A genuine code works: the code computed from a secret at one time is accepted from then on for
  a whole step, so an operator whose clock is right is never locked out.
\<close>

theorem fresh_code_accepted:
  assumes "known_mac mac" "compute_totp mac secret t totp_step totp_digits = Inr code"
    "0 \<le> t" "t \<le> now" "now \<le> t + 30" "now < 2 ^ 64"
  shows "verify_totp mac secret code now 1 totp_step totp_digits = Inr True"
proof -
  from assms(2) obtain key where key: "b32decode_padded secret = Inr key"
    "hotp mac key (time_counter totp_step t) totp_digits = Inr code" by (auto simp: compute_totp_def)
  have c0: "0 \<le> time_counter totp_step t" using assms(3) by (simp add: time_counter_def totp_step_def)
  have "t / 30 \<le> now / 30" "now / 30 \<le> t / 30 + 1" using assms(4,5) by simp_all
  note this [THEN floor_mono]
  then have near: "\<bar>time_counter totp_step t - time_counter totp_step now\<bar> \<le> 1"
    by (simp add: time_counter_def totp_step_def)
  have "t / 30 < 2 ^ 64" using assms(4,6) by simp
  then have "time_counter totp_step t < 2 ^ 64" by (simp add: time_counter_def totp_step_def floor_less_iff)
  from hotp_code [of mac "time_counter totp_step t" totp_digits key] this c0 assms(1) key(2)
  have "list_all is_digit code" by (auto simp: known_mac_def totp_digits_def)
  moreover have "code \<in> live_codes mac key now" using c0 near key(2) unfolding live_codes_def by blast
  ultimately show ?thesis using verify_live [OF assms(1) _ assms(6) key(1), of code] assms(3,4)
    by (simp add: strip_digits)
qed

definition demo_mac :: hmac where
  "demo_mac key message = replicate 19 1 @ [2]"

lemma demo_mac_known: "known_mac demo_mac"
  by (simp add: known_mac_def demo_mac_def)

definition demo_registry :: "copy_policy \<Rightarrow> security_registry" where
  "demo_registry p =
     \<lparr>sg_totp = Some \<lparr>ts_ref = ''T'', ts_issuer = [], ts_account = []\<rparr>,
      sg_keys = [\<lparr>hk_kid = ''key1'', hk_aaguid = [], hk_verification = True, hk_nickname = [], hk_registered = 0\<rparr>],
      sg_policy = p, sg_gated = True\<rparr>"

definition demo_resolver :: resolver where
  "demo_resolver = Some (\<lambda>_. Some ''MFRGGZDF'')"

lemma demo_secret: "b32decode_padded ''MFRGGZDF'' = Inr [97, 98, 99, 100, 101]"
  by (simp add: b32decode_padded_def strip_by_def lstrip_by_def rstrip_by_def is_space_def upper_def to_upper_def
      code_of_def b32decode_def is_pad_def b32_value_def value_in_def bytes_of_def digits_in_numeral)

lemma demo_code: "hotp demo_mac [97, 98, 99, 100, 101] 2 6 = Inr ''843009''"
proof -
  have "truncate_digest (replicate 19 1 @ [2]) = Inr 16843009" by code_simp
  moreover have "digit_of 8 = CHR ''8''" "digit_of 4 = CHR ''4''" "digit_of 3 = CHR ''3''" "digit_of 0 = CHR ''0''"
    "digit_of 9 = CHR ''9''" by code_simp+
  then have "show_nat 843009 = ''843009''" by (simp add: show_nat.simps)
  ultimately show ?thesis by (simp add: hotp_def pack_counter_def demo_mac_def zfill_def)
qed

lemma demo_counter: "time_counter totp_step 60 = 2" "time_counter totp_step 89 = 2"
  by (simp_all add: time_counter_def totp_step_def floor_eq_iff)

lemma demo_computed: "compute_totp demo_mac ''MFRGGZDF'' 60 totp_step totp_digits = Inr ''843009''"
  unfolding compute_totp_def demo_secret demo_counter using demo_code by (simp add: totp_digits_def)

theorem fresh_code_accepted_witness:
  "verify_totp demo_mac ''MFRGGZDF'' ''843009'' 89 1 totp_step totp_digits = Inr True"
  by (rule fresh_code_accepted [OF demo_mac_known demo_computed]) simp_all

lemma demo_gate:
  "gate_cold_wallet_op demo_mac ''withdraw_cold'' (demo_registry Both) (Some ''843009'') (Some ''key1'') demo_resolver 60 = Inr True"
proof -
  have "''843009'' \<in> live_codes demo_mac [97, 98, 99, 100, 101] 60"
    using demo_code demo_counter(1) by (auto simp: live_codes_def totp_digits_def intro!: exI [of _ 2])
  moreover have "strip ''843009'' = ''843009''" by code_simp
  ultimately have "verify_totp demo_mac ''MFRGGZDF'' ''843009'' 60 1 totp_step totp_digits = Inr True"
    using verify_live [OF demo_mac_known _ _ demo_secret, of 60 "''843009''"] by simp
  then show ?thesis
    by (simp add: gate_cold_wallet_op_def is_cold_wallet_op_def cold_wallet_ops_def demo_registry_def totp_claim_def
        resolve_totp_secret_def demo_resolver_def hardware_claim_def)
qed

theorem cold_wallet_op_needs_factors_witness:
  "\<exists>c key. b32decode_padded ''MFRGGZDF'' = Inr key \<and> strip c \<in> live_codes demo_mac key 60"
proof -
  have "is_cold_wallet_op ''withdraw_cold''" "sg_gated (demo_registry Both)"
    by (simp_all add: is_cold_wallet_op_def cold_wallet_ops_def demo_registry_def)
  from cold_wallet_op_needs_factors [OF demo_mac_known _ _ this demo_gate] demo_secret show ?thesis
    by (auto simp: demo_registry_def resolve_totp_secret_def demo_resolver_def)
qed

section \<open>Corners\<close>

text \<open>
  A hardware claim is the id of a registered key and nothing else, and ids are not secret: whoever
  names one passes a policy that asks for hardware.
\<close>

lemma hardware_claim_is_an_id:
  assumes "sg_totp reg = None" "sg_policy reg \<in> {HardwareOnly, TotpOrHardware}" "kid \<in> set (map hk_kid (sg_keys reg))"
  shows "gate_cold_wallet_op mac op reg code (Some kid) res now = Inr True"
  using assms by (auto simp: gate_cold_wallet_op_def totp_claim_def hardware_claim_def split: option.split)

text \<open>
  A secret that is not base 32 escapes as another exception, even where a valid hardware key alone
  would do.
\<close>

lemma damaged_secret_escapes:
  "gate_cold_wallet_op mac ''withdraw_cold'' (demo_registry TotpOrHardware) (Some ''123456'') (Some ''key1'') (Some (\<lambda>_. Some ''0'')) now
     = Inl (Escaped BadBase32)"
proof -
  have "b32decode_padded ''0'' = Inl BadBase32" by code_simp
  moreover have "strip ''123456'' = ''123456''" "list_all is_digit ''123456''" by code_simp+
  ultimately show ?thesis
    by (simp add: gate_cold_wallet_op_def is_cold_wallet_op_def cold_wallet_ops_def demo_registry_def totp_claim_def
        resolve_totp_secret_def verify_totp_def totp_digits_def)
qed

end
