(* ===== verification/Events_Calendar.thy ===== *)
theory Events_Calendar
  imports Durable
begin

text \<open>
  \<open>core/events_calendar.py\<close>: scheduled events kept in the order of their times, looked up by bisection.
  Times are whole microseconds since the epoch: a mix of naive and aware times, and an overflow where a window
  passes the ends of the date range, are not modelled.  \<open>datetime.fromisoformat\<close> with the conversion to UTC, the calendar
  service and the text of values that are not strings are arguments.
\<close>

section \<open>Bisection\<close>

text \<open>The loop of \<open>bisect_left\<close> and \<open>bisect_right\<close>, which differ in the test.\<close>

function bisect :: "(int \<Rightarrow> bool) \<Rightarrow> int list \<Rightarrow> nat \<Rightarrow> nat \<Rightarrow> nat" where
  "bisect p xs lo hi =
     (if lo < hi
      then let mid = (lo + hi) div 2 in if p (xs ! mid) then bisect p xs (mid + 1) hi else bisect p xs lo mid
      else lo)"
  by pat_completeness auto
termination by (relation "measure (\<lambda>(p, xs, lo, hi). hi - lo)") auto

declare bisect.simps [simp del]

definition bisect_left :: "int list \<Rightarrow> int \<Rightarrow> nat" where
  "bisect_left xs x = bisect (\<lambda>t. t < x) xs 0 (length xs)"

definition bisect_right :: "int list \<Rightarrow> int \<Rightarrow> nat" where
  "bisect_right xs x = bisect (\<lambda>t. \<not> x < t) xs 0 (length xs)"

section \<open>Events\<close>

record calendar_event =
  ce_tag :: string
  ce_time :: int
  ce_impact :: string
  ce_description :: string
  ce_source :: string

definition minutes :: "int \<Rightarrow> int" where
  "minutes n = n * 60000000"

definition in_window :: "int \<Rightarrow> int \<Rightarrow> calendar_event \<Rightarrow> int \<Rightarrow> bool" where
  "in_window pre post e now =
     (ce_time e - minutes (max 0 pre) \<le> now \<and> now \<le> ce_time e + minutes (max 0 post))"

type_synonym events_calendar = "calendar_event list"

definition new_calendar :: "calendar_event list \<Rightarrow> events_calendar" where
  "new_calendar es = sort_key ce_time es"

definition add_event :: "events_calendar \<Rightarrow> calendar_event \<Rightarrow> events_calendar" where
  "add_event c e = sort_key ce_time (c @ [e])"

definition extend_calendar :: "events_calendar \<Rightarrow> calendar_event list \<Rightarrow> events_calendar" where
  "extend_calendar c es = sort_key ce_time (c @ es)"

definition passes :: "string option \<Rightarrow> calendar_event \<Rightarrow> bool" where
  "passes flt_impact e = (case flt_impact of None \<Rightarrow> True | Some i \<Rightarrow> ce_impact e = i)"

definition next_event :: "events_calendar \<Rightarrow> int \<Rightarrow> string option \<Rightarrow> calendar_event option" where
  "next_event c now f = (if c = [] then None else find (passes f) (drop (bisect_left (map ce_time c) now) c))"

definition minutes_to_next :: "events_calendar \<Rightarrow> int \<Rightarrow> string option \<Rightarrow> pyfloat option" where
  "minutes_to_next c now f =
     (case next_event c now f of
        None \<Rightarrow> None
      | Some e \<Rightarrow> fdiv (fl (of_int (ce_time e - now) / 1000000)) (Fin 60))"

text \<open>The slice of events whose window can hold the moment.\<close>

definition near_events :: "events_calendar \<Rightarrow> int \<Rightarrow> int \<Rightarrow> int \<Rightarrow> calendar_event list" where
  "near_events c now pre post =
     (let times = map ce_time c
      in drop (bisect_left times (now - minutes (max 0 post)))
           (take (bisect_right times (now + minutes (max 0 pre))) c))"

definition blackout_active :: "events_calendar \<Rightarrow> int \<Rightarrow> int \<Rightarrow> int \<Rightarrow> string option \<Rightarrow> bool" where
  "blackout_active c now pre post f =
     list_ex (\<lambda>e. passes f e \<and> in_window pre post e now) (near_events c now pre post)"

definition active_event :: "events_calendar \<Rightarrow> int \<Rightarrow> int \<Rightarrow> int \<Rightarrow> string option \<Rightarrow> calendar_event option" where
  "active_event c now pre post f =
     find (\<lambda>e. passes f e \<and> in_window pre post e now) (near_events c now pre post)"

section \<open>Loading\<close>

definition either_of :: "json \<Rightarrow> json \<Rightarrow> json" where
  "either_of a b = (if as_bool a then a else b)"

text \<open>\<open>_parse_ts\<close> of a JSON value: anything but a text is a value error.\<close>

definition parse_ts :: "(string \<Rightarrow> pyexc + int) \<Rightarrow> json \<Rightarrow> pyexc + int" where
  "parse_ts stamp v =
     (case v of
        JStr s \<Rightarrow> stamp (concat (map (\<lambda>c. if c = CHR ''Z'' then ''+00:00'' else [c]) (strip s)))
      | _ \<Rightarrow> Inl ValueError)"

definition event_of_item ::
  "(json \<Rightarrow> string) \<Rightarrow> (string \<times> json) list \<Rightarrow> string \<Rightarrow> string \<Rightarrow> int \<Rightarrow> json \<Rightarrow> calendar_event" where
  "event_of_item show_json d impact source t desc =
     \<lparr>ce_tag = upper (or_text show_json (either_of (jget d ''tag'' JNull) (jget d ''name'' JNull)) ''UNKNOWN''),
      ce_time = t,
      ce_impact = lower (or_text show_json (jget d ''impact'' JNull) impact),
      ce_description = or_text show_json desc [], ce_source = source\<rparr>"

fun load_items :: "(json \<Rightarrow> string) \<Rightarrow> (string \<Rightarrow> pyexc + int) \<Rightarrow> json list \<Rightarrow> pyexc + calendar_event list" where
  "load_items show_json stamp [] = Inr []"
| "load_items show_json stamp (item # items) =
     (case item of
        JObj d \<Rightarrow>
          (case parse_ts stamp (either_of (jget d ''scheduled_utc'' JNull) (jget d ''time'' JNull)) of
             Inl ValueError \<Rightarrow> load_items show_json stamp items
           | Inl x \<Rightarrow> Inl x
           | Inr t \<Rightarrow>
               rbind (load_items show_json stamp items) (\<lambda>es.
                 Inr (event_of_item show_json d ''high'' (or_text show_json (jget d ''source'' JNull) ''manual'') t
                        (either_of (jget d ''description'' JNull) (jget d ''desc'' JNull)) # es)))
      | _ \<Rightarrow> Inl AttributeError)"

definition load_from_json :: "(json \<Rightarrow> string) \<Rightarrow> (string \<Rightarrow> pyexc + int) \<Rightarrow> jfile \<Rightarrow> pyexc + events_calendar" where
  "load_from_json show_json stamp f =
     (case f of
        Missing \<Rightarrow> Inr (new_calendar [])
      | Garbled \<Rightarrow> Inl ValueError
      | Parsed j \<Rightarrow>
          rbind (case j of
                   JList items \<Rightarrow> load_items show_json stamp items
                 | JObj d \<Rightarrow> if d = [] then Inr [] else Inl AttributeError
                 | JStr s \<Rightarrow> if s = [] then Inr [] else Inl AttributeError
                 | _ \<Rightarrow> Inl TypeError)
            (\<lambda>es. Inr (new_calendar es)))"

text \<open>The rows of the calendar service; it raises (\<open>None\<close>) or answers.  Its rows are JSON objects.\<close>

fun load_rows ::
  "(json \<Rightarrow> string) \<Rightarrow> (string \<Rightarrow> pyexc + int) \<Rightarrow> string \<Rightarrow> (string \<times> json) list list \<Rightarrow> pyexc + calendar_event list" where
  "load_rows show_json stamp impact [] = Inr []"
| "load_rows show_json stamp impact (d # ds) =
     (case parse_ts stamp (either_of (jget d ''scheduled_utc'' JNull)
             (either_of (jget d ''ts'' JNull) (jget d ''event_time'' JNull))) of
        Inl ValueError \<Rightarrow> load_rows show_json stamp impact ds
      | Inl x \<Rightarrow> Inl x
      | Inr t \<Rightarrow>
          rbind (load_rows show_json stamp impact ds) (\<lambda>es.
            Inr (event_of_item show_json d impact ''bigdata'' t (jget d ''description'' JNull) # es)))"

definition load_from_mcp ::
  "(json \<Rightarrow> string) \<Rightarrow> (string \<Rightarrow> pyexc + int) \<Rightarrow> (int \<Rightarrow> int \<Rightarrow> string \<Rightarrow> (string \<times> json) list list option) \<Rightarrow>
   int \<Rightarrow> int \<Rightarrow> string \<Rightarrow> pyexc + events_calendar" where
  "load_from_mcp show_json stamp mcp start days_ahead impact =
     (case mcp start (start + max 1 days_ahead * minutes 1440) impact of
        None \<Rightarrow> Inr (new_calendar [])
      | Some rows \<Rightarrow> rbind (load_rows show_json stamp impact rows) (\<lambda>es. Inr (new_calendar es)))"

section \<open>Lemmas\<close>

lemma takeWhile_nth_iff:
  assumes mono: "\<And>i j. i < j \<Longrightarrow> j < length xs \<Longrightarrow> p (xs ! j) \<Longrightarrow> p (xs ! i)" and m: "m < length xs"
  shows "p (xs ! m) \<longleftrightarrow> m < length (takeWhile p xs)"
proof
  assume "m < length (takeWhile p xs)"
  then show "p (xs ! m)" by (metis nth_mem set_takeWhileD takeWhile_nth)
next
  assume pm: "p (xs ! m)"
  show "m < length (takeWhile p xs)"
  proof (rule ccontr)
    let ?k = "length (takeWhile p xs)"
    assume "\<not> m < ?k"
    then have k: "?k < length xs" "?k \<le> m" using m by simp_all
    then have "\<not> p (xs ! ?k)" by (simp add: nth_length_takeWhile)
    with mono [of ?k m] k m pm show False by (cases "?k = m") auto
  qed
qed

text \<open>On a list that has the property up to a place and not after, the loop finds the place.\<close>

lemma bisect_spec:
  assumes mono: "\<And>i j. i < j \<Longrightarrow> j < length xs \<Longrightarrow> p (xs ! j) \<Longrightarrow> p (xs ! i)"
  shows "lo \<le> length (takeWhile p xs) \<Longrightarrow> length (takeWhile p xs) \<le> hi \<Longrightarrow> hi \<le> length xs
    \<Longrightarrow> bisect p xs lo hi = length (takeWhile p xs)"
proof (induction "hi - lo" arbitrary: lo hi rule: less_induct)
  case less
  show ?case
  proof (cases "lo < hi")
    case True
    define mid where "mid = (lo + hi) div 2"
    have mid: "lo \<le> mid" "mid < hi" using True by (simp_all add: mid_def)
    have iff: "p (xs ! mid) \<longleftrightarrow> mid < length (takeWhile p xs)"
      by (rule takeWhile_nth_iff [where p = p and xs = xs and m = mid]) (use mono mid less.prems in auto)
    have "bisect p xs lo hi = (if p (xs ! mid) then bisect p xs (mid + 1) hi else bisect p xs lo mid)"
      using True by (simp add: bisect.simps [of p xs lo hi] mid_def Let_def)
    then show ?thesis using less.hyps [of hi "mid + 1"] less.hyps [of mid lo] less.prems mid iff by simp
  qed (use less.prems in \<open>simp add: bisect.simps [of p xs lo hi]\<close>)
qed

lemma bisect_sorted:
  assumes "sorted xs"
  shows "bisect_left xs x = length (takeWhile (\<lambda>t. t < x) xs)" "bisect_right xs x = length (takeWhile (\<lambda>t. t \<le> x) xs)"
proof -
  have le: "xs ! i \<le> xs ! j" if "i < j" "j < length xs" for i j using assms that by (simp add: sorted_nth_mono)
  show "bisect_left xs x = length (takeWhile (\<lambda>t. t < x) xs)" unfolding bisect_left_def
    by (rule bisect_spec) (use le in \<open>fastforce simp: length_takeWhile_le\<close>)+
  show "bisect_right xs x = length (takeWhile (\<lambda>t. t \<le> x) xs)" unfolding bisect_right_def not_less
    by (rule bisect_spec) (use le in \<open>fastforce simp: length_takeWhile_le\<close>)+
qed

definition in_order :: "events_calendar \<Rightarrow> bool" where
  "in_order c = sorted (map ce_time c)"

lemma in_order_ops [simp]: "in_order (new_calendar es)" "in_order (add_event c e)" "in_order (extend_calendar c es)"
  by (simp_all add: in_order_def new_calendar_def add_event_def extend_calendar_def)

lemma slice_sorted:
  "sorted (map f c) \<Longrightarrow> lo \<le> hi \<Longrightarrow>
   dropWhile (\<lambda>e. f e < lo) (takeWhile (\<lambda>e. f e \<le> hi) c) = filter (\<lambda>e. lo \<le> f e \<and> f e \<le> (hi :: int)) c"
proof (induction c)
  case (Cons x c)
  show ?case
  proof (cases "f x < lo")
    case True
    with Cons show ?thesis by simp
  next
    case False
    have "takeWhile (\<lambda>e. f e \<le> hi) (x # c) = filter (\<lambda>e. lo \<le> f e \<and> f e \<le> hi) (x # c)" if "lo \<le> f x"
      using Cons.prems that by (induction c arbitrary: x) (fastforce simp: filter_empty_conv)+
    with False show ?thesis by (cases "f x \<le> hi") (simp_all add: not_less)
  qed
qed simp

text \<open>The slice holds exactly the events whose window holds the moment.\<close>

lemma near_events_in_window:
  assumes "in_order c"
  shows "near_events c now pre post = filter (\<lambda>e. in_window pre post e now) c"
proof -
  let ?lo = "now - minutes (max 0 post)" and ?hi = "now + minutes (max 0 pre)"
  have le: "?lo \<le> ?hi" by (simp add: minutes_def)
  have "length (takeWhile (\<lambda>t. t < ?lo) (map ce_time c)) = length (takeWhile (\<lambda>e. ce_time e < ?lo) c)"
    "length (takeWhile (\<lambda>t. t \<le> ?hi) (map ce_time c)) = length (takeWhile (\<lambda>e. ce_time e \<le> ?hi) c)"
    by (simp_all add: takeWhile_map comp_def)
  then have "near_events c now pre post
      = drop (length (takeWhile (\<lambda>e. ce_time e < ?lo) c)) (takeWhile (\<lambda>e. ce_time e \<le> ?hi) c)"
    using assms by (simp add: near_events_def bisect_sorted in_order_def Let_def takeWhile_eq_take [symmetric])
  also have "takeWhile (\<lambda>e. ce_time e < ?lo) c = takeWhile (\<lambda>e. ce_time e < ?lo) (takeWhile (\<lambda>e. ce_time e \<le> ?hi) c)"
    using le by (simp add: takeWhile_takeWhile) (rule takeWhile_cong; auto)
  finally show ?thesis using slice_sorted [of ce_time c ?lo ?hi] le assms
    by (simp add: dropWhile_eq_drop [symmetric] in_order_def in_window_def algebra_simps conj_commute)
qed

section \<open>Calendars as they are used\<close>

datatype calendar_op = AddEvent calendar_event | ExtendBy "calendar_event list"

definition calendar_step :: "events_calendar \<Rightarrow> calendar_op \<Rightarrow> events_calendar" where
  "calendar_step c op = (case op of AddEvent e \<Rightarrow> add_event c e | ExtendBy es \<Rightarrow> extend_calendar c es)"

definition given_events :: "calendar_op \<Rightarrow> calendar_event list" where
  "given_events op = (case op of AddEvent e \<Rightarrow> [e] | ExtendBy es \<Rightarrow> es)"

interpretation calendar: machine calendar_step in_order "\<lambda>_. True"
  by unfold_locales (simp add: calendar_step_def split: calendar_op.split)

definition run_calendar :: "calendar_event list \<Rightarrow> calendar_op list \<Rightarrow> events_calendar" where
  "run_calendar es ops = foldl calendar_step (new_calendar es) ops"

lemma run_calendar_order: "in_order (run_calendar es ops)"
  unfolding run_calendar_def by (rule calendar.run_inv) (simp_all add: list_all_iff)

lemma run_calendar_events: "set (run_calendar es ops) = set es \<union> \<Union> (set (map (set \<circ> given_events) ops))"
proof (induction ops rule: rev_induct)
  case (snoc op ops)
  then show ?case
    by (cases op) (auto simp: run_calendar_def calendar_step_def given_events_def add_event_def extend_calendar_def)
qed (simp add: run_calendar_def new_calendar_def)

lemma find_filter: "find p (filter q c) = find (\<lambda>e. q e \<and> p e) c"
  by (induction c) auto

lemma active_event_find:
  "in_order c \<Longrightarrow> active_event c now pre post f = find (\<lambda>e. in_window pre post e now \<and> passes f e) c"
  by (simp add: active_event_def near_events_in_window find_filter conj_ac)

text \<open>What looking through all given events finds: an earliest one of those that match, if any does.\<close>

definition earliest_match :: "calendar_event set \<Rightarrow> (calendar_event \<Rightarrow> bool) \<Rightarrow> calendar_event option \<Rightarrow> bool" where
  "earliest_match given p r =
     (case r of
        None \<Rightarrow> \<forall>e\<in>given. \<not> p e
      | Some e \<Rightarrow> e \<in> given \<and> p e \<and> (\<forall>d\<in>given. p d \<longrightarrow> ce_time e \<le> ce_time d))"

lemma find_earliest: "in_order c \<Longrightarrow> earliest_match (set c) p (find p c)"
proof (induction c)
  case (Cons x c)
  then show ?case by (cases "p x") (auto simp: in_order_def earliest_match_def split: option.splits)
qed (simp add: earliest_match_def)

lemma next_event_find:
  assumes "in_order c"
  shows "next_event c now f = find (\<lambda>e. now \<le> ce_time e \<and> passes f e) c"
proof -
  have "drop (bisect_left (map ce_time c) now) c = dropWhile (\<lambda>e. ce_time e < now) c"
    using assms by (simp add: in_order_def bisect_sorted takeWhile_map comp_def dropWhile_eq_drop)
  moreover have "find (passes f) (dropWhile (\<lambda>e. ce_time e < now) c) = find (\<lambda>e. now \<le> ce_time e \<and> passes f e) c"
    using assms
  proof (induction c)
    case (Cons x c)
    have "find (passes f) c = find (\<lambda>e. now \<le> ce_time e \<and> passes f e) c" if "now \<le> ce_time x"
      by (rule find_cong) (use Cons.prems that in \<open>auto simp: in_order_def\<close>)
    with Cons show ?case by (auto simp: in_order_def)
  qed simp
  ultimately show ?thesis by (simp add: next_event_def)
qed

section \<open>Properties\<close>

text \<open>
  C35. Looking up by bisection is the same as asking every event: for a calendar built from any events
  by any additions, the active event is one of the given events of the impact asked for whose window
  holds the moment, an earliest one, and there is none only if no given event is such; the
  blackout test agrees with it; and the next event is an earliest given one from the moment on.
\<close>

theorem lookup_matches_scan:
  fixes es ops
  defines "given \<equiv> set es \<union> \<Union> (set (map (set \<circ> given_events) ops))" and "c \<equiv> run_calendar es ops"
  shows "earliest_match given (\<lambda>e. in_window pre post e now \<and> passes f e) (active_event c now pre post f)
    \<and> blackout_active c now pre post f = (active_event c now pre post f \<noteq> None)
    \<and> earliest_match given (\<lambda>e. now \<le> ce_time e \<and> passes f e) (next_event c now f)"
proof -
  have o: "in_order c" and g: "set c = given" unfolding c_def given_def by (rule run_calendar_order run_calendar_events)+
  have "blackout_active c now pre post f = (active_event c now pre post f \<noteq> None)"
    by (auto simp: blackout_active_def active_event_def list_ex_iff find_None_iff)
  with find_earliest [OF o] show ?thesis unfolding active_event_find [OF o] next_event_find [OF o] g by blast
qed

section \<open>Corners\<close>

text \<open>A window of negative length is cut to zero, not empty: an event is always active at its own time.\<close>

lemma negative_window_is_a_moment: "in_window pre post e (ce_time e)"
  by (simp add: in_window_def minutes_def)

end
