(* ===== verification/Session_Gate.thy ===== *)
theory Session_Gate
  imports Events_Calendar
begin

text \<open>
  \<open>core/session_gate.py\<close>: whether a position may be opened now and whether one must be flattened before
  the close, and \<open>scripts/supervisor_session_wiring.py\<close>: the gate of each bot and its daily loss cap.
  An instant is whole microseconds; a local time of day is microseconds since midnight.  The time zone
  database is an argument: it maps a zone name to the local time of day, or knows no such zone.
\<close>

section \<open>The gate\<close>

text \<open>A \<open>datetime\<close>: its wall time, and its offset from UTC when it has one.\<close>

datatype stamp = Naive int | Aware int int

definition to_utc :: "stamp \<Rightarrow> int" where
  "to_utc t = (case t of Naive u \<Rightarrow> u | Aware u offset \<Rightarrow> u - offset)"

definition clock_time :: "int \<Rightarrow> int \<Rightarrow> int \<Rightarrow> int" where
  "clock_time h m s = ((h * 60 + m) * 60 + s) * 1000000"

record session_config =
  sc_zone :: string
  sc_start :: int
  sc_end :: int
  sc_cutoff :: int
  sc_pre :: int
  sc_post :: int
  sc_block_news :: bool

definition session_defaults :: session_config where
  "session_defaults =
     \<lparr>sc_zone = ''America/Chicago'', sc_start = clock_time 8 30 0, sc_end = clock_time 15 0 0,
      sc_cutoff = clock_time 15 59 0, sc_pre = 15, sc_post = 15, sc_block_news = True\<rparr>"

record session_gate =
  gt_config :: session_config
  gt_calendar :: "events_calendar option"

datatype gate_reason =
    NoReason | Allowed | OutsideRth | EodCutoff | NewsBlackout string | EodPending | EodNotDue

type_synonym tzdb = "string \<Rightarrow> (int \<Rightarrow> int) option"

definition within_window :: "int \<Rightarrow> int \<Rightarrow> int \<Rightarrow> bool" where
  "within_window t start stop = (if start \<le> stop then start \<le> t \<and> t < stop else start \<le> t \<or> t < stop)"

definition local_time :: "tzdb \<Rightarrow> session_config \<Rightarrow> int \<Rightarrow> pyexc + int" where
  "local_time db c now = (case db (sc_zone c) of None \<Rightarrow> Inl KeyError | Some f \<Rightarrow> Inr (f now))"

definition entries_allowed :: "tzdb \<Rightarrow> session_gate \<Rightarrow> stamp \<Rightarrow> pyexc + bool \<times> gate_reason" where
  "entries_allowed db g now =
     (let c = gt_config g
      in rbind (local_time db c (to_utc now)) (\<lambda>t. Inr
           (if \<not> within_window t (sc_start c) (sc_end c) then (False, OutsideRth)
            else if sc_cutoff c \<le> t then (False, EodCutoff)
            else case (if sc_block_news c
                       then Option.bind (gt_calendar g)
                              (\<lambda>cal. active_event cal (to_utc now) (sc_pre c) (sc_post c) (Some ''high''))
                       else None) of
                   Some e \<Rightarrow> (False, NewsBlackout (ce_tag e))
                 | None \<Rightarrow> (True, Allowed))))"

definition should_flatten_eod :: "tzdb \<Rightarrow> session_gate \<Rightarrow> stamp \<Rightarrow> pyexc + bool \<times> gate_reason" where
  "should_flatten_eod db g now =
     (let c = gt_config g
      in rbind (local_time db c (to_utc now)) (\<lambda>t. Inr
           (if \<not> within_window t (sc_start c) (sc_end c) then (False, EodNotDue)
            else if sc_cutoff c \<le> t then (True, EodPending)
            else (False, EodNotDue))))"

section \<open>The supervisor's wiring\<close>

record gate_flags =
  gf_enabled :: bool
  gf_crypto :: bool
  gf_mode :: string

text \<open>The registry's extras of a bot; \<open>None\<close> stands for the empty dictionary of flags.\<close>

definition extract_gate_flags :: "(json \<Rightarrow> string) \<Rightarrow> json \<Rightarrow> gate_flags option" where
  "extract_gate_flags show_json extras =
     (case extras of
        JObj d \<Rightarrow>
          (case jget d ''edge_config'' JNull of
             JObj e \<Rightarrow>
               Some \<lparr>gf_enabled = as_bool (jget e ''enable_session_gate'' (JBool False)),
                     gf_crypto = as_bool (jget e ''is_crypto'' (JBool False)),
                     gf_mode = (case jget e ''strategy_mode'' (JStr []) of JStr s \<Rightarrow> s | v \<Rightarrow> show_json v)\<rparr>
           | _ \<Rightarrow> None)
      | _ \<Rightarrow> None)"

definition extract_daily_loss_limit :: "json \<Rightarrow> pyfloat \<Rightarrow> pyexc + pyfloat" where
  "extract_daily_loss_limit extras dflt =
     (case extras of
        JObj d \<Rightarrow>
          (case as_float (jget d ''daily_loss_limit_pct'' (JFloat dflt)) of
             Inl OverflowError \<Rightarrow> Inl OverflowError
           | Inl _ \<Rightarrow> Inr dflt
           | Inr x \<Rightarrow> Inr (if fle x (Fin 0) then dflt else x))
      | _ \<Rightarrow> Inr dflt)"

definition all_day :: "string \<Rightarrow> session_config" where
  "all_day zone =
     session_defaults\<lparr>sc_zone := zone, sc_start := clock_time 0 0 0, sc_end := clock_time 23 59 59,
       sc_cutoff := clock_time 23 59 59\<rparr>"

definition index_session :: session_config where
  "index_session = session_defaults\<lparr>sc_end := clock_time 16 0 0\<rparr>"

definition build_session_gate ::
  "(json \<Rightarrow> string) \<Rightarrow> string \<Rightarrow> json \<Rightarrow> events_calendar option \<Rightarrow> session_gate option" where
  "build_session_gate show_json symbol extras cal =
     (case extract_gate_flags show_json extras of
        None \<Rightarrow> None
      | Some flags \<Rightarrow>
          (if \<not> gf_enabled flags then None
           else
             let up = upper symbol;
                 c = (if gf_crypto flags then all_day ''UTC''
                      else if starts_with up ''MBT'' \<or> starts_with up ''MET'' then all_day ''America/Chicago''
                      else index_session)
             in Some \<lparr>gt_config = c, gt_calendar = cal\<rparr>))"

record session_state =
  bs_gate :: "session_gate option"
  bs_anchor :: pyfloat
  bs_date :: string
  bs_halted :: string
  bs_loss_pct :: pyfloat

definition new_session :: "session_gate option \<Rightarrow> session_state" where
  "new_session g = \<lparr>bs_gate = g, bs_anchor = Fin 0, bs_date = [], bs_halted = [], bs_loss_pct = Fin 0\<rparr>"

definition evaluate_pre_entry_gate :: "tzdb \<Rightarrow> session_state option \<Rightarrow> stamp \<Rightarrow> pyexc + bool \<times> gate_reason" where
  "evaluate_pre_entry_gate db s now =
     (case Option.bind s bs_gate of
        None \<Rightarrow> Inr (True, NoReason)
      | Some g \<Rightarrow>
          rbind (entries_allowed db g now) (\<lambda>(ok, reason).
            Inr (if ok \<and> reason = Allowed then (True, NoReason) else (False, reason))))"

definition should_flatten_now :: "tzdb \<Rightarrow> session_state option \<Rightarrow> stamp \<Rightarrow> pyexc + bool \<times> gate_reason" where
  "should_flatten_now db s now =
     (case Option.bind s bs_gate of
        None \<Rightarrow> Inr (False, NoReason)
      | Some g \<Rightarrow> should_flatten_eod db g now)"

text \<open>The New York date of an instant, as ISO text, is an argument.\<close>

definition current_session_date :: "(int \<Rightarrow> string) \<Rightarrow> stamp \<Rightarrow> string" where
  "current_session_date ny_date now = ny_date (to_utc now)"

definition update_daily_loss_anchor ::
  "(int \<Rightarrow> string) \<Rightarrow> pyfloat \<Rightarrow> stamp \<Rightarrow> session_state \<Rightarrow> bool \<times> session_state" where
  "update_daily_loss_anchor ny_date pnl now s =
     (let today = current_session_date ny_date now
      in if today = bs_date s then (False, s)
         else (True, s\<lparr>bs_date := today, bs_anchor := pnl,
                       bs_halted := (if bs_halted s \<noteq> [] \<and> bs_halted s \<noteq> today then [] else bs_halted s),
                       bs_loss_pct := Fin 0\<rparr>))"

definition enforce_daily_loss_cap ::
  "(int \<Rightarrow> string) \<Rightarrow> pyfloat \<Rightarrow> pyfloat \<Rightarrow> pyfloat \<Rightarrow> stamp \<Rightarrow> session_state \<Rightarrow> (pyexc + bool \<times> pyfloat) \<times> session_state" where
  "enforce_daily_loss_cap ny_date pnl cash limit now s =
     (if fle cash (Fin 0) \<or> fle limit (Fin 0) then (Inr (bs_halted s \<noteq> [], Fin 0), s)
      else
        let s1 = snd (update_daily_loss_anchor ny_date pnl now s);
            session_pnl = fsub pnl (bs_anchor s1)
        in if fle (Fin 0) session_pnl then (Inr (bs_halted s1 \<noteq> [], Fin 0), s1\<lparr>bs_loss_pct := Fin 0\<rparr>)
           else case fdivx (fabs session_pnl) cash of
             Inl x \<Rightarrow> (Inl x, s1)
           | Inr r \<Rightarrow>
               let loss = fmul r (Fin 100); s2 = s1\<lparr>bs_loss_pct := loss\<rparr>
               in if fle limit loss then (Inr (True, loss), s2\<lparr>bs_halted := bs_date s2\<rparr>)
                  else (Inr (bs_halted s2 \<noteq> [], loss), s2))"

section \<open>Lemmas\<close>

text \<open>Both questions fail only for an unknown zone, and are answered from the local time of day.\<close>

lemma gate_answers:
  assumes "db (sc_zone (gt_config g)) = Some f"
  shows "\<exists>r. entries_allowed db g now = Inr r" "\<exists>r. should_flatten_eod db g now = Inr r"
  using assms by (simp_all add: entries_allowed_def should_flatten_eod_def local_time_def Let_def)

lemma flatten_iff:
  assumes "db (sc_zone (gt_config g)) = Some f"
  shows "(\<exists>r. should_flatten_eod db g now = Inr (True, r))
    \<longleftrightarrow> within_window (f (to_utc now)) (sc_start (gt_config g)) (sc_end (gt_config g)) \<and> sc_cutoff (gt_config g) \<le> f (to_utc now)"
  using assms by (simp add: should_flatten_eod_def local_time_def Let_def)

lemma entries_iff:
  assumes "db (sc_zone (gt_config g)) = Some f"
  shows "(\<exists>r. entries_allowed db g now = Inr (True, r))
    \<longleftrightarrow> within_window (f (to_utc now)) (sc_start (gt_config g)) (sc_end (gt_config g)) \<and> f (to_utc now) < sc_cutoff (gt_config g)
        \<and> (sc_block_news (gt_config g) \<longrightarrow>
             (\<forall>cal. gt_calendar g = Some cal \<longrightarrow>
                active_event cal (to_utc now) (sc_pre (gt_config g)) (sc_post (gt_config g)) (Some ''high'') = None))"
  using assms
  by (cases "gt_calendar g")
    (auto simp: entries_allowed_def local_time_def Let_def not_le split: option.splits if_splits)

text \<open>The halt mark is empty or names the date the anchor belongs to.\<close>

definition halt_inv :: "session_state \<Rightarrow> bool" where
  "halt_inv s = (bs_halted s \<in> {[], bs_date s})"

type_synonym cap_call = "pyfloat \<times> pyfloat \<times> pyfloat \<times> stamp"

definition cap_step :: "(int \<Rightarrow> string) \<Rightarrow> session_state \<Rightarrow> cap_call \<Rightarrow> session_state" where
  "cap_step ny_date s ev = (case ev of (pnl, cash, limit, now) \<Rightarrow> snd (enforce_daily_loss_cap ny_date pnl cash limit now s))"

lemma halt_inv_update: "halt_inv s \<Longrightarrow> halt_inv (snd (update_daily_loss_anchor ny pnl now s))"
  by (auto simp: update_daily_loss_anchor_def halt_inv_def Let_def)

lemma halt_inv_enforce:
  assumes "halt_inv s"
  shows "halt_inv (snd (enforce_daily_loss_cap ny pnl cash limit now s))"
proof -
  have "halt_inv (snd (update_daily_loss_anchor ny pnl now s))" by (rule halt_inv_update [OF assms])
  then show ?thesis using assms by (auto simp: enforce_daily_loss_cap_def halt_inv_def Let_def split: sum.split)
qed

interpretation cap: machine "cap_step ny" halt_inv "\<lambda>_. True" for ny
  by unfold_locales (simp add: cap_step_def halt_inv_enforce split: prod.split)

lemma same_day_update: "current_session_date ny now = bs_date s \<Longrightarrow> update_daily_loss_anchor ny pnl now s = (False, s)"
  by (simp add: update_daily_loss_anchor_def Let_def)

text \<open>A halted session stays halted while its date lasts.\<close>

lemma halted_stays:
  assumes "bs_halted s = bs_date s" "bs_date s \<noteq> []" "current_session_date ny now = bs_date s"
  shows "bs_halted (snd (enforce_daily_loss_cap ny pnl cash limit now s)) = bs_date s
    \<and> bs_date (snd (enforce_daily_loss_cap ny pnl cash limit now s)) = bs_date s
    \<and> (\<forall>b x. fst (enforce_daily_loss_cap ny pnl cash limit now s) = Inr (b, x) \<longrightarrow> b)"
  using assms
  by (auto simp: enforce_daily_loss_cap_def same_day_update Let_def split: sum.splits if_splits)

lemma halted_run:
  assumes "bs_halted s = bs_date s" "bs_date s \<noteq> []"
    "list_all (\<lambda>(pnl, cash, limit, now). current_session_date ny now = bs_date s) evs"
  shows "bs_halted (foldl (cap_step ny) s evs) = bs_date s \<and> bs_date (foldl (cap_step ny) s evs) = bs_date s"
  using assms
proof (induction evs arbitrary: s)
  case (Cons ev evs)
  obtain pnl cash limit now where ev: "ev = (pnl, cash, limit, now)" by (metis prod_cases4)
  then have "bs_halted (cap_step ny s ev) = bs_date s" "bs_date (cap_step ny s ev) = bs_date s"
    using halted_stays [of s ny now pnl cash limit] Cons.prems by (simp_all add: cap_step_def)
  with Cons.IH [of "cap_step ny s ev"] Cons.prems show ?case by simp
qed simp

lemma fdivx_pos_cash: "\<not> fle cash (Fin 0) \<Longrightarrow> \<exists>r. fdivx x cash = Inr r"
  by (cases x; cases cash) (auto simp: fdivx_def)

lemma fdivx_nan: "\<not> fle cash (Fin 0) \<Longrightarrow> fdivx NaN cash = Inr NaN"
  by (cases cash) (auto simp: fdivx_def fle_def feq_def finf_def)

text \<open>A profit measured from itself is zero, or not a number; neither reaches a limit.\<close>

lemma fresh_anchor_is_free: "fle (Fin 0) (fsub p p) \<or> fsub p p = NaN"
  by (cases p) (simp_all add: fsub_def)

lemma no_active_event:
  "active_event (run_calendar es ops) now pre post (Some i) = None
    \<longleftrightarrow> \<not> (\<exists>e\<in>set es \<union> \<Union> (set (map (set \<circ> given_events) ops)). in_window pre post e now \<and> ce_impact e = i)"
  using run_calendar_order [of es ops] run_calendar_events [of es ops]
  by (auto simp: active_event_find find_None_iff passes_def)

definition demo_event :: "string \<Rightarrow> int \<Rightarrow> calendar_event" where
  "demo_event tag t =
     \<lparr>ce_tag = tag, ce_time = minutes t, ce_impact = ''high'', ce_description = [], ce_source = ''manual''\<rparr>"

section \<open>Properties\<close>

text \<open>
  The end-of-day flatten fires in one minute or never: with the default settings, and with the
  settings the supervisor gives crypto bots, it never asks to flatten, at any time, because the
  cutoff is not before the end of the window; with the supervisor's futures settings it asks exactly from
  15:59 to 16:00 in Chicago, and not after.
\<close>

theorem eod_flatten_window:
  "should_flatten_eod db \<lparr>gt_config = session_defaults, gt_calendar = cal\<rparr> now \<noteq> Inr (True, r)
   \<and> should_flatten_eod db \<lparr>gt_config = all_day zone, gt_calendar = cal\<rparr> now \<noteq> Inr (True, r)
   \<and> (\<exists>r. should_flatten_eod db \<lparr>gt_config = index_session, gt_calendar = cal\<rparr> now = Inr (True, r))
      = (\<exists>f. db ''America/Chicago'' = Some f \<and> clock_time 15 59 0 \<le> f (to_utc now) \<and> f (to_utc now) < clock_time 16 0 0)"
  by (cases "db ''America/Chicago''"; cases "db zone")
    (auto simp: should_flatten_eod_def local_time_def within_window_def session_defaults_def all_day_def index_session_def
      clock_time_def Let_def split: if_splits)

text \<open>
  C36. Entries are allowed exactly when all three rules allow them: with a calendar built from any
  events and additions, the gate lets a bot in when and only when the local time is in the session
  window, before the cutoff, and no high-impact event given to the calendar has the moment in its
  window; and it never lets a bot in while it asks to flatten.
\<close>

theorem entries_allowed_exactly:
  assumes "db (sc_zone c) = Some f" "sc_block_news c"
  shows "(\<exists>r. entries_allowed db \<lparr>gt_config = c, gt_calendar = Some (run_calendar es ops)\<rparr> now = Inr (True, r))
    \<longleftrightarrow> within_window (f (to_utc now)) (sc_start c) (sc_end c) \<and> f (to_utc now) < sc_cutoff c
        \<and> \<not> (\<exists>e\<in>set es \<union> \<Union> (set (map (set \<circ> given_events) ops)).
               in_window (sc_pre c) (sc_post c) e (to_utc now) \<and> ce_impact e = ''high'')
        \<and> \<not> (\<exists>r. should_flatten_eod db \<lparr>gt_config = c, gt_calendar = Some (run_calendar es ops)\<rparr> now = Inr (True, r))"
proof -
  let ?g = "\<lparr>gt_config = c, gt_calendar = Some (run_calendar es ops)\<rparr>"
  have z: "db (sc_zone (gt_config ?g)) = Some f" using assms(1) by simp
  show ?thesis unfolding entries_iff [of db ?g f, OF z] flatten_iff [of db ?g f, OF z] using assms(2) by (auto simp: no_active_event)
qed

text \<open>
  C37. A daily loss halt holds for the session and no longer: once the cap has halted a bot, every
  later check of the same date finds it halted, whatever its profit, cash and limit are by then;
  and the first check of another date, with cash and a limit above zero, finds it free again.
\<close>

theorem halt_lasts_the_session:
  assumes "halt_inv s" "enforce_daily_loss_cap ny pnl cash limit now s = (Inr (True, loss), s1)" "bs_date s1 \<noteq> []"
    "list_all (\<lambda>(p, c, l, t). current_session_date ny t = bs_date s1) evs"
    "s2 = foldl (cap_step ny) s1 evs"
  shows "(current_session_date ny t = bs_date s1 \<longrightarrow> (\<exists>x. fst (enforce_daily_loss_cap ny p c l t s2) = Inr (True, x)))
    \<and> (current_session_date ny t \<noteq> bs_date s1 \<and> \<not> fle c (Fin 0) \<and> \<not> fle l (Fin 0) \<longrightarrow>
        (\<exists>x. fst (enforce_daily_loss_cap ny p c l t s2) = Inr (False, x)))"
proof -
  have "halt_inv s1" using halt_inv_enforce [OF assms(1), of ny pnl cash limit now] assms(2) by simp
  moreover have "bs_halted s1 \<noteq> []"
    using assms(2,3) by (auto simp: enforce_daily_loss_cap_def Let_def split: sum.splits if_splits)
  ultimately have h: "bs_halted s1 = bs_date s1" by (simp add: halt_inv_def)
  from halted_run [OF h assms(3,4)] assms(5) have s2: "bs_halted s2 = bs_date s1" "bs_date s2 = bs_date s1" by simp_all
  have "\<exists>x. fst (enforce_daily_loss_cap ny p c l t s2) = Inr (True, x)" if "current_session_date ny t = bs_date s1"
    using halted_stays [of s2 ny t p c l] that s2 assms(3) fdivx_pos_cash [of c "fabs (fsub p (bs_anchor s2))"]
    by (auto simp: enforce_daily_loss_cap_def same_day_update Let_def)
  moreover have "\<exists>x. fst (enforce_daily_loss_cap ny p c l t s2) = Inr (False, x)"
    if other: "current_session_date ny t \<noteq> bs_date s1" "\<not> fle c (Fin 0)" "\<not> fle l (Fin 0)"
  proof -
    show ?thesis using fresh_anchor_is_free [of p] other s2 assms(3)
      by (auto simp: enforce_daily_loss_cap_def update_daily_loss_anchor_def Let_def fdivx_nan finf_def fle_def feq_def)
  qed
  ultimately show ?thesis by blast
qed

definition demo_db :: tzdb where
  "demo_db zone = Some (\<lambda>t. t mod clock_time 24 0 0)"

theorem entries_allowed_exactly_witness:
  "(\<exists>r. entries_allowed demo_db \<lparr>gt_config = session_defaults, gt_calendar = Some (run_calendar [demo_event ''CPI'' 540] [])\<rparr>
          (Naive (minutes 600)) = Inr (True, r))
   \<and> \<not> (\<exists>r. entries_allowed demo_db \<lparr>gt_config = session_defaults, gt_calendar = Some (run_calendar [demo_event ''CPI'' 540] [])\<rparr>
          (Naive (minutes 550)) = Inr (True, r))"
proof -
  have z: "demo_db (sc_zone session_defaults) = Some (\<lambda>t. t mod clock_time 24 0 0)" "sc_block_news session_defaults"
    by (simp_all add: demo_db_def session_defaults_def)
  note e = entries_allowed_exactly [where db = demo_db and c = session_defaults and es = "[demo_event ''CPI'' 540]" and ops = "[]", OF z]
  show ?thesis unfolding e
    by (simp add: should_flatten_eod_def local_time_def demo_db_def within_window_def session_defaults_def clock_time_def
        to_utc_def minutes_def in_window_def demo_event_def)
qed

definition demo_ny :: "int \<Rightarrow> string" where
  "demo_ny t = (if t < 100 then ''2026-01-05'' else ''2026-01-06'')"

theorem halt_lasts_the_session_witness:
  "(\<exists>s1. enforce_daily_loss_cap demo_ny (Fin (-250)) (Fin 1000) (Fin (5 / 2)) (Naive 2)
        (snd (enforce_daily_loss_cap demo_ny (Fin 0) (Fin 1000) (Fin (5 / 2)) (Naive 1) (new_session None))) = (Inr (True, Fin 25), s1)
     \<and> (\<exists>x. fst (enforce_daily_loss_cap demo_ny (Fin 500) (Fin 1000) (Fin (5 / 2)) (Naive 50) s1) = Inr (True, x))
     \<and> (\<exists>x. fst (enforce_daily_loss_cap demo_ny (Fin 500) (Fin 1000) (Fin (5 / 2)) (Naive 100) s1) = Inr (False, x)))"
proof -
  let ?s0 = "snd (enforce_daily_loss_cap demo_ny (Fin 0) (Fin 1000) (Fin (5 / 2)) (Naive 1) (new_session None))"
  have inv: "halt_inv ?s0" by (rule halt_inv_enforce) (simp add: halt_inv_def new_session_def)
  have exact: "fl (- 250) = Fin (- 250)" "fl (1 / 4) = Fin (1 / 4)" "fl 25 = Fin 25" by code_simp+
  have s0: "?s0 = \<lparr>bs_gate = None, bs_anchor = Fin 0, bs_date = ''2026-01-05'', bs_halted = [], bs_loss_pct = Fin 0\<rparr>"
    by (simp add: enforce_daily_loss_cap_def update_daily_loss_anchor_def current_session_date_def demo_ny_def to_utc_def
        new_session_def Let_def)
  let ?r = "enforce_daily_loss_cap demo_ny (Fin (-250)) (Fin 1000) (Fin (5 / 2)) (Naive 2) ?s0"
  have r: "fst ?r = Inr (True, Fin 25)" "bs_date (snd ?r) = ''2026-01-05''"
    unfolding s0
    by (simp_all add: enforce_daily_loss_cap_def update_daily_loss_anchor_def current_session_date_def demo_ny_def to_utc_def
        fdivx_def exact Let_def)
  then have e: "?r = (Inr (True, Fin 25), snd ?r)" by (metis prod.collapse)
  have "bs_date (snd ?r) \<noteq> []" using r(2) by simp
  from halt_lasts_the_session [OF inv e this _ refl, of "[]" "Naive 50" "Fin 500" "Fin 1000" "Fin (5 / 2)"]
    halt_lasts_the_session [OF inv e this _ refl, of "[]" "Naive 100" "Fin 500" "Fin 1000" "Fin (5 / 2)"] e r(2)
  show ?thesis by (simp add: current_session_date_def demo_ny_def to_utc_def) blast
qed

section \<open>Corners\<close>

text \<open>
  The anchor is memory only: a restart takes the profit of its first check as the day's start, so
  the loss of the morning is forgotten and the halt with it.
\<close>

lemma restart_forgets_the_loss:
  assumes "ny (to_utc now) \<noteq> []" "\<not> fle cash (Fin 0)" "\<not> fle limit (Fin 0)"
  shows "fst (enforce_daily_loss_cap ny (Fin loss) cash limit now (new_session g)) = Inr (False, Fin 0)"
  using assms
  by (simp add: enforce_daily_loss_cap_def update_daily_loss_anchor_def current_session_date_def new_session_def Let_def)

text \<open>Without cash the date is not looked at: a halt of an earlier session then never ends.\<close>

lemma stale_halt_without_cash:
  "enforce_daily_loss_cap ny pnl (Fin 0) limit now s = (Inr (bs_halted s \<noteq> [], Fin 0), s)"
  by (simp add: enforce_daily_loss_cap_def)

text \<open>A limit that is not a number never halts.\<close>

lemma nan_limit_never_halts:
  "halt_inv s \<Longrightarrow> bs_halted s = [] \<Longrightarrow> bs_halted (snd (enforce_daily_loss_cap ny pnl cash NaN now s)) = []"
  by (auto simp: enforce_daily_loss_cap_def update_daily_loss_anchor_def Let_def split: sum.split)

end
