(* ===== verification/Waterfall.thy ===== *)
theory Waterfall
  imports Durable Whole
begin

text \<open>
  The four-layer profit funnel: \<open>funnel/waterfall.py\<close>, the planner of sweeps and risk directives;
  \<open>strategies/regime_allocator.py\<close>, the target weights; and \<open>scripts/funnel_sweep_daily.py\<close>, the
  daily run that plans, applies the plan to the state file and writes it back.
\<close>

section \<open>The planner's data\<close>

datatype layer_id = LAYER_1_MNQ | LAYER_2_BTC | LAYER_3_PERPS | LAYER_4_STAKING

datatype risk_action = NORMAL_RISK | REDUCE_SIZE | HALT | RESUME

datatype vol_regime = LOW_VOL | NORMAL_VOL | HIGH_VOL

record risk_tier =
  rt_max_position :: pyfloat
  rt_daily_cap :: pyfloat
  rt_kill :: pyfloat
  rt_leverage :: pyfloat
  rt_sweep :: pyfloat
  rt_min_out :: pyfloat
  rt_min_in :: pyfloat

type_synonym tiers = "(layer_id, risk_tier) dict"

definition default_tiers :: tiers where
  "default_tiers =
     [(LAYER_1_MNQ, \<lparr>rt_max_position = fl (5 / 100), rt_daily_cap = fl (6 / 100), rt_kill = fl (12 / 100),
        rt_leverage = Fin 10, rt_sweep = fl (65 / 100), rt_min_out = Fin 25, rt_min_in = Fin 0\<rparr>),
      (LAYER_2_BTC, \<lparr>rt_max_position = fl (3 / 100), rt_daily_cap = fl (4 / 100), rt_kill = fl (9 / 100),
        rt_leverage = Fin 5, rt_sweep = fl (65 / 100), rt_min_out = Fin 25, rt_min_in = Fin 0\<rparr>),
      (LAYER_3_PERPS, \<lparr>rt_max_position = fl (15 / 1000), rt_daily_cap = fl (25 / 1000), rt_kill = fl (6 / 100),
        rt_leverage = Fin 3, rt_sweep = fl (75 / 100), rt_min_out = Fin 50, rt_min_in = Fin 100\<rparr>),
      (LAYER_4_STAKING, \<lparr>rt_max_position = Fin 0, rt_daily_cap = Fin 0, rt_kill = Fin 0,
        rt_leverage = Fin 1, rt_sweep = Fin 0, rt_min_out = Fin 0, rt_min_in = Fin 50\<rparr>)]"

record layer_snapshot =
  ly_current :: pyfloat
  ly_peak :: pyfloat
  ly_pnl :: pyfloat
  ly_regime :: vol_regime
  ly_vol_z :: pyfloat

type_synonym layers = "(layer_id, layer_snapshot) dict"

text \<open>Division by a divisor that the caller has found to be above zero, or not a number.\<close>

definition fquot :: "pyfloat \<Rightarrow> pyfloat \<Rightarrow> pyfloat" where
  "fquot x y = (case fdiv x y of Some z \<Rightarrow> z | None \<Rightarrow> NaN)"

lemma fquot_fdiv: "\<not> fle y (Fin 0) \<Longrightarrow> fdiv x y = Some (fquot x y)"
  by (cases x; cases y) (auto simp: fquot_def)

text \<open>\<open>drawdown_pct\<close> of a layer and of the whole funnel: \<open>max(0.0, 1.0 - current / peak)\<close>.\<close>

definition drawdown_of :: "pyfloat \<Rightarrow> pyfloat \<Rightarrow> pyfloat" where
  "drawdown_of current peak =
     (if fle peak (Fin 0) then Fin 0 else pymax (Fin 0) (fsub (Fin 1) (fquot current peak)))"

definition layer_drawdown :: "layer_snapshot \<Rightarrow> pyfloat" where
  "layer_drawdown l = drawdown_of (ly_current l) (ly_peak l)"

definition total_equity :: "layers \<Rightarrow> pyfloat" where
  "total_equity ls = pysum (map (ly_current \<circ> snd) ls)"

definition total_peak :: "layers \<Rightarrow> pyfloat" where
  "total_peak ls = pysum (map (ly_peak \<circ> snd) ls)"

definition global_drawdown :: "layers \<Rightarrow> pyfloat" where
  "global_drawdown ls = drawdown_of (total_equity ls) (total_peak ls)"

datatype sweep_note =
    SweptProfit string pyfloat pyfloat
  | RebalanceOf layer_id layer_id

record proposed_sweep =
  ps_src :: layer_id
  ps_dst :: layer_id
  ps_amount :: pyfloat
  ps_reason :: sweep_note

datatype directive_reason =
    GlobalDrawdown pyfloat pyfloat | LayerDrawdown pyfloat pyfloat | CorrelationGuard nat | VolScale pyfloat pyfloat

record risk_directive =
  rd_layer :: layer_id
  rd_action :: risk_action
  rd_mult :: pyfloat
  rd_reason :: directive_reason

datatype plan_note =
    GlobalKillTriggered | CorrelationGuardFired "layer_id list" | SrcHalted layer_id layer_id
  | BelowOutgoing layer_id layer_id pyfloat pyfloat | BelowIncoming layer_id layer_id pyfloat pyfloat

record waterfall_plan =
  wp_sweeps :: "proposed_sweep list"
  wp_directives :: "risk_directive list"
  wp_global_kill :: bool
  wp_global_dd :: pyfloat
  wp_notes :: "plan_note list"

record waterfall =
  wf_tiers :: tiers
  wf_kill :: pyfloat
  wf_corr_mult :: pyfloat
  wf_vol_sens :: pyfloat
  wf_flow :: "(layer_id \<times> layer_id \<times> string) list"

definition default_flow :: "(layer_id \<times> layer_id \<times> string) list" where
  "default_flow =
     [(LAYER_1_MNQ, LAYER_3_PERPS, ''L1_profit_sweep_to_L3''),
      (LAYER_2_BTC, LAYER_3_PERPS, ''L2_profit_sweep_to_L3''),
      (LAYER_3_PERPS, LAYER_4_STAKING, ''L3_profit_sweep_to_staking'')]"

definition default_waterfall :: "pyfloat \<Rightarrow> waterfall" where
  "default_waterfall kill =
     \<lparr>wf_tiers = default_tiers, wf_kill = kill, wf_corr_mult = fl (6 / 10), wf_vol_sens = Fin (1 / 2),
      wf_flow = default_flow\<rparr>"

section \<open>Planning\<close>

definition halt_of :: "tiers \<Rightarrow> layer_id \<times> layer_snapshot \<Rightarrow> risk_directive option" where
  "halt_of ts l =
     (case dget ts (fst l) of
        None \<Rightarrow> None
      | Some t \<Rightarrow>
          (if flt (Fin 0) (rt_kill t) \<and> fle (rt_kill t) (layer_drawdown (snd l))
           then Some \<lparr>rd_layer = fst l, rd_action = HALT, rd_mult = Fin 0,
                      rd_reason = LayerDrawdown (layer_drawdown (snd l)) (rt_kill t)\<rparr>
           else None))"

definition risky_layers :: "layer_id list" where
  "risky_layers = [LAYER_1_MNQ, LAYER_2_BTC, LAYER_3_PERPS]"

definition high_vol_hits :: "layers \<Rightarrow> layer_id list" where
  "high_vol_hits ls = filter (\<lambda>k. \<exists>l\<in>set_option (dget ls k). ly_regime l = HIGH_VOL) risky_layers"

definition guard_cuts :: "waterfall \<Rightarrow> layer_id list \<Rightarrow> layer_id list \<Rightarrow> risk_directive list" where
  "guard_cuts w halted hits =
     (if 2 \<le> length hits
      then map (\<lambda>k. \<lparr>rd_layer = k, rd_action = REDUCE_SIZE, rd_mult = wf_corr_mult w,
                      rd_reason = CorrelationGuard (length hits)\<rparr>) (filter (\<lambda>k. k \<notin> set halted) hits)
      else [])"

definition vol_mult :: "pyfloat \<Rightarrow> pyfloat \<Rightarrow> pyexc + pyfloat" where
  "vol_mult z sens =
     rbind (fdivx (Fin 1) (fadd (Fin 1) (fmul z sens))) (\<lambda>m. Inr (pymax (Fin (1 / 4)) (pymin (Fin 1) m)))"

fun vol_cuts :: "waterfall \<Rightarrow> layer_id list \<Rightarrow> layers \<Rightarrow> pyexc + risk_directive list" where
  "vol_cuts w skip [] = Inr []"
| "vol_cuts w skip ((k, l) # ls) =
     (if k \<in> set skip \<or> fle (ly_vol_z l) (Fin 0) then vol_cuts w skip ls
      else rbind (vol_mult (ly_vol_z l) (wf_vol_sens w)) (\<lambda>m.
             rbind (vol_cuts w skip ls) (\<lambda>ds.
               Inr (if flt m (fl (95 / 100))
                    then \<lparr>rd_layer = k, rd_action = REDUCE_SIZE, rd_mult = m, rd_reason = VolScale (ly_vol_z l) m\<rparr> # ds
                    else ds))))"

definition plan_sweep ::
  "tiers \<Rightarrow> layer_id list \<Rightarrow> layers \<Rightarrow> layer_id \<times> layer_id \<times> string \<Rightarrow> plan_note list \<times> proposed_sweep list" where
  "plan_sweep ts halted ls = (\<lambda>(src, dst, tag).
     if src \<in> set halted then ([SrcHalted src dst], [])
     else case (dget ts src, dget ts dst, dget ls src) of
       (Some st, Some dt, Some l) \<Rightarrow>
         (if fle (ly_pnl l) (Fin 0) then ([], [])
          else let amount = fmul (ly_pnl l) (rt_sweep st)
               in if flt amount (rt_min_out st) then ([BelowOutgoing src dst amount (rt_min_out st)], [])
                  else if flt amount (rt_min_in dt) then ([BelowIncoming src dst amount (rt_min_in dt)], [])
                  else ([], [\<lparr>ps_src = src, ps_dst = dst, ps_amount = amount,
                              ps_reason = SweptProfit tag (rt_sweep st) (ly_pnl l)\<rparr>]))
     | _ \<Rightarrow> ([], []))"

definition plan_waterfall :: "waterfall \<Rightarrow> layers \<Rightarrow> pyexc + waterfall_plan" where
  "plan_waterfall w ls =
     (let dd = global_drawdown ls
      in if fle (wf_kill w) dd
         then Inr \<lparr>wp_sweeps = [],
                   wp_directives = map (\<lambda>(k, _). \<lparr>rd_layer = k, rd_action = HALT, rd_mult = Fin 0,
                                                    rd_reason = GlobalDrawdown dd (wf_kill w)\<rparr>) (wf_tiers w),
                   wp_global_kill = True, wp_global_dd = dd, wp_notes = [GlobalKillTriggered]\<rparr>
         else
           let halts = List.map_filter (halt_of (wf_tiers w)) ls;
               halted = map rd_layer halts;
               hits = high_vol_hits ls;
               cuts = guard_cuts w halted hits
           in rbind (vol_cuts w (halted @ map rd_layer cuts) ls) (\<lambda>scaled.
                let flows = map (plan_sweep (wf_tiers w) halted ls) (wf_flow w)
                in Inr \<lparr>wp_sweeps = concat (map snd flows), wp_directives = halts @ cuts @ scaled,
                        wp_global_kill = False, wp_global_dd = dd,
                        wp_notes = (if 2 \<le> length hits then [CorrelationGuardFired hits] else [])
                                    @ concat (map fst flows)\<rparr>))"

section \<open>Target weights\<close>

record alloc_input =
  ai_layer :: layer_id
  ai_regime :: vol_regime
  ai_base :: pyfloat
  ai_edge :: pyfloat

type_synonym weights = "(layer_id, pyfloat) dict"

datatype alloc_note = VolScaled layer_id vol_regime pyfloat | CorrPenalty layer_id layer_id pyfloat pyfloat
  | GlobalKillRiskyZeroed | RiskySumZeroSinkOnly

record allocation_plan =
  ap_weights :: weights
  ap_notes :: "alloc_note list"
  ap_corr :: bool
  ap_kill :: bool

definition default_base :: weights where
  "default_base = [(LAYER_1_MNQ, fl (40 / 100)), (LAYER_2_BTC, fl (30 / 100)), (LAYER_3_PERPS, fl (20 / 100)),
                   (LAYER_4_STAKING, fl (10 / 100))]"

definition vol_weight :: "vol_regime \<Rightarrow> pyfloat" where
  "vol_weight r = (case r of LOW_VOL \<Rightarrow> fl (70 / 100) | NORMAL_VOL \<Rightarrow> Fin 1 | HIGH_VOL \<Rightarrow> fl (55 / 100))"

text \<open>\<open>weights[k] *= x\<close>, for a key that is present.\<close>

definition scale_at :: "layer_id \<Rightarrow> pyfloat \<Rightarrow> weights \<Rightarrow> weights" where
  "scale_at k x ws = dset k (fmul (dget_or ws k (Fin 0)) x) ws"

definition scale_vol :: "weights \<Rightarrow> alloc_input \<Rightarrow> weights" where
  "scale_vol ws i =
     (if ai_layer i = LAYER_4_STAKING then ws else scale_at (ai_layer i) (vol_weight (ai_regime i)) ws)"

definition penalise :: "pyfloat \<Rightarrow> pyfloat \<Rightarrow> weights \<Rightarrow> (layer_id \<times> layer_id) \<times> pyfloat \<Rightarrow> weights" where
  "penalise threshold mult ws = (\<lambda>((a, b), rho).
     if a = LAYER_4_STAKING \<or> b = LAYER_4_STAKING \<or> \<not> flt threshold rho then ws
     else if flt (dget_or ws a (Fin 0)) (dget_or ws b (Fin 0)) then scale_at a mult ws else scale_at b mult ws)"

definition boost :: "weights \<Rightarrow> alloc_input \<Rightarrow> weights" where
  "boost ws i =
     (if ai_layer i = LAYER_4_STAKING \<or> fle (ai_edge i) (Fin 0) then ws
      else scale_at (ai_layer i)
             (fadd (Fin 1) (pymin (Fin (1 / 2)) (fmul (pymax (Fin 0) (ai_edge i)) (Fin (1 / 2))))) ws)"

definition zero_risky :: "weights \<Rightarrow> weights" where
  "zero_risky ws = map (\<lambda>(k, v). (k, if k = LAYER_4_STAKING then v else Fin 0)) ws"

definition normalise_risky :: "pyfloat \<Rightarrow> weights \<Rightarrow> weights" where
  "normalise_risky sink ws =
     (let risky = pysum (map snd (filter (\<lambda>(k, _). k \<noteq> LAYER_4_STAKING) ws))
      in if flt (Fin 0) risky
         then map (\<lambda>(k, v). (k, if k = LAYER_4_STAKING then v else fmul v (fquot (fsub (Fin 1) sink) risky))) ws
         else ws)"

definition plan_allocation ::
  "alloc_input list \<Rightarrow> ((layer_id \<times> layer_id) \<times> pyfloat) list \<Rightarrow> pyfloat \<Rightarrow> pyfloat \<Rightarrow> bool \<Rightarrow> pyfloat
     \<Rightarrow> weights \<Rightarrow> allocation_plan" where
  "plan_allocation inputs corrs threshold penalty kill sink base0 =
     (let base = (if base0 = [] then default_base else base0);
          ws0 = foldl (\<lambda>ws i. dset (ai_layer i) (dget_or base (ai_layer i) (Fin 0)) ws) [] inputs;
          ws1 = foldl scale_vol ws0 inputs;
          fired = filter (\<lambda>((a, b), rho). a \<noteq> LAYER_4_STAKING \<and> b \<noteq> LAYER_4_STAKING \<and> flt threshold rho) corrs;
          ws2 = foldl (penalise threshold penalty) ws1 corrs;
          ws3 = foldl boost ws2 inputs;
          ws4 = (if kill then zero_risky ws3 else ws3);
          positive = flt (Fin 0) (pysum (map snd (filter (\<lambda>(k, _). k \<noteq> LAYER_4_STAKING) ws4)))
      in \<lparr>ap_weights = dset LAYER_4_STAKING sink (normalise_risky sink ws4),
          ap_notes = map (\<lambda>i. VolScaled (ai_layer i) (ai_regime i) (vol_weight (ai_regime i)))
                       (filter (\<lambda>i. ai_layer i \<noteq> LAYER_4_STAKING \<and> \<not> feq (vol_weight (ai_regime i)) (Fin 1)) inputs)
                     @ map (\<lambda>((a, b), rho). CorrPenalty a b rho threshold) fired
                     @ (if kill then [GlobalKillRiskyZeroed] else []) @ (if positive then [] else [RiskySumZeroSinkOnly]),
          ap_corr = (fired \<noteq> []), ap_kill = kill\<rparr>)"

section \<open>Lemmas\<close>

lemma halt_of_Some:
  "halt_of ts l = Some d \<longleftrightarrow>
     (\<exists>t. dget ts (fst l) = Some t \<and> flt (Fin 0) (rt_kill t) \<and> fle (rt_kill t) (layer_drawdown (snd l))
        \<and> d = \<lparr>rd_layer = fst l, rd_action = HALT, rd_mult = Fin 0, rd_reason = LayerDrawdown (layer_drawdown (snd l)) (rt_kill t)\<rparr>)"
  by (auto simp: halt_of_def split: option.splits)

definition halts_of :: "tiers \<Rightarrow> layers \<Rightarrow> risk_directive list" where
  "halts_of ts ls = List.map_filter (halt_of ts) ls"

lemma halts_of_layers:
  "set (map rd_layer (halts_of ts ls)) \<subseteq> fst ` set ls" "distinct (map fst ls) \<Longrightarrow> distinct (map rd_layer (halts_of ts ls))"
proof -
  show sub: "set (map rd_layer (halts_of ts ls)) \<subseteq> fst ` set ls" for ls
    by (auto simp: halts_of_def halt_of_Some image_iff) force
  show "distinct (map fst ls) \<Longrightarrow> distinct (map rd_layer (halts_of ts ls))"
  proof (induction ls)
    case (Cons l ls)
    have "rd_layer d = fst l" if "halt_of ts l = Some d" for d using that by (auto simp: halt_of_Some)
    moreover have "fst l \<notin> set (map rd_layer (halts_of ts ls))" using sub [of ls] Cons.prems by auto
    ultimately show ?case using Cons by (cases "halt_of ts l") (auto simp: halts_of_def List.map_filter_def)
  qed (simp add: halts_of_def List.map_filter_def)
qed

lemma vol_mult_range:
  assumes "vol_mult z sens = Inr m"
  shows "fle (Fin (1 / 4)) m \<and> fle m (Fin 1)"
proof -
  from assms obtain q where m: "m = pymax (Fin (1 / 4)) (pymin (Fin 1) q)" by (auto simp: vol_mult_def)
  then show ?thesis by (cases q) (auto simp: pymax_def pymin_def)
qed

lemma vol_cuts_layers:
  "vol_cuts w skip ls = Inr ds \<Longrightarrow> d \<in> set ds \<Longrightarrow>
   rd_layer d \<in> fst ` set ls \<and> rd_layer d \<notin> set skip
   \<and> rd_action d = REDUCE_SIZE \<and> fle (Fin (1 / 4)) (rd_mult d) \<and> flt (rd_mult d) (fl (95 / 100))"
  by (induction w skip ls arbitrary: ds rule: vol_cuts.induct) (use vol_mult_range in \<open>auto split: if_splits\<close>)

lemma vol_cuts_distinct:
  "vol_cuts w skip ls = Inr ds \<Longrightarrow> distinct (map fst ls) \<Longrightarrow> distinct (map rd_layer ds)"
proof (induction w skip ls arbitrary: ds rule: vol_cuts.induct)
  case (2 w skip k l ls)
  show ?case
  proof (cases "k \<in> set skip \<or> fle (ly_vol_z l) (Fin 0)")
    case True
    with 2 show ?thesis by auto
  next
    case False
    with 2(3) obtain m es where es: "vol_mult (ly_vol_z l) (wf_vol_sens w) = Inr m" "vol_cuts w skip ls = Inr es"
      "ds = es \<or> (\<exists>d. rd_layer d = k \<and> ds = d # es)" by (auto split: if_splits)
    have "distinct (map rd_layer es)" using 2(2) [OF False es(2)] 2(4) by simp
    moreover have "k \<notin> set (map rd_layer es)" using vol_cuts_layers [OF es(2)] 2(4) by auto
    ultimately show ?thesis using es(3) by auto
  qed
qed simp

lemma guard_cuts_spec:
  "set (map rd_layer (guard_cuts w halted hits)) \<subseteq> set hits - set halted"
  "distinct hits \<Longrightarrow> distinct (map rd_layer (guard_cuts w halted hits))"
  "d \<in> set (guard_cuts w halted hits) \<Longrightarrow> rd_action d = REDUCE_SIZE \<and> rd_mult d = wf_corr_mult w"
  by (auto simp: guard_cuts_def comp_def)

lemma distinct_hits [simp]: "distinct (high_vol_hits ls)"
  by (simp add: high_vol_hits_def risky_layers_def)

lemma plan_sweep_spec:
  "sw \<in> set (snd (plan_sweep ts halted ls (src, dst, tag))) \<longleftrightarrow>
     src \<notin> set halted \<and> (\<exists>st dt l. dget ts src = Some st \<and> dget ts dst = Some dt \<and> dget ls src = Some l
       \<and> \<not> fle (ly_pnl l) (Fin 0) \<and> \<not> flt (fmul (ly_pnl l) (rt_sweep st)) (rt_min_out st)
       \<and> \<not> flt (fmul (ly_pnl l) (rt_sweep st)) (rt_min_in dt)
       \<and> sw = \<lparr>ps_src = src, ps_dst = dst, ps_amount = fmul (ly_pnl l) (rt_sweep st),
               ps_reason = SweptProfit tag (rt_sweep st) (ly_pnl l)\<rparr>)"
  by (auto simp: plan_sweep_def Let_def split: option.splits if_splits)

lemma plan_waterfall_live:
  assumes "plan_waterfall w ls = Inr p" "\<not> fle (wf_kill w) (global_drawdown ls)"
  obtains scaled where
    "vol_cuts w (map rd_layer (halts_of (wf_tiers w) ls @ guard_cuts w (map rd_layer (halts_of (wf_tiers w) ls)) (high_vol_hits ls))) ls
       = Inr scaled"
    "wp_directives p = halts_of (wf_tiers w) ls
       @ guard_cuts w (map rd_layer (halts_of (wf_tiers w) ls)) (high_vol_hits ls) @ scaled"
    "wp_sweeps p = concat (map (snd \<circ> plan_sweep (wf_tiers w) (map rd_layer (halts_of (wf_tiers w) ls)) ls) (wf_flow w))"
    "\<not> wp_global_kill p"
  using assms by (auto simp: plan_waterfall_def halts_of_def Let_def comp_def)

text \<open>With the kill switch on, nothing is left for the risky layers, whatever the rest says.\<close>

lemma pysum_zeros: "list_all (\<lambda>x. x = Fin 0) xs \<Longrightarrow> pysum xs = Fin 0"
  using pysum_whole [of "map (\<lambda>_. 0) xs"] by (simp add: list_all_iff comp_def map_idI)

lemma dget_zero_risky: "k \<noteq> LAYER_4_STAKING \<Longrightarrow> dget_or (zero_risky ws) k (Fin 0) = Fin 0"
  by (induction ws) (auto simp: zero_risky_def dget_or_def)

lemma normalise_zeroed: "normalise_risky sink (zero_risky ws) = zero_risky ws"
proof -
  have "list_all (\<lambda>x. x = Fin 0) (map snd (filter (\<lambda>(k, _). k \<noteq> LAYER_4_STAKING) (zero_risky ws)))"
    by (auto simp: zero_risky_def list_all_iff)
  from pysum_zeros [OF this] show ?thesis by (simp add: normalise_risky_def)
qed

section \<open>Properties\<close>

text \<open>
  C38. A funnel plan is safe: at the global kill level every tier is halted and nothing is swept.  Below it
  every layer gets at most one directive, a layer is halted exactly when its drawdown has reached the
  kill level of its tier, a size is cut to the correlation multiplier or to between a quarter and 95
  percent, and every sweep leaves a layer that is not halted, passes on the tier's share of its
  profit, and is not below the minimum of either side.
\<close>

theorem waterfall_plan_safe:
  assumes "distinct (map fst ls)" "plan_waterfall w ls = Inr p"
  shows "if fle (wf_kill w) (global_drawdown ls)
    then wp_sweeps p = [] \<and> map rd_layer (wp_directives p) = map fst (wf_tiers w) \<and> (\<forall>d\<in>set (wp_directives p). rd_action d = HALT)
    else distinct (map rd_layer (wp_directives p))
      \<and> (\<forall>k. (\<exists>d\<in>set (wp_directives p). rd_layer d = k \<and> rd_action d = HALT) \<longleftrightarrow>
            (\<exists>l t. dget ls k = Some l \<and> dget (wf_tiers w) k = Some t \<and> flt (Fin 0) (rt_kill t) \<and> fle (rt_kill t) (layer_drawdown l)))
      \<and> (\<forall>d\<in>set (wp_directives p). rd_action d \<noteq> HALT \<longrightarrow>
            rd_action d = REDUCE_SIZE \<and> (rd_mult d = wf_corr_mult w \<or> fle (Fin (1 / 4)) (rd_mult d) \<and> flt (rd_mult d) (fl (95 / 100))))
      \<and> (\<forall>sw\<in>set (wp_sweeps p). (\<nexists>d. d \<in> set (wp_directives p) \<and> rd_layer d = ps_src sw \<and> rd_action d = HALT)
          \<and> (\<exists>l st dt. dget ls (ps_src sw) = Some l \<and> dget (wf_tiers w) (ps_src sw) = Some st \<and> dget (wf_tiers w) (ps_dst sw) = Some dt
              \<and> ps_amount sw = fmul (ly_pnl l) (rt_sweep st) \<and> \<not> fle (ly_pnl l) (Fin 0)
              \<and> \<not> flt (ps_amount sw) (rt_min_out st) \<and> \<not> flt (ps_amount sw) (rt_min_in dt)))"
proof (cases "fle (wf_kill w) (global_drawdown ls)")
  case True
  with assms(2) show ?thesis by (auto simp: plan_waterfall_def Let_def comp_def case_prod_beta)
next
  case False
  let ?halts = "halts_of (wf_tiers w) ls"
  let ?cuts = "guard_cuts w (map rd_layer ?halts) (high_vol_hits ls)"
  obtain scaled where v: "vol_cuts w (map rd_layer (?halts @ ?cuts)) ls = Inr scaled"
    and d: "wp_directives p = ?halts @ ?cuts @ scaled"
    and sw: "wp_sweeps p = concat (map (snd \<circ> plan_sweep (wf_tiers w) (map rd_layer ?halts) ls) (wf_flow w))"
    using plan_waterfall_live [OF assms(2) False] by blast
  have halt: "rd_action x = HALT" if "x \<in> set ?halts" for x using that by (auto simp: halts_of_def halt_of_Some)
  have no_halt: "rd_action x = REDUCE_SIZE \<and> (rd_mult x = wf_corr_mult w \<or> fle (Fin (1 / 4)) (rd_mult x) \<and> flt (rd_mult x) (fl (95 / 100)))"
    if "x \<in> set (?cuts @ scaled)" for x
    using that guard_cuts_spec(3) [of x] vol_cuts_layers [OF v, of x] by auto
  have "set (map rd_layer scaled) \<inter> set (map rd_layer (?halts @ ?cuts)) = {}"
    using vol_cuts_layers [OF v] by auto
  moreover have "set (map rd_layer ?cuts) \<inter> set (map rd_layer ?halts) = {}" "distinct (map rd_layer ?cuts)"
    using guard_cuts_spec(1) [of w "map rd_layer ?halts" "high_vol_hits ls"] guard_cuts_spec(2) [of "high_vol_hits ls"] by auto
  ultimately have dist: "distinct (map rd_layer (wp_directives p))"
    using halts_of_layers(2) [OF assms(1), of "wf_tiers w"] vol_cuts_distinct [OF v assms(1)]
    unfolding d map_append distinct_append set_append by blast
  have halted: "(\<exists>x\<in>set (wp_directives p). rd_layer x = k \<and> rd_action x = HALT) \<longleftrightarrow> k \<in> rd_layer ` set ?halts" for k
    using halt no_halt unfolding d by force
  have keys: "k \<in> rd_layer ` set ?halts \<longleftrightarrow>
      (\<exists>l t. dget ls k = Some l \<and> dget (wf_tiers w) k = Some t \<and> flt (Fin 0) (rt_kill t) \<and> fle (rt_kill t) (layer_drawdown l))" for k
    using assms(1) by (force simp: halts_of_def halt_of_Some image_iff)
  have cuts: "\<forall>x\<in>set (wp_directives p). rd_action x \<noteq> HALT \<longrightarrow> rd_action x = REDUCE_SIZE
      \<and> (rd_mult x = wf_corr_mult w \<or> fle (Fin (1 / 4)) (rd_mult x) \<and> flt (rd_mult x) (fl (95 / 100)))"
    using halt no_halt unfolding d set_append by blast
  have "\<exists>l st dt. dget ls (ps_src x) = Some l \<and> dget (wf_tiers w) (ps_src x) = Some st \<and> dget (wf_tiers w) (ps_dst x) = Some dt
      \<and> ps_amount x = fmul (ly_pnl l) (rt_sweep st) \<and> \<not> fle (ly_pnl l) (Fin 0)
      \<and> \<not> flt (ps_amount x) (rt_min_out st) \<and> \<not> flt (ps_amount x) (rt_min_in dt)" "ps_src x \<notin> rd_layer ` set ?halts"
    if "x \<in> set (wp_sweeps p)" for x
    using that unfolding sw by (auto simp: plan_sweep_spec)
  then have "\<forall>x\<in>set (wp_sweeps p). (\<nexists>e. e \<in> set (wp_directives p) \<and> rd_layer e = ps_src x \<and> rd_action e = HALT)
      \<and> (\<exists>l st dt. dget ls (ps_src x) = Some l \<and> dget (wf_tiers w) (ps_src x) = Some st \<and> dget (wf_tiers w) (ps_dst x) = Some dt
              \<and> ps_amount x = fmul (ly_pnl l) (rt_sweep st) \<and> \<not> fle (ly_pnl l) (Fin 0)
              \<and> \<not> flt (ps_amount x) (rt_min_out st) \<and> \<not> flt (ps_amount x) (rt_min_in dt))"
    using halted by blast
  moreover have "\<forall>k. (\<exists>x\<in>set (wp_directives p). rd_layer x = k \<and> rd_action x = HALT) \<longleftrightarrow>
      (\<exists>l t. dget ls k = Some l \<and> dget (wf_tiers w) k = Some t \<and> flt (Fin 0) (rt_kill t) \<and> fle (rt_kill t) (layer_drawdown l))"
    using halted keys by blast
  ultimately show ?thesis unfolding if_not_P [OF False] using dist cuts by blast
qed

text \<open>
  The kill switch leaves nothing to the risky layers: with it on, the target weight of every layer but
  staking is zero and staking has the sink weight, whatever the regimes, correlations, edges and base weights.
\<close>

theorem kill_zeroes_risky_weights:
  assumes "k \<noteq> LAYER_4_STAKING"
  shows "dget_or (ap_weights (plan_allocation inputs corrs threshold penalty True sink base)) k (Fin 0) = Fin 0
    \<and> dget (ap_weights (plan_allocation inputs corrs threshold penalty True sink base)) LAYER_4_STAKING = Some sink"
  using assms by (simp add: plan_allocation_def Let_def normalise_zeroed dget_zero_risky)

definition demo_waterfall :: waterfall where
  "demo_waterfall =
     \<lparr>wf_tiers = [(LAYER_1_MNQ, \<lparr>rt_max_position = Fin 1, rt_daily_cap = Fin 1, rt_kill = Fin (1 / 2), rt_leverage = Fin 1,
                    rt_sweep = Fin (1 / 2), rt_min_out = Fin 25, rt_min_in = Fin 0\<rparr>),
                 (LAYER_3_PERPS, \<lparr>rt_max_position = Fin 1, rt_daily_cap = Fin 1, rt_kill = Fin 0, rt_leverage = Fin 1,
                    rt_sweep = Fin 0, rt_min_out = Fin 0, rt_min_in = Fin 50\<rparr>)],
      wf_kill = Fin (1 / 2), wf_corr_mult = Fin (1 / 2), wf_vol_sens = Fin 1,
      wf_flow = [(LAYER_1_MNQ, LAYER_3_PERPS, ''profit'')]\<rparr>"

definition demo_layers :: layers where
  "demo_layers = [(LAYER_1_MNQ, \<lparr>ly_current = Fin 1000, ly_peak = Fin 1000, ly_pnl = Fin 200, ly_regime = NORMAL_VOL, ly_vol_z = Fin 0\<rparr>)]"

lemma demo_plan_waterfall:
  "\<exists>p sw. plan_waterfall demo_waterfall demo_layers = Inr p \<and> wp_sweeps p = [sw] \<and> ps_src sw = LAYER_1_MNQ
     \<and> ps_amount sw = Fin 100 \<and> \<not> fle (wf_kill demo_waterfall) (global_drawdown demo_layers)"
  by (simp add: plan_waterfall_def demo_waterfall_def demo_layers_def global_drawdown_def total_equity_def total_peak_def
      drawdown_of_def fquot_def pymax_def halt_of_def layer_drawdown_def List.map_filter_def high_vol_hits_def risky_layers_def
      guard_cuts_def plan_sweep_def Let_def fle_def feq_def float_truthy_def)

theorem waterfall_plan_safe_witness:
  "\<exists>p sw. plan_waterfall demo_waterfall demo_layers = Inr p \<and> wp_sweeps p = [sw]
     \<and> (\<nexists>d. d \<in> set (wp_directives p) \<and> rd_layer d = LAYER_1_MNQ \<and> rd_action d = HALT)"
proof -
  obtain p sw where p: "plan_waterfall demo_waterfall demo_layers = Inr p" "wp_sweeps p = [sw]" "ps_src sw = LAYER_1_MNQ"
    "\<not> fle (wf_kill demo_waterfall) (global_drawdown demo_layers)" using demo_plan_waterfall by blast
  have "distinct (map fst demo_layers)" by (simp add: demo_layers_def)
  from waterfall_plan_safe [OF this p(1), unfolded if_not_P [OF p(4)]] p show ?thesis by auto
qed

theorem kill_zeroes_risky_weights_witness:
  "dget_or (ap_weights (plan_allocation [\<lparr>ai_layer = LAYER_1_MNQ, ai_regime = HIGH_VOL, ai_base = Fin 0, ai_edge = Fin 1\<rparr>] []
      (Fin (3 / 4)) (Fin (1 / 2)) True (Fin (1 / 4)) [])) LAYER_1_MNQ (Fin 0) = Fin 0"
  by (rule kill_zeroes_risky_weights [THEN conjunct1]) simp

end
