(* ===== verification/Funnel_Daily.thy ===== *)
theory Funnel_Daily
  imports Waterfall
begin

text \<open>
  \<open>scripts/funnel_sweep_daily.py\<close>: one day of the funnel.  The state file holds the equity and the peak
  of every layer; the run reads it with the input of the day, plans, moves the swept amounts in its books
  and writes the file back.  The printed plan and digest are not modelled.
\<close>

section \<open>Reading the state\<close>

fun layer_name :: "layer_id \<Rightarrow> string" where
  "layer_name LAYER_1_MNQ = ''LAYER_1_MNQ''"
| "layer_name LAYER_2_BTC = ''LAYER_2_BTC''"
| "layer_name LAYER_3_PERPS = ''LAYER_3_PERPS''"
| "layer_name LAYER_4_STAKING = ''LAYER_4_STAKING''"

definition all_layers :: "layer_id list" where
  "all_layers = [LAYER_1_MNQ, LAYER_2_BTC, LAYER_3_PERPS, LAYER_4_STAKING]"

type_synonym books = "(layer_id, pyfloat \<times> pyfloat) dict"

definition books_json :: "books \<Rightarrow> json" where
  "books_json b =
     JObj (map (\<lambda>(k, c, p). (layer_name k, JObj [(''current_equity'', JFloat c), (''peak_equity'', JFloat p)])) b)"

definition bootstrap_books :: books where
  "bootstrap_books =
     [(LAYER_1_MNQ, Fin 50000, Fin 50000), (LAYER_2_BTC, Fin 2000, Fin 2000), (LAYER_3_PERPS, Fin 0, Fin 0),
      (LAYER_4_STAKING, Fin 0, Fin 0)]"

definition load_books :: "jfile \<Rightarrow> json" where
  "load_books f = (case f of Parsed j \<Rightarrow> j | _ \<Rightarrow> books_json bootstrap_books)"

definition load_input :: "jfile option \<Rightarrow> json" where
  "load_input f = (case f of Some (Parsed j) \<Rightarrow> j | _ \<Rightarrow> JObj [])"

text \<open>\<open>x.get\<close> works on a dictionary only.\<close>

definition getter :: "json \<Rightarrow> pyexc + (string \<times> json) list" where
  "getter j = (case j of JObj d \<Rightarrow> Inr d | _ \<Rightarrow> Inl AttributeError)"

definition regime_of :: "json \<Rightarrow> vol_regime" where
  "regime_of j = (if j = JStr ''LOW'' then LOW_VOL else if j = JStr ''HIGH'' then HIGH_VOL else NORMAL_VOL)"

definition layer_of_json :: "json \<Rightarrow> json \<Rightarrow> layer_id \<Rightarrow> pyexc + layer_id \<times> layer_snapshot" where
  "layer_of_json state inp k =
     rbind (getter state) (\<lambda>d.
       let s = jget d (layer_name k) (JObj [(''current_equity'', JFloat (Fin 0)), (''peak_equity'', JFloat (Fin 0))])
       in rbind (getter inp) (\<lambda>di.
            rbind (getter (jget di (layer_name k) (JObj []))) (\<lambda>i.
              rbind (getter s) (\<lambda>ds.
                rbind (as_float (jget ds ''current_equity'' (JFloat (Fin 0)))) (\<lambda>c.
                  rbind (as_float (jget ds ''peak_equity'' (JFloat (Fin 0)))) (\<lambda>p.
                    rbind (as_float (jget i ''pnl'' (JFloat (Fin 0)))) (\<lambda>pnl.
                      rbind (as_float (jget i ''vol_z'' (JFloat (Fin 0)))) (\<lambda>z.
                        Inr (k, \<lparr>ly_current = c, ly_peak = p, ly_pnl = pnl,
                                 ly_regime = regime_of (jget i ''vol_regime'' (JStr ''NORMAL'')), ly_vol_z = z\<rparr>)))))))))"

fun build_layers :: "json \<Rightarrow> json \<Rightarrow> layer_id list \<Rightarrow> pyexc + layers" where
  "build_layers state inp [] = Inr []"
| "build_layers state inp (k # ks) =
     rbind (layer_of_json state inp k) (\<lambda>l. rbind (build_layers state inp ks) (\<lambda>ls. Inr (l # ls)))"

definition build_snapshot :: "json \<Rightarrow> json \<Rightarrow> pyexc + layers" where
  "build_snapshot state inp = build_layers state inp all_layers"

section \<open>Applying the plan\<close>

text \<open>The plan's dictionary holds the amounts rounded to cents.\<close>

definition plan_moves :: "waterfall_plan \<Rightarrow> (layer_id \<times> layer_id \<times> pyfloat) list" where
  "plan_moves p = map (\<lambda>s. (ps_src s, ps_dst s, fround 2 (ps_amount s))) (wp_sweeps p)"

definition take_out :: "layer_id \<Rightarrow> pyfloat \<Rightarrow> books \<Rightarrow> pyexc + books" where
  "take_out k amt b = (case dget b k of None \<Rightarrow> Inl KeyError | Some (c, p) \<Rightarrow> Inr (dset k (fsub c amt, p) b))"

definition put_in :: "layer_id \<Rightarrow> pyfloat \<Rightarrow> books \<Rightarrow> pyexc + books" where
  "put_in k amt b =
     (case dget b k of None \<Rightarrow> Inl KeyError | Some (c, p) \<Rightarrow> Inr (dset k (fadd c amt, pymax p (fadd c amt)) b))"

fun apply_moves :: "(layer_id \<times> layer_id \<times> pyfloat) list \<Rightarrow> books \<Rightarrow> pyexc + books" where
  "apply_moves [] b = Inr b"
| "apply_moves ((src, dst, amt) # ms) b =
     rbind (take_out src amt b) (\<lambda>b1. rbind (put_in dst amt b1) (\<lambda>b2. apply_moves ms b2))"

definition opening_books :: "layers \<Rightarrow> books" where
  "opening_books ls = map (\<lambda>(k, l). (k, ly_current l, pymax (ly_peak l) (ly_current l))) ls"

definition apply_plan :: "layers \<Rightarrow> waterfall_plan \<Rightarrow> pyexc + books" where
  "apply_plan ls p = apply_moves (plan_moves p) (opening_books ls)"

text \<open>A day: the plan and the state file it leaves; an exception leaves the file as it was.\<close>

definition funnel_day :: "pyfloat \<Rightarrow> jfile option \<Rightarrow> jfile \<Rightarrow> (pyexc + waterfall_plan) \<times> jfile" where
  "funnel_day kill inp f =
     (case rbind (build_snapshot (load_books f) (load_input inp)) (\<lambda>ls.
             rbind (plan_waterfall (default_waterfall kill) ls) (\<lambda>p.
               rbind (apply_plan ls p) (\<lambda>b. Inr (p, b)))) of
        Inl x \<Rightarrow> (Inl x, f)
      | Inr (p, b) \<Rightarrow> (Inr p, Parsed (books_json b)))"

section \<open>Lemmas\<close>

text \<open>What a day writes, the next one reads.\<close>

lemma layer_name_inj [simp]: "(layer_name k = layer_name j) = (k = j)"
  by (cases k; cases j) simp_all

lemma getter_JObj [simp]: "getter (JObj d) = Inr d"
  by (simp add: getter_def)

lemma jget_books:
  "jget (map (\<lambda>(k, c, p). (layer_name k, f c p)) b) (layer_name k) v = (case dget b k of None \<Rightarrow> v | Some (c, p) \<Rightarrow> f c p)"
  by (induction b) (auto simp: jget_def dget_or_def)

lemma jget_pair [simp]:
  "jget [(''current_equity'', x), (''peak_equity'', y)] ''current_equity'' v = x"
  "jget [(''current_equity'', x), (''peak_equity'', y)] ''peak_equity'' v = y"
  by (simp_all add: jget_def dget_or_def)

lemma layer_read_back:
  assumes "layer_of_json (books_json b) inp k = Inr l" "dget b k = Some (c, p)"
  shows "fst l = k \<and> ly_current (snd l) = c \<and> ly_peak (snd l) = p"
  using assms by (auto simp: layer_of_json_def books_json_def jget_books Let_def)

lemma build_read_back:
  "build_layers (books_json b) inp ks = Inr ls \<Longrightarrow> set ks \<subseteq> fst ` set b \<Longrightarrow>
   map (\<lambda>(k, l). (k, ly_current l, ly_peak l)) ls = map (\<lambda>k. (k, the (dget b k))) ks"
proof (induction ks arbitrary: ls)
  case (Cons k ks)
  then obtain l ls' where l: "layer_of_json (books_json b) inp k = Inr l" "build_layers (books_json b) inp ks = Inr ls'"
    "ls = l # ls'" by auto
  from Cons.prems(2) obtain c p where "dget b k = Some (c, p)" by (cases "dget b k") (auto simp: map_of_eq_None_iff)
  with layer_read_back [OF l(1)] Cons.IH [OF l(2)] Cons.prems(2) l(3) show ?case by (simp add: case_prod_beta)
qed simp

lemma books_by_key: "distinct (map fst b) \<Longrightarrow> map (\<lambda>k. (k, the (dget b k))) (map fst b) = b"
  by (simp add: comp_def, rule map_idI) (auto simp: map_of_is_SomeI)

lemma snapshot_read_back:
  assumes "map fst b = all_layers" "build_snapshot (books_json b) inp = Inr ls"
  shows "map (\<lambda>(k, l). (k, ly_current l, ly_peak l)) ls = b"
proof -
  have "set all_layers \<subseteq> fst ` set b" "distinct (map fst b)" unfolding assms(1) [symmetric]
    by simp (simp add: assms(1) all_layers_def)
  with build_read_back [of b inp all_layers ls] books_by_key [of b] assms show ?thesis by (simp add: build_snapshot_def)
qed

text \<open>The moves, in exact arithmetic on whole amounts.\<close>

definition held :: "books \<Rightarrow> layer_id \<Rightarrow> int" where
  "held b k = (case dget b k of None \<Rightarrow> 0 | Some (c, _) \<Rightarrow> whole_part c)"

definition net_flow :: "layer_id \<Rightarrow> (layer_id \<times> layer_id \<times> pyfloat) list \<Rightarrow> int" where
  "net_flow k ms = sum_list (map (\<lambda>(src, dst, amt). (if dst = k then whole_part amt else 0) - (if src = k then whole_part amt else 0)) ms)"

definition whole_books :: "int \<Rightarrow> books \<Rightarrow> bool" where
  "whole_books bound b = (\<forall>k c p. dget b k = Some (c, p) \<longrightarrow> (\<exists>n. c = Fin (of_int n) \<and> \<bar>n\<bar> \<le> bound) \<and> fle c p)"

definition whole_move :: "layer_id \<times> layer_id \<times> pyfloat \<Rightarrow> bool" where
  "whole_move mv = (case mv of (_, _, amt) \<Rightarrow> whole amt \<and> fle (Fin 0) amt)"

lemma whole_books_mono: "whole_books bound b \<Longrightarrow> bound \<le> bound' \<Longrightarrow> whole_books bound' b"
  unfolding whole_books_def by (meson order_trans)

lemma whole_books_dset:
  assumes "whole_books bound b" "bound \<le> bound'" "\<bar>n\<bar> \<le> bound'" "fle (Fin (of_int n)) p"
  shows "whole_books bound' (dset k (Fin (of_int n), p) b)"
  unfolding whole_books_def
proof (intro allI impI)
  fix j c q assume "dget (dset k (Fin (of_int n), p) b) j = Some (c, q)"
  then have "j = k \<and> c = Fin (of_int n) \<and> q = p \<or> dget b j = Some (c, q)" by (auto split: if_splits)
  then show "(\<exists>n. c = Fin (of_int n) \<and> \<bar>n\<bar> \<le> bound') \<and> fle c q"
    using assms unfolding whole_books_def by (elim disjE conjE) (auto, meson order_trans)
qed

lemma net_flow_Cons [simp]:
  "net_flow k ((src, dst, amt) # ms) = (if dst = k then whole_part amt else 0) - (if src = k then whole_part amt else 0) + net_flow k ms"
  by (simp add: net_flow_def)

lemma take_out_whole:
  assumes "take_out k amt b = Inr b'" "whole_books bound b" "amt = Fin (of_int a)" "0 \<le> a" "bound + a \<le> 2 ^ 53"
  shows "whole_books (bound + a) b' \<and> (\<forall>j. held b' j = held b j - (if j = k then a else 0)) \<and> map fst b' = map fst b"
proof -
  from assms(1) obtain c p where d: "dget b k = Some (c, p)" "b' = dset k (fsub c amt, p) b"
    by (auto simp: take_out_def split: option.splits)
  with assms(2) obtain n where n: "c = Fin (of_int n)" "\<bar>n\<bar> \<le> bound" "fle c p" unfolding whole_books_def by blast
  have c': "fsub c amt = Fin (of_int (n - a))" using fsub_whole [of n a] n assms by simp
  have "fle (Fin (of_int (n - a))) c" using n assms(4) by simp
  then have "fle (fsub c amt) p" using n(3) c' by (metis fle_trans)
  then have "whole_books (bound + a) b'"
    using whole_books_dset [OF assms(2), of "bound + a" "n - a" p k] n(2) assms(4) unfolding d(2) c' by simp
  moreover have "k \<in> fst ` set b" using d(1) by (force dest: map_of_SomeD)
  then have "map fst b' = map fst b" unfolding d(2) by (simp add: update_keys)
  ultimately show ?thesis using c' d n by (simp add: held_def whole_part_def)
qed

lemma put_in_whole:
  assumes "put_in k amt b = Inr b'" "whole_books bound b" "amt = Fin (of_int a)" "0 \<le> a" "bound + a \<le> 2 ^ 53"
  shows "whole_books (bound + a) b' \<and> (\<forall>j. held b' j = held b j + (if j = k then a else 0)) \<and> map fst b' = map fst b"
proof -
  from assms(1) obtain c p where d: "dget b k = Some (c, p)" "b' = dset k (fadd c amt, pymax p (fadd c amt)) b"
    by (auto simp: put_in_def split: option.splits)
  with assms(2) obtain n where n: "c = Fin (of_int n)" "\<bar>n\<bar> \<le> bound" "fle c p" unfolding whole_books_def by blast
  have c': "fadd c amt = Fin (of_int (n + a))" using fadd_whole [of n a] n assms by simp
  have "fle (fadd c amt) (pymax p (fadd c amt))" using n(3) c' by (metis pymax_ge2 fle_not_NaN pyfloat.distinct(5))
  then have "whole_books (bound + a) b'"
    using whole_books_dset [OF assms(2), of "bound + a" "n + a" _ k] n(2) assms(4) unfolding d(2) c' by simp
  moreover have "k \<in> fst ` set b" using d(1) by (force dest: map_of_SomeD)
  then have "map fst b' = map fst b" unfolding d(2) by (simp add: update_keys)
  ultimately show ?thesis using c' d n by (simp add: held_def whole_part_def)
qed

lemma apply_moves_whole:
  assumes "apply_moves ms b = Inr b'" "list_all whole_move ms" "whole_books bound b" "0 \<le> bound"
    "bound + 2 ^ 46 * int (length ms) \<le> 2 ^ 53"
  shows "whole_books (bound + 2 ^ 46 * int (length ms)) b' \<and> (\<forall>k. held b' k = held b k + net_flow k ms) \<and> map fst b' = map fst b"
  using assms
proof (induction ms arbitrary: b bound)
  case (Cons mv ms)
  obtain src dst amt where mv: "mv = (src, dst, amt)" by (cases mv)
  with Cons.prems(1) obtain b1 b2 where s: "take_out src amt b = Inr b1" "put_in dst amt b1 = Inr b2" "apply_moves ms b2 = Inr b'"
    by auto
  from Cons.prems(2) mv obtain a where a: "amt = Fin (of_int a)" "0 \<le> a" "a \<le> 2 ^ 45"
    by (auto simp: whole_move_def elim!: wholeE)
  have le: "bound + a \<le> 2 ^ 53" "bound + a + a \<le> 2 ^ 53" "bound + a + a \<le> bound + 2 ^ 46"
    "bound + 2 ^ 46 + 2 ^ 46 * int (length ms) \<le> 2 ^ 53" using Cons.prems(5) a by simp_all
  note t = take_out_whole [OF s(1) Cons.prems(3) a(1,2) le(1)]
  then have "whole_books (bound + a) b1" by blast
  note u = put_in_whole [OF s(2) this a(1,2) le(2)]
  then have "whole_books (bound + 2 ^ 46) b2" using le(3) by (blast intro: whole_books_mono)
  from Cons.IH [OF s(3) _ this _ le(4)] Cons.prems(2,4)
  have IH: "whole_books (bound + 2 ^ 46 + 2 ^ 46 * int (length ms)) b'" "map fst b' = map fst b2"
    "\<And>k. held b' k = held b2 k + net_flow k ms" by simp_all
  have "held b' k = held b k + net_flow k (mv # ms)" for k
    using t u IH(3) [of k] unfolding mv a(1) by auto
  with IH t u show ?case by (simp add: algebra_simps)
qed (simp add: net_flow_def)

lemma flows_cancel: "sum_list (map (\<lambda>k. net_flow k ms) all_layers) = 0"
proof (induction ms)
  case (Cons mv ms)
  obtain src dst amt where "mv = (src, dst, amt)" by (cases mv)
  with Cons show ?case by (cases src; cases dst) (simp_all add: all_layers_def)
qed (simp add: net_flow_def all_layers_def)

section \<open>Properties\<close>

lemma default_sweeps_few:
  assumes "plan_waterfall (default_waterfall kill) ls = Inr p"
  shows "length (plan_moves p) \<le> 3"
proof -
  have one: "length (snd (plan_sweep ts halted ls f)) \<le> 1" for ts halted f
    by (auto simp: plan_sweep_def Let_def split: prod.split option.split)
  have "length (concat (map (snd \<circ> plan_sweep ts halted ls) default_flow)) \<le> 3" for ts halted
    using one [of ts halted "(LAYER_1_MNQ, LAYER_3_PERPS, ''L1_profit_sweep_to_L3'')"]
      one [of ts halted "(LAYER_2_BTC, LAYER_3_PERPS, ''L2_profit_sweep_to_L3'')"]
      one [of ts halted "(LAYER_3_PERPS, LAYER_4_STAKING, ''L3_profit_sweep_to_staking'')"]
    by (simp add: default_flow_def)
  then show ?thesis using assms
    by (auto simp: plan_waterfall_def plan_moves_def default_waterfall_def Let_def comp_def split: if_splits)
qed

lemma opening_books_read:
  assumes "map (\<lambda>(k, l). (k, ly_current l, ly_peak l)) ls = b" "whole_books bound b" "distinct (map fst b)"
  shows "opening_books ls = b"
proof -
  have "pymax (ly_peak l) (ly_current l) = ly_peak l" if "(k, l) \<in> set ls" for k l
  proof -
    have "(k, ly_current l, ly_peak l) \<in> set b" using that unfolding assms(1) [symmetric] by force
    then have "fle (ly_current l) (ly_peak l)" using assms(2,3) unfolding whole_books_def by auto
    then show ?thesis by (auto simp: pymax_def dest: flt_not_fle)
  qed
  then show ?thesis unfolding assms(1) [symmetric] opening_books_def by auto
qed

text \<open>
  C15. A day moves money and makes none: when the file holds whole amounts with no layer above its peak and the
  swept amounts are whole, the file a day leaves holds exactly what it held, plus what was swept in and minus
  what was swept out of each layer; the total is unchanged and no layer is above its peak.  The day's
  profit is not added to the equity of the layer that made it.
\<close>

theorem funnel_day_conserves:
  assumes "f = Parsed (books_json b)" "map fst b = all_layers" "whole_books (2 ^ 45) b"
    "funnel_day kill inp f = (Inr p, f')" "list_all whole_move (plan_moves p)"
  shows "\<exists>b'. f' = Parsed (books_json b') \<and> map fst b' = all_layers \<and> whole_books (2 ^ 48) b'
    \<and> (\<forall>k. held b' k = held b k + net_flow k (plan_moves p))
    \<and> sum_list (map (held b') all_layers) = sum_list (map (held b) all_layers)"
proof -
  from assms(4) obtain ls b' where d: "build_snapshot (load_books f) (load_input inp) = Inr ls"
    "plan_waterfall (default_waterfall kill) ls = Inr p" "apply_plan ls p = Inr b'" "f' = Parsed (books_json b')"
    by (auto simp: funnel_day_def split: sum.splits)
  have b: "map (\<lambda>(k, l). (k, ly_current l, ly_peak l)) ls = b"
    using snapshot_read_back [OF assms(2)] d(1) assms(1) by (simp add: load_books_def)
  have "distinct (map fst b)" using assms(2) by (simp add: all_layers_def)
  from opening_books_read [OF b assms(3) this] d(3) have moves: "apply_moves (plan_moves p) b = Inr b'"
    by (simp add: apply_plan_def)
  have few: "int (length (plan_moves p)) \<le> 3" using default_sweeps_few [OF d(2)] by simp
  then have "2 ^ 45 + 2 ^ 46 * int (length (plan_moves p)) \<le> 2 ^ 53" by simp
  note ex = apply_moves_whole [OF moves assms(5,3) _ this]
  have "2 ^ 45 + 2 ^ 46 * int (length (plan_moves p)) \<le> 2 ^ 48" using few by simp
  from whole_books_mono [OF _ this] ex have "whole_books (2 ^ 48) b'" by simp
  moreover have "sum_list (map (held b') all_layers) = sum_list (map (held b) all_layers)"
    using ex flows_cancel [of "plan_moves p"] by (simp add: all_layers_def)
  ultimately show ?thesis using d(4) ex assms(2) by auto
qed

text \<open>
  The books of a new installation, a day on which the futures layer reports a profit of 8000, and a day
  without input after it.
\<close>

definition demo_day :: json where
  "demo_day = JObj [(''LAYER_1_MNQ'', JObj [(''pnl'', JFloat (Fin 8000))])]"

lemma demo_floats:
  "fl (13 / 20) = Fin (5854679515581645 / 9007199254740992)" "fl (3 / 4) = Fin (3 / 4)"
  "fl (3 / 25) = Fin (1080863910568919 / 9007199254740992)" "fl (9 / 100) = Fin (3242591731706757 / 36028797018963968)"
  "fl (3 / 50) = Fin (1080863910568919 / 18014398509481984)" "fl (2 / 25) = Fin (5764607523034235 / 72057594037927936)"
  "fl (10 / 11) = Fin (8188362958855447 / 9007199254740992)"
  "fl (818836295885545 / 9007199254740992) = Fin (818836295885545 / 9007199254740992)"
  "fl (731834939447705625 / 140737488355328) = Fin 5200"
  by code_simp+

lemma demo_cents: "fround 2 (Fin 5200) = Fin 5200"
  using whole_cents [of 5200] by (simp del: fround.simps)

lemma demo_pysum:
  "pysum [Fin 50000, Fin 2000, Fin 0, Fin 0] = Fin 52000" "pysum [Fin 44800, Fin 2000, Fin 5200, Fin 0] = Fin 52000"
  "pysum [Fin 50000, Fin 2000, Fin 5200, Fin 0] = Fin 57200"
  using pysum_whole [of "[50000, 2000, 0, 0]"] pysum_whole [of "[44800, 2000, 5200, 0]"] pysum_whole [of "[50000, 2000, 5200, 0]"]
  by simp_all

definition books_after :: books where
  "books_after =
     [(LAYER_1_MNQ, Fin 44800, Fin 50000), (LAYER_2_BTC, Fin 2000, Fin 2000), (LAYER_3_PERPS, Fin 5200, Fin 5200),
      (LAYER_4_STAKING, Fin 0, Fin 0)]"

definition quiet :: "pyfloat \<Rightarrow> pyfloat \<Rightarrow> pyfloat \<Rightarrow> layer_snapshot" where
  "quiet c p pnl = \<lparr>ly_current = c, ly_peak = p, ly_pnl = pnl, ly_regime = NORMAL_VOL, ly_vol_z = Fin 0\<rparr>"

lemma demo_snapshots:
  "build_snapshot (books_json bootstrap_books) demo_day =
     Inr [(LAYER_1_MNQ, quiet (Fin 50000) (Fin 50000) (Fin 8000)), (LAYER_2_BTC, quiet (Fin 2000) (Fin 2000) (Fin 0)),
          (LAYER_3_PERPS, quiet (Fin 0) (Fin 0) (Fin 0)), (LAYER_4_STAKING, quiet (Fin 0) (Fin 0) (Fin 0))]"
  "build_snapshot (books_json books_after) (JObj []) =
     Inr [(LAYER_1_MNQ, quiet (Fin 44800) (Fin 50000) (Fin 0)), (LAYER_2_BTC, quiet (Fin 2000) (Fin 2000) (Fin 0)),
          (LAYER_3_PERPS, quiet (Fin 5200) (Fin 5200) (Fin 0)), (LAYER_4_STAKING, quiet (Fin 0) (Fin 0) (Fin 0))]"
  by (simp_all add: build_snapshot_def all_layers_def layer_of_json_def books_json_def bootstrap_books_def books_after_def
      demo_day_def quiet_def Let_def jget_def dget_or_def regime_of_def)

lemma demo_plan:
  "\<exists>p. plan_waterfall (default_waterfall (fl (8 / 100)))
     [(LAYER_1_MNQ, quiet (Fin 50000) (Fin 50000) (Fin 8000)), (LAYER_2_BTC, quiet (Fin 2000) (Fin 2000) (Fin 0)),
      (LAYER_3_PERPS, quiet (Fin 0) (Fin 0) (Fin 0)), (LAYER_4_STAKING, quiet (Fin 0) (Fin 0) (Fin 0))] = Inr p
   \<and> plan_moves p = [(LAYER_1_MNQ, LAYER_3_PERPS, Fin 5200)]"
  by (simp add: plan_waterfall_def default_waterfall_def global_drawdown_def total_equity_def total_peak_def drawdown_of_def
      demo_pysum demo_floats quiet_def fquot_def pymax_def default_tiers_def halt_of_def layer_drawdown_def List.map_filter_def
      high_vol_hits_def risky_layers_def guard_cuts_def default_flow_def plan_sweep_def Let_def plan_moves_def fle_def feq_def
      demo_cents del: fround.simps)

lemma demo_first_day:
  assumes "load_books f = books_json bootstrap_books"
  obtains p where "funnel_day (fl (8 / 100)) (Some (Parsed demo_day)) f = (Inr p, Parsed (books_json books_after))"
    "plan_moves p = [(LAYER_1_MNQ, LAYER_3_PERPS, Fin 5200)]"
proof -
  from demo_plan obtain p where p: "plan_waterfall (default_waterfall (fl (8 / 100)))
     [(LAYER_1_MNQ, quiet (Fin 50000) (Fin 50000) (Fin 8000)), (LAYER_2_BTC, quiet (Fin 2000) (Fin 2000) (Fin 0)),
      (LAYER_3_PERPS, quiet (Fin 0) (Fin 0) (Fin 0)), (LAYER_4_STAKING, quiet (Fin 0) (Fin 0) (Fin 0))] = Inr p"
    "plan_moves p = [(LAYER_1_MNQ, LAYER_3_PERPS, Fin 5200)]" by blast
  have "apply_moves [(LAYER_1_MNQ, LAYER_3_PERPS, Fin 5200)] bootstrap_books = Inr books_after"
    by (simp add: take_out_def put_in_def bootstrap_books_def books_after_def pymax_def)
  moreover have "opening_books
     [(LAYER_1_MNQ, quiet (Fin 50000) (Fin 50000) (Fin 8000)), (LAYER_2_BTC, quiet (Fin 2000) (Fin 2000) (Fin 0)),
      (LAYER_3_PERPS, quiet (Fin 0) (Fin 0) (Fin 0)), (LAYER_4_STAKING, quiet (Fin 0) (Fin 0) (Fin 0))] = bootstrap_books"
    by (simp add: opening_books_def quiet_def bootstrap_books_def pymax_def)
  ultimately have "funnel_day (fl (8 / 100)) (Some (Parsed demo_day)) f = (Inr p, Parsed (books_json books_after))"
    using p demo_snapshots(1) assms by (simp add: funnel_day_def load_input_def apply_plan_def del: apply_moves.simps)
  with p(2) show thesis by (rule that [rotated])
qed

theorem funnel_day_conserves_witness:
  "\<exists>p f' b'. funnel_day (fl (8 / 100)) (Some (Parsed demo_day)) (Parsed (books_json bootstrap_books)) = (Inr p, f')
     \<and> f' = Parsed (books_json b') \<and> held b' LAYER_1_MNQ = 44800"
proof -
  obtain p where d: "funnel_day (fl (8 / 100)) (Some (Parsed demo_day)) (Parsed (books_json bootstrap_books))
      = (Inr p, Parsed (books_json books_after))" and p: "plan_moves p = [(LAYER_1_MNQ, LAYER_3_PERPS, Fin 5200)]"
    by (rule demo_first_day [of "Parsed (books_json bootstrap_books)"]) (simp add: load_books_def)
  have "map fst bootstrap_books = all_layers" by (simp add: bootstrap_books_def all_layers_def)
  moreover have "\<exists>n. Fin 50000 = Fin (of_int n) \<and> \<bar>n\<bar> \<le> 2 ^ 45" "\<exists>n. Fin 2000 = Fin (of_int n) \<and> \<bar>n\<bar> \<le> 2 ^ 45"
    "\<exists>n. Fin 0 = Fin (of_int n) \<and> \<bar>n\<bar> \<le> 2 ^ 45"
    by (rule exI [of _ 50000], simp) (rule exI [of _ 2000], simp, rule exI [of _ 0], simp)
  then have "whole_books (2 ^ 45) bootstrap_books"
    unfolding whole_books_def by (auto simp: bootstrap_books_def split: if_splits)
  moreover have "list_all whole_move (plan_moves p)" unfolding p by (simp add: whole_move_def whole_def)
  ultimately obtain b' where "Parsed (books_json books_after) = Parsed (books_json b')"
    "held b' LAYER_1_MNQ = held bootstrap_books LAYER_1_MNQ + net_flow LAYER_1_MNQ (plan_moves p)"
    using funnel_day_conserves [OF refl _ _ d] by blast
  moreover have "held bootstrap_books LAYER_1_MNQ = 50000" by (simp add: held_def bootstrap_books_def whole_part_def)
  moreover have "net_flow LAYER_1_MNQ (plan_moves p) = - 5200" by (simp add: p net_flow_def whole_part_def)
  ultimately show ?thesis using d by auto
qed

section \<open>Corners\<close>

text \<open>
  Sweeping a profit lowers the equity of the layer that made it and leaves its peak, while the peak of the
  layer that receives it rises: the books then show a drawdown that never happened.  After one day
  with a profit of 8000 the next run triggers the global kill and halts every layer.
\<close>

lemma profit_halts_the_funnel:
  "\<exists>p. fst (funnel_day (fl (8 / 100)) None (snd (funnel_day (fl (8 / 100)) (Some (Parsed demo_day)) Missing))) = Inr p
     \<and> wp_global_kill p"
proof -
  obtain p where p: "funnel_day (fl (8 / 100)) (Some (Parsed demo_day)) Missing = (Inr p, Parsed (books_json books_after))"
    by (rule demo_first_day [of Missing]) (simp add: load_books_def)
  let ?ls = "[(LAYER_1_MNQ, quiet (Fin 44800) (Fin 50000) (Fin 0)), (LAYER_2_BTC, quiet (Fin 2000) (Fin 2000) (Fin 0)),
          (LAYER_3_PERPS, quiet (Fin 5200) (Fin 5200) (Fin 0)), (LAYER_4_STAKING, quiet (Fin 0) (Fin 0) (Fin 0))]"
  have "fle (fl (2 / 25)) (global_drawdown ?ls)"
    by (simp add: global_drawdown_def total_equity_def total_peak_def drawdown_of_def demo_pysum demo_floats quiet_def
        fquot_def pymax_def del: pysum.simps)
  then have "\<exists>p. plan_waterfall (default_waterfall (fl (8 / 100))) ?ls = Inr p \<and> wp_global_kill p \<and> plan_moves p = []"
    by (simp add: plan_waterfall_def default_waterfall_def plan_moves_def Let_def)
  then obtain q where q: "plan_waterfall (default_waterfall (fl (8 / 100))) ?ls = Inr q" "wp_global_kill q" "plan_moves q = []"
    by blast
  have "\<exists>b. apply_plan ?ls q = Inr b" by (simp add: apply_plan_def q(3))
  with q p demo_snapshots(2) show ?thesis
    by (auto simp: funnel_day_def load_books_def load_input_def split: sum.splits)
qed

text \<open>A file that does not parse restarts the books from the built-in amounts, so a torn write forgets every sweep.\<close>

lemma torn_file_restarts: "load_books Garbled = books_json bootstrap_books"
  by (simp add: load_books_def)

text \<open>A profit that is not a number is swept as such; the halt of the receiving layer is not looked at.\<close>

lemma nan_profit_swept:
  "src \<notin> set halted \<Longrightarrow> dget ts src = Some st \<Longrightarrow> dget ts dst = Some dt \<Longrightarrow> dget ls src = Some l \<Longrightarrow> ly_pnl l = NaN \<Longrightarrow>
   \<exists>sw\<in>set (snd (plan_sweep ts halted ls (src, dst, tag))). ps_dst sw = dst \<and> ps_amount sw = NaN"
  by (cases "rt_sweep st") (auto simp: plan_sweep_spec finf_def)

end
