(* ===== verification/Fund_Transfer.thy ===== *)
theory Fund_Transfer
  imports Whole Decimal
begin

text \<open>
  \<open>funnel/transfer.py\<close>: transfers between bots and to cold storage.  A manager checks each request
  against a policy (pairs allowed, size, volume of the last 24 hours, approval), passes it to an
  executor and records it.  Instants are whole microseconds; the executor is any function from a
  request to its answer, and the executors of the file are instances of it.  A call of the manager is one
  step: other tasks that run while it waits for the executor are not modelled.
\<close>

section \<open>Requests and results\<close>

datatype transfer_status = PENDING | APPROVED | EXECUTED | FAILED

record transfer_request =
  tq_from :: string
  tq_to :: string
  tq_amount :: pyfloat
  tq_reason :: string
  tq_approval :: bool
  tq_created :: int

text \<open>The model validates the amount; its error is a \<open>ValueError\<close>.\<close>

definition new_request :: "int \<Rightarrow> string \<Rightarrow> string \<Rightarrow> pyfloat \<Rightarrow> string \<Rightarrow> bool \<Rightarrow> pyexc + transfer_request" where
  "new_request now from to amount reason approval =
     (if flt (Fin 0) amount
      then Inr \<lparr>tq_from = from, tq_to = to, tq_amount = amount, tq_reason = reason,
                tq_approval = approval, tq_created = now\<rparr>
      else Inl ValueError)"

datatype transfer_error =
    TransferWhitelistError | PerTxnLimitExceeded | DailyLimitExceeded pyfloat | TransferApprovalRequiredError

text \<open>The error text of a result: none, a policy error, or words of the executor.\<close>

datatype transfer_note = NoNote | Refused transfer_error | Said string

record transfer_result =
  tt_request :: transfer_request
  tt_status :: transfer_status
  tt_tx :: "string option"
  tt_fee :: pyfloat
  tt_at :: "int option"
  tt_error :: transfer_note

section \<open>Executors\<close>

definition execute_transfer :: "int \<Rightarrow> transfer_request \<Rightarrow> transfer_result" where
  "execute_transfer now req =
     (if tq_approval req
      then \<lparr>tt_request = req, tt_status = PENDING, tt_tx = None, tt_fee = Fin 0, tt_at = None,
            tt_error = Said ''Awaiting manual approval''\<rparr>
      else \<lparr>tt_request = req, tt_status = EXECUTED, tt_tx = Some (''stub-'' @ show_nat (nat (now div 1000000))),
            tt_fee = Fin 0, tt_at = Some now, tt_error = NoNote\<rparr>)"

definition sweep_to_cold :: "int \<Rightarrow> pyfloat \<Rightarrow> string \<Rightarrow> string \<Rightarrow> pyexc + transfer_result" where
  "sweep_to_cold now amount wallet chain =
     (if fle amount (Fin 0) then Inl ValueError
      else if wallet = [] then Inl ValueError
      else rbind (new_request now ''exchange_hot'' ''cold_wallet'' amount
                    (''Cold sweep via '' @ chain @ '' to '' @ take 8 wallet @ ''...'') True)
             (\<lambda>req. Inr \<lparr>tt_request = req, tt_status = PENDING, tt_tx = None, tt_fee = Fin 0, tt_at = None,
                tt_error = Said (''Cold sweep to '' @ chain @ '' awaiting whitelist confirmation'')\<rparr>))"

text \<open>\<open>StubExecutor\<close>: its state is its fee and its counter.\<close>

definition new_stub :: "pyfloat \<Rightarrow> pyexc + pyfloat \<times> nat" where
  "new_stub fee = (if flt fee (Fin 0) then Inl ValueError else Inr (fee, 0))"

definition stub_execute :: "int \<Rightarrow> pyfloat \<times> nat \<Rightarrow> transfer_request \<Rightarrow> transfer_result \<times> pyfloat \<times> nat" where
  "stub_execute now st req =
     (let n = Suc (snd st)
      in (\<lparr>tt_request = req, tt_status = EXECUTED, tt_tx = Some (''stub-'' @ show_nat n), tt_fee = fst st,
           tt_at = Some now, tt_error = NoNote\<rparr>, fst st, n))"

definition dry_run_execute :: "transfer_request list \<Rightarrow> transfer_request \<Rightarrow> transfer_result \<times> transfer_request list" where
  "dry_run_execute calls req =
     (\<lparr>tt_request = req, tt_status = APPROVED, tt_tx = None, tt_fee = Fin 0, tt_at = None,
       tt_error = Said ''dry-run; no tx submitted''\<rparr>, calls @ [req])"

definition failing_execute :: "string \<Rightarrow> transfer_request \<Rightarrow> transfer_result" where
  "failing_execute message req =
     \<lparr>tt_request = req, tt_status = FAILED, tt_tx = None, tt_fee = Fin 0, tt_at = None, tt_error = Said message\<rparr>"

section \<open>The policy and the ledger\<close>

record transfer_policy =
  tp_txn :: pyfloat
  tp_daily :: pyfloat
  tp_approval :: pyfloat
  tp_whitelist :: "(string, string list) dict"

definition policy_defaults :: transfer_policy where
  "policy_defaults = \<lparr>tp_txn = Fin 25000, tp_daily = Fin 100000, tp_approval = Fin 10000, tp_whitelist = []\<rparr>"

definition new_policy :: "pyfloat \<Rightarrow> pyfloat \<Rightarrow> pyfloat \<Rightarrow> (string, string list) dict \<Rightarrow> pyexc + transfer_policy" where
  "new_policy txn daily approval whitelist =
     (if flt (Fin 0) txn \<and> flt (Fin 0) daily \<and> fle (Fin 0) approval
      then Inr \<lparr>tp_txn = txn, tp_daily = daily, tp_approval = approval, tp_whitelist = whitelist\<rparr>
      else Inl ValueError)"

definition is_whitelisted :: "transfer_policy \<Rightarrow> string \<Rightarrow> string \<Rightarrow> bool" where
  "is_whitelisted p from to = (tp_whitelist p = [] \<or> to \<in> set (dget_or (tp_whitelist p) from []))"

record ledger_entry =
  le_ts :: int
  le_request :: transfer_request
  le_result :: transfer_result
  le_outcome :: string
  le_reason :: transfer_note

definition total_usd_since :: "ledger_entry list \<Rightarrow> int \<Rightarrow> pyfloat" where
  "total_usd_since ledger since =
     pysum (map (tq_amount \<circ> le_request) (filter (\<lambda>e. le_outcome e = ''EXECUTED'' \<and> since \<le> le_ts e) ledger))"

section \<open>The manager\<close>

record transfer_manager =
  tm_policy :: transfer_policy
  tm_ledger :: "ledger_entry list"
  tm_sent :: "(string, (int \<times> pyfloat) list) dict"

definition new_manager :: "transfer_policy \<Rightarrow> ledger_entry list \<Rightarrow> transfer_manager" where
  "new_manager p ledger = \<lparr>tm_policy = p, tm_ledger = ledger, tm_sent = []\<rparr>"

definition day :: int where
  "day = 24 * 60 * 60 * 1000000"

definition prune_daily :: "string \<Rightarrow> int \<Rightarrow> transfer_manager \<Rightarrow> transfer_manager" where
  "prune_daily sender now m =
     m\<lparr>tm_sent := dset sender (filter (\<lambda>(ts, _). now - day \<le> ts) (dget_or (tm_sent m) sender [])) (tm_sent m)\<rparr>"

definition daily_total :: "string \<Rightarrow> int \<Rightarrow> transfer_manager \<Rightarrow> pyfloat \<times> transfer_manager" where
  "daily_total sender now m =
     (let m1 = prune_daily sender now m in (pysum (map snd (dget_or (tm_sent m1) sender [])), m1))"

definition check_policy :: "transfer_request \<Rightarrow> int \<Rightarrow> transfer_manager \<Rightarrow> transfer_error option \<times> transfer_manager" where
  "check_policy req now m =
     (let p = tm_policy m
      in if \<not> is_whitelisted p (tq_from req) (tq_to req) then (Some TransferWhitelistError, m)
         else if flt (tp_txn p) (tq_amount req) then (Some PerTxnLimitExceeded, m)
         else case daily_total (tq_from req) now m of (rolling, m1) \<Rightarrow>
           (if flt (tp_daily p) (fadd rolling (tq_amount req)) then (Some (DailyLimitExceeded rolling), m1)
            else if fle (tp_approval p) (tq_amount req) \<and> \<not> tq_approval req
            then (Some TransferApprovalRequiredError, m1)
            else (None, m1)))"

fun outcome_of :: "transfer_status \<Rightarrow> string" where
  "outcome_of EXECUTED = ''EXECUTED''"
| "outcome_of APPROVED = ''APPROVED''"
| "outcome_of PENDING = ''APPROVED''"
| "outcome_of FAILED = ''FAILED''"

type_synonym executor = "transfer_request \<Rightarrow> pyexc + transfer_result"

definition append_entry :: "ledger_entry \<Rightarrow> transfer_manager \<Rightarrow> transfer_manager" where
  "append_entry e m = m\<lparr>tm_ledger := tm_ledger m @ [e]\<rparr>"

definition book_sent :: "string \<Rightarrow> int \<Rightarrow> pyfloat \<Rightarrow> transfer_manager \<Rightarrow> transfer_manager" where
  "book_sent sender now amount m = m\<lparr>tm_sent := dset sender (dget_or (tm_sent m) sender [] @ [(now, amount)]) (tm_sent m)\<rparr>"

definition manager_execute ::
  "int \<Rightarrow> executor \<Rightarrow> transfer_request \<Rightarrow> transfer_manager \<Rightarrow> (pyexc + transfer_result) \<times> transfer_manager" where
  "manager_execute now ask req m =
     (case check_policy req now m of
        (Some err, m1) \<Rightarrow>
          let r = \<lparr>tt_request = req, tt_status = FAILED, tt_tx = None, tt_fee = Fin 0, tt_at = None, tt_error = Refused err\<rparr>
          in (Inr r, append_entry \<lparr>le_ts = now, le_request = req, le_result = r, le_outcome = ''REJECTED'',
                                   le_reason = Refused err\<rparr> m1)
      | (None, m1) \<Rightarrow>
          (case ask req of
             Inl x \<Rightarrow> (Inl x, m1)
           | Inr r \<Rightarrow>
               let m2 = (if outcome_of (tt_status r) = ''EXECUTED'' then book_sent (tq_from req) now (tq_amount req) m1 else m1)
               in (Inr r, append_entry \<lparr>le_ts = now, le_request = req, le_result = r,
                                        le_outcome = outcome_of (tt_status r), le_reason = tt_error r\<rparr> m2)))"

section \<open>Lemmas\<close>

lemma policy_kept [simp]:
  "tm_policy (snd (manager_execute now ask req m)) = tm_policy m"
  "tm_ledger (prune_daily b now m) = tm_ledger m" "tm_policy (prune_daily b now m) = tm_policy m"
  by (auto simp: manager_execute_def check_policy_def daily_total_def prune_daily_def append_entry_def book_sent_def
      Let_def split: prod.splits sum.splits option.splits if_splits)

text \<open>What the policy lets through, and that a denial is the first rule broken.\<close>

lemma check_policy_passes:
  "fst (check_policy req now m) = None \<longleftrightarrow>
     is_whitelisted (tm_policy m) (tq_from req) (tq_to req) \<and> \<not> flt (tp_txn (tm_policy m)) (tq_amount req)
     \<and> \<not> flt (tp_daily (tm_policy m)) (fadd (fst (daily_total (tq_from req) now m)) (tq_amount req))
     \<and> (fle (tp_approval (tm_policy m)) (tq_amount req) \<longrightarrow> tq_approval req)"
  by (auto simp: check_policy_def Let_def split: prod.split)

lemma check_policy_state:
  "snd (check_policy req now m) = m \<or> snd (check_policy req now m) = prune_daily (tq_from req) now m"
  by (auto simp: check_policy_def daily_total_def Let_def)

lemma check_policy_ledger [simp]: "tm_ledger (snd (check_policy req now m)) = tm_ledger m"
  using check_policy_state [of req now m] by auto

text \<open>The executed entries of a sender, and their whole-dollar volume between two times.\<close>

definition executed_by :: "string \<Rightarrow> ledger_entry \<Rightarrow> bool" where
  "executed_by b e = (le_outcome e = ''EXECUTED'' \<and> tq_from (le_request e) = b)"

definition volume :: "string \<Rightarrow> int \<Rightarrow> int \<Rightarrow> ledger_entry list \<Rightarrow> int" where
  "volume b lo hi es =
     sum_list (map (whole_part \<circ> tq_amount \<circ> le_request) (filter (\<lambda>e. executed_by b e \<and> lo \<le> le_ts e \<and> le_ts e \<le> hi) es))"

definition sent_log :: "string \<Rightarrow> ledger_entry list \<Rightarrow> (int \<times> pyfloat) list" where
  "sent_log b es = map (\<lambda>e. (le_ts e, tq_amount (le_request e))) (filter (executed_by b) es)"

lemma sent_log_snoc [simp]:
  "sent_log b (es @ [e]) = sent_log b es @ (if executed_by b e then [(le_ts e, tq_amount (le_request e))] else [])"
  by (simp add: sent_log_def)

lemma volume_snoc [simp]:
  "volume b lo hi (es @ [e]) =
     volume b lo hi es + (if executed_by b e \<and> lo \<le> le_ts e \<and> le_ts e \<le> hi then whole_part (tq_amount (le_request e)) else 0)"
  by (simp add: volume_def)

definition whole_entry :: "int \<Rightarrow> ledger_entry \<Rightarrow> bool" where
  "whole_entry now e = (le_outcome e = ''EXECUTED'' \<longrightarrow>
     le_ts e \<le> now \<and> (\<exists>n>0. tq_amount (le_request e) = Fin (of_int n)))"

lemma whole_entry_later: "now \<le> now' \<Longrightarrow> whole_entry now e \<Longrightarrow> whole_entry now' e"
  by (auto simp: whole_entry_def)

text \<open>A narrower window has no more volume.\<close>

lemma volume_mono:
  "list_all (whole_entry now) es \<Longrightarrow> lo' \<le> lo \<Longrightarrow> hi \<le> hi' \<Longrightarrow> volume b lo hi es \<le> volume b lo' hi' es"
  by (induction es) (auto simp: volume_def whole_entry_def executed_by_def whole_part_def)

lemma volume_nonneg: "list_all (whole_entry now) es \<Longrightarrow> 0 \<le> volume b lo hi es"
  by (induction es) (auto simp: volume_def whole_entry_def executed_by_def whole_part_def)

text \<open>
  The invariant at a time: the manager's list of a sender is what the ledger says was executed since
  some moment a day ago or earlier, and no window of a day has more volume than the limit.
\<close>

definition rolling :: "transfer_policy \<Rightarrow> int \<Rightarrow> int \<times> transfer_manager \<Rightarrow> bool" where
  "rolling p limit st =
     (case st of (now, m) \<Rightarrow>
        tm_policy m = p \<and> list_all (whole_entry now) (tm_ledger m)
        \<and> (\<forall>b. \<exists>edge\<le>now - day. dget_or (tm_sent m) b [] = filter (\<lambda>(ts, _). edge \<le> ts) (sent_log b (tm_ledger m)))
        \<and> (\<forall>b t. volume b (t - day) t (tm_ledger m) \<le> limit))"

lemma rollingD:
  assumes "rolling p limit (now, m)"
  obtains edge where "edge \<le> now - day"
    "dget_or (tm_sent m) b [] = filter (\<lambda>(ts, _). edge \<le> ts) (sent_log b (tm_ledger m))"
  using assms unfolding rolling_def by blast

lemma sum_since:
  assumes "list_all (whole_entry now) es" "volume b lo now es \<le> 2 ^ 53"
  shows "pysum (map snd (filter (\<lambda>(ts, _). lo \<le> ts) (sent_log b es))) = Fin (of_int (volume b lo now es))"
proof -
  let ?es = "filter (\<lambda>e. executed_by b e \<and> lo \<le> le_ts e \<and> le_ts e \<le> now) es"
  let ?ns = "map (whole_part \<circ> tq_amount \<circ> le_request) ?es"
  have "map snd (filter (\<lambda>(ts, _). lo \<le> ts) (sent_log b es)) = map (\<lambda>n. Fin (of_int n)) ?ns"
    using assms(1)
    by (induction es) (auto simp: sent_log_def whole_entry_def executed_by_def whole_part_def)
  moreover have "map abs ?ns = ?ns"
    using assms(1) by (induction es) (auto simp: whole_entry_def executed_by_def whole_part_def)
  then have "sum_list (map abs ?ns) \<le> 2 ^ 53" using assms(2) by (simp only: volume_def)
  ultimately show ?thesis using pysum_whole [of ?ns] by (simp add: volume_def)
qed

lemma filter_since:
  fixes xs :: "(int \<times> 'a) list"
  shows "edge \<le> lo \<Longrightarrow> filter (\<lambda>(ts, _). lo \<le> ts) (filter (\<lambda>(ts, _). edge \<le> ts) xs) = filter (\<lambda>(ts, _). lo \<le> ts) xs"
  by (induction xs) auto

lemma rolling_total:
  assumes "rolling p limit (now, m)" "now \<le> now'" "limit \<le> 2 ^ 45"
  shows "fst (daily_total b now' m) = Fin (of_int (volume b (now' - day) now' (tm_ledger m)))"
    and "dget_or (tm_sent (prune_daily b now' m)) b [] = filter (\<lambda>(ts, _). now' - day \<le> ts) (sent_log b (tm_ledger m))"
proof -
  obtain edge where edge: "edge \<le> now - day"
    "dget_or (tm_sent m) b [] = filter (\<lambda>(ts, _). edge \<le> ts) (sent_log b (tm_ledger m))"
    using assms(1) by (rule rollingD)
  show kept: "dget_or (tm_sent (prune_daily b now' m)) b [] = filter (\<lambda>(ts, _). now' - day \<le> ts) (sent_log b (tm_ledger m))"
    using edge filter_since [of edge "now' - day"] assms(2) by (simp add: prune_daily_def)
  have w: "list_all (whole_entry now') (tm_ledger m)"
    using assms(1,2) by (auto simp: rolling_def list_all_iff intro: whole_entry_later)
  have "volume b (now' - day) now' (tm_ledger m) \<le> limit" using assms(1) by (simp add: rolling_def)
  with assms(3) have "volume b (now' - day) now' (tm_ledger m) \<le> 2 ^ 53" by simp
  from sum_since [OF w this] kept
  show "fst (daily_total b now' m) = Fin (of_int (volume b (now' - day) now' (tm_ledger m)))"
    by (simp add: daily_total_def Let_def)
qed

lemma rolling_prune:
  assumes "rolling p limit (now, m)" "now \<le> now'" "limit \<le> 2 ^ 45"
  shows "rolling p limit (now', prune_daily b now' m)" "rolling p limit (now', m)"
proof -
  have "\<exists>edge\<le>now' - day. dget_or (tm_sent m') c [] = filter (\<lambda>(ts, _). edge \<le> ts) (sent_log c (tm_ledger m'))"
    if "m' = prune_daily b now' m \<or> m' = m" for m' c
  proof (cases "m' = prune_daily b now' m \<and> c = b")
    case True
    then show ?thesis using rolling_total(2) [OF assms, of b] by auto
  next
    case False
    then have "dget_or (tm_sent m') c [] = dget_or (tm_sent m) c []" using that by (auto simp: prune_daily_def)
    moreover obtain edge where "edge \<le> now - day"
      "dget_or (tm_sent m) c [] = filter (\<lambda>(ts, _). edge \<le> ts) (sent_log c (tm_ledger m))"
      using assms(1) by (rule rollingD)
    ultimately show ?thesis using assms(2) that by (intro exI [of _ edge]) auto
  qed
  from this [of "prune_daily b now' m"] this [of m]
  have edges: "\<forall>c. \<exists>edge\<le>now' - day. dget_or (tm_sent (prune_daily b now' m)) c [] = filter (\<lambda>(ts, _). edge \<le> ts) (sent_log c (tm_ledger m))"
    "\<forall>c. \<exists>edge\<le>now' - day. dget_or (tm_sent m) c [] = filter (\<lambda>(ts, _). edge \<le> ts) (sent_log c (tm_ledger m))"
    by simp_all
  have "list_all (whole_entry now') (tm_ledger m)"
    using assms(1,2) by (auto simp: rolling_def list_all_iff intro: whole_entry_later)
  then show "rolling p limit (now', prune_daily b now' m)" "rolling p limit (now', m)"
    using assms(1) edges by (simp_all add: rolling_def)
qed

lemma rolling_idle_entry:
  assumes "rolling p limit (now, m)" "le_outcome e \<noteq> ''EXECUTED''"
  shows "rolling p limit (now, append_entry e m)"
  using assms by (simp add: rolling_def append_entry_def executed_by_def whole_entry_def)

lemma rolling_executed:
  assumes inv: "rolling p limit (now, m)" and b: "b = tq_from req" and e: "le_ts e = now" "le_request e = req"
    "le_outcome e = ''EXECUTED''" and n: "tq_amount req = Fin (of_int n)" "0 < n"
    and fits: "volume b (now - day) now (tm_ledger m) + n \<le> limit"
  shows "rolling p limit (now, append_entry e (book_sent b now (tq_amount req) m))"
proof -
  let ?m = "append_entry e (book_sent b now (tq_amount req) m)"
  have "volume c (t - day) t (tm_ledger ?m) \<le> limit" for c t
  proof (cases "c = b \<and> t - day \<le> now \<and> now \<le> t")
    case True
    then have "volume b (t - day) t (tm_ledger m) \<le> volume b (now - day) now (tm_ledger m)"
    proof -
      have "volume b (t - day) t (tm_ledger m) = volume b (t - day) now (tm_ledger m)"
        using inv True unfolding volume_def
        by (intro arg_cong [of _ _ sum_list] map_cong filter_cong)
          (auto simp: rolling_def list_all_iff whole_entry_def executed_by_def)
      also have "\<dots> \<le> volume b (now - day) now (tm_ledger m)"
        using inv True by (intro volume_mono) (auto simp: rolling_def)
      finally show ?thesis .
    qed
    then show ?thesis using True fits e n b by (simp add: append_entry_def book_sent_def whole_part_def executed_by_def)
  next
    case False
    then show ?thesis using inv e b by (auto simp: append_entry_def book_sent_def executed_by_def rolling_def)
  qed
  moreover have "\<exists>edge\<le>now - day. dget_or (tm_sent ?m) c [] = filter (\<lambda>(ts, _). edge \<le> ts) (sent_log c (tm_ledger ?m))" for c
  proof -
    obtain edge where edge: "edge \<le> now - day"
      "dget_or (tm_sent m) c [] = filter (\<lambda>(ts, _). edge \<le> ts) (sent_log c (tm_ledger m))" using inv by (rule rollingD)
    then show ?thesis using e b
      by (intro exI [of _ edge]) (auto simp: append_entry_def book_sent_def executed_by_def day_def)
  qed
  moreover have "list_all (whole_entry now) (tm_ledger ?m)"
    using inv e n by (auto simp: rolling_def append_entry_def book_sent_def whole_entry_def)
  ultimately show ?thesis using inv by (simp add: rolling_def append_entry_def book_sent_def)
qed


text \<open>A call after some time, and the requests in whole dollars.\<close>

type_synonym transfer_call = "int \<times> executor \<times> transfer_request"

definition call_after :: "int \<times> transfer_manager \<Rightarrow> transfer_call \<Rightarrow> int \<times> transfer_manager" where
  "call_after st c = (case (st, c) of ((now, m), (wait, ask, req)) \<Rightarrow> (now + wait, snd (manager_execute (now + wait) ask req m)))"

definition whole_call :: "transfer_call \<Rightarrow> bool" where
  "whole_call c = (case c of (wait, ask, req) \<Rightarrow> 0 \<le> wait \<and> whole (tq_amount req) \<and> flt (Fin 0) (tq_amount req))"

lemma rolling_call:
  assumes inv: "rolling p limit st" and p: "tp_daily p = Fin (of_int limit)" "limit \<le> 2 ^ 45" and c: "whole_call c"
  shows "rolling p limit (call_after st c)"
proof -
  obtain now m wait ask req where sc: "st = (now, m)" "c = (wait, ask, req)" by (metis prod.exhaust)
  let ?t = "now + wait" and ?b = "tq_from req"
  have t: "now \<le> ?t" "whole (tq_amount req)" "flt (Fin 0) (tq_amount req)" using c sc by (auto simp: whole_call_def)
  from t(2,3) obtain n where n: "tq_amount req = Fin (of_int n)" "0 < n" "\<bar>n\<bar> \<le> 2 ^ 45" by (auto elim!: wholeE)
  have m1: "rolling p limit (?t, snd (check_policy req ?t m))"
    using check_policy_state [of req ?t m] rolling_prune [OF inv [unfolded sc(1)] t(1) p(2)] by auto
  obtain d m1 where cp: "check_policy req ?t m = (d, m1)" by fastforce
  show ?thesis
  proof (cases d)
    case (Some err)
    then show ?thesis using m1 cp sc
      by (auto simp: call_after_def manager_execute_def Let_def intro: rolling_idle_entry)
  next
    case None
    let ?v = "volume ?b (?t - day) ?t (tm_ledger m)"
    have v: "0 \<le> ?v" "?v \<le> limit"
      using inv sc rolling_prune(2) [OF inv [unfolded sc(1)] t(1) p(2)]
      by (auto simp: rolling_def intro: volume_nonneg)
    then have "fadd (Fin (of_int ?v)) (Fin (of_int n)) = Fin (of_int (?v + n))" using n p by (intro fadd_whole) simp
    then have fits: "?v + n \<le> limit"
      using check_policy_passes [of req ?t m] cp None p(1) n(1) inv sc
        rolling_total(1) [OF inv [unfolded sc(1)] t(1) p(2), of ?b]
      by (auto simp: rolling_def simp del: fadd.simps)
    have led: "tm_ledger m1 = tm_ledger m" using check_policy_ledger [of req ?t m] cp by simp
    have m1': "rolling p limit (?t, m1)" using m1 cp by simp
    show ?thesis
    proof (cases "ask req")
      case (Inl x)
      then show ?thesis using m1' cp sc None by (simp add: call_after_def manager_execute_def)
    next
      case (Inr r)
      show ?thesis
      proof (cases "outcome_of (tt_status r) = ''EXECUTED''")
        case True
        have "volume ?b (?t - day) ?t (tm_ledger m1) + n \<le> limit" using fits led by simp
        from rolling_executed [OF m1' refl _ _ _ n(1,2) this] show ?thesis
          using Inr True cp sc None by (simp add: call_after_def manager_execute_def)
      next
        case False
        with Inr m1' cp sc None show ?thesis
          by (simp add: call_after_def manager_execute_def rolling_idle_entry)
      qed
    qed
  qed
qed

interpretation transfers: machine call_after "\<lambda>st. tp_daily p = Fin (of_int limit) \<and> limit \<le> 2 ^ 45 \<and> rolling p limit st" whole_call
  for p limit
  by unfold_locales (auto intro: rolling_call)

text \<open>One entry per call that returns, holding the result returned.\<close>

lemma call_logged:
  assumes "manager_execute now ask req m = (Inr r, m')"
  obtains e where "tm_ledger m' = tm_ledger m @ [e]" "le_result e = r" "le_request e = req" "le_ts e = now"
proof -
  obtain d m1 where cp: "check_policy req now m = (d, m1)" by fastforce
  moreover have "tm_ledger m1 = tm_ledger m" using check_policy_ledger [of req now m] cp by simp
  ultimately show thesis using assms that
    by (cases d) (auto simp: manager_execute_def Let_def append_entry_def book_sent_def split: sum.splits if_splits)
qed

section \<open>Properties\<close>

text \<open>
  C14. No sender moves more than the daily limit in any 24 hours: over any run of requests in whole dollars,
  with any executor answering them, at times that do not go back, the executed transfers of a sender
  recorded in any window of 24 hours sum to at most the limit, exactly.
\<close>

theorem rolling_limit_holds:
  assumes "tp_daily p = Fin (of_int limit)" "0 \<le> limit" "limit \<le> 2 ^ 45" "list_all whole_call cs"
    "(now, m) = foldl call_after (start, new_manager p []) cs"
  shows "volume b (t - day) t (tm_ledger m) \<le> limit"
proof -
  have "rolling p limit (start, new_manager p [])"
    using assms(2) by (auto simp: rolling_def new_manager_def dget_or_def sent_log_def volume_def)
  then have "rolling p limit (now, m)" using transfers.run_inv [of p limit _ cs] assms by simp
  then show ?thesis by (simp add: rolling_def)
qed

text \<open>
  The policy alone decides what reaches the executor: a request that is whitelisted, within the size
  and the rolling limit and, from the threshold on, marked approved gets the executor's answer, exceptions
  included; any other is answered FAILED without asking the executor, and recorded as REJECTED
  with the rule it broke.
\<close>

theorem policy_decides:
  "if is_whitelisted (tm_policy m) (tq_from req) (tq_to req) \<and> \<not> flt (tp_txn (tm_policy m)) (tq_amount req)
      \<and> \<not> flt (tp_daily (tm_policy m)) (fadd (fst (daily_total (tq_from req) now m)) (tq_amount req))
      \<and> (tq_approval req \<or> \<not> fle (tp_approval (tm_policy m)) (tq_amount req))
   then fst (manager_execute now ask req m) = ask req
   else \<exists>err r e m'. (\<forall>ask'. manager_execute now ask' req m = (Inr r, m')) \<and> tt_status r = FAILED
      \<and> tt_error r = Refused err \<and> tm_ledger m' = tm_ledger m @ [e] \<and> le_outcome e = ''REJECTED'' \<and> le_reason e = Refused err"
proof (cases "fst (check_policy req now m)")
  case None
  then show ?thesis using check_policy_passes [of req now m]
    by (auto simp: manager_execute_def Let_def split: prod.splits sum.split)
next
  case (Some err)
  let ?r = "\<lparr>tt_request = req, tt_status = FAILED, tt_tx = None, tt_fee = Fin 0, tt_at = None, tt_error = Refused err\<rparr>"
  let ?e = "\<lparr>le_ts = now, le_request = req, le_result = ?r, le_outcome = ''REJECTED'', le_reason = Refused err\<rparr>"
  have "manager_execute now ask' req m = (Inr ?r, append_entry ?e (snd (check_policy req now m)))" for ask'
    using Some by (cases "check_policy req now m") (simp add: manager_execute_def Let_def)
  moreover have "tm_ledger (append_entry ?e (snd (check_policy req now m))) = tm_ledger m @ [?e]"
    by (simp add: append_entry_def)
  ultimately show ?thesis using Some check_policy_passes [of req now m] by auto
qed

definition demo_transfer :: "string \<Rightarrow> int \<Rightarrow> transfer_request" where
  "demo_transfer b n = \<lparr>tq_from = b, tq_to = ''vault'', tq_amount = Fin (of_int n), tq_reason = [], tq_approval = True, tq_created = 0\<rparr>"

definition always_done :: executor where
  "always_done req = Inr (execute_transfer 0 (req\<lparr>tq_approval := False\<rparr>))"

definition demo_calls :: "transfer_call list" where
  "demo_calls = [(1, always_done, demo_transfer ''a'' 20000), (1, always_done, demo_transfer ''b'' 20000)]"

definition demo_policy :: transfer_policy where
  "demo_policy = policy_defaults\<lparr>tp_daily := Fin 30000\<rparr>"

lemma demo_ledger:
  "map (\<lambda>e. (le_ts e, tq_from (le_request e), le_outcome e)) (tm_ledger (snd (foldl call_after (0, new_manager demo_policy []) demo_calls)))
     = [(1, ''a'', ''EXECUTED''), (2, ''b'', ''EXECUTED'')]"
  "map (tq_amount \<circ> le_request) (tm_ledger (snd (foldl call_after (0, new_manager demo_policy []) demo_calls))) = [Fin 20000, Fin 20000]"
  by (simp_all add: demo_calls_def call_after_def manager_execute_def check_policy_def demo_policy_def policy_defaults_def
      new_manager_def is_whitelisted_def demo_transfer_def always_done_def execute_transfer_def daily_total_def prune_daily_def
      dget_or_def book_sent_def append_entry_def Let_def fle_def feq_def)

theorem rolling_limit_holds_witness:
  "volume ''a'' (2 - day) 2 (tm_ledger (snd (foldl call_after (0, new_manager demo_policy []) demo_calls))) \<le> 30000"
proof -
  have "list_all whole_call demo_calls" by (simp add: demo_calls_def whole_call_def demo_transfer_def whole_def)
  then show ?thesis
    by (intro rolling_limit_holds [of demo_policy 30000 demo_calls
          "fst (foldl call_after (0, new_manager demo_policy []) demo_calls)" _ 0])
      (simp_all add: demo_policy_def)
qed

theorem policy_decides_witness:
  "\<exists>r. fst (manager_execute 0 always_done (demo_transfer ''a'' 30000) (new_manager policy_defaults [])) = Inr r \<and> tt_status r = FAILED"
proof -
  have "flt (tp_txn (tm_policy (new_manager policy_defaults []))) (tq_amount (demo_transfer ''a'' 30000))"
    by (simp add: policy_defaults_def new_manager_def demo_transfer_def)
  then show ?thesis
    using policy_decides [of "new_manager policy_defaults []" "demo_transfer ''a'' 30000" 0 always_done] by fastforce
qed

section \<open>Corners\<close>

text \<open>
  The limit is described as one over all transfers, but each sender has its own: two senders move 40000
  within a day under a limit of 30000 (\<open>demo_ledger\<close>).  A new manager starts from zero, whatever the
  ledger it is given says; a transfer that is only pending, or whose executor raised, is not counted, and
  the latter leaves no entry either.
\<close>

lemma restart_forgets_volume: "fst (daily_total b now (new_manager p ledger)) = Fin 0"
  by (simp add: daily_total_def prune_daily_def new_manager_def dget_or_def Let_def)

lemma pending_not_counted:
  "ask req = Inr r \<Longrightarrow> tt_status r = PENDING \<Longrightarrow>
   tm_sent (snd (manager_execute now ask req m)) = tm_sent (snd (check_policy req now m))"
  by (cases "check_policy req now m") (simp add: manager_execute_def append_entry_def Let_def split: option.split)

text \<open>
  The check comes before the wait and the booking after it: two transfers of 20000 that are checked before either
  is booked both pass a limit of 30000.
\<close>

lemma concurrent_checks_pass:
  "(case check_policy (demo_transfer ''a'' 20000) 1 (new_manager demo_policy []) of (d, m) \<Rightarrow>
      d = None \<and> fst (check_policy (demo_transfer ''a'' 20000) 2 m) = None)"
  by (simp add: check_policy_def demo_policy_def policy_defaults_def new_manager_def is_whitelisted_def demo_transfer_def
      daily_total_def prune_daily_def dget_or_def Let_def fle_def feq_def)

lemma raised_leaves_no_entry:
  "fst (manager_execute now ask req m) = Inl x \<Longrightarrow> tm_ledger (snd (manager_execute now ask req m)) = tm_ledger m"
  using check_policy_ledger [of req now m]
  by (cases "check_policy req now m")
    (auto simp: manager_execute_def append_entry_def Let_def split: option.splits sum.splits)

end
