(* ===== verification/Rebalance.thy ===== *)
theory Rebalance
  imports Waterfall Fund_Transfer "HOL-Library.Multiset"
begin

text \<open>
  \<open>strategies/portfolio_rebalancer.py\<close>: moves between layers that bring the equities of a snapshot back to
  the target weights, and their transfer requests; \<open>staking/allocator.py\<close>: the split of a stake over
  assets and the rebalancing of staked balances.  Both match the largest surplus with the largest
  need first, one pair at a time.
\<close>

section \<open>Rebalancing the layers\<close>

text \<open>\<open>sorted(d.items(), key=lambda kv: -kv[1])\<close>: the largest first, equal ones in their order.\<close>

definition largest_first :: "('k, pyfloat) dict \<Rightarrow> ('k, pyfloat) dict" where
  "largest_first d = sort_key (\<lambda>(_, v). fneg v) d"

datatype rebalance_note =
    ZeroTotalEquity | GlobalKillActive | AllTargetsZero | AllWithinThreshold | NoOverweight | NoUnderweight
  | SkipSmall layer_id layer_id pyfloat pyfloat | NoTransfersAboveMin

record rebalance_plan =
  rp_total :: pyfloat
  rp_sweeps :: "proposed_sweep list"
  rp_drift :: "(layer_id, pyfloat) dict"
  rp_target :: "(layer_id, pyfloat) dict"
  rp_notes :: "rebalance_note list"
  rp_kill :: bool

definition idle_plan :: "pyfloat \<Rightarrow> rebalance_note \<Rightarrow> bool \<Rightarrow> rebalance_plan" where
  "idle_plan equity n kill =
     \<lparr>rp_total = equity, rp_sweeps = [], rp_drift = [], rp_target = [], rp_notes = [n], rp_kill = kill\<rparr>"

definition target_usd :: "weights \<Rightarrow> pyfloat \<Rightarrow> pyfloat \<Rightarrow> (layer_id, pyfloat) dict" where
  "target_usd ws wsum equity = map (\<lambda>(k, v). (k, fmul (fquot v wsum) equity)) ws"

definition drift_usd :: "layers \<Rightarrow> (layer_id, pyfloat) dict \<Rightarrow> (layer_id, pyfloat) dict" where
  "drift_usd ls targets =
     map (\<lambda>(k, t). (k, fsub (case dget ls k of Some l \<Rightarrow> ly_current l | None \<Rightarrow> Fin 0) t)) targets"

text \<open>The inner loop over the needs, with what a source has left; a need met is replaced in place.\<close>

fun feed :: "pyfloat \<Rightarrow> layer_id \<Rightarrow> pyfloat \<Rightarrow> (layer_id, pyfloat) dict
    \<Rightarrow> (layer_id, pyfloat) dict \<times> proposed_sweep list \<times> rebalance_note list" where
  "feed low src left [] = ([], [], [])"
| "feed low src left ((dst, need) # ns) =
     (if fle need (Fin 0) \<or> fle left (Fin 0)
      then case feed low src left ns of (ns', sw, no) \<Rightarrow> ((dst, need) # ns', sw, no)
      else let move = pymin left need
           in if flt move low
              then case feed low src left ns of (ns', sw, no) \<Rightarrow> ((dst, need) # ns', sw, SkipSmall src dst move low # no)
              else case feed low src (fsub left move) ns of (ns', sw, no) \<Rightarrow>
                     ((dst, fsub need move) # ns',
                      \<lparr>ps_src = src, ps_dst = dst, ps_amount = move, ps_reason = RebalanceOf src dst\<rparr> # sw, no))"

fun match_layers :: "pyfloat \<Rightarrow> (layer_id, pyfloat) dict \<Rightarrow> (layer_id, pyfloat) dict
    \<Rightarrow> (layer_id, pyfloat) dict \<times> proposed_sweep list \<times> rebalance_note list" where
  "match_layers low [] needs = (needs, [], [])"
| "match_layers low ((src, excess) # os) needs =
     (case feed low src excess needs of (needs1, sw1, no1) \<Rightarrow>
        case match_layers low os needs1 of (needs2, sw2, no2) \<Rightarrow> (needs2, sw1 @ sw2, no1 @ no2))"

definition plan_rebalance :: "layers \<Rightarrow> allocation_plan \<Rightarrow> pyfloat \<Rightarrow> pyfloat \<Rightarrow> rebalance_plan" where
  "plan_rebalance ls alloc threshold low =
     (let equity = total_equity ls
      in if fle equity (Fin 0) then idle_plan (Fin 0) ZeroTotalEquity False
         else if ap_kill alloc then idle_plan equity GlobalKillActive True
         else
           let wsum = pysum (map snd (ap_weights alloc))
           in if fle wsum (Fin 0) then idle_plan equity AllTargetsZero False
              else
                let targets = target_usd (ap_weights alloc) wsum equity;
                    drifts = drift_usd ls targets;
                    pcts = map (\<lambda>(k, v). (k, fquot v equity)) drifts;
                    over = filter (\<lambda>(k, _). flt threshold (dget_or pcts k NaN)) drifts;
                    under = map (\<lambda>(k, v). (k, fneg v)) (filter (\<lambda>(k, _). flt (dget_or pcts k NaN) (fneg threshold)) drifts)
                in if over = [] \<or> under = []
                   then \<lparr>rp_total = equity, rp_sweeps = [], rp_drift = pcts, rp_target = targets,
                         rp_notes = [if over = [] \<and> under = [] then AllWithinThreshold
                                     else if over = [] then NoOverweight else NoUnderweight],
                         rp_kill = False\<rparr>
                   else case match_layers low (largest_first over) (largest_first under) of (_, sw, no) \<Rightarrow>
                          \<lparr>rp_total = equity, rp_sweeps = sw, rp_drift = pcts, rp_target = targets,
                           rp_notes = no @ (if sw = [] then [NoTransfersAboveMin] else []), rp_kill = False\<rparr>)"

text \<open>The transfer requests of a plan; a layer without a bot is skipped, an amount that rounds to nothing raises.\<close>

fun plan_transfers :: "int \<Rightarrow> (sweep_note \<Rightarrow> string) \<Rightarrow> (layer_id, string) dict \<Rightarrow> proposed_sweep list \<Rightarrow> pyexc + transfer_request list" where
  "plan_transfers now show_note bots [] = Inr []"
| "plan_transfers now show_note bots (s # ss) =
     (case (dget bots (ps_src s), dget bots (ps_dst s)) of
        (Some a, Some b) \<Rightarrow>
          rbind (new_request now a b (fround 2 (ps_amount s)) (show_note (ps_reason s)) False) (\<lambda>r.
            rbind (plan_transfers now show_note bots ss) (\<lambda>rs. Inr (r # rs)))
      | _ \<Rightarrow> plan_transfers now show_note bots ss)"

section \<open>Stakes\<close>

record allocation_config =
  ac_eth :: pyfloat
  ac_sol :: pyfloat
  ac_xrp :: pyfloat
  ac_stable :: pyfloat
  ac_cap :: pyfloat

text \<open>The validators: every share and the cap between 0 and 100, the shares summing to 100, none above the cap.\<close>

definition percent :: "pyfloat \<Rightarrow> bool" where
  "percent x = (fle (Fin 0) x \<and> fle x (Fin 100))"

definition new_allocation :: "pyfloat \<Rightarrow> pyfloat \<Rightarrow> pyfloat \<Rightarrow> pyfloat \<Rightarrow> pyfloat \<Rightarrow> pyexc + allocation_config" where
  "new_allocation eth sol xrp stab cap =
     (if percent eth \<and> percent sol \<and> percent xrp \<and> percent stab \<and> percent cap
         \<and> \<not> flt (fl (1 / 100)) (fabs (fsub (fadd (fadd (fadd eth sol) xrp) stab) (Fin 100)))
         \<and> \<not> flt cap eth \<and> \<not> flt cap sol \<and> \<not> flt cap xrp \<and> \<not> flt cap stab
      then Inr \<lparr>ac_eth = eth, ac_sol = sol, ac_xrp = xrp, ac_stable = stab, ac_cap = cap\<rparr>
      else Inl ValueError)"

definition default_allocation :: allocation_config where
  "default_allocation = \<lparr>ac_eth = Fin 40, ac_sol = Fin 30, ac_xrp = Fin 15, ac_stable = Fin 15, ac_cap = Fin 40\<rparr>"

definition asset_keys :: "string list" where
  "asset_keys = [''eth'', ''sol'', ''xrp'', ''stable'']"

definition allocate :: "pyfloat \<Rightarrow> allocation_config \<Rightarrow> (string, pyfloat) dict" where
  "allocate amount c =
     (if fle amount (Fin 0) then map (\<lambda>k. (k, Fin 0)) asset_keys
      else map (\<lambda>(k, v). (k, fround 2 (fquot (fmul amount v) (Fin 100))))
             [(''eth'', ac_eth c), (''sol'', ac_sol c), (''xrp'', ac_xrp c), (''stable'', ac_stable c)])"

text \<open>
  The loop of \<open>rebalance\<close>.  The needs are sorted again for every source; inside its turn a source goes
  through the needs as they were, and stops when too little is left.
\<close>

type_synonym stake_move = "string \<times> string \<times> pyfloat"

fun feed_stakes :: "pyfloat \<Rightarrow> string \<Rightarrow> pyfloat \<Rightarrow> (string, pyfloat) dict \<Rightarrow> (string, pyfloat) dict
    \<Rightarrow> stake_move list \<times> (string, pyfloat) dict" where
  "feed_stakes low src left [] needs = ([], needs)"
| "feed_stakes low src left ((dst, need) # ns) needs =
     (let move = pymin left need
      in if flt need low \<or> flt move low then feed_stakes low src left ns needs
         else let left1 = fsub left move; needs1 = dset dst (fsub (dget_or needs dst (Fin 0)) move) needs
              in if flt left1 low then ([(src, dst, move)], needs1)
                 else case feed_stakes low src left1 ns needs1 of (ms, needs2) \<Rightarrow> ((src, dst, move) # ms, needs2))"

fun match_stakes :: "pyfloat \<Rightarrow> (string, pyfloat) dict \<Rightarrow> (string, pyfloat) dict \<Rightarrow> stake_move list" where
  "match_stakes low [] needs = []"
| "match_stakes low ((src, excess) # os) needs =
     (if flt excess low then match_stakes low os needs
      else case feed_stakes low src excess (largest_first needs) needs of (ms, needs1) \<Rightarrow> ms @ match_stakes low os needs1)"

definition stake_diffs :: "(string, pyfloat) dict \<Rightarrow> (string, pyfloat) dict \<Rightarrow> (string, pyfloat) dict" where
  "stake_diffs targets balances =
     map (\<lambda>k. (k, fsub (dget_or targets k (Fin 0)) (dget_or balances k (Fin 0)))) asset_keys"

definition stake_moves :: "(string, pyfloat) dict \<Rightarrow> allocation_config \<Rightarrow> stake_move list" where
  "stake_moves balances c =
     (let amount = pysum (map (\<lambda>k. dget_or balances k (Fin 0)) asset_keys)
      in if fle amount (Fin 0) then []
         else let diffs = stake_diffs (allocate amount c) balances;
                  over = map (\<lambda>(k, v). (k, fneg v)) (filter (\<lambda>(_, v). flt v (Fin 0)) diffs);
                  under = filter (\<lambda>(_, v). flt (Fin 0) v) diffs
              in match_stakes (fmul amount (fl (2 / 100))) (largest_first over) under)"

fun stake_requests :: "int \<Rightarrow> stake_move list \<Rightarrow> pyexc + transfer_request list" where
  "stake_requests now [] = Inr []"
| "stake_requests now ((src, dst, move) # ms) =
     rbind (new_request now (''staking_'' @ src) (''staking_'' @ dst) (fround 2 move) (''Rebalance '' @ src @ ''->'' @ dst) False)
       (\<lambda>r. rbind (stake_requests now ms) (\<lambda>rs. Inr (r # rs)))"

definition rebalance_stakes :: "int \<Rightarrow> (string, pyfloat) dict \<Rightarrow> allocation_config \<Rightarrow> pyexc + transfer_request list" where
  "rebalance_stakes now balances c = stake_requests now (stake_moves balances c)"

section \<open>Lemmas\<close>

text \<open>Whole amounts per key, and what a list of sweeps takes from a layer, brings to it, and moves in all.\<close>

definition in_whole :: "('k \<times> int) list \<Rightarrow> ('k, pyfloat) dict" where
  "in_whole ns = map (\<lambda>(k, n). (k, Fin (of_int n))) ns"

definition amount_of :: "'k \<Rightarrow> ('k \<times> int) list \<Rightarrow> int" where
  "amount_of k ns = sum_list (map snd (filter (\<lambda>e. fst e = k) ns))"

definition sent :: "layer_id \<Rightarrow> proposed_sweep list \<Rightarrow> int" where
  "sent k sw = sum_list (map (whole_part \<circ> ps_amount) (filter (\<lambda>s. ps_src s = k) sw))"

definition received :: "layer_id \<Rightarrow> proposed_sweep list \<Rightarrow> int" where
  "received k sw = sum_list (map (whole_part \<circ> ps_amount) (filter (\<lambda>s. ps_dst s = k) sw))"

definition moved :: "proposed_sweep list \<Rightarrow> int" where
  "moved sw = sum_list (map (whole_part \<circ> ps_amount) sw)"

lemma flow_simps [simp]:
  "sent k [] = 0" "received k [] = 0" "moved [] = 0"
  "sent k (s # sw) = (if ps_src s = k then whole_part (ps_amount s) else 0) + sent k sw"
  "received k (s # sw) = (if ps_dst s = k then whole_part (ps_amount s) else 0) + received k sw"
  "moved (s # sw) = whole_part (ps_amount s) + moved sw"
  "sent k (sw @ sw') = sent k sw + sent k sw'" "received k (sw @ sw') = received k sw + received k sw'"
  "moved (sw @ sw') = moved sw + moved sw'"
  by (simp_all add: sent_def received_def moved_def)

lemma amount_of_simps [simp]:
  "amount_of k [] = 0" "amount_of k ((j, n) # ns) = (if j = k then n else 0) + amount_of k ns"
  by (simp_all add: amount_of_def)

lemma in_whole_simps [simp]: "in_whole [] = []" "in_whole ((k, n) # ns) = (k, Fin (of_int n)) # in_whole ns"
  by (simp_all add: in_whole_def)

definition small :: "('k \<times> int) list \<Rightarrow> bool" where
  "small ns = list_all (\<lambda>(_, n). 0 \<le> n \<and> n \<le> 2 ^ 45) ns"

lemma small_simps [simp]: "small []" "small ((k, n) # ns) \<longleftrightarrow> 0 \<le> n \<and> n \<le> 2 ^ 45 \<and> small ns"
  by (simp_all add: small_def)

lemma amount_of_nonneg: "small ns \<Longrightarrow> 0 \<le> amount_of k ns" "small ns \<Longrightarrow> 0 \<le> sum_list (map snd ns)"
  by (induction ns) auto

lemma sent_other: "list_all (\<lambda>s. ps_src s = src) sw \<Longrightarrow> sent k sw = (if k = src then moved sw else 0)"
  by (induction sw) auto

text \<open>One source: it gives no more than it has, no need is exceeded, and if single dollars may move, it gives all it can.\<close>

lemma feed_whole:
  assumes "feed low src (Fin (of_int l)) (in_whole ns) = (needs, sw, no)" "small ns" "0 \<le> l" "l \<le> 2 ^ 45"
  obtains ns' where "needs = in_whole ns'" "small ns'" "list_all (\<lambda>s. ps_src s = src \<and> \<not> flt (ps_amount s) low) sw"
    "\<And>k. received k sw = amount_of k ns - amount_of k ns'" "moved sw = sum_list (map snd ns) - sum_list (map snd ns')"
    "0 \<le> moved sw" "moved sw \<le> l" "fle low (Fin 1) \<Longrightarrow> moved sw = min l (sum_list (map snd ns))"
  using assms
proof (induction ns arbitrary: l needs sw no thesis)
  case Nil
  then show ?case by (intro Nil.prems(1) [of "[]"]) auto
next
  case (Cons e ns)
  obtain dst n where e: "e = (dst, n)" by (cases e)
  have n: "0 \<le> n" "n \<le> 2 ^ 45" "small ns" using Cons.prems(3) e by simp_all
  show ?case
  proof (cases "n \<le> 0 \<or> l \<le> 0 \<or> flt (Fin (of_int (min l n))) low")
    case True
    obtain needs1 sw1 no1 where f: "feed low src (Fin (of_int l)) (in_whole ns) = (needs1, sw1, no1)" by (metis prod_cases3)
    from Cons.IH [OF _ f n(3) Cons.prems(4,5)] obtain ns1 where ns1: "needs1 = in_whole ns1" "small ns1"
      "list_all (\<lambda>s. ps_src s = src \<and> \<not> flt (ps_amount s) low) sw1"
      "\<And>k. received k sw1 = amount_of k ns - amount_of k ns1" "moved sw1 = sum_list (map snd ns) - sum_list (map snd ns1)"
      "0 \<le> moved sw1" "moved sw1 \<le> l" "fle low (Fin 1) \<Longrightarrow> moved sw1 = min l (sum_list (map snd ns))" by metis
    have r: "needs = in_whole ((dst, n) # ns1)" "sw = sw1"
      using True Cons.prems(2) f ns1(1) e by (auto simp: pymin_whole Let_def split: if_splits)
    have none: "n = 0 \<or> l = 0" if "fle low (Fin 1)"
    proof (rule ccontr)
      assume "\<not> (n = 0 \<or> l = 0)"
      then have "1 \<le> min l n" using n(1) Cons.prems(4) by simp
      then have "fle (Fin 1) (Fin (of_int (min l n)))" by simp
      with that have "fle low (Fin (of_int (min l n)))" by (rule fle_trans)
      with True \<open>\<not> (n = 0 \<or> l = 0)\<close> n(1) Cons.prems(4) show False using flt_not_fle by fastforce
    qed
    have full: "moved sw1 = min l (n + sum_list (map snd ns))" if low: "fle low (Fin 1)"
      using none [OF low] ns1(6,7) ns1(8) [OF low] amount_of_nonneg(2) [OF n(3)] n(1) Cons.prems(4) by (elim disjE) simp_all
    show ?thesis
      by (rule Cons.prems(1) [of "(dst, n) # ns1"]) (use r ns1 n e full in auto)
  next
    case False
    let ?m = "min l n"
    obtain needs1 sw1 no1 where f: "feed low src (Fin (of_int (l - ?m))) (in_whole ns) = (needs1, sw1, no1)" by (metis prod_cases3)
    have m: "0 \<le> l - ?m" "l - ?m \<le> 2 ^ 45" using Cons.prems(4,5) n by auto
    from Cons.IH [OF _ f n(3) m] obtain ns1 where ns1: "needs1 = in_whole ns1" "small ns1"
      "list_all (\<lambda>s. ps_src s = src \<and> \<not> flt (ps_amount s) low) sw1"
      "\<And>k. received k sw1 = amount_of k ns - amount_of k ns1" "moved sw1 = sum_list (map snd ns) - sum_list (map snd ns1)"
      "0 \<le> moved sw1" "moved sw1 \<le> l - ?m" "fle low (Fin 1) \<Longrightarrow> moved sw1 = min (l - ?m) (sum_list (map snd ns))" by metis
    have "\<bar>l - ?m\<bar> \<le> 2 ^ 53" "\<bar>n - ?m\<bar> \<le> 2 ^ 53" using Cons.prems(4,5) n by auto
    then have "fsub (Fin (of_int l)) (Fin (of_int ?m)) = Fin (of_int (l - ?m))"
      "fsub (Fin (of_int n)) (Fin (of_int ?m)) = Fin (of_int (n - ?m))"
      using fsub_whole [of l ?m] fsub_whole [of n ?m] by blast+
    then have r: "needs = in_whole ((dst, n - ?m) # ns1)"
      "sw = \<lparr>ps_src = src, ps_dst = dst, ps_amount = Fin (of_int ?m), ps_reason = RebalanceOf src dst\<rparr> # sw1"
      using False Cons.prems(2) f ns1(1) e by (auto simp: pymin_whole Let_def simp del: fsub_Fin_simp of_int_diff)
    have full: "fle low (Fin 1) \<Longrightarrow> ?m + moved sw1 = min l (n + sum_list (map snd ns))"
      using ns1(8) amount_of_nonneg(2) [OF n(3)] by auto
    show ?thesis
      by (rule Cons.prems(1) [of "(dst, n - ?m) # ns1"]) (use r ns1 n e full False in \<open>auto simp: min_def\<close>)
  qed
qed

lemma match_whole:
  assumes "match_layers low (in_whole os) (in_whole ns) = (needs, sw, no)" "small os" "small ns"
  shows "(\<forall>k. sent k sw \<le> amount_of k os \<and> received k sw \<le> amount_of k ns) \<and> list_all (\<lambda>s. \<not> flt (ps_amount s) low) sw
    \<and> moved sw \<le> min (sum_list (map snd os)) (sum_list (map snd ns))
    \<and> (fle low (Fin 1) \<longrightarrow> moved sw = min (sum_list (map snd os)) (sum_list (map snd ns)))"
  using assms
proof (induction os arbitrary: ns sw no)
  case Nil
  then show ?case by (auto simp: amount_of_nonneg)
next
  case (Cons e os)
  obtain src l where e: "e = (src, l)" by (cases e)
  with Cons.prems(1) obtain needs1 sw1 no1 sw2 no2 where f: "feed low src (Fin (of_int l)) (in_whole ns) = (needs1, sw1, no1)"
    "match_layers low (in_whole os) needs1 = (needs, sw2, no2)" "sw = sw1 @ sw2"
    by (auto split: prod.splits)
  from Cons.prems(2) e have l: "0 \<le> l" "l \<le> 2 ^ 45" "small os" by simp_all
  obtain ns' where ns': "needs1 = in_whole ns'" "small ns'" "list_all (\<lambda>s. ps_src s = src \<and> \<not> flt (ps_amount s) low) sw1"
    "\<And>k. received k sw1 = amount_of k ns - amount_of k ns'" "moved sw1 = sum_list (map snd ns) - sum_list (map snd ns')"
    "0 \<le> moved sw1" "moved sw1 \<le> l" "fle low (Fin 1) \<Longrightarrow> moved sw1 = min l (sum_list (map snd ns))"
    using feed_whole [OF f(1) Cons.prems(3) l(1,2)] by metis
  from Cons.IH [OF f(2) [unfolded ns'(1)] l(3) ns'(2)] have IH:
    "\<And>k. sent k sw2 \<le> amount_of k os" "\<And>k. received k sw2 \<le> amount_of k ns'" "list_all (\<lambda>s. \<not> flt (ps_amount s) low) sw2"
    "moved sw2 \<le> min (sum_list (map snd os)) (sum_list (map snd ns'))"
    "fle low (Fin 1) \<Longrightarrow> moved sw2 = min (sum_list (map snd os)) (sum_list (map snd ns'))" by blast+
  have src: "sent k sw1 = (if k = src then moved sw1 else 0)" for k
    by (rule sent_other) (use ns'(3) in \<open>auto simp: list_all_iff\<close>)
  have os: "0 \<le> sum_list (map snd os)" using amount_of_nonneg(2) l(3) by blast
  have "moved sw = min (sum_list (map snd (e # os))) (sum_list (map snd ns))" if low: "fle low (Fin 1)"
    using IH(5) [OF low] ns'(5) ns'(8) [OF low] os amount_of_nonneg(2) [OF ns'(2)] e f(3) by auto
  moreover have "list_all (\<lambda>s. \<not> flt (ps_amount s) low) sw" using IH(3) ns'(3) f(3) by (auto simp: list_all_iff)
  moreover have "sent k sw \<le> amount_of k (e # os)" for k using IH(1) [of k] src [of k] ns'(7) e f(3) by auto
  moreover have "received k sw \<le> amount_of k ns" for k using IH(2) [of k] ns'(4) [of k] f(3) by simp
  moreover have "moved sw \<le> min (sum_list (map snd (e # os))) (sum_list (map snd ns))" using IH(4) ns'(5,7) e f(3) by simp
  ultimately show ?case by blast
qed

text \<open>Dictionaries of whole amounts are integer lists; sorting them keeps their amounts.\<close>

definition integral :: "('k, pyfloat) dict \<Rightarrow> ('k \<times> int) list" where
  "integral d = map (\<lambda>(k, v). (k, whole_part v)) d"

lemma in_whole_integral: "list_all (\<lambda>(_, v). whole v) d \<Longrightarrow> in_whole (integral d) = d"
  by (induction d) (auto simp: integral_def in_whole_def elim!: wholeE)

lemma integral_in_whole [simp]: "integral (in_whole ns) = ns"
  by (induction ns) (auto simp: integral_def)

lemma small_whole: "small ns \<Longrightarrow> (k, v) \<in> set (in_whole ns) \<Longrightarrow> whole v"
  by (auto simp: small_def in_whole_def list_all_iff whole_def)

lemma amount_of_perm:
  assumes "mset a = mset b"
  shows "amount_of k a = amount_of k b" "small a = small b" "sum_list (map snd a) = sum_list (map snd b)"
proof -
  from assms have "mset (map snd (filter (\<lambda>e. fst e = k) a)) = mset (map snd (filter (\<lambda>e. fst e = k) b))" by simp
  then show "amount_of k a = amount_of k b" unfolding amount_of_def by (metis sum_mset_sum_list)
  from assms have "mset (map snd a) = mset (map snd b)" by simp
  then show "sum_list (map snd a) = sum_list (map snd b)" by (metis sum_mset_sum_list)
  show "small a = small b" using mset_eq_setD [OF assms] by (simp add: small_def list_all_iff)
qed

lemma largest_first_whole:
  assumes "small ns"
  obtains ns' where "largest_first (in_whole ns) = in_whole ns'" "mset ns' = mset ns"
proof
  have set: "set (largest_first (in_whole ns)) = set (in_whole ns)" by (simp add: largest_first_def)
  show "largest_first (in_whole ns) = in_whole (integral (largest_first (in_whole ns)))"
    by (rule in_whole_integral [symmetric]) (use set small_whole [OF assms] in \<open>auto simp: list_all_iff\<close>)
  have "mset (integral (largest_first (in_whole ns))) = mset (integral (in_whole ns))"
    by (simp add: integral_def largest_first_def)
  then show "mset (integral (largest_first (in_whole ns))) = mset ns" by simp
qed

lemma amount_of_distinct: "distinct (map fst ns) \<Longrightarrow> amount_of k ns = (case dget ns k of None \<Rightarrow> 0 | Some n \<Rightarrow> n)"
proof (induction ns)
  case (Cons e ns)
  have "filter (\<lambda>e. fst e = k) ns = []" if "k \<notin> fst ` set ns" using that by (auto simp: filter_empty_conv)
  then have "k \<notin> fst ` set ns \<Longrightarrow> amount_of k ns = 0" by (simp add: amount_of_def)
  with Cons show ?case by (cases e) (auto split: option.split simp: map_of_eq_None_iff)
qed simp

lemma amount_of_filter:
  assumes "distinct (map fst ns)"
  shows "amount_of k (filter P ns) = (case dget ns k of None \<Rightarrow> 0 | Some n \<Rightarrow> if P (k, n) then n else 0)"
proof -
  have d: "distinct (map fst (filter P ns))" using assms by (rule distinct_map_filter)
  have "dget (filter P ns) k = (case dget ns k of None \<Rightarrow> None | Some n \<Rightarrow> if P (k, n) then Some n else None)"
    using assms by (induction ns) (auto split: option.split simp: map_of_eq_None_iff image_iff)
  with amount_of_distinct [OF d, of k] show ?thesis by (simp split: option.split)
qed

lemma amount_of_negated: "amount_of k (map (\<lambda>(k, n). (k, - n)) ns) = - amount_of k ns"
  by (induction ns) auto

text \<open>A share above a threshold that is not negative comes from a surplus.\<close>

lemma fquot_sign:
  assumes "\<not> fle equity (Fin 0)"
  shows "a \<le> 0 \<Longrightarrow> fle (fquot (Fin a) equity) (Fin 0) \<or> fquot (Fin a) equity = NaN"
    and "0 \<le> a \<Longrightarrow> fle (Fin 0) (fquot (Fin a) equity) \<or> fquot (Fin a) equity = NaN"
proof -
  have "fle (fquot (Fin a) equity) (Fin 0) \<or> fquot (Fin a) equity = NaN" if a: "a \<le> 0"
  proof (cases equity)
    case (Fin q)
    with assms have q: "0 < q" by simp
    with a have "a / q \<le> 0" by (simp add: divide_nonpos_pos)
    then have "fle (fl (a / q)) (Fin 0)" by (rule fl_le [OF is_dbl_0])
    with Fin q show ?thesis by (simp add: fquot_def)
  qed (simp_all add: fquot_def)
  then show "a \<le> 0 \<Longrightarrow> fle (fquot (Fin a) equity) (Fin 0) \<or> fquot (Fin a) equity = NaN" by blast
  have "fle (Fin 0) (fquot (Fin a) equity) \<or> fquot (Fin a) equity = NaN" if a: "0 \<le> a"
  proof (cases equity)
    case (Fin q)
    with assms have q: "0 < q" by simp
    with a have "0 \<le> a / q" by simp
    then have "fle (Fin 0) (fl (a / q))" by (rule fl_ge [OF is_dbl_0])
    with Fin q show ?thesis by (simp add: fquot_def)
  qed (simp_all add: fquot_def)
  then show "0 \<le> a \<Longrightarrow> fle (Fin 0) (fquot (Fin a) equity) \<or> fquot (Fin a) equity = NaN" by blast
qed

lemma share_positive:
  assumes "flt t (fquot (Fin a) equity)" "fle (Fin 0) t" "\<not> fle equity (Fin 0)"
  shows "0 < a"
proof (rule ccontr)
  assume "\<not> 0 < a"
  with fquot_sign(1) [OF assms(3), of a] assms(1) have "fle (fquot (Fin a) equity) (Fin 0)" by auto
  with assms(1) have "flt t (Fin 0)" by (rule flt_fle_trans)
  with assms(2) show False by (blast dest: flt_not_fle)
qed

lemma share_negative:
  assumes "flt (fquot (Fin a) equity) (fneg t)" "fle (Fin 0) t" "\<not> fle equity (Fin 0)"
  shows "a < 0"
proof (rule ccontr)
  assume "\<not> a < 0"
  with fquot_sign(2) [OF assms(3), of a] assms(1) have "fle (Fin 0) (fquot (Fin a) equity)" by auto
  then have "flt (Fin 0) (fneg t)" using assms(1) by (rule fle_flt_trans)
  moreover have "fle (fneg t) (Fin 0)" using assms(2) by (cases t) auto
  ultimately show False by (blast dest: flt_not_fle)
qed

text \<open>The drift of every layer, and the two sides the plan is made of.\<close>

definition drifts_of :: "layers \<Rightarrow> allocation_plan \<Rightarrow> (layer_id, pyfloat) dict" where
  "drifts_of ls alloc = drift_usd ls (target_usd (ap_weights alloc) (pysum (map snd (ap_weights alloc))) (total_equity ls))"

lemma plan_rebalance_cases:
  assumes "distinct (map fst (drifts_of ls alloc))" "p = plan_rebalance ls alloc threshold low"
  obtains "rp_sweeps p = []"
  | over under needs no where "\<not> fle (total_equity ls) (Fin 0)"
      "over = filter (\<lambda>(k, v). flt threshold (fquot v (total_equity ls))) (drifts_of ls alloc)"
      "under = map (\<lambda>(k, v). (k, fneg v)) (filter (\<lambda>(k, v). flt (fquot v (total_equity ls)) (fneg threshold)) (drifts_of ls alloc))"
      "match_layers low (largest_first over) (largest_first under) = (needs, rp_sweeps p, no)"
proof -
  let ?d = "drifts_of ls alloc" and ?e = "total_equity ls"
  let ?pcts = "map (\<lambda>(k, v). (k, fquot v ?e)) ?d"
  have pct: "dget_or ?pcts k NaN = fquot v ?e" if "(k, v) \<in> set ?d" for k v
  proof -
    have "dget ?d k = Some v" using that assms(1) by simp
    then have "dget ?pcts k = Some (fquot v ?e)" by (simp add: map_of_map)
    then show ?thesis by (simp add: dget_or_def)
  qed
  have "filter (\<lambda>(k, _). flt threshold (dget_or ?pcts k NaN)) ?d = filter (\<lambda>(k, v). flt threshold (fquot v ?e)) ?d"
    "filter (\<lambda>(k, _). flt (dget_or ?pcts k NaN) (fneg threshold)) ?d = filter (\<lambda>(k, v). flt (fquot v ?e) (fneg threshold)) ?d"
    by (rule filter_cong; use pct in auto)+
  note filters = this
  show thesis
  proof (cases "fle ?e (Fin 0) \<or> ap_kill alloc \<or> fle (pysum (map snd (ap_weights alloc))) (Fin 0)")
    case True
    then have "rp_sweeps p = []" unfolding assms(2) plan_rebalance_def by (auto simp: idle_plan_def Let_def)
    then show thesis by (rule that(1))
  next
    case False
    let ?over = "filter (\<lambda>(k, v). flt threshold (fquot v ?e)) ?d"
    let ?under = "map (\<lambda>(k, v). (k, fneg v)) (filter (\<lambda>(k, v). flt (fquot v ?e) (fneg threshold)) ?d)"
    obtain needs sw no where m: "match_layers low (largest_first ?over) (largest_first ?under) = (needs, sw, no)"
      by (metis prod_cases3)
    have "rp_sweeps p = (if ?over = [] \<or> ?under = [] then [] else sw)"
      unfolding assms(2) plan_rebalance_def Let_def drifts_of_def [symmetric] filters using False m by simp
    with m False show thesis using that(1) that(2) [OF _ refl refl] by (metis (no_types, lifting))
  qed
qed

lemma filter_in_whole: "filter P (in_whole ns) = in_whole (filter (\<lambda>(k, n). P (k, Fin (of_int n))) ns)"
  by (induction ns) auto

lemma negate_in_whole: "map (\<lambda>(k, v). (k, fneg v)) (in_whole ns) = in_whole (map (\<lambda>(k, n). (k, - n)) ns)"
  by (induction ns) auto

lemma dget_in_whole: "dget (in_whole ns) k = map_option (\<lambda>n. Fin (of_int n)) (dget ns k)"
  by (induction ns) auto

lemma whole_entries_bounded:
  assumes "list_all (\<lambda>(_, v). whole v) d" "(k, n) \<in> set (integral d)"
  shows "\<bar>n\<bar> \<le> 2 ^ 45"
proof -
  from assms(2) obtain v where v: "(k, v) \<in> set d" "n = whole_part v" by (auto simp: integral_def)
  with assms(1) have "whole v" by (auto simp: list_all_iff)
  then show ?thesis using v(2) by (auto elim!: wholeE)
qed

section \<open>Properties\<close>

text \<open>
  C39. A rebalance never overshoots: when every drift from target is a whole amount, the plan takes from a layer at
  most its surplus over the target, brings to a layer at most what it lacks, and proposes no move below the minimum;
  so no layer is carried past its target, whichever layers the surpluses and needs are matched with.
\<close>

theorem rebalance_never_overshoots:
  fixes ls :: layers and alloc :: allocation_plan and threshold low :: pyfloat
  assumes dist: "distinct (map fst (ap_weights alloc))" and w: "list_all (\<lambda>(_, v). whole v) (drifts_of ls alloc)"
    and t: "fle (Fin 0) threshold"
  defines "sw \<equiv> rp_sweeps (plan_rebalance ls alloc threshold low)"
    and "drift k \<equiv> whole_part (dget_or (drifts_of ls alloc) k (Fin 0))"
  shows "sent k sw \<le> max 0 (drift k) \<and> received k sw \<le> max 0 (- drift k) \<and> list_all (\<lambda>s. \<not> flt (ps_amount s) low) sw"
proof -
  let ?ds = "integral (drifts_of ls alloc)" and ?e = "total_equity ls"
  have d: "drifts_of ls alloc = in_whole ?ds" by (rule in_whole_integral [OF w, symmetric])
  have dist: "distinct (map fst (drifts_of ls alloc))" "distinct (map fst ?ds)"
    using dist by (simp_all add: drifts_of_def drift_usd_def target_usd_def integral_def comp_def case_prod_beta)
  have drift: "drift k = (case dget ?ds k of None \<Rightarrow> 0 | Some n \<Rightarrow> n)" for k
    unfolding drift_def by (subst d) (simp add: dget_or_def dget_in_whole whole_part_def split: option.split)
  let ?os = "filter (\<lambda>(k, n). flt threshold (fquot (Fin (of_int n)) ?e)) ?ds"
  let ?us = "map (\<lambda>(k, n). (k, - n)) (filter (\<lambda>(k, n). flt (fquot (Fin (of_int n)) ?e) (fneg threshold)) ?ds)"
  show ?thesis
  proof (rule plan_rebalance_cases [OF dist(1) refl, of threshold low])
    assume "rp_sweeps (plan_rebalance ls alloc threshold low) = []"
    then show ?thesis by (simp add: sw_def)
  next
    fix over under needs no
    assume e: "\<not> fle ?e (Fin 0)"
      and over: "over = filter (\<lambda>(k, v). flt threshold (fquot v ?e)) (drifts_of ls alloc)"
      and under: "under = map (\<lambda>(k, v). (k, fneg v)) (filter (\<lambda>(k, v). flt (fquot v ?e) (fneg threshold)) (drifts_of ls alloc))"
      and m: "match_layers low (largest_first over) (largest_first under) = (needs, rp_sweeps (plan_rebalance ls alloc threshold low), no)"
    note over
    also have "filter (\<lambda>(k, v). flt threshold (fquot v ?e)) (drifts_of ls alloc) = filter (\<lambda>(k, v). flt threshold (fquot v ?e)) (in_whole ?ds)"
      using d by (rule arg_cong)
    finally have over: "over = in_whole ?os" by (simp add: filter_in_whole)
    note under
    also have "map (\<lambda>(k, v). (k, fneg v)) (filter (\<lambda>(k, v). flt (fquot v ?e) (fneg threshold)) (drifts_of ls alloc))
        = map (\<lambda>(k, v). (k, fneg v)) (filter (\<lambda>(k, v). flt (fquot v ?e) (fneg threshold)) (in_whole ?ds))"
      using d by (rule arg_cong)
    finally have "under = in_whole ?us" by (simp add: filter_in_whole negate_in_whole)
    note ou = over this
    have small: "small ?os" "small ?us"
      using whole_entries_bounded [OF w] share_positive [OF _ t e] share_negative [OF _ t e]
      by (fastforce simp: small_def list_all_iff)+
    obtain os' us' where p: "largest_first over = in_whole os'" "mset os' = mset ?os"
      "largest_first under = in_whole us'" "mset us' = mset ?us"
      using largest_first_whole [OF small(1)] largest_first_whole [OF small(2)] unfolding ou by metis
    have "small os'" "small us'" using small amount_of_perm(2) p(2,4) by blast+
    from match_whole [OF m [unfolded p(1,3)] this]
    have sw: "sent k sw \<le> amount_of k os'" "received k sw \<le> amount_of k us'" "list_all (\<lambda>s. \<not> flt (ps_amount s) low) sw"
      unfolding sw_def by blast+
    have "amount_of k os' \<le> max 0 (drift k)" "amount_of k us' \<le> max 0 (- drift k)"
      unfolding amount_of_perm(1) [OF p(2)] amount_of_perm(1) [OF p(4)] amount_of_negated amount_of_filter [OF dist(2)] drift
      by (auto split: option.split)
    with sw show ?thesis by linarith
  qed
qed

definition demo_alloc :: allocation_plan where
  "demo_alloc = \<lparr>ap_weights = [(LAYER_1_MNQ, Fin 1), (LAYER_3_PERPS, Fin 1)], ap_notes = [], ap_corr = False, ap_kill = False\<rparr>"

definition demo_equities :: layers where
  "demo_equities =
     [(LAYER_1_MNQ, \<lparr>ly_current = Fin 600, ly_peak = Fin 600, ly_pnl = Fin 0, ly_regime = NORMAL_VOL, ly_vol_z = Fin 0\<rparr>),
      (LAYER_3_PERPS, \<lparr>ly_current = Fin 400, ly_peak = Fin 400, ly_pnl = Fin 0, ly_regime = NORMAL_VOL, ly_vol_z = Fin 0\<rparr>)]"

lemma demo_drifts: "drifts_of demo_equities demo_alloc = [(LAYER_1_MNQ, Fin 100), (LAYER_3_PERPS, Fin (- 100))]"
proof -
  have "pysum [Fin 1, Fin 1] = Fin 2" "pysum [Fin 600, Fin 400] = Fin 1000"
    using pysum_whole [of "[1, 1]"] pysum_whole [of "[600, 400]"] by (simp_all del: pysum.simps)
  moreover have "fl (1 / 2) = Fin (1 / 2)" by (rule fl_id [OF is_dbl_1_half])
  ultimately show ?thesis
    by (simp add: drifts_of_def drift_usd_def target_usd_def demo_alloc_def demo_equities_def total_equity_def fquot_def
        del: pysum.simps)
qed

theorem rebalance_never_overshoots_witness:
  "sent LAYER_1_MNQ (rp_sweeps (plan_rebalance demo_equities demo_alloc (Fin 0) (Fin 1))) \<le> 100
   \<and> received LAYER_1_MNQ (rp_sweeps (plan_rebalance demo_equities demo_alloc (Fin 0) (Fin 1))) \<le> 0"
  using rebalance_never_overshoots [of demo_alloc demo_equities "Fin 0" LAYER_1_MNQ "Fin 1"]
  by (simp add: demo_drifts demo_alloc_def [THEN arg_cong [of _ _ ap_weights]] whole_def dget_or_def whole_part_def)

section \<open>Corners\<close>

text \<open>A move of less than half a cent rounds to nothing, and its request raises: the whole rebalance is lost.\<close>

lemma dust_raises:
  assumes "dget bots (ps_src s) = Some a" "dget bots (ps_dst s) = Some b" "ps_amount s = Fin 0"
  shows "plan_transfers now show_note bots (s # ss) = Inl ValueError"
  using assms whole_cents [of 0] by (simp add: new_request_def)

text \<open>
  None of the requests of a rebalance is marked as approved, so a manager with an approval threshold
  refuses every one at or above it.
\<close>

lemma plan_transfers_unapproved: "plan_transfers now show_note bots ss = Inr rs \<Longrightarrow> list_all (\<lambda>r. \<not> tq_approval r \<and> flt (Fin 0) (tq_amount r)) rs"
  by (induction now show_note bots ss arbitrary: rs rule: plan_transfers.induct)
    (auto simp: new_request_def split: option.splits if_splits)

lemma large_rebalance_refused:
  assumes "plan_transfers now show_note bots ss = Inr rs" "r \<in> set rs" "fle (tp_approval (tm_policy m)) (tq_amount r)"
  shows "\<exists>x. fst (manager_execute t ask r m) = Inr x \<and> tt_status x = FAILED"
proof -
  have "\<not> tq_approval r" using plan_transfers_unapproved [OF assms(1)] assms(2) by (simp add: list_all_iff)
  then have "fst (check_policy r t m) \<noteq> None" using assms(3) by (simp add: check_policy_passes)
  then obtain err m1 where "check_policy r t m = (Some err, m1)" by (cases "check_policy r t m") auto
  then show ?thesis by (simp add: manager_execute_def Let_def)
qed

end
