(* ===== verification/Funnel_Tick.thy ===== *)
theory Funnel_Tick
  imports Rebalance
begin

text \<open>
  \<open>core/sweep_engine.py\<close>, \<open>funnel/equity_monitor.py\<close> and \<open>funnel/orchestrator.py\<close>: the equity of each bot
  is tracked against its baseline, the excess over it is split into stake, reinvestment and reserve, and
  the parts become transfer requests, which an executor such as the transfer manager carries out.
  Reason texts and the bot names inside a configuration are dropped; the stake allocator is an argument.
\<close>

section \<open>Sweeps\<close>

record sweep_split =
  ss_stake :: pyfloat
  ss_reinvest :: pyfloat
  ss_reserve :: pyfloat

definition new_split :: "pyfloat \<Rightarrow> pyfloat \<Rightarrow> pyfloat \<Rightarrow> pyexc + sweep_split" where
  "new_split stake reinvest reserve =
     (if percent stake \<and> percent reinvest \<and> percent reserve
         \<and> \<not> flt (fl (1 / 100)) (fabs (fsub (fadd (fadd stake reinvest) reserve) (Fin 100)))
      then Inr \<lparr>ss_stake = stake, ss_reinvest = reinvest, ss_reserve = reserve\<rparr>
      else Inl ValueError)"

record sweep_config =
  sw_baseline :: pyfloat
  sw_trigger :: pyfloat
  sw_split :: sweep_split

definition new_sweep_config :: "pyfloat \<Rightarrow> pyfloat \<Rightarrow> sweep_split \<Rightarrow> pyexc + sweep_config" where
  "new_sweep_config baseline trigger parts =
     (if flt (Fin 0) baseline \<and> flt (Fin 1) trigger
      then Inr \<lparr>sw_baseline = baseline, sw_trigger = trigger, sw_split = parts\<rparr>
      else Inl ValueError)"

record sweep_result =
  sr_excess :: pyfloat
  sr_stake :: pyfloat
  sr_reinvest :: pyfloat
  sr_reserve :: pyfloat
  sr_action :: bool
  sr_trigger :: pyfloat

definition new_sweep_result :: "sweep_result \<Rightarrow> pyexc + sweep_result" where
  "new_sweep_result r =
     (if fle (Fin 0) (sr_excess r) \<and> fle (Fin 0) (sr_stake r) \<and> fle (Fin 0) (sr_reinvest r) \<and> fle (Fin 0) (sr_reserve r)
      then Inr r else Inl ValueError)"

definition share :: "pyfloat \<Rightarrow> pyfloat \<Rightarrow> pyfloat" where
  "share excess pct = fround 2 (fquot (fmul excess pct) (Fin 100))"

definition check_sweep :: "pyfloat \<Rightarrow> sweep_config \<Rightarrow> pyexc + sweep_result" where
  "check_sweep equity c =
     (if fle equity (Fin 0) then Inl ValueError
      else
        let trigger = fmul (sw_baseline c) (sw_trigger c)
        in if flt equity trigger
           then new_sweep_result \<lparr>sr_excess = Fin 0, sr_stake = Fin 0, sr_reinvest = Fin 0, sr_reserve = Fin 0,
                                  sr_action = False, sr_trigger = trigger\<rparr>
           else
             let excess = fround 2 (fsub equity (sw_baseline c))
             in new_sweep_result
                  \<lparr>sr_excess = excess, sr_stake = share excess (ss_stake (sw_split c)),
                   sr_reinvest = share excess (ss_reinvest (sw_split c)),
                   sr_reserve = share excess (ss_reserve (sw_split c)), sr_action = True, sr_trigger = trigger\<rparr>)"

section \<open>The equity monitor\<close>

record bot_equity =
  be_current :: pyfloat
  be_peak :: pyfloat
  be_baseline :: pyfloat
  be_excess :: pyfloat
  be_pnl :: pyfloat

type_synonym monitor = "(string, bot_equity) dict"

definition register_bot :: "string \<Rightarrow> pyfloat \<Rightarrow> monitor \<Rightarrow> pyexc + monitor" where
  "register_bot name baseline m =
     (if fle baseline (Fin 0) then Inl ValueError
      else Inr (dset name \<lparr>be_current = baseline, be_peak = baseline, be_baseline = baseline, be_excess = Fin 0,
                           be_pnl = Fin 0\<rparr> m))"

definition update_bot :: "string \<Rightarrow> pyfloat \<Rightarrow> pyfloat \<Rightarrow> monitor \<Rightarrow> pyexc + monitor" where
  "update_bot name equity pnl m =
     (case dget m name of
        None \<Rightarrow> Inl KeyError
      | Some b \<Rightarrow>
          Inr (dset name (b\<lparr>be_current := equity, be_pnl := pnl, be_peak := pymax (be_peak b) equity,
                            be_excess := pymax (fsub equity (be_baseline b)) (Fin 0)\<rparr>) m))"

record portfolio_state =
  pf_bots :: monitor
  pf_equity :: pyfloat
  pf_excess :: pyfloat
  pf_pnl :: pyfloat

definition portfolio :: "monitor \<Rightarrow> portfolio_state" where
  "portfolio m =
     \<lparr>pf_bots = m, pf_equity = fround 2 (pysum (map (be_current \<circ> snd) m)),
      pf_excess = fround 2 (pysum (map (be_excess \<circ> snd) m)), pf_pnl = fround 2 (pysum (map (be_pnl \<circ> snd) m))\<rparr>"

definition check_global_kill :: "pyfloat \<Rightarrow> monitor \<Rightarrow> bool" where
  "check_global_kill limit m =
     (let peaks = pysum (map (be_peak \<circ> snd) m)
      in if fle peaks (Fin 0) then False
         else fle limit (fmul (fquot (fsub peaks (pysum (map (be_current \<circ> snd) m))) peaks) (Fin 100)))"

section \<open>The orchestrator\<close>

record tick_result =
  tk_sweeps :: "sweep_result list"
  tk_queued :: "transfer_request list"
  tk_swept :: pyfloat
  tk_stake :: pyfloat
  tk_cold :: pyfloat

definition empty_tick :: tick_result where
  "empty_tick = \<lparr>tk_sweeps = [], tk_queued = [], tk_swept = Fin 0, tk_stake = Fin 0, tk_cold = Fin 0\<rparr>"

type_synonym allocator = "pyfloat \<Rightarrow> pyexc + (string, pyfloat) dict"

fun queue_stakes :: "int \<Rightarrow> string \<Rightarrow> (string, pyfloat) dict \<Rightarrow> pyexc + transfer_request list" where
  "queue_stakes now name [] = Inr []"
| "queue_stakes now name ((asset, usd) # as) =
     (if fle usd (Fin 0) then queue_stakes now name as
      else rbind (new_request now name (''staking_'' @ asset) (fround 2 usd) [] False)
             (\<lambda>r. rbind (queue_stakes now name as) (\<lambda>rs. Inr (r # rs))))"

definition queue_part :: "int \<Rightarrow> string \<Rightarrow> string \<Rightarrow> pyfloat \<Rightarrow> bool \<Rightarrow> pyexc + transfer_request list" where
  "queue_part now name target usd approval =
     (if flt (Fin 0) usd then rbind (new_request now name target (fround 2 usd) [] approval) (\<lambda>r. Inr [r]) else Inr [])"

definition queue_sweep :: "int \<Rightarrow> allocator \<Rightarrow> string \<Rightarrow> sweep_result \<Rightarrow> pyexc + transfer_request list" where
  "queue_sweep now alloc name s =
     rbind (alloc (sr_stake s)) (\<lambda>parts.
       rbind (queue_stakes now name parts) (\<lambda>stakes.
         rbind (queue_part now name name (sr_reinvest s) False) (\<lambda>home.
           rbind (queue_part now name ''cold_wallet'' (sr_reserve s) True) (\<lambda>cold. Inr (stakes @ home @ cold)))))"

definition note_equity :: "string \<Rightarrow> pyfloat \<Rightarrow> monitor \<Rightarrow> monitor" where
  "note_equity name equity m =
     (case dget m name of
        None \<Rightarrow> m
      | Some b \<Rightarrow> (case update_bot name equity (fsub equity (be_current b)) m of Inl _ \<Rightarrow> m | Inr m' \<Rightarrow> m'))"

text \<open>The loop over the equities; an exception ends the tick, with the monitor updated up to the bot that raised.\<close>

fun tick_loop :: "int \<Rightarrow> allocator \<Rightarrow> (string, sweep_config) dict \<Rightarrow> (string, pyfloat) dict \<Rightarrow> tick_result \<Rightarrow> monitor
    \<Rightarrow> (pyexc + tick_result) \<times> monitor" where
  "tick_loop now alloc cfgs [] r m =
     (Inr (r\<lparr>tk_swept := fround 2 (tk_swept r), tk_stake := fround 2 (tk_stake r), tk_cold := fround 2 (tk_cold r)\<rparr>), m)"
| "tick_loop now alloc cfgs ((name, equity) # es) r m =
     (let m1 = note_equity name equity m
      in case dget cfgs name of
           None \<Rightarrow> tick_loop now alloc cfgs es r m1
         | Some c \<Rightarrow>
             (case check_sweep equity c of
                Inl x \<Rightarrow> (Inl x, m1)
              | Inr s \<Rightarrow>
                  (if \<not> sr_action s then tick_loop now alloc cfgs es r m1
                   else case queue_sweep now alloc name s of
                     Inl x \<Rightarrow> (Inl x, m1)
                   | Inr q \<Rightarrow>
                       tick_loop now alloc cfgs es
                         (r\<lparr>tk_sweeps := tk_sweeps r @ [s], tk_queued := tk_queued r @ q,
                            tk_swept := fadd (tk_swept r) (sr_excess s), tk_stake := fadd (tk_stake r) (sr_stake s),
                            tk_cold := fadd (tk_cold r) (sr_reserve s)\<rparr>) m1)))"

definition funnel_tick :: "int \<Rightarrow> allocator \<Rightarrow> (string, sweep_config) dict \<Rightarrow> (string, pyfloat) dict \<Rightarrow> monitor
    \<Rightarrow> (pyexc + tick_result) \<times> monitor" where
  "funnel_tick now alloc cfgs equities m = tick_loop now alloc cfgs equities empty_tick m"

text \<open>
  \<open>execute_tick\<close> and \<open>execute_rebalance\<close>: the executor on every request, in order; a transfer that raises ends
  the run.  Its state is threaded through; the time of each call is its own.
\<close>

fun execute_all :: "('s \<Rightarrow> transfer_request \<Rightarrow> (pyexc + transfer_result) \<times> 's) \<Rightarrow> 's \<Rightarrow> transfer_request list
    \<Rightarrow> (pyexc + transfer_result list) \<times> 's" where
  "execute_all run s [] = (Inr [], s)"
| "execute_all run s (q # qs) =
     (case run s q of
        (Inl x, s1) \<Rightarrow> (Inl x, s1)
      | (Inr r, s1) \<Rightarrow>
          (case execute_all run s1 qs of (Inl x, s2) \<Rightarrow> (Inl x, s2) | (Inr rs, s2) \<Rightarrow> (Inr (r # rs), s2)))"

definition execute_rebalance :: "('s \<Rightarrow> transfer_request \<Rightarrow> (pyexc + transfer_result) \<times> 's) \<Rightarrow> 's \<Rightarrow> int
    \<Rightarrow> (sweep_note \<Rightarrow> string) \<Rightarrow> (layer_id, string) dict \<Rightarrow> proposed_sweep list \<Rightarrow> (pyexc + transfer_result list) \<times> 's" where
  "execute_rebalance run s now show_note bots sw =
     (case plan_transfers now show_note bots sw of Inl x \<Rightarrow> (Inl x, s) | Inr qs \<Rightarrow> execute_all run s qs)"

section \<open>Lemmas\<close>

lemma fround_nonneg: "fle (Fin 0) x \<Longrightarrow> fle (Fin 0) (fround 2 x)"
proof (cases x)
  case (Fin a)
  moreover assume "fle (Fin 0) x"
  ultimately have "0 \<le> rne (a * 10 ^ 2)" using rne_mono [of 0 "a * 10 ^ 2"] rne_of_int [of 0] by simp
  then show ?thesis using Fin by (simp add: fl_ge)
qed simp_all

lemma fround_bounded:
  assumes "0 \<le> a" "a \<le> 2 ^ 53"
  shows "\<exists>d. fround 2 (Fin a) = Fin d \<and> 0 \<le> d \<and> d \<le> 2 ^ 53"
proof -
  have "a * 10 ^ 2 \<le> of_int (2 ^ 53 * 100)" using assms(2) by simp
  then have "rne (a * 10 ^ 2) \<le> 2 ^ 53 * 100" by (rule rne_le_of_int)
  then have "(of_int (rne (a * 10 ^ 2)) :: rat) \<le> of_int (2 ^ 53 * 100)" by (simp only: of_int_le_iff)
  then have "(of_int (rne (a * 10 ^ 2)) :: rat) / 10 ^ 2 \<le> of_int (2 ^ 53)" by simp
  then have "fle (fl (of_int (rne (a * 10 ^ 2)) / 10 ^ 2)) (Fin (of_int (2 ^ 53)))" by (intro fl_le is_dbl_whole) simp
  moreover have "fle (Fin 0) (fround 2 (Fin a))" using assms(1) by (intro fround_nonneg) simp
  ultimately show ?thesis by (elim fle_betweenE [rotated]) simp_all
qed

lemma share_nonneg:
  assumes "0 \<le> d" "percent pct"
  shows "fle (Fin 0) (share (Fin d) pct)"
proof -
  from assms(2) obtain p where p: "pct = Fin p" "0 \<le> p" by (auto simp: percent_def elim: fle_betweenE)
  have "fle (Fin 0) (fl (d * p))" using assms(1) p(2) by (intro fl_ge) simp_all
  then obtain q where "fl (d * p) = PInf \<or> fl (d * p) = Fin q \<and> 0 \<le> q" by (cases "fl (d * p)") auto
  then have "fle (Fin 0) (fquot (fmul (Fin d) pct) (Fin 100))" by (auto simp: p(1) fquot_def finf_def intro!: fl_ge)
  then show ?thesis unfolding share_def by (rule fround_nonneg)
qed

text \<open>The trigger of a valid configuration is not below its baseline.\<close>

lemma trigger_above_baseline:
  assumes "is_dbl b" "flt (Fin 0) b" "flt (Fin 1) t"
  shows "fle b (fmul b t)"
proof (cases b)
  case (Fin x)
  with assms(2) have x: "0 < x" by simp
  show ?thesis
  proof (cases t)
    case (Fin y)
    with assms(3) have "1 \<le> y" by simp
    with x have "x \<le> x * y" by simp
    then have "fle (Fin x) (fl (x * y))" by (rule fl_ge [OF assms(1) [unfolded \<open>b = Fin x\<close>]])
    then show ?thesis using \<open>b = Fin x\<close> Fin by simp
  qed (use x \<open>b = Fin x\<close> assms(3) in \<open>auto simp: finf_def\<close>)
next
  case PInf
  then show ?thesis using assms(3) by (cases t) (auto simp: finf_def)
qed (use assms(2) in simp_all)

lemma fround_pos: "flt (Fin 0) (fround 2 x) \<Longrightarrow> flt (Fin 0) x"
proof (cases x)
  case (Fin a)
  assume pos: "flt (Fin 0) (fround 2 x)"
  show ?thesis
  proof (rule ccontr)
    assume "\<not> flt (Fin 0) x"
    then have "a * 10 ^ 2 \<le> of_int 0" using Fin by simp
    then have "rne (a * 10 ^ 2) \<le> 0" by (rule rne_le_of_int)
    then have "(of_int (rne (a * 10 ^ 2)) :: rat) \<le> of_int 0" by (simp only: of_int_le_iff)
    then have "fle (fround 2 x) (Fin 0)" using Fin by (simp add: fl_le)
    with pos show False by (simp add: flt_not_fle)
  qed
qed simp_all

text \<open>
  What a sweep of the parts \<open>s\<close> queues: a positive amount that leaves the bot, which is the reserve (marked as
  approved), the reinvestment, or a part of the stake.
\<close>

definition stake_part :: "(string, pyfloat) dict \<Rightarrow> transfer_request \<Rightarrow> bool" where
  "stake_part parts q =
     (\<exists>(asset, usd)\<in>set parts. tq_to q = ''staking_'' @ asset \<and> \<not> tq_approval q \<and> tq_amount q = fround 2 usd)"

definition swept_request :: "int \<Rightarrow> string \<Rightarrow> sweep_result \<Rightarrow> (string, pyfloat) dict \<Rightarrow> transfer_request \<Rightarrow> bool" where
  "swept_request now name s parts q =
     (flt (Fin 0) (tq_amount q) \<and> tq_from q = name \<and> tq_reason q = [] \<and> tq_created q = now
      \<and> (stake_part parts q
         \<or> tq_to q = name \<and> \<not> tq_approval q \<and> tq_amount q = fround 2 (sr_reinvest s)
         \<or> tq_to q = ''cold_wallet'' \<and> tq_approval q \<and> tq_amount q = fround 2 (sr_reserve s)))"

lemma new_request_iff:
  "new_request now from to amount reason approval = Inr q \<longleftrightarrow> flt (Fin 0) amount \<and> tq_from q = from \<and> tq_to q = to
     \<and> tq_amount q = amount \<and> tq_reason q = reason \<and> tq_approval q = approval \<and> tq_created q = now"
  by (auto simp: new_request_def)

lemma queue_stakes_iff:
  "queue_stakes now name parts = Inr qs \<Longrightarrow>
   q \<in> set qs \<longleftrightarrow> flt (Fin 0) (tq_amount q) \<and> tq_from q = name \<and> tq_reason q = [] \<and> tq_created q = now
     \<and> stake_part parts q"
proof (induction now name parts arbitrary: qs rule: queue_stakes.induct)
  case (2 now name asset usd as)
  show ?case
  proof (cases "fle usd (Fin 0)")
    case True
    then have "\<not> flt (Fin 0) (fround 2 usd)" by (metis fround_pos flt_not_fle)
    then show ?thesis using 2 True by (auto simp: stake_part_def simp del: fround.simps)
  next
    case False
    with "2.prems" obtain r rs where r: "new_request now name (''staking_'' @ asset) (fround 2 usd) [] False = Inr r"
      "queue_stakes now name as = Inr rs" "qs = r # rs" by (auto simp del: fround.simps)
    have "(q = r) = (new_request now name (''staking_'' @ asset) (fround 2 usd) [] False = Inr q)" using r(1) by auto
    then show ?thesis using "2.IH"(2) [OF False r(2)] r(3) by (auto simp: new_request_iff stake_part_def simp del: fround.simps)
  qed
qed (simp add: stake_part_def)

lemma queue_part_iff:
  "queue_part now name target usd approval = Inr qs \<Longrightarrow>
   q \<in> set qs \<longleftrightarrow> new_request now name target (fround 2 usd) [] approval = Inr q"
  by (auto simp: queue_part_def new_request_def simp del: fround.simps split: if_splits dest: fround_pos)

lemma queue_sweep_iff:
  assumes "queue_sweep now alloc name s = Inr qs"
  obtains parts where "alloc (sr_stake s) = Inr parts" "\<And>q. q \<in> set qs \<longleftrightarrow> swept_request now name s parts q"
proof -
  from assms obtain parts stakes home cold where p: "alloc (sr_stake s) = Inr parts" "queue_stakes now name parts = Inr stakes"
    "queue_part now name name (sr_reinvest s) False = Inr home" "queue_part now name ''cold_wallet'' (sr_reserve s) True = Inr cold"
    "qs = stakes @ home @ cold" by (auto simp: queue_sweep_def)
  have "q \<in> set qs \<longleftrightarrow> swept_request now name s parts q" for q
    unfolding p(5) set_append Un_iff queue_stakes_iff [OF p(2)] queue_part_iff [OF p(3)] queue_part_iff [OF p(4)]
      new_request_iff swept_request_def by (auto simp del: fround.simps)
  with p(1) show thesis by (rule that)
qed

text \<open>
  When a request is justified, stated over the equities, the configurations and the allocator alone: its bot has a
  positive equity that is not below baseline times trigger, and the amount is a share, in whole cents, of the excess of the
  equity over the baseline.
\<close>

definition portion :: "pyfloat \<Rightarrow> sweep_config \<Rightarrow> pyfloat \<Rightarrow> pyfloat" where
  "portion equity c pct = fround 2 (fquot (fmul (fround 2 (fsub equity (sw_baseline c))) pct) (Fin 100))"

definition earns :: "int \<Rightarrow> allocator \<Rightarrow> sweep_config \<Rightarrow> pyfloat \<Rightarrow> transfer_request \<Rightarrow> bool" where
  "earns now alloc c equity q =
     (flt (Fin 0) equity \<and> \<not> flt equity (fmul (sw_baseline c) (sw_trigger c))
      \<and> flt (Fin 0) (tq_amount q) \<and> tq_reason q = [] \<and> tq_created q = now
      \<and> (\<exists>parts. alloc (portion equity c (ss_stake (sw_split c))) = Inr parts
           \<and> (stake_part parts q
              \<or> tq_to q = tq_from q \<and> \<not> tq_approval q \<and> tq_amount q = fround 2 (portion equity c (ss_reinvest (sw_split c)))
              \<or> tq_to q = ''cold_wallet'' \<and> tq_approval q
                \<and> tq_amount q = fround 2 (portion equity c (ss_reserve (sw_split c))))))"

definition justified :: "int \<Rightarrow> allocator \<Rightarrow> (string, sweep_config) dict \<Rightarrow> (string, pyfloat) dict \<Rightarrow> transfer_request \<Rightarrow> bool" where
  "justified now alloc cfgs es q =
     (\<exists>equity c. (tq_from q, equity) \<in> set es \<and> dget cfgs (tq_from q) = Some c \<and> earns now alloc c equity q)"

lemma check_sweep_result:
  assumes "check_sweep equity c = Inr s"
  shows "flt (Fin 0) equity \<or> \<not> sr_action s" "sr_action s = (\<not> flt equity (fmul (sw_baseline c) (sw_trigger c)))"
    "sr_action s \<Longrightarrow> sr_stake s = portion equity c (ss_stake (sw_split c))"
    "sr_action s \<Longrightarrow> sr_reinvest s = portion equity c (ss_reinvest (sw_split c))"
    "sr_action s \<Longrightarrow> sr_reserve s = portion equity c (ss_reserve (sw_split c))"
proof -
  have "flt (Fin 0) equity" if "\<not> fle equity (Fin 0)" "fle (Fin 0) (fround 2 (fsub equity (sw_baseline c)))"
    using that by (cases equity) (auto simp: fsub_def simp del: fsub_Fin_simp)
  with assms show "flt (Fin 0) equity \<or> \<not> sr_action s"
    by (auto simp: check_sweep_def new_sweep_result_def Let_def simp del: fround.simps split: if_splits)
qed (use assms in \<open>auto simp: check_sweep_def new_sweep_result_def share_def portion_def Let_def simp del: fround.simps split: if_splits\<close>)

text \<open>One bot's share of the specification.\<close>

lemma justified_Cons:
  "justified now alloc cfgs ((name, equity) # es) q \<longleftrightarrow>
     justified now alloc cfgs es q
     \<or> tq_from q = name \<and> (\<exists>c. dget cfgs name = Some c \<and> earns now alloc c equity q)"
  unfolding justified_def by auto

lemma earns_swept:
  assumes "check_sweep equity c = Inr s" "alloc (sr_stake s) = Inr parts" "sr_action s"
  shows "tq_from q = name \<and> earns now alloc c equity q \<longleftrightarrow> swept_request now name s parts q"
proof -
  note s = check_sweep_result [OF assms(1)]
  have "flt (Fin 0) equity" "\<not> flt equity (fmul (sw_baseline c) (sw_trigger c))" using s(1,2) assms(3) by auto
  then show ?thesis
    unfolding swept_request_def s(4,5) [OF assms(3)] earns_def using assms(2) [unfolded s(3) [OF assms(3)]]
    by auto
qed

lemma idle_earns_nothing: "check_sweep equity c = Inr s \<Longrightarrow> \<not> sr_action s \<Longrightarrow> \<not> earns now alloc c equity q"
  using check_sweep_result(2) [of equity c s] by (auto simp: earns_def)

lemma tick_loop_justified:
  assumes "fst (tick_loop now alloc cfgs es r m) = Inr r'"
  shows "q \<in> set (tk_queued r') \<longleftrightarrow> q \<in> set (tk_queued r) \<or> justified now alloc cfgs es q"
  using assms
proof (induction now alloc cfgs es r m rule: tick_loop.induct)
  case (1 now alloc cfgs r m)
  then show ?case by (auto simp: justified_def)
next
  case (2 now alloc cfgs name equity es r m)
  consider "dget cfgs name = None"
    | c s where "dget cfgs name = Some c" "check_sweep equity c = Inr s" "\<not> sr_action s"
    | c s qs where "dget cfgs name = Some c" "check_sweep equity c = Inr s" "sr_action s" "queue_sweep now alloc name s = Inr qs"
    using "2.prems" by (auto simp: Let_def split: option.splits sum.splits if_splits)
  then show ?case
  proof cases
    case 1
    then show ?thesis unfolding justified_Cons using "2.IH"(1) "2.prems" by (simp add: Let_def)
  next
    case (2 c s)
    then have "\<not> earns now alloc c equity q" by (blast dest: idle_earns_nothing)
    then show ?thesis unfolding justified_Cons using "2.IH"(2) [OF refl 2(1,2)] "2.prems" 2 by (simp add: Let_def)
  next
    case (3 c s qs)
    obtain parts where p: "alloc (sr_stake s) = Inr parts" "\<And>q. q \<in> set qs \<longleftrightarrow> swept_request now name s parts q"
      using queue_sweep_iff [OF 3(4)] by blast
    have "q \<in> set (tk_queued r') \<longleftrightarrow> q \<in> set (tk_queued r) \<union> set qs \<or> justified now alloc cfgs es q"
      using "2.IH"(3) [OF refl 3(1,2) _ 3(4)] "2.prems" 3 by (simp add: Let_def)
    moreover have "tq_from q = name \<and> earns now alloc c equity q \<longleftrightarrow> q \<in> set qs"
      unfolding p(2) by (rule earns_swept [where alloc = alloc, OF 3(2) p(1) 3(3)])
    ultimately show ?thesis unfolding justified_Cons using 3(1) by auto
  qed
qed

text \<open>Executing a list of requests through a manager.\<close>

lemma manager_returns:
  assumes "\<And>q. \<exists>r. ask q = Inr r"
  shows "\<exists>r e m'. manager_execute now ask q m = (Inr r, m') \<and> tm_ledger m' = tm_ledger m @ [e] \<and> le_request e = q \<and> le_result e = r"
proof -
  obtain d m1 where cp: "check_policy q now m = (d, m1)" by fastforce
  then have "tm_ledger m1 = tm_ledger m" using check_policy_ledger [of q now m] by simp
  with cp assms [of q] show ?thesis
    by (cases d) (auto simp: manager_execute_def Let_def append_entry_def book_sent_def)
qed

lemma refused_at_threshold:
  assumes "fle (tp_approval (tm_policy m)) (tq_amount q)" "\<not> tq_approval q" "manager_execute now ask q m = (Inr r, m')"
  shows "tt_status r = FAILED"
proof -
  have "fst (check_policy q now m) \<noteq> None" using assms(1,2) by (simp add: check_policy_passes)
  then obtain err m1 where "check_policy q now m = (Some err, m1)" by (cases "check_policy q now m") auto
  with assms(3) show ?thesis by (auto simp: manager_execute_def Let_def)
qed

section \<open>Properties\<close>

text \<open>
  A sweep is decided by the trigger alone and never fails for a valid configuration: for any equity above zero
  and up to nine quadrillion, \<open>check_sweep\<close> returns a result; it asks for action exactly when the equity has
  reached the trigger, and the excess and its three parts are never negative, as the result's model demands.
\<close>

theorem check_sweep_returns:
  assumes "new_split stake reinvest reserve = Inr parts" "new_sweep_config baseline trig parts = Inr c"
    "is_dbl baseline" "0 < a" "a \<le> 2 ^ 53"
  shows "\<exists>r. check_sweep (Fin a) c = Inr r \<and> sr_action r = (\<not> flt (Fin a) (fmul baseline trig))
    \<and> (\<forall>x\<in>{sr_excess r, sr_stake r, sr_reinvest r, sr_reserve r}. fle (Fin 0) x)"
proof (cases "flt (Fin a) (fmul baseline trig)")
  case True
  with assms show ?thesis by (auto simp: check_sweep_def new_sweep_result_def new_sweep_config_def split: if_splits)
next
  case False
  from assms(1,2) have c: "sw_baseline c = baseline" "sw_trigger c = trig" "sw_split c = parts" "flt (Fin 0) baseline" "flt (Fin 1) trig"
    "percent (ss_stake parts)" "percent (ss_reinvest parts)" "percent (ss_reserve parts)"
    by (auto simp: new_sweep_config_def new_split_def split: if_splits)
  have "fle baseline (fmul baseline trig)" by (rule trigger_above_baseline [OF assms(3) c(4,5)])
  then have "fle baseline (Fin a)" using False by (metis fle_not_NaN fle_trans not_flt pyfloat.distinct(5))
  with c(4) obtain b where b: "baseline = Fin b" "0 < b" "b \<le> a" by (cases baseline) auto
  have "fle (Fin 0) (fl (a - b))" "fle (fl (a - b)) (Fin (of_int (2 ^ 53)))"
    using b assms(5) by (auto intro!: fl_ge fl_le is_dbl_whole)
  then obtain x where x: "fl (a - b) = Fin x" "0 \<le> x" "x \<le> 2 ^ 53" by (auto elim!: fle_betweenE)
  from fround_bounded [OF x(2,3)] obtain d where d: "fround 2 (Fin x) = Fin d" "0 \<le> d" by blast
  have e: "fround 2 (fsub (Fin a) baseline) = Fin d" using b(1) x(1) d(1) by (simp del: fround.simps)
  note parts = share_nonneg [OF d(2) c(6)] share_nonneg [OF d(2) c(7)] share_nonneg [OF d(2) c(8)]
  show ?thesis using False assms(4) c(1,2,3) e d(2) parts
    by (auto simp: check_sweep_def new_sweep_result_def Let_def simp del: fround.simps)
qed

text \<open>
  C40. A tick queues exactly what its equities justify: a request is in the queue of a tick that returns if and only if
  it moves a positive amount out of a bot with a configuration whose equity of this tick is positive and not below
  baseline times trigger, and is that bot's cold reserve (marked as approved), its reinvestment into itself, or a
  part of its stake by the allocator, each in whole cents of its percentage of the excess over the baseline.
\<close>

theorem tick_queue_justified:
  assumes "funnel_tick now alloc cfgs es m = (Inr r, m')"
  shows "q \<in> set (tk_queued r) \<longleftrightarrow> justified now alloc cfgs es q"
  using tick_loop_justified [of now alloc cfgs es empty_tick m r q] assms by (simp add: funnel_tick_def empty_tick_def)

text \<open>
  Every queued transfer is answered and recorded, in order: through a manager whose executor does not raise,
  executing a list of requests returns one result per request and appends one ledger entry per request, with the request and
  the result it got; and a request that is not marked as approved and reaches the approval threshold, as a large stake
  or rebalance does, is always answered FAILED.
\<close>

theorem transfers_all_recorded:
  assumes "\<And>q. \<exists>r. ask q = Inr r"
  shows "\<exists>rs es. fst (execute_all (\<lambda>m q. manager_execute now ask q m) m qs) = Inr rs
    \<and> tm_ledger (snd (execute_all (\<lambda>m q. manager_execute now ask q m) m qs)) = tm_ledger m @ es
    \<and> map le_request es = qs \<and> map le_result es = rs
    \<and> list_all2 (\<lambda>q r. \<not> tq_approval q \<and> fle (tp_approval (tm_policy m)) (tq_amount q) \<longrightarrow> tt_status r = FAILED) qs rs"
proof (induction qs arbitrary: m)
  case (Cons q qs)
  obtain r e m1 where q: "manager_execute now ask q m = (Inr r, m1)" "tm_ledger m1 = tm_ledger m @ [e]" "le_request e = q"
    "le_result e = r" using manager_returns [of ask now q m, OF assms] by blast
  have "tm_policy m1 = tm_policy m" using policy_kept(1) [of now ask q m] q(1) by simp
  moreover obtain rs es where "fst (execute_all (\<lambda>m q. manager_execute now ask q m) m1 qs) = Inr rs"
    "tm_ledger (snd (execute_all (\<lambda>m q. manager_execute now ask q m) m1 qs)) = tm_ledger m1 @ es"
    "map le_request es = qs" "map le_result es = rs"
    "list_all2 (\<lambda>q r. \<not> tq_approval q \<and> fle (tp_approval (tm_policy m1)) (tq_amount q) \<longrightarrow> tt_status r = FAILED) qs rs"
    using Cons.IH by blast
  moreover have "\<not> tq_approval q \<and> fle (tp_approval (tm_policy m)) (tq_amount q) \<Longrightarrow> tt_status r = FAILED"
    using refused_at_threshold q(1) by blast
  ultimately show ?case using q
    by (intro exI [of _ "r # rs"] exI [of _ "e # es"])
      (auto split: prod.split sum.split)
qed simp

definition demo_split :: sweep_split where
  "demo_split = \<lparr>ss_stake = Fin 50, ss_reinvest = Fin 30, ss_reserve = Fin 20\<rparr>"

definition demo_config :: sweep_config where
  "demo_config = \<lparr>sw_baseline = Fin 1000, sw_trigger = Fin (5 / 4), sw_split = demo_split\<rparr>"

theorem check_sweep_returns_witness: "\<exists>r. check_sweep (Fin 2000) demo_config = Inr r \<and> sr_action r"
proof -
  have "\<not> flt (fl (1 / 100)) (Fin 0)" by (intro notI) (auto dest!: flt_not_fle simp: fl_ge)
  then have "new_split (Fin 50) (Fin 30) (Fin 20) = Inr demo_split" by (simp add: new_split_def demo_split_def percent_def)
  moreover have "new_sweep_config (Fin 1000) (Fin (5 / 4)) demo_split = Inr demo_config"
    by (simp add: new_sweep_config_def demo_config_def)
  ultimately show ?thesis using check_sweep_returns [of "Fin 50" "Fin 30" "Fin 20" demo_split "Fin 1000" "Fin (5 / 4)" demo_config 2000]
    by auto
qed

definition demo_alloc_all :: allocator where
  "demo_alloc_all x = Inr [(''eth'', x)]"

lemma tick_cents: "fround 2 (Fin 1000) = Fin 1000" "fround 2 (Fin 500) = Fin 500" "fround 2 (Fin 300) = Fin 300"
  "fround 2 (Fin 200) = Fin 200" "fround 2 (Fin 0) = Fin 0"
  using whole_cents [of 1000] whole_cents [of 500] whole_cents [of 300] whole_cents [of 200] whole_cents [of 0]
  by (simp_all del: fround.simps)

lemma demo_check:
  "check_sweep (Fin 2000) demo_config =
     Inr \<lparr>sr_excess = Fin 1000, sr_stake = Fin 500, sr_reinvest = Fin 300, sr_reserve = Fin 200, sr_action = True, sr_trigger = Fin 1250\<rparr>"
  by (simp add: check_sweep_def new_sweep_result_def demo_config_def demo_split_def share_def fquot_def tick_cents Let_def
      del: fround.simps)

lemma demo_queue:
  "\<exists>a b. queue_sweep 0 demo_alloc_all ''btc''
     \<lparr>sr_excess = Fin 1000, sr_stake = Fin 500, sr_reinvest = Fin 300, sr_reserve = Fin 200, sr_action = True, sr_trigger = Fin 1250\<rparr>
   = Inr [a, b, \<lparr>tq_from = ''btc'', tq_to = ''cold_wallet'', tq_amount = Fin 200, tq_reason = [], tq_approval = True, tq_created = 0\<rparr>]"
  by (simp add: queue_sweep_def demo_alloc_all_def queue_part_def new_request_def tick_cents del: fround.simps)

lemma demo_funnel_tick:
  "\<exists>r m' q. funnel_tick 0 demo_alloc_all [(''btc'', demo_config)] [(''btc'', Fin 2000)] [] = (Inr r, m')
     \<and> q \<in> set (tk_queued r) \<and> tq_to q = ''cold_wallet''"
  using demo_queue
  by (auto simp: funnel_tick_def note_equity_def demo_check empty_tick_def Let_def simp del: fround.simps)
    (rule exI [of _ "\<lparr>tq_from = ''btc'', tq_to = ''cold_wallet'', tq_amount = Fin 200, tq_reason = [], tq_approval = True, tq_created = 0\<rparr>"],
     simp)

theorem tick_queue_justified_witness:
  "\<exists>q. tq_to q = ''cold_wallet'' \<and> justified 0 demo_alloc_all [(''btc'', demo_config)] [(''btc'', Fin 2000)] q"
proof -
  obtain r m' q where q: "funnel_tick 0 demo_alloc_all [(''btc'', demo_config)] [(''btc'', Fin 2000)] [] = (Inr r, m')"
    "q \<in> set (tk_queued r)" "tq_to q = ''cold_wallet''" using demo_funnel_tick by blast
  from tick_queue_justified [OF q(1)] q(2,3) show ?thesis by blast
qed

definition demo_stake :: transfer_request where
  "demo_stake = \<lparr>tq_from = ''btc'', tq_to = ''staking_eth'', tq_amount = Fin 20000, tq_reason = [], tq_approval = False, tq_created = 0\<rparr>"

definition demo_executor :: executor where
  "demo_executor q = Inr (fst (stub_execute 0 (Fin 0, 0) q))"

theorem transfers_all_recorded_witness:
  "\<exists>r. fst (execute_all (\<lambda>m q. manager_execute 0 demo_executor q m) (new_manager policy_defaults []) [demo_stake]) = Inr [r]
     \<and> tt_status r = FAILED"
proof -
  have "\<exists>r. demo_executor q = Inr r" for q by (simp add: demo_executor_def)
  from transfers_all_recorded [of demo_executor 0 "new_manager policy_defaults []" "[demo_stake]", OF this]
  show ?thesis by (auto simp: list_all2_Cons1 new_manager_def policy_defaults_def demo_stake_def)
qed

section \<open>Corners\<close>

text \<open>
  The parts of a small excess do not add up to it: of four cents, two go to the stake, one is reinvested and
  none is kept in reserve with the default split.
\<close>

lemma parts_lose_a_cent:
  "share (fl (4 / 100)) (Fin 60) = fl (2 / 100) \<and> share (fl (4 / 100)) (Fin 30) = fl (1 / 100) \<and> share (fl (4 / 100)) (Fin 10) = Fin 0"
  by code_simp

text \<open>A part of a stake above zero that rounds to no cents raises, and the requests of the other bots are lost with it.\<close>

lemma dust_stake_aborts:
  assumes "flt (Fin 0) usd" "fround 2 usd = Fin 0"
  shows "queue_stakes now name ((asset, usd) # parts) = Inl ValueError"
  using assms by (auto simp: new_request_def dest: flt_not_fle)

text \<open>An equity of zero raises before any bot after it is looked at, although the monitor has taken it.\<close>

lemma zero_equity_aborts:
  "dget cfgs name = Some c \<Longrightarrow> fst (funnel_tick now alloc cfgs ((name, Fin 0) # es) m) = Inl ValueError"
  by (simp add: funnel_tick_def check_sweep_def Let_def)

end
