(* ===== verification/Bracket_Sizing.thy ===== *)
theory Bracket_Sizing
  imports Prop_Risk
begin

text \<open>
  \<open>scripts/bracket_sizing.py\<close>: the stop and the target of a new entry from the average true range of the
  last bars, and the cap of its quantity by the dollar budgets of the bot and of the fleet.  A bar is the
  dictionary a feed returns; the table of bot assignments and the environment are arguments.
\<close>

section \<open>Asset classes\<close>

definition sizing_crypto_roots :: "string list" where
  "sizing_crypto_roots = [''BTC'', ''ETH'', ''SOL'', ''AVAX'', ''LINK'', ''DOGE'', ''MBT'', ''MET'']"

definition sizing_futures_roots :: "string list" where
  "sizing_futures_roots =
     [''MNQ'', ''NQ'', ''ES'', ''MES'', ''NG'', ''CL'', ''GC'', ''ZN'', ''ZB'', ''6E'', ''M6E'', ''MGC'', ''MCL'',
      ''RTY'', ''M2K'', ''YM'', ''MYM'', ''ZF'', ''ZT'', ''M6B'', ''M6A'', ''6B'', ''6A'', ''6J'', ''M6J'']"

text \<open>The first quote currency that ends the symbol is cut off, unless nothing would be left.\<close>

definition sizing_root :: "string \<Rightarrow> string" where
  "sizing_root symbol =
     (let s = rstrip_by is_digit (lstrip_by (\<lambda>c. c = CHR ''/'') (upper symbol));
          cut_off = (\<lambda>n. let t = take (length s - n) s in if t = [] then s else t)
      in if ends_with s ''USDT'' then cut_off 4 else if ends_with s ''USD'' then cut_off 3 else s)"

definition sizing_is_crypto :: "string \<Rightarrow> bool" where
  "sizing_is_crypto symbol = (sizing_root symbol \<in> set sizing_crypto_roots)"

definition sizing_is_futures :: "string \<Rightarrow> bool" where
  "sizing_is_futures symbol =
     (let r = sizing_root symbol in if r \<in> {''MBT'', ''MET''} then False else r \<in> set sizing_futures_roots)"

section \<open>True range\<close>

type_synonym bar = "(string \<times> json) list"

text \<open>\<open>float(bar[k])\<close>.\<close>

definition float_at :: "(string \<times> json) list \<Rightarrow> string \<Rightarrow> pyexc + pyfloat" where
  "float_at d k = (case dget d k of None \<Rightarrow> Inl KeyError | Some v \<Rightarrow> as_float v)"

fun true_ranges :: "bar \<Rightarrow> bar list \<Rightarrow> pyexc + pyfloat list" where
  "true_ranges prev [] = Inr []"
| "true_ranges prev (b # bs) =
     rbind (float_at prev ''close'') (\<lambda>c.
       rbind (float_at b ''high'') (\<lambda>h.
         rbind (float_at b ''low'') (\<lambda>l.
           let tr = pymax (pymax (fsub h l) (fabs (fsub h c))) (fabs (fsub l c))
           in rbind (true_ranges b bs) (\<lambda>trs. Inr (tr # trs)))))"

text \<open>\<open>xs[-p:]\<close>.\<close>

definition last_items :: "int \<Rightarrow> 'a list \<Rightarrow> 'a list" where
  "last_items p xs = drop (if 0 < p then length xs - nat p else nat (- p)) xs"

definition compute_atr :: "bar list \<Rightarrow> int \<Rightarrow> pyexc + pyfloat option" where
  "compute_atr bars period =
     (if int (length bars) < period + 1 then Inr None
      else case bars of
        [] \<Rightarrow> Inl ZeroDivisionError
      | b # bs \<Rightarrow>
          rbind (true_ranges b bs) (\<lambda>trs.
            let w = last_items period trs
            in rbind (fdivx (pysum w) (fint (int (length w)))) (\<lambda>a. Inr (Some a))))"

section \<open>Brackets\<close>

datatype bracket_source = AtrBracket | FixedPct

definition round_decimals_for :: "pyfloat \<Rightarrow> nat" where
  "round_decimals_for p = (if fle p (Fin 0) then 4 else if flt p (Fin 5) then 5 else if flt p (Fin 100) then 4 else 2)"

text \<open>\<open>float(os.getenv(k, d))\<close> and \<open>int(os.getenv(k, d))\<close>.\<close>

definition getenv_float :: "env \<Rightarrow> string \<Rightarrow> pyfloat \<Rightarrow> pyexc + pyfloat" where
  "getenv_float e k d =
     (case e k of None \<Rightarrow> Inr d
      | Some s \<Rightarrow> (case parse_float s of None \<Rightarrow> Inl ValueError | Some x \<Rightarrow> Inr x))"

definition getenv_int :: "env \<Rightarrow> string \<Rightarrow> int \<Rightarrow> pyexc + int" where
  "getenv_int e k d =
     (case e k of None \<Rightarrow> Inr d
      | Some s \<Rightarrow> (case parse_int s of None \<Rightarrow> Inl ValueError | Some n \<Rightarrow> Inr n))"

definition or_env :: "pyfloat option \<Rightarrow> pyexc + pyfloat \<Rightarrow> pyexc + pyfloat" where
  "or_env v r = (case v of Some x \<Rightarrow> Inr x | None \<Rightarrow> r)"

definition atr_levels :: "bool \<Rightarrow> pyfloat \<Rightarrow> pyfloat \<Rightarrow> pyfloat \<Rightarrow> pyfloat \<Rightarrow> pyfloat \<times> pyfloat" where
  "atr_levels buy entry sm tm atr =
     (if buy then (fsub entry (fmul sm atr), fadd entry (fmul tm atr))
      else (fadd entry (fmul sm atr), fsub entry (fmul tm atr)))"

definition pct_levels :: "bool \<Rightarrow> pyfloat \<Rightarrow> pyfloat \<Rightarrow> pyfloat \<Rightarrow> pyfloat \<times> pyfloat" where
  "pct_levels buy entry sp tp =
     (if buy then (fmul entry (fsub (Fin 1) sp), fmul entry (fadd (Fin 1) tp))
      else (fmul entry (fadd (Fin 1) sp), fmul entry (fsub (Fin 1) tp)))"

definition min_stop_gap :: pyfloat where
  "min_stop_gap = fl (1 / 1000000000)"

definition compute_bracket ::
  "env \<Rightarrow> string \<Rightarrow> pyfloat \<Rightarrow> bar list option \<Rightarrow> pyfloat option \<Rightarrow> pyfloat option \<Rightarrow>
   pyexc + pyfloat \<times> pyfloat \<times> bracket_source" where
  "compute_bracket e side entry bars stop_override target_override =
     rbind (getenv_int e ''ETA_BRACKET_ATR_PERIOD'' 14) (\<lambda>period.
     rbind (or_env stop_override (getenv_float e ''ETA_BRACKET_ATR_STOP_MULT'' (Fin 2))) (\<lambda>sm.
     rbind (or_env target_override (getenv_float e ''ETA_BRACKET_ATR_TARGET_MULT'' (Fin 3))) (\<lambda>tm.
     rbind (getenv_float e ''ETA_BRACKET_FALLBACK_STOP_PCT'' (fl (15 / 1000))) (\<lambda>sp.
     rbind (getenv_float e ''ETA_BRACKET_FALLBACK_TARGET_PCT'' (fl (20 / 1000))) (\<lambda>tp.
     let buy = (upper side = ''BUY''); bs = (case bars of None \<Rightarrow> [] | Some xs \<Rightarrow> xs)
     in rbind (if bs = [] then Inr None else compute_atr bs period) (\<lambda>atr.
        let dec = round_decimals_for entry;
            fixed = (let l = pct_levels buy entry sp tp in Inr (fround dec (fst l), fround dec (snd l), FixedPct))
        in case atr of
             Some a \<Rightarrow>
               if flt (Fin 0) a
               then let l = atr_levels buy entry sm tm a; s = fround dec (fst l); t = fround dec (snd l)
                    in if flt (fabs (fsub s entry)) min_stop_gap \<or> flt (fabs (fsub t entry)) min_stop_gap
                       then fixed else Inr (s, t, AtrBracket)
               else fixed
           | None \<Rightarrow> fixed))))))"

section \<open>Assignments of bots\<close>

record assignment =
  as_bot :: string
  as_extras :: "(string \<times> json) list"

definition assignment_of :: "assignment list \<Rightarrow> string \<Rightarrow> assignment option" where
  "assignment_of reg b = find (\<lambda>a. as_bot a = b) reg"

text \<open>\<open>float(v)\<close>, None when it is missing or not a number.\<close>

definition safe_float :: "json \<Rightarrow> pyexc + pyfloat option" where
  "safe_float v =
     (if v = JNull then Inr None
      else case as_float v of
        Inr x \<Rightarrow> Inr (Some x) | Inl OverflowError \<Rightarrow> Inl OverflowError | Inl _ \<Rightarrow> Inr None)"

definition or_json :: "json \<Rightarrow> json \<Rightarrow> json" where
  "or_json a b = (if as_bool a then a else b)"

definition param_pair :: "json \<Rightarrow> json \<Rightarrow> pyexc + pyfloat option \<times> pyfloat option" where
  "param_pair sm tm = rbind (safe_float sm) (\<lambda>s. rbind (safe_float tm) (\<lambda>t. Inr (s, t)))"

definition config_params :: "(string \<times> json) list \<Rightarrow> json \<times> json" where
  "config_params v =
     (jget v ''atr_stop_mult'' JNull,
      or_json (or_json (jget v ''rr_target'' JNull) (jget v ''target_atr'' JNull)) (jget v ''atr_target_mult'' JNull))"

definition is_set :: "json \<times> json \<Rightarrow> bool" where
  "is_set p = (fst p \<noteq> JNull \<or> snd p \<noteq> JNull)"

text \<open>The first configuration among the extras that holds one of the parameters.\<close>

fun first_config :: "(string \<times> json) list \<Rightarrow> (json \<times> json) option" where
  "first_config [] = None"
| "first_config ((k, v) # kvs) =
     (case v of
        JObj d \<Rightarrow> if ends_with k ''_config'' \<and> is_set (config_params d) then Some (config_params d) else first_config kvs
      | _ \<Rightarrow> first_config kvs)"

definition lookup_bot_bracket_params ::
  "assignment list \<Rightarrow> string \<Rightarrow> pyexc + pyfloat option \<times> pyfloat option" where
  "lookup_bot_bracket_params reg b =
     (case assignment_of reg b of
        None \<Rightarrow> Inr (None, None)
      | Some a \<Rightarrow>
          let x = as_extras a;
              bp = (case jget x ''bracket_params'' JNull of
                      JObj d \<Rightarrow> (jget d ''stop_mult'' JNull, jget d ''target_mult'' JNull) | _ \<Rightarrow> (JNull, JNull));
              flat = (jget x ''atr_stop_mult'' JNull, or_json (jget x ''rr_target'' JNull) (jget x ''target_atr'' JNull))
          in if is_set bp then param_pair (fst bp) (snd bp)
             else case first_config x of
               Some p \<Rightarrow> param_pair (fst p) (snd p)
             | None \<Rightarrow> if is_set flat then param_pair (fst flat) (snd flat) else Inr (None, None))"

section \<open>Budgets\<close>

definition registry_budget :: "assignment list \<Rightarrow> string option \<Rightarrow> pyfloat option" where
  "registry_budget reg who =
     (case who of
        None \<Rightarrow> None
      | Some b \<Rightarrow>
          if b = [] then None
          else case assignment_of reg b of
            None \<Rightarrow> None
          | Some a \<Rightarrow>
              (case as_float (jget (as_extras a) ''per_bot_budget_usd'' JNull) of
                 Inl _ \<Rightarrow> None | Inr x \<Rightarrow> if flt (Fin 0) x then Some x else None))"

definition budget_per_bot_usd :: "env \<Rightarrow> assignment list \<Rightarrow> string \<Rightarrow> string option \<Rightarrow> pyexc + pyfloat" where
  "budget_per_bot_usd e reg symbol who =
     (case registry_budget reg who of
        Some x \<Rightarrow> Inr x
      | None \<Rightarrow>
          if sizing_is_crypto symbol then getenv_float e ''ETA_LIVE_CRYPTO_BUDGET_PER_BOT_USD'' (Fin 100)
          else if sizing_is_futures symbol then getenv_float e ''ETA_LIVE_FUTURES_BUDGET_PER_BOT_USD'' (Fin 500)
          else getenv_float e ''ETA_LIVE_OTHER_BUDGET_PER_BOT_USD'' (Fin 100))"

definition fleet_budget_usd :: "env \<Rightarrow> string \<Rightarrow> pyexc + pyfloat" where
  "fleet_budget_usd e symbol =
     (if sizing_is_crypto symbol then getenv_float e ''ETA_LIVE_CRYPTO_FLEET_BUDGET_USD'' (Fin 1500)
      else if sizing_is_futures symbol then getenv_float e ''ETA_LIVE_FUTURES_FLEET_BUDGET_USD'' (Fin 5000)
      else getenv_float e ''ETA_LIVE_OTHER_FLEET_BUDGET_USD'' (Fin 1500))"

definition is_live_money_mode :: "env \<Rightarrow> bool" where
  "is_live_money_mode e =
     (strip (env_get e ''ETA_SUPERVISOR_LIVE_MONEY'') \<in> {''1'', ''true'', ''yes''}
      \<or> lower (strip (env_get e ''ETA_SUPERVISOR_MODE'')) \<in> {''live'', ''live_money'', ''real''})"

definition paper_floor_enabled :: "env \<Rightarrow> pyexc + bool" where
  "paper_floor_enabled e =
     (if is_live_money_mode e then Inr False
      else rbind (getenv_float e ''ETA_PAPER_FUTURES_FLOOR'' (Fin 1)) (\<lambda>x. Inr (flt (Fin 0) x)))"

datatype cap_reason = WithinBudget | PerBotCapped | FleetCapped | FleetExhausted | PaperFuturesFloor

text \<open>One contract in paper mode where a whole contract was asked for; otherwise what the budget leaves.\<close>

definition floored :: "env \<Rightarrow> string \<Rightarrow> pyfloat \<Rightarrow> bool \<Rightarrow> pyfloat \<times> cap_reason \<Rightarrow> pyexc + pyfloat \<times> cap_reason" where
  "floored e symbol requested below_one r =
     (if \<not> sizing_is_crypto symbol \<and> fle (Fin 1) (fabs requested) \<and> below_one
      then rbind (paper_floor_enabled e) (\<lambda>p. Inr (if p then (Fin 1, PaperFuturesFloor) else r))
      else Inr r)"

definition whole_contracts :: "pyfloat \<Rightarrow> pyexc + pyfloat" where
  "whole_contracts q = rbind (as_int (JFloat q)) (\<lambda>n. rbind (as_float (JInt n)) (\<lambda>x. Inr (pymax x (Fin 0))))"

definition cap_qty_to_budget ::
  "env \<Rightarrow> assignment list \<Rightarrow> string \<Rightarrow> pyfloat \<Rightarrow> pyfloat \<Rightarrow> pyfloat \<Rightarrow> string option \<Rightarrow> pyexc + pyfloat \<times> cap_reason" where
  "cap_qty_to_budget e reg symbol price requested fleet_open who =
     (if fle price (Fin 0) then Inr (requested, WithinBudget)
      else rbind (budget_per_bot_usd e reg symbol who) (\<lambda>per_bot.
        rbind (fleet_budget_usd e symbol) (\<lambda>fleet.
          let pv = effective_point_value ''auto'' symbol;
              notional = fmul (fmul (fabs requested) price) pv;
              left = pymax (Fin 0) (fsub fleet (pymax (Fin 0) fleet_open))
          in if fle left (Fin 0) then floored e symbol requested True (Fin 0, FleetExhausted)
             else
               let limit = pymin per_bot left
               in if fle notional limit then Inr (requested, WithinBudget)
                  else rbind (fdivx limit (fmul price pv)) (\<lambda>q.
                    rbind (if sizing_is_crypto symbol then Inr (fround 6 q) else whole_contracts q) (\<lambda>capped.
                      floored e symbol requested (flt capped (Fin 1))
                        (capped, if fle per_bot left then PerBotCapped else FleetCapped))))))"

section \<open>Lemmas\<close>

lemma whole_contracts_quotient:
  assumes "\<bar>c\<bar> \<le> 2 ^ 45" "0 < d" "d \<le> 2 ^ 45"
  obtains q where "fdivx (Fin (of_int c)) (Fin (of_int d)) = Inr q"
    "whole_contracts q = Inr (Fin (of_int (max 0 (c div d))))"
proof -
  let ?x = "dround (of_int c / of_int d)"
  have q: "fdivx (Fin (of_int c)) (Fin (of_int d)) = Inr (Fin ?x)"
    using assms(2) fl_quotient_whole(1) [OF assms(1,2)] by (simp add: fdivx_def)
  define n where "n = (if 0 \<le> ?x then \<lfloor>?x\<rfloor> else \<lceil>?x\<rceil>)"
  have x: "\<bar>?x\<bar> \<le> 2 ^ 45" by (rule fl_quotient_whole(2) [OF assms(1,2)])
  then have "n \<le> 2 ^ 45" "- (2 ^ 45) \<le> n"
    by (auto simp: n_def floor_le_iff ceiling_le_iff le_floor_iff le_ceiling_iff abs_le_iff)
  then have f: "fint n = Fin (of_int n)" by (intro fint_small) simp
  have "max n 0 = max 0 (c div d)"
  proof (cases "0 \<le> c")
    case True
    then have "0 \<le> ?x" using assms(2) by (intro dround_nonneg) simp
    then show ?thesis using dround_quotient [of c d] True assms by (simp add: n_def max.commute)
  next
    case False
    then have "of_int c / of_int d \<le> (0 :: rat)" using assms(2) by (simp add: field_simps)
    from dround_mono [OF this] have "?x \<le> 0" by simp
    then have "n \<le> 0" by (auto simp: n_def)
    moreover have "c div d < 0" using False assms(2) by (intro div_neg_pos_less0) simp_all
    ultimately show ?thesis by simp
  qed
  moreover have "whole_contracts (Fin ?x) = Inr (Fin (of_int (max n 0)))"
    using f by (simp add: whole_contracts_def n_def [symmetric] pymax_def max_def)
  ultimately show thesis using q that by simp
qed

text \<open>What the two budgets leave, in whole dollars.\<close>

definition budget_left :: "int \<Rightarrow> int \<Rightarrow> int \<Rightarrow> int" where
  "budget_left per_bot fleet open_usd = max 0 (min per_bot (fleet - max 0 open_usd))"

lemma floored_live: "paper_floor_enabled e = Inr False \<Longrightarrow> floored e symbol q p r = Inr r"
  by (simp add: floored_def)

text \<open>Division on integers: what fits, and what is asked for when it does not.\<close>

lemma div_fits: "0 < (d :: int) \<Longrightarrow> (m div d) * d \<le> m"
  using div_mult_mod_eq [of m d] pos_mod_sign [of d m] by linarith

lemma div_capped:
  assumes "0 < (d :: int)" "0 \<le> n" "m < n * d"
  shows "max 0 m div d \<le> n"
proof (rule ccontr)
  assume "\<not> max 0 m div d \<le> n"
  then have "(n + 1) * d \<le> (max 0 m div d) * d" using assms(1) by (intro mult_right_mono) simp_all
  also have "\<dots> \<le> max 0 m" using assms(1) by (rule div_fits)
  finally have "n * d + d \<le> max 0 m" by (simp add: distrib_right)
  moreover have "0 \<le> n * d" using assms by simp
  ultimately show False using assms by linarith
qed

lemma div_asked:
  assumes "0 < (d :: int)" "0 \<le> m" "n * d \<le> m"
  shows "n \<le> m div d"
  using zdiv_mono1 [OF assms(3,1)] assms(1) by simp

lemma max_div: "0 < (d :: int) \<Longrightarrow> max 0 (m div d) = max 0 m div d"
  by (auto simp: max_def pos_imp_zdiv_nonneg_iff neg_imp_zdiv_neg_iff not_le)

lemma cap_qty_whole:
  assumes live: "paper_floor_enabled e = Inr False" and fut: "\<not> sizing_is_crypto symbol"
    and b: "budget_per_bot_usd e reg symbol who = Inr (Fin (of_int b))" "\<bar>b\<bar> \<le> 2 ^ 44"
    and f: "fleet_budget_usd e symbol = Inr (Fin (of_int f))" "\<bar>f\<bar> \<le> 2 ^ 44" and ou: "\<bar>ou\<bar> \<le> 2 ^ 44"
    and v: "effective_point_value ''auto'' symbol = Fin (of_int v)" "0 < v" "0 < p" "p * v \<le> 2 ^ 45"
    and n: "0 \<le> n" "n * (p * v) \<le> 2 ^ 53"
  shows "\<exists>r. cap_qty_to_budget e reg symbol (Fin (of_int p)) (Fin (of_int n)) (Fin (of_int ou)) who
    = Inr (Fin (of_int (min n (budget_left b f ou div (p * v)))), r)"
proof -
  define d where "d = p * v"
  define l where "l = f - max 0 ou"
  define m where "m = min b l"
  have d: "0 < d" "d \<le> 2 ^ 45" using v by (simp_all add: d_def)
  have l: "\<bar>l\<bar> \<le> 2 ^ 45" using f(2) ou by (simp add: l_def max_def abs_if split: if_splits)
  have "n * p \<le> n * d" using n(1) v by (intro mult_left_mono) (simp_all add: d_def)
  then have small: "\<bar>n * p\<bar> \<le> 2 ^ 53" "\<bar>n * d\<bar> \<le> 2 ^ 53" using n v by (simp_all add: d_def)
  have notional: "fmul (fmul (fabs (Fin (of_int n))) (Fin (of_int p))) (Fin (of_int v)) = Fin (of_int (n * d))"
    using small n(1) fmul_whole [of n p] fmul_whole [of "n * p" v] by (simp add: d_def mult.assoc del: fmul.simps)
  have dp: "fmul (Fin (of_int p)) (Fin (of_int v)) = Fin (of_int d)" using d by (simp add: d_def fmul_whole del: fmul.simps)
  have left: "pymax (Fin 0) (fsub (Fin (of_int f)) (pymax (Fin 0) (Fin (of_int ou)))) = Fin (of_int (max 0 l))"
    using pymax_whole [of 0 ou] pymax_whole [of 0 l] fsub_whole [of f "max 0 ou"] l
    by (simp add: l_def del: fsub_Fin_simp of_int_diff)
  consider "l \<le> 0" | "0 < l" "n * d \<le> m" | "0 < l" "m < n * d" by linarith
  then show ?thesis
  proof cases
    case 1
    then have "budget_left b f ou = 0" by (simp add: budget_left_def l_def)
    with 1 show ?thesis using v n(1) b(1) f(1) by (simp add: cap_qty_to_budget_def left floored_live [OF live] Let_def)
  next
    case 2
    then have "pymin (Fin (of_int b)) (Fin (of_int (max 0 l))) = Fin (of_int m)" by (simp add: pymin_whole m_def max_def)
    moreover have "min n (budget_left b f ou div d) = n"
      using div_asked [OF d(1), of "max 0 m" n] 2 by (simp add: budget_left_def l_def m_def le_max_iff_disj)
    ultimately show ?thesis using v b(1) f(1) 2
      by (simp add: cap_qty_to_budget_def left notional Let_def d_def del: fmul.simps fabs.simps of_int_mult)
  next
    case 3
    then have limit: "pymin (Fin (of_int b)) (Fin (of_int l)) = Fin (of_int m)"
      by (simp add: pymin_whole m_def)
    have "\<bar>m\<bar> \<le> 2 ^ 45" using b(2) l by (simp add: m_def min_def)
    then obtain q where q: "fdivx (Fin (of_int m)) (Fin (of_int d)) = Inr q"
      "whole_contracts q = Inr (Fin (of_int (max 0 (m div d))))"
      using d whole_contracts_quotient by blast
    have "min n (budget_left b f ou div d) = max 0 (m div d)"
      using div_capped [OF d(1) n(1) 3(2)] max_div [OF d(1)] by (simp add: budget_left_def l_def m_def)
    then show ?thesis using v b(1) f(1) 3
      by (simp add: cap_qty_to_budget_def left notional limit dp q fut floored_live [OF live] Let_def
          flip: d_def del: fmul.simps fabs.simps of_int_mult of_int_max)
  qed
qed

lemma fround_mono: "fle x y \<Longrightarrow> fle (fround n x) (fround n y)"
proof (cases x; cases y)
  fix a b assume "fle x y" and x: "x = Fin a" and y: "y = Fin b"
  then have "a * 10 ^ n \<le> b * 10 ^ n" by (intro mult_right_mono) simp_all
  then have "of_int (rne (a * 10 ^ n)) \<le> (of_int (rne (b * 10 ^ n)) :: rat)" by (simp add: rne_mono)
  then show ?thesis using x y by (auto intro!: fl_mono divide_right_mono)
qed simp_all

lemma fsub_below: "is_dbl (Fin a) \<Longrightarrow> fle (Fin 0) y \<Longrightarrow> fle (fsub (Fin a) y) (Fin a)"
  by (cases y) (simp_all add: fl_le fsub_def)

lemma fadd_above: "is_dbl (Fin a) \<Longrightarrow> fle (Fin 0) y \<Longrightarrow> fle (Fin a) (fadd (Fin a) y)"
  by (cases y) (simp_all add: fl_ge)

lemma fmul_pos: "flt (Fin 0) x \<Longrightarrow> flt (Fin 0) y \<Longrightarrow> fle (Fin 0) (fmul x y)"
  by (cases x; cases y) (simp_all add: fl_ge finf_def)

lemma min_stop_gap_pos: "flt (Fin 0) min_stop_gap"
  by code_simp

lemma gap_strict:
  assumes "\<not> flt (fabs (fsub x (Fin p))) min_stop_gap" "x \<noteq> NaN"
  shows "fle x (Fin p) \<Longrightarrow> flt x (Fin p)" "fle (Fin p) x \<Longrightarrow> flt (Fin p) x"
proof -
  have "x \<noteq> Fin p" using assms min_stop_gap_pos by auto
  then show "fle x (Fin p) \<Longrightarrow> flt x (Fin p)" "fle (Fin p) x \<Longrightarrow> flt (Fin p) x"
    by (auto simp: fle_def feq_def)
qed

section \<open>Properties\<close>

text \<open>
  C10. With real money a budget is a ceiling: for futures and amounts in whole dollars the quantity let
  through is the largest number of contracts, up to the one asked for, whose notional fits both what the bot
  may use and what the open positions leave of the fleet's budget.
\<close>

theorem live_budget_is_a_ceiling:
  assumes "paper_floor_enabled e = Inr False" "\<not> sizing_is_crypto symbol"
    and "budget_per_bot_usd e reg symbol who = Inr (Fin (of_int b))" "\<bar>b\<bar> \<le> 2 ^ 44"
    and "fleet_budget_usd e symbol = Inr (Fin (of_int f))" "\<bar>f\<bar> \<le> 2 ^ 44" "\<bar>ou\<bar> \<le> 2 ^ 44"
    and v: "effective_point_value ''auto'' symbol = Fin (of_int v)" "0 < v" "0 < p" "p * v \<le> 2 ^ 45"
    and "0 \<le> n" "n * (p * v) \<le> 2 ^ 53"
  shows "\<exists>k r. cap_qty_to_budget e reg symbol (Fin (of_int p)) (Fin (of_int n)) (Fin (of_int ou)) who = Inr (Fin (of_int k), r)
    \<and> k = min n (budget_left b f ou div (p * v)) \<and> k * (p * v) \<le> budget_left b f ou"
proof -
  have d: "0 < p * v" using v by simp
  have "min n c * (p * v) \<le> c * (p * v)" for c using d by (intro mult_right_mono) simp_all
  then have "min n (budget_left b f ou div (p * v)) * (p * v) \<le> budget_left b f ou"
    using div_fits [OF d] by (meson order_trans)
  with cap_qty_whole [OF assms] show ?thesis by blast
qed

definition demo_live_env :: env where
  "demo_live_env k =
     (if k = ''ETA_SUPERVISOR_MODE'' then Some '' Live ''
      else if k = ''ETA_LIVE_FUTURES_FLEET_BUDGET_USD'' then Some ''200000'' else None)"

definition demo_registry :: "assignment list" where
  "demo_registry = [\<lparr>as_bot = ''es'', as_extras = [(''per_bot_budget_usd'', JInt 100000)]\<rparr>]"

lemma demo_live:
  "paper_floor_enabled demo_live_env = Inr False \<and> \<not> sizing_is_crypto ''MES''
   \<and> budget_per_bot_usd demo_live_env demo_registry ''MES'' (Some ''es'') = Inr (Fin (of_int 100000))
   \<and> fleet_budget_usd demo_live_env ''MES'' = Inr (Fin (of_int 200000))
   \<and> effective_point_value ''auto'' ''MES'' = Fin (of_int 5)"
  by code_simp

theorem live_budget_is_a_ceiling_witness:
  "\<exists>r. cap_qty_to_budget demo_live_env demo_registry ''MES'' (Fin (of_int 6000)) (Fin (of_int 5)) (Fin (of_int 50000)) (Some ''es'')
     = Inr (Fin (of_int 3), r)"
proof -
  have "min 5 (budget_left 100000 200000 50000 div (6000 * 5)) = (3 :: int)" by (simp add: budget_left_def)
  then show ?thesis
    using live_budget_is_a_ceiling [of demo_live_env "''MES''" demo_registry "Some ''es''" 100000 200000 50000 5 6000 5] demo_live
    by auto
qed

text \<open>
  C17. A bracket taken from the average true range lies around the entry on the right sides, strictly,
  when the entry has no more decimals than the bracket is rounded to and the multipliers are positive.
\<close>

theorem atr_bracket_straddles:
  assumes r: "compute_bracket e side (Fin p) bars so tg = Inr (s, t, AtrBracket)"
    and grid: "fround (round_decimals_for (Fin p)) (Fin p) = Fin p"
    and sm: "or_env so (getenv_float e ''ETA_BRACKET_ATR_STOP_MULT'' (Fin 2)) = Inr sm" "flt (Fin 0) sm"
    and tm: "or_env tg (getenv_float e ''ETA_BRACKET_ATR_TARGET_MULT'' (Fin 3)) = Inr tm" "flt (Fin 0) tm"
  shows "if upper side = ''BUY'' then flt s (Fin p) \<and> flt (Fin p) t else flt t (Fin p) \<and> flt (Fin p) s"
proof -
  let ?d = "round_decimals_for (Fin p)" and ?buy = "upper side = ''BUY''"
  have p: "is_dbl (Fin p)" using grid is_dbl_fl by (metis fround.simps(1))
  obtain a where a: "flt (Fin 0) a" and st: "s = fround ?d (fst (atr_levels ?buy (Fin p) sm tm a))"
    "t = fround ?d (snd (atr_levels ?buy (Fin p) sm tm a))"
    and gap: "\<not> flt (fabs (fsub s (Fin p))) min_stop_gap" "\<not> flt (fabs (fsub t (Fin p))) min_stop_gap"
    using r sm(1) tm(1) by (auto simp: compute_bracket_def Let_def split: option.splits if_splits)
  have below: "fle (fround ?d (fsub (Fin p) (fmul m a))) (Fin p)"
    and above: "fle (Fin p) (fround ?d (fadd (Fin p) (fmul m a)))" if "flt (Fin 0) m" for m
    using fround_mono [OF fsub_below [OF p fmul_pos [OF that a]], of ?d]
      fround_mono [OF fadd_above [OF p fmul_pos [OF that a]], of ?d] grid by simp_all
  show ?thesis
  proof (cases ?buy)
    case True
    then have "fle s (Fin p)" "fle (Fin p) t" using below [OF sm(2)] above [OF tm(2)] by (simp_all add: st atr_levels_def)
    with True gap show ?thesis using gap_strict fle_not_NaN by metis
  next
    case False
    then have "fle t (Fin p)" "fle (Fin p) s" using below [OF tm(2)] above [OF sm(2)] by (simp_all add: st atr_levels_def)
    with False gap show ?thesis using gap_strict fle_not_NaN by metis
  qed
qed

definition demo_env :: env where
  "demo_env k = (if k = ''ETA_BRACKET_ATR_PERIOD'' then Some ''1'' else None)"

lemma demo_env_values:
  "getenv_int demo_env ''ETA_BRACKET_ATR_PERIOD'' n = Inr 1"
  "k \<noteq> ''ETA_BRACKET_ATR_PERIOD'' \<Longrightarrow> getenv_float demo_env k x = Inr x"
proof -
  have "parse_int ''1'' = Some 1" by code_simp
  then show "getenv_int demo_env ''ETA_BRACKET_ATR_PERIOD'' n = Inr 1" by (simp add: getenv_int_def demo_env_def)
  show "k \<noteq> ''ETA_BRACKET_ATR_PERIOD'' \<Longrightarrow> getenv_float demo_env k x = Inr x"
    by (simp add: getenv_float_def demo_env_def)
qed

definition demo_bars :: "pyfloat \<Rightarrow> pyfloat \<Rightarrow> pyfloat \<Rightarrow> bar list" where
  "demo_bars c h l = [[(''close'', JFloat c)], [(''high'', JFloat h), (''low'', JFloat l)]]"

lemma demo_atr:
  "compute_atr (demo_bars c h l) 1 =
     rbind (fdivx (pysum [pymax (pymax (fsub h l) (fabs (fsub h c))) (fabs (fsub l c))]) (Fin 1)) (\<lambda>a. Inr (Some a))"
  by (simp add: compute_atr_def demo_bars_def float_at_def last_items_def fint_def del: pysum.simps)

lemma demo_atr_bracket:
  "compute_bracket demo_env ''buy'' (Fin 21000) (Some (demo_bars (Fin 21000) (Fin 21004) (Fin 20996))) (Some (Fin 1)) None
     = Inr (Fin 20992, Fin 21024, AtrBracket)"
proof -
  have u: "upper ''buy'' = ''BUY''" by code_simp
  have r: "round_decimals_for (Fin 21000) = 2" "fround 2 (Fin 20992) = Fin 20992" "fround 2 (Fin 21024) = Fin 21024"
    "flt (Fin 0) (Fin 8)" "\<not> flt (Fin 8) min_stop_gap" "\<not> flt (Fin 24) min_stop_gap" by code_simp+
  have a: "compute_atr (demo_bars (Fin 21000) (Fin 21004) (Fin 20996)) 1 = Inr (Some (Fin 8))"
    unfolding demo_atr by (simp add: fdivx_def pymax_def float_truthy_def)
  have "demo_bars (Fin 21000) (Fin 21004) (Fin 20996) \<noteq> []" by (simp add: demo_bars_def)
  then show ?thesis
    by (simp add: compute_bracket_def demo_env_values or_env_def u a r atr_levels_def Let_def del: fround.simps)
qed

theorem atr_bracket_straddles_witness: "flt (Fin 20992) (Fin 21000) \<and> flt (Fin 21000) (Fin 21024)"
proof -
  have "upper ''buy'' = ''BUY''" "fround (round_decimals_for (Fin 21000)) (Fin 21000) = Fin 21000" by code_simp+
  then show ?thesis
    using atr_bracket_straddles [OF demo_atr_bracket, of "Fin 1" "Fin 3"] by (simp add: or_env_def demo_env_values)
qed

section \<open>Corners\<close>

text \<open>In paper mode the floor of one contract goes past the budget: 42000 dollars of notional under a cap of 500.\<close>

lemma paper_floor_over_budget:
  "cap_qty_to_budget (\<lambda>_. None) [] ''MNQ'' (Fin 21000) (Fin 1) (Fin 0) None = Inr (Fin 1, PaperFuturesFloor)"
  by code_simp

text \<open>The micro bitcoin contract counts as crypto, so its cap is a fraction of a contract.\<close>

lemma fraction_of_a_contract:
  "map_sum id fst (cap_qty_to_budget (\<lambda>_. None) [] ''MBT'' (Fin 95000) (Fin 1) (Fin 0) None) = Inr (fl (10526 / 1000000))"
  by code_simp

text \<open>An entry between two grid points can get its stop on the wrong side: rounded to cents, the stop of a long
  entry at 100.006 with a range of 0.0001 is 100.01, and the distance check does not refuse it.\<close>

lemma off_grid_bracket:
  "fround 2 (fsub (fl (100006 / 1000)) (fmul (Fin 2) (fl (1 / 10000)))) = fl (10001 / 100)
   \<and> flt (fl (100006 / 1000)) (fl (10001 / 100)) \<and> \<not> flt (fabs (fsub (fl (10001 / 100)) (fl (100006 / 1000)))) min_stop_gap"
  by code_simp

end
