(* ===== verification/Position_Exit.thy ===== *)
theory Position_Exit
  imports Bracket_Sizing Position_Caps Session_Gate
begin

text \<open>
  The positions of \<open>scripts/jarvis_strategy_supervisor.py\<close> and how they are closed: the dictionary a
  bot keeps of its open position, its file, the size the broker really holds, and
  \<open>ExecutionRouter.submit_exit\<close> with the order file it leaves for the broker router.  Everything
  read from outside (the clock, the broker's answers, whether a file operation succeeds) is a function of
  the number of the operation.
\<close>

section \<open>State\<close>

type_synonym position = "(string \<times> json) list"

text \<open>A write is done, leaves the file alone, or fails half way.\<close>

datatype write_result = Written | NotWritten | Torn

record exit_fill =
  xf_bot :: string
  xf_signal :: json
  xf_side :: string
  xf_symbol :: string
  xf_qty :: pyfloat
  xf_price :: pyfloat
  xf_ts :: string
  xf_r :: pyfloat
  xf_pnl :: pyfloat
  xf_entry :: position

text \<open>
  One bot as the supervisor holds it, with its position file and its order file; the account-wide
  position book and the bot's re-entry cooldown; the closes handed to the feedback layers.
\<close>

record trader =
  dk_id :: string
  dk_symbol :: string
  dk_cash :: pyfloat
  dk_pnl :: pyfloat
  dk_open :: "position option"
  dk_entries :: int
  dk_exits :: int
  dk_rejects :: int
  dk_marks :: "pyfloat option \<times> pyfloat option \<times> pyfloat option"
  dk_bar_ts :: json
  dk_session :: "session_state option"
  dk_loss_limit :: pyfloat
  dk_signal_at :: string
  dk_sage :: "bar list"
  dk_cooldown :: "int option"
  dk_book :: "book option"
  dk_file :: jfile
  dk_order :: jfile
  dk_closed :: "exit_fill list"
  dk_ops :: nat

text \<open>
  What comes from outside: the mode and the environment, the clock, the text of a time and of a JSON value,
  \<open>datetime.fromisoformat\<close> (None where it raises), the positions each broker reports (None when the query
  fails), the venue and asset class of the routing file, the session calendar, and the disk.
\<close>

record outside =
  ow_mode :: string
  ow_env :: env
  ow_cash :: pyfloat
  ow_now :: "nat \<Rightarrow> int"
  ow_iso :: "int \<Rightarrow> string"
  ow_stamp :: "string \<Rightarrow> int option"
  ow_show :: "json \<Rightarrow> string"
  ow_route :: "string option \<times> string option"
  ow_alpaca :: "nat \<Rightarrow> position list option"
  ow_ibkr :: "nat \<Rightarrow> position list option"
  ow_zones :: tzdb
  ow_ny_date :: "int \<Rightarrow> string"
  ow_disk :: "nat \<Rightarrow> write_result"

definition tick_op :: "trader \<Rightarrow> trader" where
  "tick_op s = s\<lparr>dk_ops := Suc (dk_ops s)\<rparr>"

section \<open>Prices\<close>

text \<open>To the tick grid of the contract; the price as it is when that fails.\<close>

definition round_to_tick :: "pyfloat \<Rightarrow> string \<Rightarrow> pyfloat" where
  "round_to_tick price symbol =
     (let tick = is_tick_size (get_spec symbol)
      in if flt (Fin 0) tick
         then case fdiv price tick of
                Some (Fin q) \<Rightarrow> (case fint (rne q) of Fin n \<Rightarrow> fround 8 (fmul (Fin n) tick) | _ \<Rightarrow> price)
              | _ \<Rightarrow> price
         else price)"

text \<open>A number of a JSON value used in arithmetic, without a conversion.\<close>

definition as_num :: "json \<Rightarrow> pyexc + pyfloat" where
  "as_num v = (case v of JInt n \<Rightarrow> as_float v | JFloat x \<Rightarrow> Inr x | JBool b \<Rightarrow> as_float v | _ \<Rightarrow> Inl TypeError)"

definition num_at :: "position \<Rightarrow> string \<Rightarrow> pyexc + pyfloat" where
  "num_at d k = (case dget d k of None \<Rightarrow> Inl KeyError | Some v \<Rightarrow> as_num v)"

definition json_at :: "position \<Rightarrow> string \<Rightarrow> pyexc + json" where
  "json_at d k = (case dget d k of None \<Rightarrow> Inl KeyError | Some v \<Rightarrow> Inr v)"

text \<open>What \<open>except (TypeError, ValueError)\<close> makes of a conversion.\<close>

definition or_else :: "pyexc + 'a \<Rightarrow> 'a \<Rightarrow> pyexc + 'a" where
  "or_else r d = (case r of Inl TypeError \<Rightarrow> Inr d | Inl ValueError \<Rightarrow> Inr d | _ \<Rightarrow> r)"

text \<open>The price 1.5 basis points worse for the side that trades.\<close>

definition slipped :: "bool \<Rightarrow> pyfloat \<Rightarrow> pyfloat" where
  "slipped buys p =
     (let slip = (case fdiv (fmul p (Fin (3 / 2))) (Fin 10000) of Some x \<Rightarrow> x | None \<Rightarrow> NaN)
      in fadd p (fmul (if buys then Fin 1 else Fin (- 1)) slip))"

definition point_value_of :: "string \<Rightarrow> pyfloat" where
  "point_value_of symbol = (let v = effective_point_value ''auto'' symbol in if float_truthy v then v else Fin 1)"

section \<open>The position file\<close>

definition persist_open_position :: "outside \<Rightarrow> trader \<Rightarrow> trader" where
  "persist_open_position w s =
     (case dk_open s of
        None \<Rightarrow> s
      | Some pos \<Rightarrow>
          let pos1 = dset ''symbol'' (JStr (dk_symbol s)) pos
          in case ow_disk w (dk_ops s) of
               Written \<Rightarrow> (tick_op s)\<lparr>dk_open := Some pos1, dk_file := Parsed (JObj pos1)\<rparr>
             | NotWritten \<Rightarrow> tick_op s
             | Torn \<Rightarrow> (tick_op s)\<lparr>dk_open := Some pos1\<rparr>)"

definition clear_persisted_open_position :: "outside \<Rightarrow> trader \<Rightarrow> trader" where
  "clear_persisted_open_position w s =
     (if ow_disk w (dk_ops s) = Written then (tick_op s)\<lparr>dk_file := Missing\<rparr> else tick_op s)"

text \<open>At start-up, for a bot of the fleet whose file holds an object.\<close>

definition load_persisted_open_position :: "trader \<Rightarrow> trader" where
  "load_persisted_open_position s =
     (case dk_file s of Parsed (JObj d) \<Rightarrow> s\<lparr>dk_open := Some d\<rparr> | Parsed JNull \<Rightarrow> s\<lparr>dk_open := None\<rparr> | _ \<Rightarrow> s)"

section \<open>What the broker holds\<close>

text \<open>\<open>s.replace(''USD'', '''')\<close>.\<close>

fun drop_usd :: "string \<Rightarrow> string" where
  "drop_usd [] = []"
| "drop_usd (c # cs) = (if take 3 (c # cs) = ''USD'' then drop_usd (drop 2 cs) else c # drop_usd cs)"

definition symbol_root :: "string \<Rightarrow> string" where
  "symbol_root s = drop_usd (rstrip_by is_digit (filter (\<lambda>c. c \<noteq> CHR ''/'') (upper s)))"

definition matches_symbol :: "outside \<Rightarrow> string \<Rightarrow> json \<Rightarrow> bool" where
  "matches_symbol w symbol v =
     (let p = upper (or_text (ow_show w) v []) in p = upper symbol \<or> symbol_root p = symbol_root (upper symbol))"

text \<open>\<open>abs(float(p.get(k, 0) or 0))\<close>.\<close>

definition abs_qty :: "position \<Rightarrow> string \<Rightarrow> pyexc + pyfloat" where
  "abs_qty p k = rbind (or_float (jget p k (JInt 0)) (Fin 0)) (\<lambda>x. Inr (fabs x))"

text \<open>The first entry that matches, no position when none does; None when its size cannot be read.\<close>

definition held_qty :: "(position \<Rightarrow> bool) \<Rightarrow> position list \<Rightarrow> pyfloat option" where
  "held_qty m ps =
     (case find m ps of
        None \<Rightarrow> Some (Fin 0)
      | Some p \<Rightarrow> (case abs_qty p ''position'' of Inl _ \<Rightarrow> None | Inr x \<Rightarrow> Some x))"

definition alpaca_qty :: "outside \<Rightarrow> trader \<Rightarrow> pyfloat option" where
  "alpaca_qty w s =
     (case ow_alpaca w (dk_ops s) of
        None \<Rightarrow> None
      | Some ps \<Rightarrow> held_qty (\<lambda>p. matches_symbol w (dk_symbol s) (jget p ''symbol'' JNull)) ps)"

definition ibkr_qty :: "outside \<Rightarrow> trader \<Rightarrow> pyfloat option" where
  "ibkr_qty w s =
     (let u = upper (dk_symbol s); root = (\<lambda>t. drop_usd (rstrip_by is_digit t))
      in case ow_ibkr w (dk_ops s) of
           None \<Rightarrow> None
         | Some ps \<Rightarrow>
             held_qty (\<lambda>p. let t = upper (text_of (ow_show w) (jget p ''symbol'' (JStr []))) in root t = root u \<or> t = u) ps)"

definition get_broker_position_qty :: "outside \<Rightarrow> trader \<Rightarrow> pyexc + pyfloat option" where
  "get_broker_position_qty w s =
     (if ow_mode w \<noteq> ''paper_live''
      then or_else (rbind (abs_qty (case dk_open s of None \<Rightarrow> [] | Some p \<Rightarrow> p) ''qty'') (\<lambda>x. Inr (Some x))) None
      else Inr (if fst (ow_route w) = Some ''alpaca'' \<or> snd (ow_route w) = Some ''crypto'' then alpaca_qty w s
                else case ibkr_qty w s of Some x \<Rightarrow> Some x | None \<Rightarrow> alpaca_qty w s))"

section \<open>The order file of an exit\<close>

definition tick_price_opt :: "position \<Rightarrow> string \<Rightarrow> string \<Rightarrow> pyexc + json" where
  "tick_price_opt pos k symbol =
     (let v = jget pos k JNull
      in if v = JNull then Inr JNull else rbind (as_float v) (\<lambda>x. Inr (JFloat (round_to_tick x symbol))))"

definition order_json :: "exit_fill \<Rightarrow> json \<Rightarrow> json \<Rightarrow> bool \<Rightarrow> json" where
  "order_json rec stop target reduce_only =
     JObj [(''ts'', JStr (xf_ts rec)), (''signal_id'', xf_signal rec), (''side'', JStr (xf_side rec)),
           (''qty'', JFloat (xf_qty rec)), (''symbol'', JStr (xf_symbol rec)),
           (''limit_price'', JFloat (round_to_tick (xf_price rec) (xf_symbol rec))),
           (''stop_price'', stop), (''target_price'', target), (''reduce_only'', JBool reduce_only)]"

text \<open>A conversion that raises leaves no file; a failed write leaves the old one or a torn one.\<close>

definition write_pending_order :: "outside \<Rightarrow> exit_fill \<Rightarrow> bool \<Rightarrow> trader \<Rightarrow> (pyexc + unit) \<times> trader" where
  "write_pending_order w rec reduce_only s =
     (let pos = (case dk_open s of None \<Rightarrow> [] | Some p \<Rightarrow> p)
      in case rbind (tick_price_opt pos ''bracket_stop'' (xf_symbol rec)) (\<lambda>stop.
                rbind (tick_price_opt pos ''bracket_target'' (xf_symbol rec)) (\<lambda>target. Inr (stop, target))) of
           Inl x \<Rightarrow> (Inl x, s)
         | Inr (stop, target) \<Rightarrow>
             (Inr (), (tick_op s)\<lparr>dk_order := (case ow_disk w (dk_ops s) of
                        Written \<Rightarrow> Parsed (order_json rec stop target reduce_only)
                      | Torn \<Rightarrow> Garbled | NotWritten \<Rightarrow> dk_order s)\<rparr>))"

section \<open>Closing a position\<close>

definition is_buy :: "json \<Rightarrow> bool" where
  "is_buy v = (v = JStr ''BUY'')"

text \<open>Where an exit fills: at the stop less the spread, at the target, or at the close less the spread.\<close>

definition exit_price :: "position \<Rightarrow> bool \<Rightarrow> string \<Rightarrow> pyfloat \<Rightarrow> pyexc + pyfloat" where
  "exit_price pos buys reason ref_close =
     (let at_close = slipped buys ref_close;
          stop = jget pos ''bracket_stop'' JNull; target = jget pos ''bracket_target'' JNull
      in if reason = ''paper_stop'' \<and> stop \<noteq> JNull
         then or_else (rbind (as_float stop) (\<lambda>x. Inr (slipped buys x))) at_close
         else if reason = ''paper_target'' \<and> target \<noteq> JNull then or_else (as_float target) at_close
         else Inr at_close)"

text \<open>The planned risk in dollars: recorded at entry, else from the stop, else one percent of the cash.\<close>

definition risk_of :: "position \<Rightarrow> pyfloat \<Rightarrow> pyfloat \<Rightarrow> pyfloat \<Rightarrow> pyexc + pyfloat" where
  "risk_of pos qty pv cash =
     (let initial = jget pos ''initial_risk_unit'' JNull; stop = jget pos ''bracket_stop'' JNull
      in rbind (if initial = JNull then Inr (Fin 0) else or_else (as_float initial) (Fin 0)) (\<lambda>r0.
         rbind (if \<not> fle r0 (Fin 0) \<or> stop = JNull then Inr r0
                else or_else (rbind (as_float stop) (\<lambda>x. rbind (num_at pos ''entry_price'') (\<lambda>e.
                       Inr (fmul (fmul (fabs (fsub x e)) qty) pv)))) r0) (\<lambda>r1.
         Inr (if fle r1 (Fin 0) then fmul cash (fl (1 / 100)) else r1))))"

definition tiny :: pyfloat where
  "tiny = fl (1 / 1000000000)"

definition snapshot_of :: "position \<Rightarrow> position" where
  "snapshot_of pos =
     map (\<lambda>k. (k, jget pos k JNull)) [''side'', ''entry_price'', ''qty'', ''bracket_stop'', ''bracket_target'', ''signal_id'']"

text \<open>The fill of an exit of a given size, with the exact profit that is booked.\<close>

definition exit_record ::
  "outside \<Rightarrow> position \<Rightarrow> (string \<times> json) list \<Rightarrow> pyfloat \<Rightarrow> trader \<Rightarrow> pyexc + exit_fill \<times> pyfloat" where
  "exit_record w pos bar qty s =
     rbind (json_at pos ''side'') (\<lambda>side.
       let long = is_buy side; close_side = (if long then ''SELL'' else ''BUY'');
           reason = or_text (ow_show w) (jget pos ''exit_reason'' JNull) []
       in rbind (float_at pos ''entry_price'') (\<lambda>entry.
          rbind (as_float (jget bar ''close'' (JFloat entry))) (\<lambda>ref_close.
          rbind (exit_price pos (\<not> long) reason ref_close) (\<lambda>raw_price.
          let price = round_to_tick raw_price (dk_symbol s); pv = point_value_of (dk_symbol s)
          in rbind (num_at pos ''entry_price'') (\<lambda>e.
             let pnl = fmul (fmul (fmul (fsub price e) (if long then Fin 1 else Fin (- 1))) qty) pv
             in rbind (risk_of pos qty pv (dk_cash s)) (\<lambda>risk.
                rbind (if flt (Fin 0) risk then fdivx pnl (pymax risk tiny) else Inr (Fin 0)) (\<lambda>r.
                rbind (json_at pos ''signal_id'') (\<lambda>sid.
                Inr (\<lparr>xf_bot = dk_id s, xf_signal = sid, xf_side = close_side, xf_symbol = dk_symbol s,
                      xf_qty = qty, xf_price = fround 4 price, xf_ts = ow_iso w (ow_now w (dk_ops s)),
                      xf_r = fround 4 r, xf_pnl = fround 4 pnl, xf_entry = snapshot_of pos\<rparr>, pnl)))))))))"

definition track_exit :: "exit_fill \<Rightarrow> bool \<Rightarrow> trader \<Rightarrow> trader" where
  "track_exit rec ok s =
     (case dk_book s of
        None \<Rightarrow> s
      | Some b \<Rightarrow> (case record_exit ok (normalize_root (xf_symbol rec)) (xf_side rec) (xf_qty rec) b of
                     Inl _ \<Rightarrow> s | Inr (_, b1) \<Rightarrow> s\<lparr>dk_book := Some b1\<rparr>))"

text \<open>The effects of a fill: the account, the order for the broker, the position book, the position.\<close>

definition book_exit :: "outside \<Rightarrow> exit_fill \<Rightarrow> pyfloat \<Rightarrow> trader \<Rightarrow> trader" where
  "book_exit w rec pnl s =
     (let s1 = s\<lparr>dk_pnl := fadd (dk_pnl s) pnl, dk_cash := fadd (dk_cash s) pnl, dk_exits := dk_exits s + 1\<rparr>;
          s2 = (if ow_mode w = ''paper_live'' then snd (write_pending_order w rec True s1) else s1);
          s3 = tick_op (track_exit rec (ow_disk w (dk_ops s2) = Written) s2)
      in clear_persisted_open_position w (s3\<lparr>dk_open := None\<rparr>))"

text \<open>The size to close: never more than the broker says it holds.\<close>

definition reconciled_qty :: "pyfloat \<Rightarrow> pyfloat option \<Rightarrow> pyfloat" where
  "reconciled_qty own held = (case held of None \<Rightarrow> own | Some h \<Rightarrow> if flt h own then h else own)"

definition submit_exit :: "outside \<Rightarrow> (string \<times> json) list \<Rightarrow> trader \<Rightarrow> (pyexc + exit_fill option) \<times> trader" where
  "submit_exit w bar s0 =
     (case dk_open s0 of
        None \<Rightarrow> (Inr None, s0)
      | Some pos \<Rightarrow>
          let s = tick_op s0
          in case rbind (or_else (abs_qty pos ''qty'') (Fin 0)) (\<lambda>own.
                    rbind (get_broker_position_qty w s0) (\<lambda>held. Inr (reconciled_qty own held))) of
               Inl x \<Rightarrow> (Inl x, s)
             | Inr qty \<Rightarrow>
                 if fle qty (Fin 0) then (Inr None, clear_persisted_open_position w (s\<lparr>dk_open := None\<rparr>))
                 else case exit_record w pos bar qty s of
                   Inl x \<Rightarrow> (Inl x, s)
                 | Inr (rec, pnl) \<Rightarrow> (Inr (Some rec), book_exit w rec pnl s))"

section \<open>Lemmas\<close>

lemma tick_op_simps [simp]:
  "dk_open (tick_op s) = dk_open s" "dk_id (tick_op s) = dk_id s" "dk_symbol (tick_op s) = dk_symbol s"
  "dk_order (tick_op s) = dk_order s" "dk_ops (tick_op s) = Suc (dk_ops s)" "dk_book (tick_op s) = dk_book s"
  "dk_pnl (tick_op s) = dk_pnl s" "dk_cash (tick_op s) = dk_cash s" "dk_exits (tick_op s) = dk_exits s"
  "dk_session (tick_op s) = dk_session s" "dk_closed (tick_op s) = dk_closed s" "dk_file (tick_op s) = dk_file s"
  by (simp_all add: tick_op_def)

lemma clear_open [simp]: "dk_open (clear_persisted_open_position w s) = dk_open s"
  "dk_order (clear_persisted_open_position w s) = dk_order s"
  by (simp_all add: clear_persisted_open_position_def)

lemma track_exit_simps [simp]: "dk_order (track_exit rec ok s) = dk_order s" "dk_open (track_exit rec ok s) = dk_open s"
  by (simp_all add: track_exit_def split: option.split sum.split prod.split)

lemma book_exit_open [simp]: "dk_open (book_exit w rec pnl s) = None"
  by (simp add: book_exit_def Let_def)

text \<open>A close that raises leaves the position; any other leaves none.\<close>

lemma submit_exit_cases:
  assumes "submit_exit w b s = (r, t)"
  shows "case r of Inl _ \<Rightarrow> t = tick_op s | Inr _ \<Rightarrow> dk_open t = None"
  using assms by (auto simp: submit_exit_def Let_def split: option.splits sum.splits if_splits)

text \<open>What a fill says: the other side, and the reconciled size.\<close>

lemma submit_exit_fill:
  assumes "submit_exit w b s = (Inr (Some rec), t)"
  obtains pos own held side pnl where "dk_open s = Some pos" "or_else (abs_qty pos ''qty'') (Fin 0) = Inr own"
    "get_broker_position_qty w s = Inr held" "xf_qty rec = reconciled_qty own held" "\<not> fle (xf_qty rec) (Fin 0)"
    "exit_record w pos b (xf_qty rec) (tick_op s) = Inr (rec, pnl)" "t = book_exit w rec pnl (tick_op s)"
    "dget pos ''side'' = Some side" "xf_side rec = (if is_buy side then ''SELL'' else ''BUY'')"
    "xf_symbol rec = dk_symbol s" "xf_bot rec = dk_id s"
proof -
  from assms obtain pos where pos: "dk_open s = Some pos" by (auto simp: submit_exit_def split: option.splits)
  with assms obtain own held where q: "or_else (abs_qty pos ''qty'') (Fin 0) = Inr own"
    "get_broker_position_qty w s = Inr held" "\<not> fle (reconciled_qty own held) (Fin 0)"
    and e: "case exit_record w pos b (reconciled_qty own held) (tick_op s) of
              Inl x \<Rightarrow> False | Inr (rc, pnl) \<Rightarrow> rc = rec \<and> t = book_exit w rec pnl (tick_op s)"
    by (auto simp: submit_exit_def Let_def rbind_Inl_iff split: sum.splits if_splits)
  from e obtain pnl where r: "exit_record w pos b (reconciled_qty own held) (tick_op s) = Inr (rec, pnl)"
    and t: "t = book_exit w rec pnl (tick_op s)" by (auto split: sum.splits)
  from r obtain side where "dget pos ''side'' = Some side" "xf_side rec = (if is_buy side then ''SELL'' else ''BUY'')"
    "xf_symbol rec = dk_symbol s" "xf_bot rec = dk_id s" "xf_qty rec = reconciled_qty own held"
    by (auto simp: exit_record_def json_at_def Let_def split: option.splits)
  with that pos q r t show thesis by simp
qed


lemma reconciled_bounds: "\<not> flt own (reconciled_qty own held)" "held = Some h \<Longrightarrow> \<not> flt h (reconciled_qty own held)"
  by (auto simp: reconciled_qty_def dest: flt_trans split: option.split)

lemma tick_price_opt_jopt: "tick_price_opt pos k symbol = Inr j \<Longrightarrow> \<exists>v. j = jopt JFloat v"
  by (auto simp: tick_price_opt_def jopt_def Let_def split: if_splits intro: exI [of _ None] exI [of _ "Some x" for x])

lemma order_json_parses:
  assumes "b \<noteq> []" "xf_side rec \<in> {''BUY'', ''SELL''}" "\<not> fle (xf_qty rec) (Fin 0)"
  shows "parse_pending_file sh (b @ order_suffix) (Parsed (order_json rec (jopt JFloat st) (jopt JFloat tg) True))
    = Inr \<lparr>po_ts = xf_ts rec, po_signal = text_of sh (xf_signal rec), po_side = xf_side rec, po_qty = xf_qty rec,
           po_symbol = normalize_futures_symbol (xf_symbol rec), po_limit = round_to_tick (xf_price rec) (xf_symbol rec),
           po_bot = b, po_stop = st, po_target = tg, po_reduce = True\<rparr>"
proof -
  have u: "upper (xf_side rec) = xf_side rec" using assms(2) by (auto simp: upper_def to_upper_def code_of_def)
  have "missing_field (order_json rec (jopt JFloat st) (jopt JFloat tg) True) required_fields = Inr False"
    unfolding order_json_def by (rule missing_none) (auto simp: required_fields_def)
  then show ?thesis using assms u
    by (simp add: parse_pending_file_def bot_of_file_append order_json_def parse_fields_def jget_def dget_or_def text_of_def Let_def)
qed

lemma book_exit_order:
  assumes "ow_mode w = ''paper_live''" "ow_disk w (dk_ops s) = Written" "dk_open s = Some pos"
    and "tick_price_opt pos ''bracket_stop'' (xf_symbol rec) = Inr st" "tick_price_opt pos ''bracket_target'' (xf_symbol rec) = Inr tg"
  shows "dk_order (book_exit w rec pnl s) = Parsed (order_json rec st tg True)"
  using assms by (simp add: book_exit_def write_pending_order_def Let_def)

text \<open>A position survives a restart, as it was last written.\<close>

lemma restart_keeps_position:
  assumes "dk_open s = Some pos" "ow_disk w (dk_ops s) = Written"
  shows "dk_open (load_persisted_open_position (persist_open_position w s)) = dk_open (persist_open_position w s)"
  using assms by (simp add: persist_open_position_def load_persisted_open_position_def Let_def)

section \<open>Properties\<close>

text \<open>
  C9. An exit reaches the broker as it was booked: the order file a close leaves in paper-live mode parses in the
  broker router as a reduce-only order of the opposite side for the booked size, which is neither above what
  the supervisor believes to hold nor above what the broker says it holds; and the router's bracket check
  passes it whenever its price is positive.
\<close>

theorem exit_reaches_router:
  assumes x: "submit_exit w b s = (Inr (Some rec), t)" and pos: "dk_open s = Some pos"
    and mode: "ow_mode w = ''paper_live''" "ow_disk w (Suc (dk_ops s)) = Written" and bot: "dk_id s \<noteq> []"
    and levels: "tick_price_opt pos ''bracket_stop'' (dk_symbol s) = Inr st" "tick_price_opt pos ''bracket_target'' (dk_symbol s) = Inr tg"
  shows "\<exists>r own held. parse_pending_file (ow_show w) (dk_id s @ order_suffix) (dk_order t) = Inr r
    \<and> po_reduce r \<and> po_bot r = dk_id s \<and> po_symbol r = normalize_futures_symbol (dk_symbol s)
    \<and> po_side r = (if jget pos ''side'' JNull = JStr ''BUY'' then ''SELL'' else ''BUY'')
    \<and> po_qty r = xf_qty rec \<and> or_else (abs_qty pos ''qty'') (Fin 0) = Inr own \<and> \<not> flt own (po_qty r)
    \<and> get_broker_position_qty w s = Inr held \<and> (case held of None \<Rightarrow> True | Some h \<Rightarrow> \<not> flt h (po_qty r))
    \<and> bracket_denial r = (if fle (po_limit r) (Fin 0) then Some NonPositiveExit else None)"
proof -
  obtain pos' own held side pnl where f: "dk_open s = Some pos'" "or_else (abs_qty pos' ''qty'') (Fin 0) = Inr own"
    "get_broker_position_qty w s = Inr held" "xf_qty rec = reconciled_qty own held" "\<not> fle (xf_qty rec) (Fin 0)"
    "exit_record w pos' b (xf_qty rec) (tick_op s) = Inr (rec, pnl)" "t = book_exit w rec pnl (tick_op s)"
    "dget pos' ''side'' = Some side" "xf_side rec = (if is_buy side then ''SELL'' else ''BUY'')"
    "xf_symbol rec = dk_symbol s" "xf_bot rec = dk_id s"
    by (rule submit_exit_fill [OF x])
  have p: "pos' = pos" using f(1) pos by simp
  obtain sv tv where v: "st = jopt JFloat sv" "tg = jopt JFloat tv" using levels tick_price_opt_jopt by metis
  have "dk_order t = Parsed (order_json rec st tg True)"
    unfolding f(7) using mode pos levels f(10) by (intro book_exit_order) simp_all
  moreover have side: "xf_side rec = (if jget pos ''side'' JNull = JStr ''BUY'' then ''SELL'' else ''BUY'')"
    using f(8,9) p by (simp add: is_buy_def jget_def dget_or_def)
  moreover have "xf_side rec \<in> {''BUY'', ''SELL''}" using f(9) by simp
  ultimately have parse: "parse_pending_file (ow_show w) (dk_id s @ order_suffix) (dk_order t) = Inr
    \<lparr>po_ts = xf_ts rec, po_signal = text_of (ow_show w) (xf_signal rec), po_side = xf_side rec, po_qty = xf_qty rec,
     po_symbol = normalize_futures_symbol (dk_symbol s), po_limit = round_to_tick (xf_price rec) (dk_symbol s),
     po_bot = dk_id s, po_stop = sv, po_target = tv, po_reduce = True\<rparr>" (is "_ = Inr ?r")
    using order_json_parses [OF bot _ f(5), of "ow_show w" sv tv] v f(10) by simp
  have "\<not> flt own (po_qty ?r) \<and> (case held of None \<Rightarrow> True | Some h \<Rightarrow> \<not> flt h (po_qty ?r))"
    using reconciled_bounds by (simp add: f(4) split: option.split)
  then show ?thesis using parse f(2,3) side p
    by (intro exI [of _ ?r] exI [of _ own] exI [of _ held]) (simp add: bracket_denial_def)
qed

definition demo_position :: position where
  "demo_position = [(''side'', JStr ''BUY''), (''qty'', JFloat (Fin 2)), (''entry_price'', JFloat (Fin 21000)),
     (''signal_id'', JStr ''s1''), (''bracket_stop'', JFloat (Fin 20950)), (''bracket_target'', JFloat (Fin 21100)),
     (''initial_risk_unit'', JFloat (Fin 200))]"

definition demo_desk :: trader where
  "demo_desk = \<lparr>dk_id = ''mnq'', dk_symbol = ''MNQ1'', dk_cash = Fin 5000, dk_pnl = Fin 0, dk_open = Some demo_position,
     dk_entries = 1, dk_exits = 0, dk_rejects = 0, dk_marks = (None, None, None), dk_bar_ts = JNull, dk_session = None,
     dk_loss_limit = Fin 2, dk_signal_at = [], dk_sage = [], dk_cooldown = None, dk_book = None, dk_file = Missing,
     dk_order = Missing, dk_closed = [], dk_ops = 0\<rparr>"

text \<open>The broker holds one contract, and the disk works.\<close>

definition demo_outside :: outside where
  "demo_outside = \<lparr>ow_mode = ''paper_live'', ow_env = (\<lambda>_. None), ow_cash = Fin 5000, ow_now = (\<lambda>_. 0), ow_iso = (\<lambda>_. ''now''),
     ow_stamp = (\<lambda>_. Some 0), ow_show = (\<lambda>_. []), ow_route = (Some ''ibkr'', Some ''futures''), ow_alpaca = (\<lambda>_. None),
     ow_ibkr = (\<lambda>_. Some [[(''symbol'', JStr ''MNQ''), (''position'', JFloat (Fin 1))]]), ow_zones = (\<lambda>_. None),
     ow_ny_date = (\<lambda>_. []), ow_disk = (\<lambda>_. Written)\<rparr>"

lemma fdivx_nonzero: "c \<noteq> 0 \<Longrightarrow> \<exists>y. fdivx x (Fin c) = Inr y"
  by (cases x) (simp_all add: fdivx_def)

lemma demo_held: "get_broker_position_qty demo_outside demo_desk = Inr (Some (Fin 1))"
  by code_simp

lemma demo_fields:
  "json_at demo_position ''side'' = Inr (JStr ''BUY'')" "json_at demo_position ''signal_id'' = Inr (JStr ''s1'')"
  "float_at demo_position ''entry_price'' = Inr (Fin 21000)" "num_at demo_position ''entry_price'' = Inr (Fin 21000)"
  "jget demo_position ''exit_reason'' JNull = JNull" "jget demo_position ''initial_risk_unit'' JNull = JFloat (Fin 200)"
  "as_float (jget [(''close'', JInt 21010)] ''close'' d) = Inr (Fin 21010)"
  by (simp_all add: demo_position_def json_at_def float_at_def num_at_def as_num_def jget_def dget_or_def fint_def)

lemma demo_exit: "\<exists>rec t. submit_exit demo_outside [(''close'', JInt 21010)] demo_desk = (Inr (Some rec), t) \<and> xf_qty rec = Fin 1"
proof -
  have "pymax (Fin 200) tiny = Fin 200" by code_simp
  moreover have "\<exists>r. \<forall>x. fdivx x (Fin 200) = Inr (r x)" by (intro choice) (simp add: fdivx_nonzero)
  then obtain r where "fdivx x (Fin 200) = Inr (r x)" for x by blast
  moreover have "risk_of demo_position (Fin 1) pv cash = Inr (Fin 200)" for pv cash
    by (simp add: risk_of_def demo_fields or_else_def)
  ultimately have "\<exists>rec pnl. exit_record demo_outside demo_position [(''close'', JInt 21010)] (Fin 1) s = Inr (rec, pnl) \<and> xf_qty rec = Fin 1" for s
    by (simp add: exit_record_def demo_fields or_text_def exit_price_def Let_def)
  moreover have "or_else (abs_qty demo_position ''qty'') (Fin 0) = Inr (Fin 2)" by code_simp
  moreover have "dk_open demo_desk = Some demo_position" by (simp add: demo_desk_def)
  moreover obtain rec pnl where "exit_record demo_outside demo_position [(''close'', JInt 21010)] (Fin 1) (tick_op demo_desk) = Inr (rec, pnl)"
    "xf_qty rec = Fin 1" using calculation(1) by blast
  ultimately show ?thesis by (simp add: submit_exit_def demo_held reconciled_qty_def Let_def)
qed

theorem exit_reaches_router_witness:
  "\<exists>r t. snd (submit_exit demo_outside [(''close'', JInt 21010)] demo_desk) = t \<and> po_side r = ''SELL'' \<and> po_qty r = Fin 1
     \<and> parse_pending_file (\<lambda>_. []) (''mnq'' @ order_suffix) (dk_order t) = Inr r"
proof -
  obtain rec t where x: "submit_exit demo_outside [(''close'', JInt 21010)] demo_desk = (Inr (Some rec), t)" "xf_qty rec = Fin 1"
    using demo_exit by blast
  have "tick_price_opt demo_position ''bracket_stop'' sym = Inr (JFloat (round_to_tick (Fin 20950) sym))"
    "tick_price_opt demo_position ''bracket_target'' sym = Inr (JFloat (round_to_tick (Fin 21100) sym))" for sym
    by (simp_all add: tick_price_opt_def demo_position_def jget_def dget_or_def)
  from exit_reaches_router [where pos = demo_position, OF x(1) _ _ _ _ this] x show ?thesis
    by (auto simp: demo_desk_def demo_outside_def demo_position_def jget_def dget_or_def)
qed

section \<open>Corners\<close>

text \<open>
  The position is forgotten even where the order never leaves: the write of the order file fails, or a level
  of the position is not a number, and the broker keeps what the supervisor no longer knows of.
\<close>

lemma exit_lost_with_the_write:
  assumes "ow_disk w (dk_ops s) = NotWritten"
  shows "dk_order (book_exit w rec pnl s) = dk_order s \<and> dk_open (book_exit w rec pnl s) = None"
  using assms by (simp add: book_exit_def write_pending_order_def Let_def split: sum.split)

lemma exit_lost_with_the_level:
  assumes "dk_open s = Some pos" "dget pos ''bracket_stop'' = Some (JStr ''n/a'')"
  shows "dk_order (book_exit w rec pnl s) = dk_order s \<and> dk_open (book_exit w rec pnl s) = None"
proof -
  have "parse_float ''n/a'' = None" by code_simp
  then have "tick_price_opt pos ''bracket_stop'' sym = Inl ValueError" for sym
    using assms(2) by (simp add: tick_price_opt_def jget_def dget_or_def)
  then show ?thesis using assms(1) by (simp add: book_exit_def write_pending_order_def Let_def)
qed

end
