(* ===== verification/Position_Management.thy ===== *)
theory Position_Management
  imports Position_Exit
begin

text \<open>
  The management of an open position in \<open>scripts/jarvis_strategy_supervisor.py\<close>: on every bar the
  supervisor may take a partial profit, trail the stop, tighten the stop of a position that has been open
  for long, and close the position at its stop, at its target, at the end of the session, when it is stale,
  or, where the broker holds the bracket, in an emergency.
\<close>

section \<open>Settings\<close>

definition env_flag :: "env \<Rightarrow> string \<Rightarrow> bool" where
  "env_flag e k = (case e k of None \<Rightarrow> True | Some v \<Rightarrow> lower (strip v) \<in> {''1'', ''true'', ''yes'', ''on''})"

definition env_num :: "env \<Rightarrow> string \<Rightarrow> pyfloat \<Rightarrow> pyfloat" where
  "env_num e k d = (case e k of None \<Rightarrow> d | Some s \<Rightarrow> (case parse_float s of None \<Rightarrow> d | Some x \<Rightarrow> x))"

text \<open>The limits of the watchdog: seconds until the stop is tightened and until the position is closed.\<close>

definition watchdog_tighten_after :: pyfloat where "watchdog_tighten_after = Fin 3600"
definition watchdog_max_age :: pyfloat where "watchdog_max_age = Fin 7200"
definition watchdog_tighten_factor :: pyfloat where "watchdog_tighten_factor = Fin (3 / 4)"

section \<open>Bars and ages\<close>

definition bar_float :: "bar \<Rightarrow> string \<Rightarrow> pyfloat option" where
  "bar_float b k = (case float_at b k of Inr x \<Rightarrow> Some x | Inl _ \<Rightarrow> None)"

text \<open>\<open>float(bar.get(k, bar.get(''close'')))\<close>, None for the caught exceptions.\<close>

definition bar_extreme :: "bar \<Rightarrow> string \<Rightarrow> pyexc + pyfloat option" where
  "bar_extreme b k = or_else (rbind (as_float (jget b k (jget b ''close'' JNull))) (\<lambda>x. Inr (Some x))) None"

definition set_opt :: "string \<Rightarrow> pyfloat option \<Rightarrow> position \<Rightarrow> position" where
  "set_opt k v p = (case v of None \<Rightarrow> p | Some x \<Rightarrow> dset k (JFloat x) p)"

definition record_latest_bar_mark :: "bar \<Rightarrow> trader \<Rightarrow> trader" where
  "record_latest_bar_mark b s =
     (let c = bar_float b ''close''; h = bar_float b ''high''; l = bar_float b ''low'';
          s1 = s\<lparr>dk_marks := (c, h, l)\<rparr>
      in case (dk_open s, c) of
           (Some pos, Some x) \<Rightarrow>
             s1\<lparr>dk_open := Some (set_opt ''last_bar_low'' l (set_opt ''last_bar_high'' h
                  (dset ''last_bar_ts'' (dk_bar_ts s) (dset ''last_price'' (JFloat x) (dset ''mark_price'' (JFloat x) pos)))))\<rparr>
         | _ \<Rightarrow> s1)"

text \<open>When the position was opened: the first of the time fields that is set.\<close>

definition opened_at :: "outside \<Rightarrow> position \<Rightarrow> int option" where
  "opened_at w pos =
     (let v = or_json (or_json (or_json (jget pos ''last_ack_at'' JNull) (jget pos ''opened_at'' JNull))
                (jget pos ''entry_ts'' JNull)) (jget pos ''ts'' JNull)
      in if v = JNull then None else ow_stamp w (with_offset (text_of (ow_show w) v)))"

definition age_s :: "int \<Rightarrow> int \<Rightarrow> pyfloat" where
  "age_s now opened = pymax (Fin 0) (fl (of_int (now - opened) / 1000000))"

section \<open>Actions\<close>

type_synonym 'a act = "trader \<Rightarrow> (pyexc + 'a) \<times> trader"

definition aret :: "'a \<Rightarrow> 'a act" where
  "aret a s = (Inr a, s)"

definition abind :: "'a act \<Rightarrow> ('a \<Rightarrow> 'b act) \<Rightarrow> 'b act" where
  "abind m f s = (case m s of (Inl e, t) \<Rightarrow> (Inl e, t) | (Inr a, t) \<Rightarrow> f a t)"

definition alift :: "pyexc + 'a \<Rightarrow> ('a \<Rightarrow> 'b act) \<Rightarrow> 'b act" where
  "alift r f s = (case r of Inl e \<Rightarrow> (Inl e, s) | Inr a \<Rightarrow> f a s)"

definition set_position :: "position \<Rightarrow> trader \<Rightarrow> trader" where
  "set_position pos s = s\<lparr>dk_open := Some pos\<rparr>"

section \<open>After a close\<close>

text \<open>The daily loss cap is checked again; its exceptions are suppressed.\<close>

definition enforce_loss_cap :: "outside \<Rightarrow> int \<Rightarrow> trader \<Rightarrow> trader" where
  "enforce_loss_cap w now s =
     (case dk_session s of
        None \<Rightarrow> s
      | Some ss \<Rightarrow>
          let cash = (if float_truthy (ow_cash w) then ow_cash w else dk_cash s)
          in s\<lparr>dk_session := Some (snd (enforce_daily_loss_cap (ow_ny_date w) (dk_pnl s) cash (dk_loss_limit s) (Aware now 0) ss))\<rparr>)"

definition propagate_close :: "outside \<Rightarrow> exit_fill \<Rightarrow> trader \<Rightarrow> trader" where
  "propagate_close w rec s =
     (let s1 = enforce_loss_cap w (ow_now w (dk_ops s)) (tick_op s) in s1\<lparr>dk_closed := dk_closed s1 @ [rec]\<rparr>)"

text \<open>An exit whose fill is handed on.\<close>

definition exit_and_propagate :: "outside \<Rightarrow> bar \<Rightarrow> (exit_fill option) act" where
  "exit_and_propagate w b =
     abind (submit_exit w b) (\<lambda>r s. (Inr r, case r of None \<Rightarrow> s | Some rec \<Rightarrow> propagate_close w rec s))"

section \<open>The stop\<close>

text \<open>The profit of a position in units of its planned risk.\<close>

definition compute_realized_r :: "position \<Rightarrow> pyfloat \<Rightarrow> pyexc + pyfloat option" where
  "compute_realized_r pos ref =
     (case (float_at pos ''entry_price'', as_float (jget pos ''bracket_stop'' JNull)) of
        (Inr entry, Inr stop) \<Rightarrow>
          let risk = fabs (fsub entry stop)
          in if fle risk (Fin 0) then Inr None
             else rbind (fdivx (fmul (if is_buy (jget pos ''side'' JNull) then Fin 1 else Fin (- 1)) (fsub ref entry)) risk)
                    (\<lambda>r. Inr (Some r))
      | (Inl OverflowError, _) \<Rightarrow> Inl OverflowError
      | (Inr _, Inl OverflowError) \<Rightarrow> Inl OverflowError
      | _ \<Rightarrow> Inr None)"

text \<open>The high of a long and the low of a short.\<close>

definition favorable :: "position \<Rightarrow> bar \<Rightarrow> pyexc + pyfloat option" where
  "favorable pos b =
     rbind (bar_extreme b ''high'') (\<lambda>h. case h of None \<Rightarrow> Inr None | Some hi \<Rightarrow>
     rbind (bar_extreme b ''low'') (\<lambda>l. case l of None \<Rightarrow> Inr None | Some lo \<Rightarrow>
       Inr (Some (if is_buy (jget pos ''side'' JNull) then hi else lo))))"

definition favorable_r :: "position \<Rightarrow> bar \<Rightarrow> pyexc + pyfloat option" where
  "favorable_r pos b =
     rbind (favorable pos b) (\<lambda>f. case f of None \<Rightarrow> Inr None | Some x \<Rightarrow> compute_realized_r pos x)"

definition not_better :: "bool \<Rightarrow> pyfloat \<Rightarrow> pyfloat \<Rightarrow> bool" where
  "not_better buy new_stop current = (if buy then fle new_stop current else fle current new_stop)"

definition trailed_stop :: "bool \<Rightarrow> pyfloat \<Rightarrow> pyfloat \<Rightarrow> pyfloat \<Rightarrow> pyfloat" where
  "trailed_stop buy entry excess risk = (if buy then fadd entry (fmul excess risk) else fsub entry (fmul excess risk))"

definition trail_position :: "env \<Rightarrow> bar \<Rightarrow> position \<Rightarrow> pyexc + position option" where
  "trail_position e b pos =
     (let activate = env_num e ''ETA_TRAILING_STOP_ACTIVATE_R'' (Fin 1); buy = is_buy (jget pos ''side'' JNull)
      in rbind (favorable_r pos b) (\<lambda>r. case r of None \<Rightarrow> Inr None | Some ur \<Rightarrow>
         if flt ur activate then Inr None
         else rbind (float_at pos ''entry_price'') (\<lambda>entry.
              rbind (float_at pos ''bracket_stop'') (\<lambda>stop.
              let new_stop = trailed_stop buy entry (fsub ur activate) (fabs (fsub entry stop))
              in if not_better buy new_stop stop then Inr None
                 else Inr (Some (dset ''trailing_last_r'' (JFloat (fround 4 ur)) (dset ''trailing_active'' (JBool True)
                        (dset ''bracket_stop'' (JFloat (fround 4 new_stop)) pos))))))))"

text \<open>The changed position is kept and written to its file.\<close>

definition store_position :: "outside \<Rightarrow> position option \<Rightarrow> unit act" where
  "store_position w r s =
     (case r of None \<Rightarrow> (Inr (), s) | Some p \<Rightarrow> (Inr (), persist_open_position w (set_position p s)))"

definition maybe_apply_trailing_stop :: "outside \<Rightarrow> bar \<Rightarrow> position \<Rightarrow> unit act" where
  "maybe_apply_trailing_stop w b pos =
     (if \<not> env_flag (ow_env w) ''ETA_TRAILING_STOP_ENABLED'' then aret ()
      else alift (trail_position (ow_env w) b pos) (store_position w))"

text \<open>The stop three quarters of its distance from the entry, on the tick grid.\<close>

definition tightened_stop :: "string \<Rightarrow> string \<Rightarrow> pyfloat \<Rightarrow> pyfloat \<Rightarrow> pyfloat option" where
  "tightened_stop symbol side entry stop =
     (let f = watchdog_tighten_factor
      in if side = ''BUY'' then
           (if fle entry stop then None
            else let n = round_to_tick (fsub entry (fmul (fsub entry stop) f)) symbol in if fle n stop then None else Some n)
         else if side = ''SELL'' then
           (if fle stop entry then None
            else let n = round_to_tick (fadd entry (fmul (fsub stop entry) f)) symbol in if fle stop n then None else Some n)
         else None)"

definition tighten_position :: "outside \<Rightarrow> int \<Rightarrow> string \<Rightarrow> position \<Rightarrow> pyexc + position option" where
  "tighten_position w now symbol pos =
     (if as_bool (jget pos ''broker_bracket'' JNull) \<or> as_bool (jget pos ''stale_tighten_applied_at'' JNull) then Inr None
      else case opened_at w pos of None \<Rightarrow> Inr None | Some t0 \<Rightarrow>
        let age = age_s now t0
        in if flt age watchdog_tighten_after \<or> fle watchdog_max_age age then Inr None
           else case (float_at pos ''entry_price'', float_at pos ''bracket_stop'') of
             (Inr entry, Inr stop) \<Rightarrow>
               Inr (map_option (\<lambda>n.
                 dset ''stale_tighten_factor'' (JFloat watchdog_tighten_factor)
                   (dset ''stale_tighten_prev_stop'' (jget pos ''bracket_stop'' JNull)
                     (dset ''stale_tighten_age_s'' (JFloat (fround 3 age))
                       (dset ''stale_tighten_applied_at'' (JStr (ow_iso w now))
                         (dset ''bracket_stop'' (JFloat (fround 4 n)) pos)))))
                 (tightened_stop symbol (upper (text_of (ow_show w) (jget pos ''side'' (JStr [])))) entry stop))
           | (Inl OverflowError, _) \<Rightarrow> Inl OverflowError
           | (Inr _, Inl OverflowError) \<Rightarrow> Inl OverflowError
           | _ \<Rightarrow> Inr None)"

definition maybe_tighten_stale_position :: "outside \<Rightarrow> position \<Rightarrow> unit act" where
  "maybe_tighten_stale_position w pos s =
     alift (tighten_position w (ow_now w (dk_ops s)) (dk_symbol s) pos) (store_position w) (tick_op s)"

section \<open>Partial profit\<close>

text \<open>The part to close and the rest.\<close>

definition partial_split :: "env \<Rightarrow> bar \<Rightarrow> position \<Rightarrow> pyexc + (pyfloat \<times> pyfloat) option" where
  "partial_split e b pos =
     (let trigger = env_num e ''ETA_PARTIAL_PROFIT_R'' (Fin 1); pct = env_num e ''ETA_PARTIAL_PROFIT_PCT'' (Fin (1 / 2))
      in if as_bool (jget pos ''partial_taken'' JNull) \<or> fle pct (Fin 0) \<or> fle (Fin 1) pct then Inr None
         else rbind (favorable_r pos b) (\<lambda>r. case r of None \<Rightarrow> Inr None | Some ur \<Rightarrow>
           if flt ur trigger then Inr None
           else rbind (or_else (rbind (abs_qty pos ''qty'') (\<lambda>q. Inr (Some q))) None) (\<lambda>q. case q of None \<Rightarrow> Inr None | Some full \<Rightarrow>
             let part = fmul full pct; rest = fsub full part
             in if fle full (Fin 0) \<or> fle part (Fin 0) \<or> fle rest (Fin 0) then Inr None else Inr (Some (part, rest)))))"

definition runner_of :: "position \<Rightarrow> exit_fill \<Rightarrow> pyfloat \<Rightarrow> pyfloat \<Rightarrow> position" where
  "runner_of pos rec part rest =
     ddel ''exit_reason'' (dset ''partial_realized_r'' (JFloat (xf_r rec)) (dset ''partial_fill_price'' (JFloat (xf_price rec))
       (dset ''partial_qty'' (JFloat part) (dset ''partial_taken'' (JBool True) (dset ''qty'' (JFloat rest) pos)))))"

definition maybe_take_partial_profit :: "outside \<Rightarrow> bar \<Rightarrow> position \<Rightarrow> unit act" where
  "maybe_take_partial_profit w b pos =
     (if \<not> env_flag (ow_env w) ''ETA_PARTIAL_PROFIT_ENABLED'' then aret ()
      else alift (partial_split (ow_env w) b pos) (\<lambda>r s. case r of None \<Rightarrow> (Inr (), s) | Some (part, rest) \<Rightarrow>
        let p1 = dset ''qty'' (JFloat part) (dset ''exit_reason'' (JStr ''paper_partial_profit'') pos)
        in case submit_exit w b (set_position p1 s) of
             (Inl _, t) \<Rightarrow> (Inr (), set_position (dset ''qty'' (jget pos ''qty'' JNull) p1) t)
           | (Inr None, t) \<Rightarrow> (Inr (), t)
           | (Inr (Some rec), t) \<Rightarrow>
               (Inr (), propagate_close w rec (persist_open_position w (set_position (runner_of p1 rec part rest) t)))))"

section \<open>Closing\<close>

definition stale_cooldown_s :: "env \<Rightarrow> pyfloat" where
  "stale_cooldown_s e = pymax (Fin 0) (env_num e ''ETA_STALE_FLATTEN_COOLDOWN_S'' (Fin 900))"

text \<open>The cooldown in whole microseconds, as \<open>timedelta\<close> rounds it; past the year 9999 it raises.\<close>

definition end_of_dates :: int where
  "end_of_dates = 253402300800 * 1000000"

definition record_stale_flatten_cooldown :: "outside \<Rightarrow> int \<Rightarrow> unit act" where
  "record_stale_flatten_cooldown w now s =
     (case stale_cooldown_s (ow_env w) of
        Fin c \<Rightarrow>
          let until = now + rne (c * 1000000)
          in if c \<le> 0 then (Inr (), s\<lparr>dk_cooldown := None\<rparr>)
             else if end_of_dates \<le> until then (Inl OverflowError, s)
             else (Inr (), s\<lparr>dk_cooldown := Some until\<rparr>)
      | _ \<Rightarrow> (Inl OverflowError, s))"

definition stale_flatten_cooldown_active :: "int \<Rightarrow> trader \<Rightarrow> bool \<times> trader" where
  "stale_flatten_cooldown_active now s =
     (case dk_cooldown s of
        None \<Rightarrow> (False, s)
      | Some t \<Rightarrow> if t \<le> now then (False, s\<lparr>dk_cooldown := None\<rparr>) else (True, s))"

definition maybe_force_flatten :: "outside \<Rightarrow> bar \<Rightarrow> int \<Rightarrow> bool act" where
  "maybe_force_flatten w b now s =
     (case dk_open s of
        None \<Rightarrow> (Inr False, s)
      | Some pos \<Rightarrow>
          if as_bool (jget pos ''broker_bracket'' JNull) then (Inr False, s)
          else case opened_at w pos of None \<Rightarrow> (Inr False, s) | Some t0 \<Rightarrow>
            let age = age_s now t0
            in if flt age watchdog_max_age then (Inr False, s)
               else abind (exit_and_propagate w b)
                 (\<lambda>r t. if r \<noteq> None \<or> dk_open t = None then abind (record_stale_flatten_cooldown w now) (\<lambda>_. aret True) t
                         else (Inr False, t))
                 (set_position (dset ''stale_force_flatten_age_s'' (JFloat (fround 3 age))
                    (dset ''exit_reason'' (JStr ''stale_force_flatten'') pos)) s))"

definition maybe_flatten_for_eod :: "outside \<Rightarrow> bar \<Rightarrow> int \<Rightarrow> unit act" where
  "maybe_flatten_for_eod w b now s =
     alift (should_flatten_now (ow_zones w) (dk_session s) (Aware now 0)) (\<lambda>(flatten, _) s.
       case (flatten, dk_open s) of
         (True, Some pos) \<Rightarrow>
           abind (exit_and_propagate w b)
             (\<lambda>r t. (Inr (), if r = None then t else enforce_loss_cap w now t))
             (set_position (dset ''exit_reason'' (JStr ''eod_flatten'') pos) s)
       | _ \<Rightarrow> (Inr (), s)) s"

datatype exit_reason = PaperStop | PaperTarget | FallbackStop | FallbackTarget

definition reason_text :: "exit_reason \<Rightarrow> string" where
  "reason_text r = (case r of PaperStop \<Rightarrow> ''paper_stop'' | PaperTarget \<Rightarrow> ''paper_target''
     | FallbackStop \<Rightarrow> ''fallback_stop_pct'' | FallbackTarget \<Rightarrow> ''fallback_target_pct'')"

text \<open>A level fires when the bar's range reaches it; the stop is asked first.\<close>

definition level_hit :: "bool \<Rightarrow> pyfloat \<Rightarrow> pyfloat \<Rightarrow> pyfloat \<Rightarrow> pyfloat \<Rightarrow> exit_reason option" where
  "level_hit buy high low stop target =
     (if buy then (if fle low stop then Some PaperStop else if fle target high then Some PaperTarget else None)
      else (if fle stop high then Some PaperStop else if fle low target then Some PaperTarget else None))"

definition fallback_hit :: "pyfloat \<Rightarrow> exit_reason option" where
  "fallback_hit ret =
     (if flt ret (fl (- 15 / 1000)) then Some FallbackStop
      else if flt (fl (25 / 1000)) ret then Some FallbackTarget else None)"

definition planned_exit :: "position \<Rightarrow> bar \<Rightarrow> pyfloat \<Rightarrow> bool \<Rightarrow> pyfloat \<Rightarrow> pyexc + exit_reason option" where
  "planned_exit pos b cur buy ret =
     (let extreme = (\<lambda>k. or_else (as_float (jget b k (JFloat cur))) cur);
          stop = jget pos ''bracket_stop'' JNull; target = jget pos ''bracket_target'' JNull
      in rbind (extreme ''high'') (\<lambda>high. rbind (extreme ''low'') (\<lambda>low.
         if stop = JNull \<or> target = JNull then Inr (fallback_hit ret)
         else or_else (rbind (as_float stop) (\<lambda>ps. rbind (as_float target) (\<lambda>pt. Inr (level_hit buy high low ps pt))))
                (fallback_hit ret))))"

text \<open>Where the broker holds the bracket: only a loss of twice the stop's distance, and of four percent.\<close>

definition emergency_loss :: "position \<Rightarrow> pyfloat \<Rightarrow> pyexc + pyfloat" where
  "emergency_loss pos entry =
     (let stop = jget pos ''bracket_stop'' JNull; dflt = fl (3 / 100)
      in rbind (if stop = JNull then Inr dflt
                else or_else (rbind (as_float stop) (\<lambda>x. rbind (fdivx (fsub x entry) entry) (\<lambda>d. Inr (fabs d)))) dflt)
           (\<lambda>dist. Inr (pymax (fmul (Fin 2) dist) (fl (4 / 100)))))"

definition decide_exit :: "outside \<Rightarrow> bar \<Rightarrow> position \<Rightarrow> unit act" where
  "decide_exit w b pos =
     alift (float_at b ''close'') (\<lambda>cur.
     alift (json_at pos ''entry_price'') (\<lambda>entry_json.
     alift (json_at pos ''side'') (\<lambda>side.
     alift (as_num entry_json) (\<lambda>entry.
     let buy = is_buy side
     in alift (fdivx (fmul (if buy then Fin 1 else Fin (- 1)) (fsub cur entry)) entry) (\<lambda>ret.
        if as_bool (jget pos ''broker_bracket'' JNull)
        then alift (emergency_loss pos entry) (\<lambda>limit.
               if flt ret (fneg limit) then abind (exit_and_propagate w b) (\<lambda>_. aret ()) else aret ())
        else alift (planned_exit pos b cur buy ret) (\<lambda>hit.
          case hit of
            Some r \<Rightarrow> (\<lambda>s. abind (exit_and_propagate w b) (\<lambda>_. aret ())
                          (set_position (dset ''exit_reason'' (JStr (reason_text r)) pos) s))
          | None \<Rightarrow> (\<lambda>s. abind (maybe_force_flatten w b (ow_now w (dk_ops s))) (\<lambda>_. aret ()) (tick_op s))))))))"

definition manage_position :: "outside \<Rightarrow> bar \<Rightarrow> position \<Rightarrow> unit act" where
  "manage_position w b pos =
     abind (maybe_take_partial_profit w b pos) (\<lambda>_ s.
       case dk_open s of None \<Rightarrow> (Inr (), s)
       | Some p \<Rightarrow> abind (maybe_apply_trailing_stop w b p) (\<lambda>_ t.
           case dk_open t of None \<Rightarrow> (Inr (), t) | Some q \<Rightarrow> maybe_tighten_stale_position w q t) s)"

definition maybe_exit :: "outside \<Rightarrow> bar \<Rightarrow> unit act" where
  "maybe_exit w b s =
     (case dk_open s of
        None \<Rightarrow> (Inr (), s)
      | Some pos \<Rightarrow>
          abind (if as_bool (jget pos ''broker_bracket'' JNull) then aret () else manage_position w b pos)
            (\<lambda>_ t. case dk_open t of None \<Rightarrow> (Inr (), t) | Some p \<Rightarrow> decide_exit w b p t) s)"

text \<open>
  One bar of a bot, of \<open>_tick_bot\<close>.  A bar the feed marks as not real changes nothing but the buffer
  (the check is an argument).  What a bot without a position does then, \<open>_maybe_enter\<close>, is outside the model:
  the bar ends there.
\<close>

definition tick_open :: "outside \<Rightarrow> (bar \<Rightarrow> bool) \<Rightarrow> bar \<Rightarrow> trader \<Rightarrow> (pyexc + unit) \<times> trader" where
  "tick_open w is_real b s0 =
     alift (json_at b ''ts'') (\<lambda>ts s.
       let bars = dk_sage s @ [b];
           s1 = s\<lparr>dk_bar_ts := ts, dk_sage := drop (length bars - 200) bars\<rparr>
       in if \<not> is_real b then (Inr (), s1)
          else let s2 = tick_op (record_latest_bar_mark b s1)
               in if dk_open s2 = None then (Inr (), s2)
                  else abind (maybe_flatten_for_eod w b (ow_now w (dk_ops s1))) (\<lambda>_ t.
                         if dk_open t = None then (Inr (), t) else maybe_exit w b t) s2) s0"

section \<open>Lemmas: the stop only moves in favour\<close>

text \<open>A stop as it is stored: the float of a number with four decimals.\<close>

definition on_grid :: "pyfloat \<Rightarrow> bool" where
  "on_grid x = (x = PInf \<or> x = NInf \<or> (\<exists>k. x = fl (of_int k / 10 ^ 4)))"

lemma on_grid_not_NaN [simp]: "on_grid x \<Longrightarrow> x \<noteq> NaN"
  by (auto simp: on_grid_def eq_commute [of NaN])

lemma on_grid_NaN [simp]: "\<not> on_grid NaN"
  using on_grid_not_NaN by blast

lemma on_grid_fround: "x \<noteq> NaN \<Longrightarrow> on_grid (fround 4 x)"
  by (cases x) (auto simp: on_grid_def)

text \<open>Rounding to the grid does not take a price back past a grid point it has passed.\<close>

lemma grid_up:
  assumes "on_grid s" "is_dbl n" "flt s n"
  shows "fle s (fround 4 n)"
proof (cases n)
  case (Fin a)
  show ?thesis
  proof (cases "s = NInf")
    case False
    with assms Fin obtain k where k: "s = fl (of_int k / 10 ^ 4)" by (auto simp: on_grid_def)
    have "\<not> a \<le> of_int k / 10 ^ 4"
    proof
      assume "a \<le> of_int k / 10 ^ 4"
      then have "fle (fl a) s" unfolding k by (rule fl_mono)
      then show False using assms Fin fl_id [of a] flt_not_fle by auto
    qed
    then have "of_int k \<le> a * 10 ^ 4" by (simp add: field_simps)
    then have "k \<le> rne (a * 10 ^ 4)" by (rule of_int_le_rne)
    then show ?thesis by (simp only: Fin k fround.simps) (intro fl_mono divide_right_mono; simp)
  qed (use Fin in simp)
qed (use assms in auto)

lemma grid_down:
  assumes "on_grid s" "is_dbl n" "flt n s"
  shows "fle (fround 4 n) s"
proof (cases n)
  case (Fin a)
  show ?thesis
  proof (cases "s = PInf")
    case False
    with assms Fin obtain k where k: "s = fl (of_int k / 10 ^ 4)" by (auto simp: on_grid_def)
    have "\<not> of_int k / 10 ^ 4 \<le> a"
    proof
      assume "of_int k / 10 ^ 4 \<le> a"
      then have "fle s (fl a)" unfolding k by (rule fl_mono)
      then show False using assms Fin fl_id [of a] flt_not_fle by auto
    qed
    then have "a * 10 ^ 4 \<le> of_int k" by (simp add: field_simps)
    then have "rne (a * 10 ^ 4) \<le> k" by (rule rne_le_of_int)
    then show ?thesis by (simp only: Fin k fround.simps) (intro fl_mono divide_right_mono; simp)
  qed (use Fin in simp)
qed (use assms in auto)

text \<open>Prices far from overflow.\<close>

definition sane_price :: "pyfloat \<Rightarrow> bool" where
  "sane_price x = (case x of Fin a \<Rightarrow> \<bar>a\<bar> \<le> 2 ^ 60 | _ \<Rightarrow> False)"

lemma fl_sane: "\<bar>x\<bar> \<le> 2 ^ 100 \<Longrightarrow> fl x = Fin (dround x)"
proof -
  assume x: "\<bar>x\<bar> \<le> 2 ^ 100"
  have d: "dround (2 ^ 100) = 2 ^ 100" using dround_exact [of 1 100] by simp
  have "dround x \<le> 2 ^ 100" "- (2 ^ 100) \<le> dround x"
    using dround_mono [of x "2 ^ 100"] dround_mono [of "- (2 ^ 100)" x] dround_minus [of "2 ^ 100"] d x
    by (simp_all add: abs_le_iff)
  moreover have "(2::rat) ^ 100 < dmax" unfolding dmax_def by (intro power_strict_increasing) auto
  ultimately show ?thesis by (simp add: fl_def Let_def)
qed

lemma fsub_sane: "sane_price x \<Longrightarrow> sane_price y \<Longrightarrow> \<exists>d. fsub x y = Fin d"
  by (auto simp: sane_price_def fl_sane abs_le_iff split: pyfloat.splits)

lemma tick_fin: "\<exists>t. is_tick_size (get_spec s) = Fin t"
proof -
  have "list_all (\<lambda>r. is_fin (fl (fst (snd r)))) spec_rows" by code_simp
  then have row: "dget specs k = Some i \<Longrightarrow> is_fin (is_tick_size i)" for k i
    by (force simp: specs_def list_all_iff instrument_def dest!: map_of_SomeD)
  have "fl (1 / 4) = Fin (1 / 4)" by code_simp
  then have "is_fin (is_tick_size (get_spec s))"
    using row by (auto simp: get_spec_def instrument_def Let_def split: option.splits if_splits)
  then show ?thesis by (auto elim: is_fin_E)
qed

lemma round_to_tick_not_NaN: "p \<noteq> NaN \<Longrightarrow> round_to_tick p s \<noteq> NaN"
  using tick_fin [of s] by (auto simp: round_to_tick_def Let_def split: option.split pyfloat.split)

lemma is_dbl_fround: "is_dbl x \<Longrightarrow> is_dbl (fround n x)"
  by (cases x) simp_all

lemma round_to_tick_dbl: "is_dbl p \<Longrightarrow> is_dbl (round_to_tick p s)"
  by (auto simp: round_to_tick_def Let_def is_dbl_fround simp del: fround.simps split: option.split pyfloat.split)

subsection \<open>Positions\<close>

text \<open>Fields that the updates of other fields leave alone.\<close>

lemma at_dset [simp]:
  "k \<noteq> k' \<Longrightarrow> float_at (dset k v p) k' = float_at p k'" "k \<noteq> k' \<Longrightarrow> abs_qty (dset k v p) k' = abs_qty p k'"
  "float_at (dset k v p) k = as_float v"
  "k \<noteq> k' \<Longrightarrow> jget (dset k v p) k' d = jget p k' d" "jget (dset k v p) k d = v"
  by (simp_all add: float_at_def abs_qty_def jget_def)

lemma at_ddel [simp]:
  "k \<noteq> k' \<Longrightarrow> float_at (ddel k p) k' = float_at p k'" "k \<noteq> k' \<Longrightarrow> abs_qty (ddel k p) k' = abs_qty p k'"
  "k \<noteq> k' \<Longrightarrow> jget (ddel k p) k' d = jget p k' d"
  by (simp_all add: float_at_def abs_qty_def jget_def dget_or_def)

text \<open>A position whose numbers can be trusted.\<close>

definition managed :: "position \<Rightarrow> bool" where
  "managed p =
     (jget p ''side'' JNull \<in> {JStr ''BUY'', JStr ''SELL''}
      \<and> (\<exists>x. float_at p ''bracket_stop'' = Inr x \<and> on_grid x)
      \<and> (\<exists>e. float_at p ''entry_price'' = Inr e \<and> sane_price e)
      \<and> (\<exists>q. abs_qty p ''qty'' = Inr (Fin q) \<and> is_dbl (Fin q)))"

text \<open>Same trade, a stop that is no worse, no more of it.\<close>

definition stop_kept :: "bool \<Rightarrow> pyfloat \<Rightarrow> pyfloat \<Rightarrow> bool" where
  "stop_kept buy x y = (if buy then fle x y else fle y x)"

lemma stop_kept_refl: "x \<noteq> NaN \<Longrightarrow> stop_kept buy x x"
  by (simp add: stop_kept_def)

lemma stop_kept_trans: "stop_kept buy x y \<Longrightarrow> stop_kept buy y z \<Longrightarrow> stop_kept buy x z"
  by (auto simp: stop_kept_def intro: fle_trans)

definition no_worse :: "position \<Rightarrow> position \<Rightarrow> bool" where
  "no_worse p q =
     (jget q ''side'' JNull = jget p ''side'' JNull \<and> float_at q ''entry_price'' = float_at p ''entry_price''
      \<and> (\<exists>x y. float_at p ''bracket_stop'' = Inr x \<and> float_at q ''bracket_stop'' = Inr y
            \<and> stop_kept (is_buy (jget p ''side'' JNull)) x y)
      \<and> (\<exists>a b. abs_qty p ''qty'' = Inr a \<and> abs_qty q ''qty'' = Inr b \<and> fle b a))"

lemma no_worse_refl: "managed p \<Longrightarrow> no_worse p p"
  by (auto simp: managed_def no_worse_def intro!: stop_kept_refl)

lemma no_worse_trans: "no_worse p q \<Longrightarrow> no_worse q r \<Longrightarrow> no_worse p r"
  by (auto simp: no_worse_def intro: fle_trans stop_kept_trans)

definition follows :: "trader \<Rightarrow> trader \<Rightarrow> bool" where
  "follows s t = (\<forall>q. dk_open t = Some q \<longrightarrow> (\<exists>p. dk_open s = Some p \<and> no_worse p q))"

definition desk_ok :: "trader \<Rightarrow> bool" where
  "desk_ok s = (\<forall>p. dk_open s = Some p \<longrightarrow> managed p)"

definition keeps :: "'a act \<Rightarrow> trader \<Rightarrow> bool" where
  "keeps m s = (desk_ok s \<longrightarrow> desk_ok (snd (m s)) \<and> follows s (snd (m s)))"

lemma follows_refl: "desk_ok s \<Longrightarrow> follows s s"
  by (simp add: follows_def desk_ok_def no_worse_refl)

lemma follows_trans: "follows s t \<Longrightarrow> follows t u \<Longrightarrow> follows s u"
  unfolding follows_def by (meson no_worse_trans)

lemma keeps_same: "dk_open (snd (m s)) \<in> {None, dk_open s} \<Longrightarrow> keeps m s"
  by (fastforce simp: keeps_def desk_ok_def follows_def no_worse_refl)

lemma keeps_set:
  assumes "dk_open s = Some p" "managed p \<Longrightarrow> managed q \<and> no_worse p q" "dk_open (snd (m s)) = Some q"
  shows "keeps m s"
  using assms by (auto simp: keeps_def desk_ok_def follows_def)

lemma keeps_bind:
  assumes "keeps m s" "\<And>a t. m s = (Inr a, t) \<Longrightarrow> keeps (f a) t"
  shows "keeps (abind m f) s"
proof (cases "m s")
  case (Pair r t)
  with assms show ?thesis
    by (cases r) (auto simp: keeps_def abind_def intro: follows_trans)
qed

lemma keeps_lift: "(\<And>a. r = Inr a \<Longrightarrow> keeps (f a) s) \<Longrightarrow> keeps (alift r f) s"
  by (cases r) (simp_all add: keeps_def alift_def follows_refl)

lemma keeps_ret: "keeps (aret a) s"
  by (rule keeps_same) (simp add: aret_def)

subsection \<open>The hooks\<close>

text \<open>A long stop moved up and a short stop moved down, to where the hooks store it.\<close>

lemma stored_stop:
  assumes m: "managed p" and x: "float_at p ''bracket_stop'' = Inr x" and n: "is_dbl n" "n \<noteq> NaN"
    and b: "\<not> not_better (is_buy (jget p ''side'' JNull)) n x"
  shows "managed (dset ''bracket_stop'' (JFloat (fround 4 n)) p) \<and> no_worse p (dset ''bracket_stop'' (JFloat (fround 4 n)) p)"
proof -
  have g: "on_grid x" using m x by (auto simp: managed_def)
  have "stop_kept (is_buy (jget p ''side'' JNull)) x (fround 4 n)"
    using b g n grid_up [OF g n(1)] grid_down [OF g n(1)] not_fle [of n x] not_fle [of x n]
    by (auto simp: not_better_def stop_kept_def)
  then show ?thesis using m x on_grid_fround [OF n(2)]
    by (auto simp: managed_def no_worse_def)
qed

lemma managed_dset: "k \<notin> {''side'', ''entry_price'', ''bracket_stop'', ''qty''} \<Longrightarrow> managed (dset k v p) = managed p"
  and no_worse_dset: "k \<notin> {''side'', ''entry_price'', ''bracket_stop'', ''qty''} \<Longrightarrow> no_worse p (dset k v q) = no_worse p q"
  by (simp_all add: managed_def no_worse_def)

lemma keeps_persist:
  assumes "dk_open s = Some p" "managed p \<Longrightarrow> managed q \<and> no_worse p q" "m s = (r, persist_open_position w (set_position q s))"
  shows "keeps m s"
  using assms(3)
  by (intro keeps_set [OF assms(1), of "case ow_disk w (dk_ops s) of NotWritten \<Rightarrow> q | _ \<Rightarrow> dset ''symbol'' (JStr (dk_symbol s)) q"])
    (use assms(2) in \<open>auto simp: persist_open_position_def set_position_def managed_dset no_worse_dset Let_def tick_op_def
       split: write_result.splits\<close>)

text \<open>Settings and bars with which no number of the trailing stop is undefined.\<close>

definition settings_ok :: "env \<Rightarrow> bool" where
  "settings_ok e =
     ((case env_num e ''ETA_TRAILING_STOP_ACTIVATE_R'' (Fin 1) of Fin a \<Rightarrow> 0 < a | _ \<Rightarrow> False)
      \<and> env_num e ''ETA_PARTIAL_PROFIT_PCT'' (Fin (1 / 2)) \<noteq> NaN)"

definition bar_ok :: "bar \<Rightarrow> bool" where
  "bar_ok b = list_all (\<lambda>k. case bar_extreme b k of Inr (Some x) \<Rightarrow> sane_price x | _ \<Rightarrow> True) [''high'', ''low'']"

lemma fin_not_NaN: "y \<noteq> NaN \<Longrightarrow> fadd (Fin x) y \<noteq> NaN" "y \<noteq> NaN \<Longrightarrow> fsub (Fin x) y \<noteq> NaN" "y \<noteq> NaN \<Longrightarrow> fsub y (Fin x) \<noteq> NaN"
  by (cases y; simp add: fsub_def)+

lemma trailed_not_NaN:
  assumes e: "sane_price entry" and r: "sane_price ref" and s: "stop \<noteq> NaN"
    and a: "activate = Fin a" "0 < a"
    and ur: "compute_realized_r p ref = Inr (Some ur)" "float_at p ''entry_price'' = Inr entry" "float_at p ''bracket_stop'' = Inr stop"
    and act: "\<not> flt ur activate"
  shows "trailed_stop buy entry (fsub ur activate) (fabs (fsub entry stop)) \<noteq> NaN"
proof -
  obtain x where x: "entry = Fin x" using e by (auto simp: sane_price_def split: pyfloat.splits)
  obtain d where d: "fsub ref entry = Fin d" using fsub_sane [OF r e] by blast
  have st: "as_float (jget p ''bracket_stop'' JNull) = Inr stop"
    using ur(3) by (auto simp: float_at_def jget_def dget_or_def split: option.splits)
  define risk where "risk = fabs (fsub entry stop)"
  define m where "m = fmul (if is_buy (jget p ''side'' JNull) then Fin 1 else Fin (- 1)) (Fin d)"
  have nr: "\<not> fle risk (Fin 0)" and q: "fdivx m risk = Inr ur"
    using ur st by (auto simp: compute_realized_r_def Let_def risk_def m_def d split: if_splits)
  have "is_dbl (Fin d)" "is_dbl (Fin (- d))" using is_dbl_fsub [of ref entry] is_dbl_fneg [of "Fin d"] by (simp_all add: d)
  then obtain c where c: "m = Fin c" by (cases "is_buy (jget p ''side'' JNull)") (auto simp: m_def fl_id)
  have "fsub entry stop \<noteq> NaN" using s x by (cases stop) (simp_all add: fsub_def)
  then have "risk \<noteq> NaN" by (cases "fsub entry stop") (simp_all add: risk_def)
  with nr have "risk = PInf \<or> (\<exists>k. risk = Fin k \<and> 0 < k)" by (cases risk) (simp_all add: not_le)
  then obtain k where k: "risk = Fin k" "0 < k" and u: "ur = fl (c / k)"
    using q act a by (auto simp: fdivx_def c)
  have "ur \<noteq> NaN" by (simp add: u)
  then have "fsub ur activate \<noteq> NaN" using act a by (cases ur) (simp_all add: fsub_def)
  then have "fmul (fsub ur activate) (Fin k) \<noteq> NaN"
    using k by (cases "fsub ur activate") (simp_all add: finf_def)
  then show ?thesis
    using k(1) by (simp add: trailed_stop_def x risk_def fin_not_NaN)
qed

lemma favorable_sane: "bar_ok b \<Longrightarrow> favorable p b = Inr (Some x) \<Longrightarrow> sane_price x"
  unfolding favorable_def bar_ok_def
  by (cases "bar_extreme b ''high''"; cases "bar_extreme b ''low''") (simp_all split: option.splits if_splits)

lemma trail_position_keeps:
  assumes m: "managed p" and e: "settings_ok e" and b: "bar_ok b" and r: "trail_position e b p = Inr (Some q)"
  shows "managed q \<and> no_worse p q"
proof -
  let ?buy = "is_buy (jget p ''side'' JNull)" and ?act = "env_num e ''ETA_TRAILING_STOP_ACTIVATE_R'' (Fin 1)"
  obtain a where a: "?act = Fin a" "0 < a" using e by (auto simp: settings_ok_def split: pyfloat.splits)
  obtain entry stop where es: "float_at p ''entry_price'' = Inr entry" "sane_price entry"
    "float_at p ''bracket_stop'' = Inr stop" "on_grid stop" using m by (auto simp: managed_def)
  from r obtain x ur where x: "favorable p b = Inr (Some x)" "compute_realized_r p x = Inr (Some ur)" "\<not> flt ur ?act"
    and n: "\<not> not_better ?buy (trailed_stop ?buy entry (fsub ur ?act) (fabs (fsub entry stop))) stop"
    and q: "q = dset ''trailing_last_r'' (JFloat (fround 4 ur)) (dset ''trailing_active'' (JBool True)
       (dset ''bracket_stop'' (JFloat (fround 4 (trailed_stop ?buy entry (fsub ur ?act) (fabs (fsub entry stop))))) p))"
    using es by (auto simp: trail_position_def favorable_r_def Let_def split: option.splits if_splits)
  have "trailed_stop ?buy entry (fsub ur ?act) (fabs (fsub entry stop)) \<noteq> NaN"
    using trailed_not_NaN [OF es(2) favorable_sane [OF b x(1)] _ a x(2) es(1,3) x(3)] es(4) by auto
  moreover have "is_dbl (trailed_stop ?buy entry (fsub ur ?act) (fabs (fsub entry stop)))"
    by (simp add: trailed_stop_def)
  ultimately show ?thesis
    using stored_stop [OF m es(3) _ _ n] by (simp add: q managed_dset no_worse_dset)
qed

lemma keeps_store:
  assumes "dk_open s = Some p" "\<And>q. r = Some q \<Longrightarrow> managed p \<Longrightarrow> managed q \<and> no_worse p q"
  shows "keeps (store_position w r) s"
proof (cases r)
  case (Some q)
  then show ?thesis using assms(2) by (intro keeps_persist [OF assms(1), of q _ "Inr ()" w]) (simp_all add: store_position_def)
qed (simp add: keeps_same store_position_def)

lemma keeps_trail:
  assumes "dk_open s = Some p" "settings_ok (ow_env w)" "bar_ok b"
  shows "keeps (maybe_apply_trailing_stop w b p) s"
  using assms trail_position_keeps
  by (auto simp: maybe_apply_trailing_stop_def intro!: keeps_lift keeps_store keeps_ret)

lemma tightened_stop_ok:
  assumes "sane_price entry" "on_grid stop" "tightened_stop sb side entry stop = Some n"
  shows "is_dbl n \<and> n \<noteq> NaN \<and> \<not> not_better (side = ''BUY'') n stop"
proof -
  obtain x where x: "entry = Fin x" using assms(1) by (auto simp: sane_price_def split: pyfloat.splits)
  have f: "fmul d watchdog_tighten_factor \<noteq> NaN" if "d \<noteq> NaN" for d
    using that by (cases d) (simp_all add: watchdog_tighten_factor_def finf_def)
  have "fsub entry stop \<noteq> NaN" "fsub stop entry \<noteq> NaN" using assms(2) x fin_not_NaN by auto
  then have "fsub entry (fmul (fsub entry stop) watchdog_tighten_factor) \<noteq> NaN"
    "fadd entry (fmul (fsub stop entry) watchdog_tighten_factor) \<noteq> NaN"
    using f x fin_not_NaN by auto
  then show ?thesis
    using assms(3) round_to_tick_not_NaN round_to_tick_dbl
    by (auto simp: tightened_stop_def not_better_def Let_def split: if_splits)
qed

lemma tighten_position_keeps:
  assumes m: "managed p" and r: "tighten_position w now sb p = Inr (Some q)"
  shows "managed q \<and> no_worse p q"
proof -
  obtain entry stop where es: "float_at p ''entry_price'' = Inr entry" "sane_price entry"
    "float_at p ''bracket_stop'' = Inr stop" "on_grid stop" using m by (auto simp: managed_def)
  have side: "jget p ''side'' (JStr []) = jget p ''side'' JNull"
    using m by (auto simp: managed_def jget_def dget_or_def split: option.splits)
  have up: "upper ''BUY'' = ''BUY''" "upper ''SELL'' = ''SELL''" by code_simp+
  have t: "upper (text_of (ow_show w) (jget p ''side'' (JStr []))) = (if is_buy (jget p ''side'' JNull) then ''BUY'' else ''SELL'')"
    unfolding side using m up by (auto simp: managed_def text_of_def is_buy_def)
  have "\<exists>n f v a i. tightened_stop sb (if is_buy (jget p ''side'' JNull) then ''BUY'' else ''SELL'') entry stop = Some n
      \<and> q = dset ''stale_tighten_factor'' f (dset ''stale_tighten_prev_stop'' v (dset ''stale_tighten_age_s'' a
         (dset ''stale_tighten_applied_at'' i (dset ''bracket_stop'' (JFloat (fround 4 n)) p))))"
    using r unfolding tighten_position_def es(1,3) t Let_def
    by (cases "tightened_stop sb (if is_buy (jget p ''side'' JNull) then ''BUY'' else ''SELL'') entry stop")
      (auto split: option.splits if_split_asm)
  then obtain n f v a i where n: "tightened_stop sb (if is_buy (jget p ''side'' JNull) then ''BUY'' else ''SELL'') entry stop = Some n"
    and q: "q = dset ''stale_tighten_factor'' f (dset ''stale_tighten_prev_stop'' v (dset ''stale_tighten_age_s'' a
         (dset ''stale_tighten_applied_at'' i (dset ''bracket_stop'' (JFloat (fround 4 n)) p))))"
    by blast
  from tightened_stop_ok [OF es(2,4) n] have n2: "is_dbl n" "n \<noteq> NaN" "\<not> not_better (is_buy (jget p ''side'' JNull)) n stop"
    by (auto split: if_splits)
  from stored_stop [OF m es(3) n2] show ?thesis by (simp add: q managed_dset no_worse_dset)
qed

lemma keeps_tick: "keeps m (tick_op s) \<Longrightarrow> keeps (\<lambda>s. m (tick_op s)) s"
  unfolding keeps_def desk_ok_def follows_def tick_op_simps .

lemma keeps_open: "dk_open s = Some p \<Longrightarrow> (managed p \<Longrightarrow> keeps m s) \<Longrightarrow> keeps m s"
  by (auto simp: keeps_def desk_ok_def)

lemma keeps_eq: "m s = m' s \<Longrightarrow> keeps m' s \<Longrightarrow> keeps m s"
  by (simp add: keeps_def)

lemma keeps_tighten:
  assumes o: "dk_open s = Some p"
  shows "keeps (maybe_tighten_stale_position w p) s"
proof -
  have "keeps (alift (tighten_position w (ow_now w (dk_ops s)) (dk_symbol s) p) (store_position w)) (tick_op s)"
    using o by (intro keeps_lift keeps_store) (auto dest: tighten_position_keeps)
  from keeps_tick [OF this] show ?thesis
    by (rule keeps_eq [rotated]) (simp add: maybe_tighten_stale_position_def)
qed

text \<open>A change of state, then an action.\<close>

lemma keeps_after:
  assumes "n s = m t" "desk_ok s \<Longrightarrow> desk_ok t \<and> follows s t" "keeps m t"
  shows "keeps n s"
  using assms by (auto simp: keeps_def intro: follows_trans)

lemma keeps_changed:
  assumes "dk_open s = Some p" "managed p \<Longrightarrow> managed q \<and> no_worse p q" "n s = m (set_position q s)" "keeps m (set_position q s)"
  shows "keeps n s"
  by (rule keeps_after [where n = n and s = s and m = m, OF assms(3) _ assms(4)])
    (use assms(1,2) in \<open>auto simp: desk_ok_def follows_def set_position_def\<close>)

lemma loss_cap_open [simp]: "dk_open (enforce_loss_cap w now s) = dk_open s"
  by (simp add: enforce_loss_cap_def Let_def split: option.split)

lemma propagate_open [simp]: "dk_open (propagate_close w rec s) = dk_open s"
  by (simp add: propagate_close_def Let_def)

lemma persist_open: "\<exists>v. dk_open (persist_open_position w (set_position q s)) \<in> {Some q, Some (dset ''symbol'' v q)}"
  by (auto simp: persist_open_position_def set_position_def Let_def tick_op_def split: write_result.split)

lemma keeps_stored:
  assumes "dk_open s = Some p" "managed p \<Longrightarrow> managed q \<and> no_worse p q"
    and "dk_open (snd (m s)) \<in> {Some q, Some (dset ''symbol'' v q)}"
  shows "keeps m s"
  using assms keeps_set [of s p q m] keeps_set [of s p "dset ''symbol'' v q" m] by (auto simp: managed_dset no_worse_dset)

lemma keeps_exit: "keeps (exit_and_propagate w b) s"
proof (rule keeps_same)
  obtain r t where x: "submit_exit w b s = (r, t)" by fastforce
  show "dk_open (snd (exit_and_propagate w b s)) \<in> {None, dk_open s}"
    using submit_exit_cases [OF x] by (auto simp: exit_and_propagate_def abind_def x split: sum.splits option.split)
qed

lemma abs_qty_at: "abs_qty (dset k v p) k = rbind (or_float v (Fin 0)) (\<lambda>x. Inr (fabs x))"
  by (simp add: abs_qty_def)

lemma abs_qty_restored: "abs_qty (dset k (jget p k JNull) q) k = abs_qty p k"
  by (auto simp: abs_qty_at abs_qty_def jget_def dget_or_def or_float_def split: option.split)

lemma part_of_whole:
  assumes f: "is_dbl (Fin f)" "0 < f" and p: "0 < p" "p < 1"
    and r: "rest = fsub (Fin f) (fmul (Fin f) (Fin p))" "\<not> fle rest (Fin 0)"
  shows "\<exists>c. rest = Fin c \<and> 0 < c \<and> c \<le> f \<and> is_dbl (Fin c)"
proof -
  have fl: "fl f = Fin f" using f(1) by (rule fl_id)
  have "0 \<le> f * p" "f * p \<le> f" using f(2) p by (simp_all add: mult_le_cancel_left1)
  with fl_mono [of 0 "f * p"] fl_mono [of "f * p" f] obtain g where g: "fl (f * p) = Fin g" "0 \<le> g" "g \<le> f"
    by (cases "fl (f * p)") (auto simp: fl)
  have d: "is_dbl rest" by (simp add: r(1))
  have "rest = fl (f - g)" using g(1) by (simp add: r(1))
  moreover have "fle (fl 0) (fl (f - g))" "fle (fl (f - g)) (fl f)" using g by (intro fl_mono; simp)+
  ultimately have "fle rest (Fin f)" "rest \<noteq> NaN" by (auto simp: fl)
  then obtain c where "rest = Fin c" "c \<le> f" using r(2) by (cases rest) auto
  with d r(2) show ?thesis by auto
qed

lemma keeps_open_case:
  "(\<And>p. dk_open t = Some p \<Longrightarrow> keeps (g p) t)
    \<Longrightarrow> keeps (\<lambda>s. case dk_open s of None \<Rightarrow> (Inr a, s) | Some p \<Rightarrow> g p s) t"
  by (cases "dk_open t") (auto simp: keeps_def follows_refl)

lemma keeps_if: "keeps m t \<Longrightarrow> keeps m' t \<Longrightarrow> keeps (\<lambda>t. if c t then m t else m' t) t"
  by (simp add: keeps_def)

lemma keeps_const: "keeps (\<lambda>t. (r, t)) s"
  by (rule keeps_same) simp

lemma partial_split_ok:
  assumes m: "managed p" and e: "settings_ok e" and r: "partial_split e b p = Inr (Some (part, rest))"
  shows "\<exists>f c. abs_qty p ''qty'' = Inr (Fin f) \<and> rest = Fin c \<and> 0 < c \<and> c \<le> f \<and> is_dbl (Fin c)"
proof -
  obtain f where f: "abs_qty p ''qty'' = Inr (Fin f)" "is_dbl (Fin f)" using m by (auto simp: managed_def)
  define pct where "pct = env_num e ''ETA_PARTIAL_PROFIT_PCT'' (Fin (1 / 2))"
  have r': "\<not> fle pct (Fin 0)" "\<not> fle (Fin 1) pct" "0 < f" "rest = fsub (Fin f) (fmul (Fin f) pct)" "\<not> fle rest (Fin 0)"
    using r f(1) by (auto simp: partial_split_def Let_def pct_def [symmetric] or_else_def split: option.splits if_splits)
  moreover have "pct \<noteq> NaN" using e by (simp add: settings_ok_def pct_def)
  ultimately obtain x where "pct = Fin x" "0 < x" "x < 1" by (cases pct) auto
  with part_of_whole [OF f(2) r'(3), of x rest] r' f(1) show ?thesis by simp
qed

lemma keeps_partial:
  assumes o: "dk_open s = Some p" and e: "settings_ok (ow_env w)"
  shows "keeps (maybe_take_partial_profit w b p) s"
proof (cases "maybe_take_partial_profit w b p s")
  case (Pair r u)
  define p1 where "p1 part = dset ''qty'' (JFloat part) (dset ''exit_reason'' (JStr ''paper_partial_profit'') p)" for part
  consider "u = s" | part x t where "submit_exit w b (set_position (p1 part) s) = (Inl x, t)"
      "u = set_position (dset ''qty'' (jget p ''qty'' JNull) (p1 part)) t"
    | part t where "submit_exit w b (set_position (p1 part) s) = (Inr None, t)" "u = t"
    | part rest rec t where "partial_split (ow_env w) b p = Inr (Some (part, rest))"
      "submit_exit w b (set_position (p1 part) s) = (Inr (Some rec), t)"
      "u = propagate_close w rec (persist_open_position w (set_position (runner_of (p1 part) rec part rest) t))"
    using Pair
    by (auto simp: maybe_take_partial_profit_def alift_def aret_def p1_def Let_def split: if_splits sum.splits option.splits prod.splits)
  then show ?thesis
  proof cases
    case 1
    then show ?thesis using Pair by (intro keeps_same) simp
  next
    case 2
    have "abs_qty (dset ''qty'' (jget p ''qty'' JNull) (p1 part)) ''qty'' = abs_qty p ''qty''" by (rule abs_qty_restored)
    then show ?thesis using 2 Pair
      by (intro keeps_set [OF o, of "dset ''qty'' (jget p ''qty'' JNull) (p1 part)"])
        (auto simp: managed_def no_worse_def p1_def stop_kept_refl set_position_def)
  next
    case 3
    then show ?thesis using Pair submit_exit_cases [OF 3(1)] by (intro keeps_same) simp
  next
    case 4
    obtain v where "dk_open u \<in> {Some (runner_of (p1 part) rec part rest), Some (dset ''symbol'' v (runner_of (p1 part) rec part rest))}"
      using persist_open [of w "runner_of (p1 part) rec part rest" t] 4(3) by auto
    moreover have "managed (runner_of (p1 part) rec part rest) \<and> no_worse p (runner_of (p1 part) rec part rest)" if "managed p"
      using partial_split_ok [OF that e 4(1)] that
      by (auto simp: runner_of_def p1_def managed_def no_worse_def abs_qty_at or_float_def stop_kept_refl)
    ultimately show ?thesis using Pair by (intro keeps_stored [OF o]) auto
  qed
qed

lemma keeps_cooldown: "keeps (record_stale_flatten_cooldown w now) s"
  by (rule keeps_same) (simp add: record_stale_flatten_cooldown_def Let_def split: pyfloat.split)

lemma keeps_ignore: "keeps m s \<Longrightarrow> keeps (abind m (\<lambda>_. aret ())) s"
  by (intro keeps_bind keeps_ret)

lemma keeps_force: "keeps (maybe_force_flatten w b now) s"
proof (cases "dk_open s")
  case (Some p)
  let ?m = "abind (exit_and_propagate w b)
    (\<lambda>r t. if r \<noteq> None \<or> dk_open t = None then abind (record_stale_flatten_cooldown w now) (\<lambda>_. aret True) t else (Inr False, t))"
  have m: "keeps ?m t" for t
    by (intro keeps_bind keeps_exit keeps_if keeps_cooldown keeps_ret keeps_const)
  show ?thesis
  proof (cases "as_bool (jget p ''broker_bracket'' JNull) \<or> opened_at w p = None \<or> flt (age_s now (the (opened_at w p))) watchdog_max_age")
    case True
    then show ?thesis using Some by (intro keeps_same) (auto simp: maybe_force_flatten_def Let_def split: option.split)
  next
    case False
    define q where "q = dset ''stale_force_flatten_age_s'' (JFloat (fround 3 (age_s now (the (opened_at w p)))))
      (dset ''exit_reason'' (JStr ''stale_force_flatten'') p)"
    show ?thesis
    proof (rule keeps_changed [where m = ?m and q = q, OF Some _ _ m])
      show "managed q \<and> no_worse p q" if "managed p" using that by (simp add: q_def managed_dset no_worse_dset no_worse_refl)
      show "maybe_force_flatten w b now s = ?m (set_position q s)"
        using Some False by (auto simp: maybe_force_flatten_def q_def Let_def)
    qed
  qed
qed (simp add: keeps_same maybe_force_flatten_def)

lemma keeps_eod: "keeps (maybe_flatten_for_eod w b now) s"
proof -
  have n: "keeps (\<lambda>s. case (f, dk_open s) of (True, Some pos) \<Rightarrow>
           abind (exit_and_propagate w b) (\<lambda>r t. (Inr (), if r = None then t else enforce_loss_cap w now t))
             (set_position (dset ''exit_reason'' (JStr ''eod_flatten'') pos) s) | _ \<Rightarrow> (Inr (), s)) s" (is "keeps ?n s") for f
  proof (cases "f \<and> dk_open s \<noteq> None")
    case True
    then obtain p where p: "dk_open s = Some p" by auto
    let ?m = "abind (exit_and_propagate w b) (\<lambda>r t. (Inr (), if r = None then t else enforce_loss_cap w now t))"
    have m: "keeps ?m t" for t by (intro keeps_bind keeps_exit keeps_same) simp
    show ?thesis
      by (rule keeps_changed [where n = ?n and m = ?m and s = s and q = "dset ''exit_reason'' (JStr ''eod_flatten'') p", OF p _ _ m])
        (use True p in \<open>auto simp: managed_dset no_worse_dset no_worse_refl\<close>)
  qed (auto intro!: keeps_same split: option.splits bool.splits)
  show ?thesis
  proof (cases "should_flatten_now (ow_zones w) (dk_session s) (Aware now 0)")
    case (Inl x)
    show ?thesis by (rule keeps_same) (simp add: maybe_flatten_for_eod_def Inl alift_def)
  next
    case (Inr fx)
    obtain f x where fx: "fx = (f, x)" by fastforce
    show ?thesis by (rule keeps_eq [OF _ n [of f]]) (simp only: maybe_flatten_for_eod_def Inr fx alift_def sum.case prod.case)
  qed
qed

lemma keeps_planned:
  assumes "dk_open s = Some p"
  shows "keeps (case hit of
            Some r \<Rightarrow> (\<lambda>s. abind (exit_and_propagate w b) (\<lambda>_. aret ())
                          (set_position (dset ''exit_reason'' (JStr (reason_text r)) p) s))
          | None \<Rightarrow> (\<lambda>s. abind (maybe_force_flatten w b (ow_now w (dk_ops s))) (\<lambda>_. aret ()) (tick_op s))) s"
proof (cases hit)
  case None
  have "keeps (\<lambda>s. abind (maybe_force_flatten w b (ow_now w n)) (\<lambda>_. aret ()) (tick_op s)) s" for n
    by (intro keeps_tick keeps_ignore keeps_force)
  then show ?thesis unfolding None option.case by (rule keeps_eq [rotated]) simp
next
  case (Some r)
  show ?thesis unfolding Some option.case
    by (rule keeps_changed [where m = "abind (exit_and_propagate w b) (\<lambda>_. aret ())" and s = s
          and q = "dset ''exit_reason'' (JStr (reason_text r)) p", OF assms _ _ keeps_ignore [OF keeps_exit]])
      (auto simp: managed_dset no_worse_dset no_worse_refl)
qed

lemma keeps_decide: "dk_open s = Some p \<Longrightarrow> keeps (decide_exit w b p) s"
  unfolding decide_exit_def Let_def
  by (intro keeps_lift) (auto intro!: keeps_lift keeps_ignore keeps_exit keeps_ret keeps_planned)

lemma keeps_manage:
  assumes "dk_open s = Some p" "settings_ok (ow_env w)" "bar_ok b"
  shows "keeps (manage_position w b p) s"
  unfolding manage_position_def
  using assms by (intro keeps_bind keeps_partial keeps_open_case keeps_trail keeps_tighten)

lemma keeps_maybe_exit:
  assumes "settings_ok (ow_env w)" "bar_ok b"
  shows "keeps (maybe_exit w b) s"
  unfolding maybe_exit_def
  using assms by (intro keeps_open_case keeps_bind keeps_decide) (auto intro: keeps_ret keeps_manage)

lemma record_open:
  "dk_open (record_latest_bar_mark b s) =
     (case (dk_open s, bar_float b ''close'') of
        (Some pos, Some x) \<Rightarrow> Some (set_opt ''last_bar_low'' (bar_float b ''low'') (set_opt ''last_bar_high'' (bar_float b ''high'')
          (dset ''last_bar_ts'' (dk_bar_ts s) (dset ''last_price'' (JFloat x) (dset ''mark_price'' (JFloat x) pos)))))
      | (r, _) \<Rightarrow> r)"
  by (simp add: record_latest_bar_mark_def Let_def split: option.split)

lemma mark_keeps: "desk_ok s \<Longrightarrow> desk_ok (record_latest_bar_mark b s) \<and> follows s (record_latest_bar_mark b s)"
  by (auto simp: desk_ok_def follows_def record_open set_opt_def managed_dset no_worse_dset no_worse_refl split: option.splits)

lemma keeps_tick_open:
  assumes "settings_ok (ow_env w)" "bar_ok b"
  shows "keeps (tick_open w real_bar b) s"
proof -
  define m where "m now = (\<lambda>t. if dk_open t = None then (Inr (), t)
    else abind (maybe_flatten_for_eod w b now) (\<lambda>_ t. if dk_open t = None then (Inr (), t) else maybe_exit w b t) t)" for now
  have m: "keeps (m now) t" for now t
    unfolding m_def using assms by (intro keeps_if keeps_bind keeps_const keeps_eod keeps_maybe_exit)
  define s1 where "s1 ts = s\<lparr>dk_bar_ts := ts, dk_sage := drop (length (dk_sage s @ [b]) - 200) (dk_sage s @ [b])\<rparr>" for ts
  have s1: "desk_ok s \<Longrightarrow> desk_ok (s1 ts) \<and> follows s (s1 ts)" for ts
    using follows_refl [of s] by (simp add: desk_ok_def follows_def s1_def)
  have n: "keeps (\<lambda>s. if real_bar b then m (ow_now w (dk_ops (s1 ts))) (tick_op (record_latest_bar_mark b (s1 ts))) else (Inr (), s1 ts)) s" for ts
  proof (cases "real_bar b")
    case True
    have "keeps (\<lambda>t. m now (tick_op (record_latest_bar_mark b t))) (s1 ts)" for now
      by (rule keeps_after [OF refl mark_keeps keeps_tick [OF m]])
    then show ?thesis using True s1 by (auto simp: keeps_def intro: follows_trans)
  next
    case False
    then show ?thesis using s1 by (simp add: keeps_def)
  qed
  show ?thesis
  proof (cases "json_at b ''ts''")
    case (Inl x)
    show ?thesis by (rule keeps_same) (simp add: tick_open_def Inl alift_def)
  next
    case (Inr ts)
    show ?thesis
      by (rule keeps_eq [OF _ n [of ts]]) (simp add: tick_open_def Inr alift_def s1_def m_def Let_def)
  qed
qed

section \<open>Runs\<close>

text \<open>A bar, with what is read from outside while it is handled.\<close>

definition bar_step :: "trader \<Rightarrow> outside \<times> (bar \<Rightarrow> bool) \<times> bar \<Rightarrow> trader" where
  "bar_step s e = (case e of (w, is_real, b) \<Rightarrow> snd (tick_open w is_real b s))"

definition bar_event_ok :: "outside \<times> (bar \<Rightarrow> bool) \<times> bar \<Rightarrow> bool" where
  "bar_event_ok e = (case e of (w, _, b) \<Rightarrow> settings_ok (ow_env w) \<and> bar_ok b)"

lemma bar_step_keeps: "desk_ok s \<Longrightarrow> bar_event_ok e \<Longrightarrow> desk_ok (bar_step s e) \<and> follows s (bar_step s e)"
  using keeps_tick_open by (auto simp: keeps_def bar_event_ok_def bar_step_def)

interpretation bars: ordered_machine bar_step desk_ok bar_event_ok follows
  by unfold_locales (auto simp: bar_step_keeps follows_refl intro: follows_trans)

section \<open>Properties\<close>

text \<open>
  C8. The stop ratchets: over any run of bars, whatever the clock, the disk and the broker answer, the partial
  profit, the trailing stop, the tightening, the session close and the exits leave a position that is still open
  with the side and entry it had, a stop that is no lower for a long and no higher for a short, and no more
  than the size it had.
\<close>

theorem stop_ratchets:
  assumes p: "dk_open s = Some p" "managed p" and es: "list_all bar_event_ok es" and q: "dk_open (foldl bar_step s es) = Some q"
  shows "jget q ''side'' JNull = jget p ''side'' JNull \<and> float_at q ''entry_price'' = float_at p ''entry_price''
    \<and> (\<exists>x y. float_at p ''bracket_stop'' = Inr x \<and> float_at q ''bracket_stop'' = Inr y
          \<and> (if jget p ''side'' JNull = JStr ''BUY'' then fle x y else fle y x))
    \<and> (\<exists>a c. abs_qty p ''qty'' = Inr a \<and> abs_qty q ''qty'' = Inr c \<and> fle c a)"
proof -
  have "desk_ok s" using p by (simp add: desk_ok_def)
  then have "follows s (foldl bar_step s es)" using es by (rule bars.run_le)
  then show ?thesis using p(1) q by (auto simp: follows_def no_worse_def stop_kept_def is_buy_def)
qed

text \<open>A long that has made one and a fifth of its risk: its stop moves past its entry.\<close>

definition demo_bar :: bar where
  "demo_bar = [(''ts'', JStr ''t''), (''close'', JInt 21050), (''high'', JInt 21060), (''low'', JInt 21040)]"

definition demo_paper :: outside where
  "demo_paper = demo_outside\<lparr>ow_mode := ''paper_sim'', ow_env := (\<lambda>k. if k = ''ETA_PARTIAL_PROFIT_ENABLED'' then Some ''0'' else None)\<rparr>"

lemma demo_trail:
  "(case dk_open (bar_step demo_desk (demo_paper, \<lambda>_. True, demo_bar)) of Some q \<Rightarrow> float_at q ''bracket_stop'' = Inr (Fin 21010) | None \<Rightarrow> False)"
  by code_simp

lemma demo_managed: "managed demo_position"
proof -
  have "fl (of_int 209500000 / 10 ^ 4) = Fin 20950" by code_simp
  then have "on_grid (Fin 20950)" by (auto simp: on_grid_def intro!: exI [of _ 209500000])
  moreover have "is_dbl (Fin 2) \<and> sane_price (Fin 21000) \<and> float_at demo_position ''bracket_stop'' = Inr (Fin 20950)
     \<and> float_at demo_position ''entry_price'' = Inr (Fin 21000) \<and> abs_qty demo_position ''qty'' = Inr (Fin 2)
     \<and> jget demo_position ''side'' JNull = JStr ''BUY''" by code_simp
  ultimately show ?thesis by (simp add: managed_def)
qed

lemma demo_bar_event: "bar_event_ok (demo_paper, \<lambda>_. True, demo_bar)"
  by code_simp

theorem stop_ratchets_witness:
  "\<exists>q. dk_open (foldl bar_step demo_desk [(demo_paper, \<lambda>_. True, demo_bar)]) = Some q
     \<and> float_at demo_position ''bracket_stop'' = Inr (Fin 20950) \<and> float_at q ''bracket_stop'' = Inr (Fin 21010)"
proof -
  obtain q where q: "dk_open (foldl bar_step demo_desk [(demo_paper, \<lambda>_. True, demo_bar)]) = Some q"
    "float_at q ''bracket_stop'' = Inr (Fin 21010)"
    using demo_trail by (auto split: option.splits)
  have "dk_open demo_desk = Some demo_position" "float_at demo_position ''bracket_stop'' = Inr (Fin 20950)" by code_simp+
  with stop_ratchets [OF _ demo_managed _ q(1)] demo_bar_event q show ?thesis by auto
qed

section \<open>Corners\<close>

text \<open>
  The trailing stop measures the profit in units of the distance to the stop it has moved itself.  A second bar
  with the same high moves it again, to within one tenth of the profit of the price; the description of the
  hook has it stay at one fifth of the planned risk.
\<close>

lemma trail_compounds:
  "(case trail_position (\<lambda>_. None) demo_bar demo_position of
      Inr (Some p) \<Rightarrow> float_at p ''bracket_stop'' = Inr (Fin 21010)
        \<and> (case trail_position (\<lambda>_. None) demo_bar p of Inr (Some q) \<Rightarrow> float_at q ''bracket_stop'' = Inr (Fin 21050) | _ \<Rightarrow> False)
    | _ \<Rightarrow> False)"
  by code_simp

text \<open>At the entry itself, where a profit of exactly the trigger puts it, the stop stays for good.\<close>

lemma trail_stuck_at_entry:
  assumes "float_at p ''entry_price'' = Inr (Fin x)" "as_float (jget p ''bracket_stop'' JNull) = Inr (Fin x)"
    "favorable p b = Inr f"
  shows "trail_position e b p = Inr None"
  using assms by (cases f) (simp_all add: trail_position_def favorable_r_def compute_realized_r_def)

text \<open>A partial profit fills at the close less the spread, where the comment says at the target.\<close>

lemma partial_fills_at_close: "exit_price p buys ''paper_partial_profit'' close = Inr (slipped buys close)"
  by (simp add: exit_price_def)

text \<open>A bar that reaches both levels is a loss.\<close>

lemma stop_asked_first:
  assumes "if buy then fle low stop else fle stop high"
  shows "level_hit buy high low stop target = Some PaperStop"
  using assms by (auto simp: level_hit_def)

end
