(* ===== verification/Spec2Isabelle.thy ===== *)
theory Spec2Isabelle
  imports Trailing_DD Kill_Latch Idempotency Position_Caps Fleet_Risk Order_Reconcile Breaker Promotion
    Order_Submission Consistency Execution_Lease Section_1256 Broker_Retries Venue_Router Two_Factor Session_Gate
    Funnel_Daily Funnel_Tick Position_Management
begin

text \<open>
  The guards of the ETA trading engine: the code that stands between a trading signal and an order at a
  broker, keeps the account within its limits, and moves profits.  Paths are relative to \<open>src/\<close>.

  \<^bold>\<open>How the parts work together.\<close>
  The supervisor (\<open>scripts/jarvis_strategy_supervisor.py\<close>) holds one position per bot.  For an entry it takes
  the bracket and the size from \<open>scripts/bracket_sizing.py\<close>; on every bar it manages and closes what is open
  (theories \<open>Bracket_Sizing\<close>, \<open>Position_Exit\<close>, \<open>Position_Management\<close>), within the hours and the daily loss cap
  of \<open>core/session_gate.py\<close>, \<open>scripts/supervisor_session_wiring.py\<close> and \<open>core/events_calendar.py\<close>
  (\<open>Session_Gate\<close>, \<open>Events_Calendar\<close>).  What it wants done it leaves as an order file.  The broker router
  (\<open>scripts/broker_router.py\<close>) takes these files: it parses and checks them (\<open>Pending_Order\<close>), looks up
  bot, venue and contract (\<open>Routing\<close>, over \<open>venues/cme_mapping.py\<close> and \<open>venues/router.py\<close> in \<open>Venue_Router\<close>),
  asks the governor of prop accounts (\<open>Prop_Risk\<close>: \<open>scripts/prop_risk_governor.py\<close> and
  \<open>feeds/instrument_specs.py\<close>) and the operator's hold (\<open>Order_Hold\<close>), submits along a chain of venues and files
  the result (\<open>Broker_Router\<close>); \<open>Broker_Retries\<close> counts what a run of the router may submit.  At the venue the
  order passes the gates of \<open>safety/\<close> (\<open>Order_Submission\<close>: \<open>place_order\<close> of \<open>venues/ibkr.py\<close> over the live switch
  and the daily loss of \<open>Fleet_Risk\<close>, the caps and the net-position book of \<open>Position_Caps\<close>, the dedup store of
  \<open>Idempotency\<close>, the types of \<open>Venue_Base\<close>), and \<open>Execution_Lease\<close> keeps two processes from writing at once.
  After a reconnect \<open>Order_Reconcile\<close> compares local orders with the venue's.

  Over all of this stand the account: the kill switch and its latch on disk (\<open>Kill_Switch\<close>, \<open>Kill_Latch\<close>), the
  trailing drawdown (\<open>Trailing_DD\<close>) and the consistency rule (\<open>Consistency\<close> over \<open>Calendar\<close>); the strategies: the
  circuit breaker (\<open>Breaker\<close>) and the promotion gate (\<open>Promotion\<close>) of \<open>brain/avengers/\<close>; and the money: cost basis
  and section 1256 (\<open>Cost_Basis\<close>, \<open>Section_1256\<close>), the second factor (\<open>Two_Factor\<close>), transfers
  (\<open>Fund_Transfer\<close>), the planner of sweeps (\<open>Waterfall\<close>), its daily run (\<open>Funnel_Daily\<close>), rebalancing
  (\<open>Rebalance\<close>) and the orchestrator (\<open>Funnel_Tick\<close>).

  \<^bold>\<open>How code becomes definitions.\<close>
  A class or dataclass is a record, an enum a datatype, a function a function of the same name; a method
  takes the state and returns it.  A raise is \<open>Inl\<close> of an exception (\<open>rbind\<close> in \<open>Prelude\<close>); a caught one is a
  branch.  Dictionaries are association lists in insertion order, where \<open>d[k] = v\<close> keeps the place of an old key;
  JSON values are the datatype \<open>json\<close>.  Integers are unbounded as in the language, words have their width where
  the code masks (\<open>Two_Factor\<close>), and floats are binary64 with exact rational values and one rounding per
  operation (\<open>Pyfloat\<close>), including infinities, overflow and NaN; the two zeros are one value.
  All functions are total: every loop is a recursion over a list or over a counter the code itself bounds
  (retries, attempts of a lease, venues of a chain), so no fuel is used.  The lock file of the lease is a
  step relation between processes, where a step is one system call and every failing call is a step of its own.

  \<^bold>\<open>Interfaces.\<close>
  \<open>Prelude\<close> has \<open>machine\<close>, a state with a step and an invariant, and \<open>ordered_machine\<close>, whose steps only move up
  an order; \<open>Durable\<close> has \<open>durable\<close>, a value that survives the atomic replacement of its file under every crash,
  and \<open>durable_machine\<close>, which adds restarts; \<open>Broker_Retries\<close> has \<open>metered\<close>, where an effect spends a budget.
  Each is interpreted on the model of the code that provides it: the breaker, the dedup store, the fleet cap
  and the position book, the drawdown tracker (durable and ordered), the latch, the lease, the lifecycle, the
  daily history, the calendar, the loss cap, the lots, the transfers, the router's retries, and the bars of an open
  position.  The properties about runs are facts of these interpretations.

  \<^bold>\<open>What the lemmas show.\<close>
  Orders: nothing is sent that a check refused, no more often than the retry limit, to no venue twice in one
  chain, and a key whose order may be at the broker is not sent again; a close reaches the router as it was
  booked, no larger than what the broker holds.  Positions: fleet caps hold over every run of entries; a stop
  never moves against its position; budgets are ceilings with real money.  Account: the drawdown floor
  only rises and survives a restart, a catastrophic verdict blocks the next start, a breach of the consistency rule
  is never missed, a halt lasts its session.  Money: sales agree with a reference account of the lots,
  transfers keep the rolling limit, the daily run conserves money, rebalancing does not overshoot.  Equivalences
  with a reference cover the bisection of the calendar, the lots a sale takes, the answer to a reconnect
  and the operator's hold; round trips cover files,
  secrets and restarts.  A section \<open>Corners\<close> at the end of a theory proves what the code does where
  that is not what its comments or its purpose say.

  \<^bold>\<open>Bounds.\<close>
  Statements that need exact arithmetic speak of whole amounts: below \<open>2 ^ 53\<close> sums and products of whole floats are
  exact (\<open>Whole\<close>), and up to \<open>2 ^ 45\<close> the truncated quotient is the integer quotient.  Stops are kept to
  four decimals, and comparisons of prices ask for less than \<open>2 ^ 60\<close>.  Everything else holds for all floats.

  \<^bold>\<open>Parameters.\<close>
  What is not in the repository, or is only read, is an argument: the clock and its text, the environment,
  the time zone tables, \<open>datetime.fromisoformat\<close>, the YAML parser, the text \<open>str\<close> gives for a JSON value,
  hashes and HMAC, what a broker or venue answers, what a file operation does.  In \<open>Position_Exit\<close> they are
  the functions of the record \<open>outside\<close>, read by the number of the operation, so that one run sees changing answers.

  \<^bold>\<open>Not modelled.\<close>
  Logging, rendered messages (reasons are constructors), path names, threads (one operation at a time, other processes
  as steps where the code shares a file), text outside ASCII, times below a microsecond.  Of the supervisor the
  entry path, the consultation of JARVIS and the loops are left out, of \<open>_propagate_close\<close> all but the loss cap.
  Three simplifications of time: an entry is gated and recorded with one quantity in one step
  (\<open>gated_entry\<close>), where the supervisor gates on an estimate and submits later; the manager of transfers
  checks, asks its executor and books in one step (\<open>manager_execute\<close>), with no other task in between (a corner of
  \<open>Fund_Transfer\<close> shows what two such tasks can do); and the lock file
  has one clock for wall and monotonic time.  Times of the events calendar are microseconds of one time zone, so
  an overflow at the ends of the date range and a mix of naive and aware times have no counterpart.
  The wire protocols of the venues, the strategies, the language-model layer, feeds, dashboards and
  reports have no model: they are signals, transport or display, and enter only through the parameters above.
\<close>

end
